(* ===== verification/Prelude.thy ===== *)
theory Prelude
  imports Main "HOL-Library.Word"
begin

text \<open>
  Shared vocabulary of the development: the machine types of the firmware, the
  error numbers its functions return, little-endian byte buffers, and the generic
  lemmas on words and lists that the component theories share.

  A C buffer is a \<open>u8 list\<close>; a pointer argument that may be NULL is an \<open>option\<close>.
  A function that returns a negative errno returns \<open>Inl\<close> of the error, and \<open>Inr\<close>
  of what it computes otherwise. The collections are \<open>byte_simps\<close> (reading back
  what a builder wrote) and \<open>no_overread\<close> (a reader looks at bytes below its
  length only).
\<close>

unbundle bit_operations_syntax

named_theorems byte_simps \<open>reading bytes and fields back from a written buffer\<close>
named_theorems no_overread \<open>buffers that agree up to the length are read alike\<close>

section \<open>Machine types and errors\<close>

type_synonym u8 = "8 word"
type_synonym u16 = "16 word"
type_synonym u32 = "32 word"
type_synonym u64 = "64 word"

text \<open>A C \<open>float\<close> as its 32-bit IEEE pattern; a C \<open>double\<close> likewise.\<close>

type_synonym f32 = "32 word"
type_synonym f64 = "64 word"

datatype errno = EINVAL | EMSGSIZE | EBADMSG | ENOENT | EADDRINUSE | ENOSPC
  | ENODATA | EDOM | EBUSY | EPERM | ERANGE | EIO | ETIMEDOUT | ENOTSUP

section \<open>Words\<close>

lemma bytes_of_u16 [byte_simps]:
  "(ucast (ucast v :: u8) :: u16) OR push_bit 8 (ucast (ucast (drop_bit 8 v) :: u8)) = (v :: u16)"
  by (rule bit_word_eqI) (auto simp: bit_simps)

lemma bytes_of_u32 [byte_simps]:
  "(ucast (ucast v :: u8) :: u32)
     OR push_bit 8 (ucast (ucast (drop_bit 8 v) :: u8))
     OR push_bit 16 (ucast (ucast (drop_bit 16 v) :: u8))
     OR push_bit 24 (ucast (ucast (drop_bit 24 v) :: u8)) = (v :: u32)"
proof (rule bit_word_eqI)
  fix n
  assume "n < LENGTH(32)"
  then show "bit ((ucast (ucast v :: u8) :: u32)
     OR push_bit 8 (ucast (ucast (drop_bit 8 v) :: u8))
     OR push_bit 16 (ucast (ucast (drop_bit 16 v) :: u8))
     OR push_bit 24 (ucast (ucast (drop_bit 24 v) :: u8))) n = bit v n"
    by (cases "n < 16"; cases "n < 24") (auto simp: bit_simps)
qed

lemma xor_cancel:
  fixes x y b :: "'a::len word"
  shows "x XOR b = y XOR b \<longleftrightarrow> x = y" and "b XOR x = b XOR y \<longleftrightarrow> x = y"
proof -
  have c: "(x XOR b) XOR b = x" "(y XOR b) XOR b = y"
    by (simp_all add: xor.assoc)
  show "x XOR b = y XOR b \<longleftrightarrow> x = y"
    using c by metis
  then show "b XOR x = b XOR y \<longleftrightarrow> x = y"
    by (simp add: xor.commute [of b])
qed

lemma ucast_u8_inj: "(ucast (b :: u8) :: u32) = ucast c \<longleftrightarrow> b = c"
  by (simp add: word_unat_eq_iff unsigned_ucast_eq take_bit_nat_eq_self
      order.strict_trans [OF unsigned_less])

lemma unat_of_nat_u8 [simp]: "k < 256 \<Longrightarrow> unat (of_nat k :: u8) = k"
  by (simp add: unat_of_nat)

lemma of_nat_u8_eq_0 [simp]: "k < 256 \<Longrightarrow> (of_nat k :: u8) = 0 \<longleftrightarrow> k = 0"
  by (simp flip: unat_eq_0 add: unat_of_nat)

section \<open>Signed differences on wrapping clocks\<close>

text \<open>The values the differences take are far inside the signed range.\<close>

lemma sint_exact:
  assumes "- (2 ^ 31) \<le> d" and "d < 2 ^ 31"
  shows "sint (word_of_int d :: u32) = d"
  using assms by (simp add: signed_of_int signed_take_bit_int_eq_self)

lemma sint_range32: "- (2 ^ 31) \<le> sint (w :: u32) \<and> sint w < 2 ^ 31"
  using sint_ge [of w] sint_lt [of w] by simp

lemma sint_diff_exact:
  fixes a b :: u32
  assumes "- (2 ^ 31) \<le> sint a + k" and "sint a + k < 2 ^ 31"
    and "b = a + word_of_int k"
  shows "sint b = sint a + k"
proof -
  have "b = word_of_int (sint a + k)"
    using assms(3) by (simp add: scast_id)
  then show ?thesis
    using sint_exact [OF assms(1,2)] by simp
qed

section \<open>Lists as buffers\<close>

lemma take_eq_nth [no_overread]:
  assumes "take n xs = take n ys" and "i < n"
  shows "xs ! i = ys ! i"
  using assms by (metis nth_take)

lemma list_update_take:
  "i \<ge> n \<Longrightarrow> take n (xs[i := v]) = take n xs"
  by simp

lemma drop_list_update [byte_simps]:
  "i < n \<Longrightarrow> drop n (xs[i := v]) = drop n xs"
  by simp

section \<open>Searching by index\<close>

text \<open>The loop \<open>for (i = 0; i < n; i++) if (P(xs[i])) return i;\<close>.\<close>

fun first_index :: "('a \<Rightarrow> bool) \<Rightarrow> 'a list \<Rightarrow> nat option" where
  "first_index P [] = None"
| "first_index P (x # xs) = (if P x then Some 0 else map_option Suc (first_index P xs))"

lemma first_index_None [simp]: "first_index P xs = None \<longleftrightarrow> (\<forall>x\<in>set xs. \<not> P x)"
  by (induction xs) auto

lemma first_index_SomeD:
  "first_index P xs = Some i \<Longrightarrow> i < length xs \<and> P (xs ! i) \<and> (\<forall>j<i. \<not> P (xs ! j))"
  by (induction xs arbitrary: i) (auto split: if_splits simp: less_Suc_eq_0_disj)

lemma first_index_SomeI:
  "i < length xs \<Longrightarrow> P (xs ! i) \<Longrightarrow> (\<And>j. j < i \<Longrightarrow> \<not> P (xs ! j)) \<Longrightarrow>
     first_index P xs = Some i"
proof (induction xs arbitrary: i)
  case (Cons x xs)
  show ?case
  proof (cases i)
    case (Suc k)
    have "\<not> P x" using Cons.prems(3) [of 0] Suc by simp
    moreover have "first_index P xs = Some k"
      using Cons.prems(1,2) Cons.prems(3) [of "Suc j" for j] Suc by (intro Cons.IH) auto
    ultimately show ?thesis using Suc by simp
  qed (use Cons.prems in simp)
qed simp

text \<open>Where at most one element satisfies the test, its index is the one found.\<close>

lemma first_index_unique:
  assumes "i < length xs" and "P (xs ! i)"
    and "\<And>j. j < length xs \<Longrightarrow> P (xs ! j) \<Longrightarrow> j = i"
  shows "first_index P xs = Some i"
proof (rule first_index_SomeI)
  show "\<not> P (xs ! j)" if "j < i" for j
    using assms(1,3) that by (metis order.strict_trans less_irrefl)
qed (fact assms)+

lemma option_eqI: "(\<And>v. x = Some v \<longleftrightarrow> y = Some v) \<Longrightarrow> x = y"
  by (metis not_Some_eq)

end
