(* ===== verification/ByteFields.thy ===== *)
theory ByteFields
  imports Prelude
begin

text \<open>
  Little-endian fields in byte buffers: the static helpers \<open>put_u16\<close>, \<open>put_u32\<close>,
  \<open>get_u16\<close>, \<open>get_u32\<close>, \<open>put_f32\<close>, \<open>get_f32\<close> that open
  src/uwb_frame_802_15_4z.c and that src/apos_frame.c repeats line for line. A
  pointer \<open>&buf[o]\<close> is the pair of the buffer and the offset \<open>o\<close>.
\<close>

definition put_u8 :: "u8 list \<Rightarrow> nat \<Rightarrow> u8 \<Rightarrow> u8 list" where
  "put_u8 p o' v = p[o' := v]"

definition put_u16 :: "u8 list \<Rightarrow> nat \<Rightarrow> u16 \<Rightarrow> u8 list" where
  "put_u16 p o' v = p[o' := ucast v, o' + 1 := ucast (drop_bit 8 v)]"

definition put_u32 :: "u8 list \<Rightarrow> nat \<Rightarrow> u32 \<Rightarrow> u8 list" where
  "put_u32 p o' v =
     p[o' := ucast v, o' + 1 := ucast (drop_bit 8 v),
       o' + 2 := ucast (drop_bit 16 v), o' + 3 := ucast (drop_bit 24 v)]"

definition get_u16 :: "u8 list \<Rightarrow> nat \<Rightarrow> u16" where
  "get_u16 p o' = ucast (p ! o') OR push_bit 8 (ucast (p ! (o' + 1)))"

definition get_u32 :: "u8 list \<Rightarrow> nat \<Rightarrow> u32" where
  "get_u32 p o' =
     ucast (p ! o') OR push_bit 8 (ucast (p ! (o' + 1)))
       OR push_bit 16 (ucast (p ! (o' + 2))) OR push_bit 24 (ucast (p ! (o' + 3)))"

text \<open>\<open>memcpy\<close> between a \<open>float\<close> and a \<open>uint32_t\<close>: the bit pattern itself.\<close>

definition put_f32 :: "u8 list \<Rightarrow> nat \<Rightarrow> f32 \<Rightarrow> u8 list" where
  "put_f32 p o' v = put_u32 p o' v"

definition get_f32 :: "u8 list \<Rightarrow> nat \<Rightarrow> f32" where
  "get_f32 p o' = get_u32 p o'"

text \<open>\<open>memcpy(&buf[o], src, n)\<close> of the \<open>n\<close> bytes of \<open>src\<close>.\<close>

fun put_bytes :: "u8 list \<Rightarrow> nat \<Rightarrow> u8 list \<Rightarrow> u8 list" where
  "put_bytes p o' [] = p"
| "put_bytes p o' (v # vs) = put_bytes (p[o' := v]) (o' + 1) vs"

definition get_bytes :: "u8 list \<Rightarrow> nat \<Rightarrow> nat \<Rightarrow> u8 list" where
  "get_bytes p o' n = map (\<lambda>i. p ! (o' + i)) [0..<n]"

section \<open>Lengths\<close>

lemma length_put [simp]:
  "length (put_u8 p o' a) = length p"
  "length (put_u16 p o' b) = length p"
  "length (put_u32 p o' c) = length p"
  "length (put_f32 p o' c) = length p"
  by (simp_all add: put_u8_def put_u16_def put_u32_def put_f32_def)

lemma put_Nil_iff [simp]:
  "put_u8 p o' a = [] \<longleftrightarrow> p = []"
  "put_u16 p o' b = [] \<longleftrightarrow> p = []"
  "put_u32 p o' c = [] \<longleftrightarrow> p = []"
  "put_f32 p o' c = [] \<longleftrightarrow> p = []"
  by (simp_all add: put_u8_def put_u16_def put_u32_def put_f32_def)

lemma length_put_bytes [simp]: "length (put_bytes p o' vs) = length p"
  by (induction p o' vs rule: put_bytes.induct) simp_all

lemma length_get_bytes [simp]: "length (get_bytes p o' n) = n"
  by (simp add: get_bytes_def)

section \<open>Reading one byte back\<close>

lemma put_u8_nth [byte_simps]:
  "o' < length p \<Longrightarrow> put_u8 p o' v ! o' = v"
  by (simp add: put_u8_def)

lemma put_u8_nth_other [byte_simps]:
  "i \<noteq> o' \<Longrightarrow> put_u8 p o' v ! i = p ! i"
  by (simp add: put_u8_def)

lemma put_u16_nth_other [byte_simps]:
  "i < o' \<or> o' + 2 \<le> i \<Longrightarrow> put_u16 p o' v ! i = p ! i"
  by (auto simp: put_u16_def)

lemma put_u32_nth_other [byte_simps]:
  "i < o' \<or> o' + 4 \<le> i \<Longrightarrow> put_u32 p o' v ! i = p ! i"
  by (auto simp: put_u32_def)

lemma put_f32_nth_other [byte_simps]:
  "i < o' \<or> o' + 4 \<le> i \<Longrightarrow> put_f32 p o' v ! i = p ! i"
  by (simp add: put_f32_def put_u32_nth_other)

lemma put_bytes_nth:
  "o' + length vs \<le> length p \<Longrightarrow>
     put_bytes p o' vs ! i = (if o' \<le> i \<and> i < o' + length vs then vs ! (i - o') else p ! i)"
proof (induction p o' vs rule: put_bytes.induct)
  case (1 p o')
  then show ?case by auto
next
  case (2 p o' v vs)
  consider "i < o'" | "i = o'" | k where "i = o' + Suc k"
    by (metis add_Suc_right less_imp_Suc_add linorder_neqE_nat)
  then show ?case
    using 2 by cases (auto simp: nth_list_update)
qed

lemma put_bytes_nth_other [byte_simps]:
  "i < o' \<or> o' + length vs \<le> i \<Longrightarrow> put_bytes p o' vs ! i = p ! i"
  by (induction p o' vs rule: put_bytes.induct) auto

section \<open>Reading fields back\<close>

lemma get_put_u16 [byte_simps]:
  "o' + 1 < length p \<Longrightarrow> get_u16 (put_u16 p o' v) o' = v"
  by (simp add: get_u16_def put_u16_def byte_simps)

lemma get_put_u32 [byte_simps]:
  "o' + 3 < length p \<Longrightarrow> get_u32 (put_u32 p o' v) o' = v"
  by (simp add: get_u32_def put_u32_def byte_simps)

lemma get_put_f32 [byte_simps]:
  "o' + 3 < length p \<Longrightarrow> get_f32 (put_f32 p o' v) o' = v"
  by (simp add: get_f32_def put_f32_def byte_simps)

lemma get_put_bytes [byte_simps]:
  "o' + length vs \<le> length p \<Longrightarrow> n = length vs \<Longrightarrow>
     get_bytes (put_bytes p o' vs) o' n = vs"
  by (rule nth_equalityI) (auto simp: get_bytes_def put_bytes_nth)

text \<open>A field is not touched by a write to other offsets.\<close>

lemma get_u16_other [byte_simps]:
  "r < o' \<or> r > o' + 1 \<Longrightarrow> get_u16 (p[r := v]) o' = get_u16 p o'"
  "r + 1 < o' \<or> r > o' + 1 \<Longrightarrow> get_u16 (put_u16 p r w) o' = get_u16 p o'"
  "r + 3 < o' \<or> r > o' + 1 \<Longrightarrow> get_u16 (put_u32 p r z) o' = get_u16 p o'"
  "r + 3 < o' \<or> r > o' + 1 \<Longrightarrow> get_u16 (put_f32 p r z) o' = get_u16 p o'"
  "r < o' \<or> r > o' + 1 \<Longrightarrow> get_u16 (put_u8 p r v) o' = get_u16 p o'"
  "r + length vs \<le> o' \<or> r > o' + 1 \<Longrightarrow> get_u16 (put_bytes p r vs) o' = get_u16 p o'"
  by (auto simp: get_u16_def put_u8_def put_u16_def put_u32_def put_f32_def
      put_bytes_nth_other)

lemma get_u32_other [byte_simps]:
  "r < o' \<or> r > o' + 3 \<Longrightarrow> get_u32 (p[r := v]) o' = get_u32 p o'"
  "r + 1 < o' \<or> r > o' + 3 \<Longrightarrow> get_u32 (put_u16 p r w) o' = get_u32 p o'"
  "r + 3 < o' \<or> r > o' + 3 \<Longrightarrow> get_u32 (put_u32 p r z) o' = get_u32 p o'"
  "r + 3 < o' \<or> r > o' + 3 \<Longrightarrow> get_u32 (put_f32 p r z) o' = get_u32 p o'"
  "r < o' \<or> r > o' + 3 \<Longrightarrow> get_u32 (put_u8 p r v) o' = get_u32 p o'"
  "r + length vs \<le> o' \<or> r > o' + 3 \<Longrightarrow> get_u32 (put_bytes p r vs) o' = get_u32 p o'"
  by (auto simp: get_u32_def put_u8_def put_u16_def put_u32_def put_f32_def
      put_bytes_nth_other)

lemma get_f32_other [byte_simps]:
  "r < o' \<or> r > o' + 3 \<Longrightarrow> get_f32 (p[r := v]) o' = get_f32 p o'"
  "r + 1 < o' \<or> r > o' + 3 \<Longrightarrow> get_f32 (put_u16 p r w) o' = get_f32 p o'"
  "r + 3 < o' \<or> r > o' + 3 \<Longrightarrow> get_f32 (put_u32 p r z) o' = get_f32 p o'"
  "r + 3 < o' \<or> r > o' + 3 \<Longrightarrow> get_f32 (put_f32 p r z) o' = get_f32 p o'"
  "r < o' \<or> r > o' + 3 \<Longrightarrow> get_f32 (put_u8 p r v) o' = get_f32 p o'"
  "r + length vs \<le> o' \<or> r > o' + 3 \<Longrightarrow> get_f32 (put_bytes p r vs) o' = get_f32 p o'"
  by (simp_all add: get_f32_def byte_simps)

lemma get_bytes_other [byte_simps]:
  "r < o' \<or> r \<ge> o' + n \<Longrightarrow> get_bytes (p[r := v]) o' n = get_bytes p o' n"
  "r + 1 < o' \<or> r \<ge> o' + n \<Longrightarrow> get_bytes (put_u16 p r w) o' n = get_bytes p o' n"
  "r + 3 < o' \<or> r \<ge> o' + n \<Longrightarrow> get_bytes (put_u32 p r z) o' n = get_bytes p o' n"
  "r + 3 < o' \<or> r \<ge> o' + n \<Longrightarrow> get_bytes (put_f32 p r z) o' n = get_bytes p o' n"
  "r < o' \<or> r \<ge> o' + n \<Longrightarrow> get_bytes (put_u8 p r v) o' n = get_bytes p o' n"
  by (auto simp: get_bytes_def put_u8_def put_u16_def put_u32_def put_f32_def)

section \<open>Writes stay inside the field\<close>

lemma drop_put [byte_simps]:
  "o' < n \<Longrightarrow> drop n (put_u8 p o' v) = drop n p"
  "o' + 1 < n \<Longrightarrow> drop n (put_u16 p o' w) = drop n p"
  "o' + 3 < n \<Longrightarrow> drop n (put_u32 p o' z) = drop n p"
  "o' + 3 < n \<Longrightarrow> drop n (put_f32 p o' z) = drop n p"
  by (simp_all add: put_u8_def put_u16_def put_u32_def put_f32_def)

lemma drop_put_bytes [byte_simps]:
  "o' + length vs \<le> n \<Longrightarrow> drop n (put_bytes p o' vs) = drop n p"
  by (induction p o' vs rule: put_bytes.induct) auto

section \<open>Reads stay below the length\<close>

lemma get_fields_agree [no_overread]:
  assumes "take n p = take n q"
  shows "o' + 1 < n \<Longrightarrow> get_u16 p o' = get_u16 q o'"
    and "o' + 3 < n \<Longrightarrow> get_u32 p o' = get_u32 q o'"
    and "o' + 3 < n \<Longrightarrow> get_f32 p o' = get_f32 q o'"
    and "o' + k \<le> n \<Longrightarrow> get_bytes p o' k = get_bytes q o' k"
  using take_eq_nth [OF assms]
  by (auto simp: get_u16_def get_u32_def get_f32_def get_bytes_def)

end
