(* ===== verification/FrameCodec.thy ===== *)
theory FrameCodec
  imports ByteFields
begin

text \<open>
  The contract every frame type of the two codecs keeps, as a locale: what a builder
  promises about the buffer it was given and what the matching parser makes of the
  bytes on the air. Both codecs interpret it once per frame type. \<open>build m buf cap\<close> is
  the builder on the message \<open>m\<close>, \<open>flen m\<close> the frame's length, \<open>view m\<close> the fields the
  parser reports (some fields are sent and never parsed) and \<open>ok m\<close> the builder's own
  preconditions.
\<close>

locale frame_codec =
  fixes build :: "'m \<Rightarrow> u8 list option \<Rightarrow> nat \<Rightarrow> (errno + nat) \<times> u8 list option"
    and parse :: "u8 list option \<Rightarrow> nat \<Rightarrow> errno + 'r"
    and flen :: "'m \<Rightarrow> nat"
    and view :: "'m \<Rightarrow> 'r"
    and ok :: "'m \<Rightarrow> bool"
  assumes build_null: "ok m \<Longrightarrow> build m None cap = (Inl EINVAL, None)"
    and build_small: "ok m \<Longrightarrow> cap < flen m \<Longrightarrow> build m (Some b) cap = (Inl EMSGSIZE, Some b)"
    and build_fits: "ok m \<Longrightarrow> flen m \<le> cap \<Longrightarrow> cap \<le> length b \<Longrightarrow>
      \<exists>f. build m (Some b) cap = (Inr (flen m), Some f) \<and> length f = length b \<and>
          drop (flen m) f = drop (flen m) b \<and> parse (Some f) (flen m) = Inr (view m)"
    and parse_null: "\<exists>e. parse None n = Inl e"
    and parse_agree: "take n b = take n c \<Longrightarrow> parse (Some b) n = parse (Some c) n"
    and parse_seq: "3 \<le> length b \<Longrightarrow> parse (Some (put_u8 b 2 s)) n = parse (Some b) n"
    and flen_hdr: "ok m \<Longrightarrow> 10 \<le> flen m"
begin

lemma build_iff:
  assumes "ok m" and "cap \<le> length b"
  shows "(\<exists>n f. build m (Some b) cap = (Inr n, Some f)) \<longleftrightarrow> flen m \<le> cap"
proof (cases "flen m \<le> cap")
  case True
  with assms show ?thesis by (metis build_fits)
next
  case False
  with assms show ?thesis by (simp add: build_small)
qed

lemma build_result:
  assumes "ok m" and "cap \<le> length b" and "build m (Some b) cap = (Inr n, Some f)"
  shows "n = flen m" and "n \<le> cap" and "length f = length b" and "drop n f = drop n b"
    and "parse (Some f) n = Inr (view m)"
proof -
  have fits: "flen m \<le> cap"
    using assms build_iff by blast
  from build_fits [OF assms(1) fits assms(2)] obtain g where
    "build m (Some b) cap = (Inr (flen m), Some g)" "length g = length b"
    "drop (flen m) g = drop (flen m) b" "parse (Some g) (flen m) = Inr (view m)"
    by blast
  with assms(3) fits show "n = flen m" "n \<le> cap" "length f = length b"
    "drop n f = drop n b" "parse (Some f) n = Inr (view m)"
    by simp_all
qed

text \<open>
  What arrives: the receiver reads the \<open>n\<close> payload bytes into its own buffer, whose
  tail holds the FCS and stale bytes, after the sender has set the sequence number.
\<close>

lemma received:
  assumes "ok m" and "cap \<le> length b" and "build m (Some b) cap = (Inr n, Some f)"
  shows "parse (Some (take n (put_u8 f 2 s) @ junk)) n = Inr (view m)"
proof -
  note r = build_result [OF assms]
  have n: "10 \<le> n" "n \<le> length f"
    using r(1,2,3) assms(1,2) flen_hdr [of m] by simp_all
  then have "take n (take n (put_u8 f 2 s) @ junk) = take n (put_u8 f 2 s)"
    by simp
  then have "parse (Some (take n (put_u8 f 2 s) @ junk)) n = parse (Some (put_u8 f 2 s)) n"
    by (rule parse_agree)
  also have "\<dots> = parse (Some f) n"
    using n by (intro parse_seq) simp
  finally show ?thesis
    using r(5) by simp
qed

text \<open>Two messages with the same bytes on the air report the same fields.\<close>

lemma wire_injective:
  assumes "ok m" and "cap \<le> length b" and "build m (Some b) cap = (Inr n, Some f)"
    and "ok m'" and "cap' \<le> length b'" and "build m' (Some b') cap' = (Inr n, Some f')"
    and "take n f = take n f'"
  shows "view m = view m'"
proof -
  have "parse (Some f) n = parse (Some f') n"
    using assms(7) by (rule parse_agree)
  then show ?thesis
    using build_result(5) [OF assms(1-3)] build_result(5) [OF assms(4-6)] by simp
qed

end

end
