(* ===== verification/UwbFrame.thy ===== *)
theory UwbFrame
  imports FrameCodec
begin

text \<open>
  The 802.15.4z frame codec shared with the tag, src/uwb_frame_802_15_4z.c and .h:
  builders, parsers and validators of the nine frame types, in the file's order.

  A builder gets the output buffer (\<open>None\<close> for NULL) and its capacity and returns the
  errno or the number of bytes written, with the buffer as it is left, because some
  builders fail after having written the header. A parser that takes out pointers
  returns the values; \<open>outs\<close> says that none of the pointers the code tests is NULL,
  and an optional out pointer that is NULL only discards its value. Lengths are
  payload lengths without the FCS.
\<close>

section \<open>Constants of the header file\<close>

abbreviation (input) UWB_FRAME_TYPE_DISC :: u8 where "UWB_FRAME_TYPE_DISC \<equiv> 0xE2"
abbreviation (input) UWB_FRAME_TYPE_MPOL :: u8 where "UWB_FRAME_TYPE_MPOL \<equiv> 0xE3"
abbreviation (input) UWB_FRAME_TYPE_RESP :: u8 where "UWB_FRAME_TYPE_RESP \<equiv> 0xE4"
abbreviation (input) UWB_FRAME_TYPE_BEACON :: u8 where "UWB_FRAME_TYPE_BEACON \<equiv> 0xE5"
abbreviation (input) UWB_FRAME_TYPE_JOIN :: u8 where "UWB_FRAME_TYPE_JOIN \<equiv> 0xE6"
abbreviation (input) UWB_FRAME_TYPE_GRANT :: u8 where "UWB_FRAME_TYPE_GRANT \<equiv> 0xE7"
abbreviation (input) UWB_FRAME_TYPE_KEEPALIVE :: u8 where "UWB_FRAME_TYPE_KEEPALIVE \<equiv> 0xE8"
abbreviation (input) UWB_FRAME_TYPE_RELEASE :: u8 where "UWB_FRAME_TYPE_RELEASE \<equiv> 0xE9"
abbreviation (input) UWB_FRAME_TYPE_POS :: u8 where "UWB_FRAME_TYPE_POS \<equiv> 0xEA"

abbreviation (input) UWB_ADDR_GATEWAY :: u16 where "UWB_ADDR_GATEWAY \<equiv> 0x0000"
abbreviation (input) UWB_ADDR_UNASSOC :: u16 where "UWB_ADDR_UNASSOC \<equiv> 0xFFFE"
abbreviation (input) UWB_FRAME_ADDR_BCAST :: u16 where "UWB_FRAME_ADDR_BCAST \<equiv> 0xFFFF"
abbreviation (input) UWB_PROTO_VER :: u8 where "UWB_PROTO_VER \<equiv> 2"
abbreviation (input) UWB_FRAME_N_CFP :: nat where "UWB_FRAME_N_CFP \<equiv> 11"
abbreviation (input) UWB_FRAME_MAX_ANCHORS :: nat where "UWB_FRAME_MAX_ANCHORS \<equiv> 4"

abbreviation (input) UWB_FRAME_HDR_LEN :: nat where "UWB_FRAME_HDR_LEN \<equiv> 10"
abbreviation (input) UWB_FRAME_LEN_DISC :: nat where "UWB_FRAME_LEN_DISC \<equiv> 14"
abbreviation (input) UWB_FRAME_LEN_RESP :: nat where "UWB_FRAME_LEN_RESP \<equiv> 20"
abbreviation (input) UWB_FRAME_MAX_LEN :: nat where "UWB_FRAME_MAX_LEN \<equiv> 37"
abbreviation (input) UWB_FRAME_LEN_JOIN :: nat where "UWB_FRAME_LEN_JOIN \<equiv> 19"
abbreviation (input) UWB_FRAME_LEN_GRANT :: nat where "UWB_FRAME_LEN_GRANT \<equiv> 24"
abbreviation (input) UWB_FRAME_LEN_KEEPALIVE :: nat where "UWB_FRAME_LEN_KEEPALIVE \<equiv> 12"
abbreviation (input) UWB_FRAME_LEN_RELEASE :: nat where "UWB_FRAME_LEN_RELEASE \<equiv> 10"
abbreviation (input) UWB_FRAME_EUI_LEN :: nat where "UWB_FRAME_EUI_LEN \<equiv> 8"
abbreviation (input) UWB_FRAME_POS_SOC_UNKNOWN :: u8 where "UWB_FRAME_POS_SOC_UNKNOWN \<equiv> 0xFF"
abbreviation (input) UWB_FRAME_LEN_POS :: nat where "UWB_FRAME_LEN_POS \<equiv> 24"

record uwb_anchor_slot =
  slot_addr :: u16
  slot_delay_us :: u16

type_synonym build_result = "(errno + nat) \<times> u8 list option"

section \<open>The common header\<close>

definition write_hdr :: "u8 list option \<Rightarrow> nat \<Rightarrow> nat \<Rightarrow> u16 \<Rightarrow> u16 \<Rightarrow> u8 \<Rightarrow> errno + u8 list" where
  "write_hdr buf buf_len need dest src ty =
     (case buf of
        None \<Rightarrow> Inl EINVAL
      | Some b \<Rightarrow>
          if buf_len < need then Inl EMSGSIZE
          else
            let b = put_u8 b 0 0x41;
                b = put_u8 b 1 0x88;
                b = put_u8 b 2 0;
                b = put_u8 b 3 0xCA;
                b = put_u8 b 4 0xDE;
                b = put_u16 b 5 dest;
                b = put_u16 b 7 src
            in Inr (put_u8 b 9 ty))"

section \<open>Builders\<close>

definition uwb_frame_discovery_build :: "u8 list option \<Rightarrow> nat \<Rightarrow> u16 \<Rightarrow> u32 \<Rightarrow> build_result" where
  "uwb_frame_discovery_build buf buf_len src_addr tx_ts =
     (case write_hdr buf buf_len UWB_FRAME_LEN_DISC UWB_FRAME_ADDR_BCAST src_addr
             UWB_FRAME_TYPE_DISC of
        Inl rc \<Rightarrow> (Inl rc, buf)
      | Inr b \<Rightarrow> (Inr UWB_FRAME_LEN_DISC, Some (put_u32 b 10 tx_ts)))"

text \<open>The slot loop of the multi-poll builder, writing from offset \<open>o'\<close>; it ends at the
  offset after the last slot.\<close>

fun put_slots :: "u8 list \<Rightarrow> nat \<Rightarrow> uwb_anchor_slot list \<Rightarrow> u8 list" where
  "put_slots b o' [] = b"
| "put_slots b o' (s # ss) =
     put_slots (put_u16 (put_u16 b o' (slot_addr s)) (o' + 2) (slot_delay_us s)) (o' + 4) ss"

definition uwb_frame_multipoll_build ::
  "u8 list option \<Rightarrow> nat \<Rightarrow> u16 \<Rightarrow> uwb_anchor_slot list option \<Rightarrow> u8 \<Rightarrow> u32 \<Rightarrow> build_result" where
  "uwb_frame_multipoll_build buf buf_len src_addr slots num_slots tx_ts =
     (case (buf, slots) of
        (Some _, Some ss) \<Rightarrow>
          if num_slots = 0 \<or> unat num_slots > UWB_FRAME_MAX_ANCHORS then (Inl EINVAL, buf)
          else
            let n = unat num_slots; need = 15 + 4 * n in
            (case write_hdr buf buf_len need UWB_FRAME_ADDR_BCAST src_addr
                    UWB_FRAME_TYPE_MPOL of
               Inl rc \<Rightarrow> (Inl rc, buf)
             | Inr b \<Rightarrow>
                 let b = put_u8 b 10 num_slots;
                     b = put_slots b 11 (take n ss)
                 in (Inr need, Some (put_u32 b (11 + 4 * n) tx_ts)))
      | _ \<Rightarrow> (Inl EINVAL, buf))"

definition uwb_frame_response_build ::
  "u8 list option \<Rightarrow> nat \<Rightarrow> u16 \<Rightarrow> u16 \<Rightarrow> u32 \<Rightarrow> u32 \<Rightarrow> u16 \<Rightarrow> build_result" where
  "uwb_frame_response_build buf buf_len src_addr dest_addr tx_ts cir_power cir_quality =
     (case write_hdr buf buf_len UWB_FRAME_LEN_RESP dest_addr src_addr UWB_FRAME_TYPE_RESP of
        Inl rc \<Rightarrow> (Inl rc, buf)
      | Inr b \<Rightarrow>
          let b = put_u32 b 10 tx_ts;
              b = put_u32 b 14 cir_power
          in (Inr UWB_FRAME_LEN_RESP, Some (put_u16 b 18 cir_quality)))"

section \<open>Validators\<close>

definition uwb_frame_is_valid :: "u8 list option \<Rightarrow> nat \<Rightarrow> bool" where
  "uwb_frame_is_valid buf len =
     (case buf of
        None \<Rightarrow> False
      | Some b \<Rightarrow>
          if len < UWB_FRAME_HDR_LEN \<or> len > UWB_FRAME_MAX_LEN then False
          else if b ! 0 \<noteq> 0x41 \<or> b ! 1 \<noteq> 0x88 then False
          else if b ! 3 \<noteq> 0xCA \<or> b ! 4 \<noteq> 0xDE then False
          else True)"

definition uwb_frame_is_discovery :: "u8 list option \<Rightarrow> nat \<Rightarrow> bool" where
  "uwb_frame_is_discovery buf len =
     (uwb_frame_is_valid buf len \<and> the buf ! 9 = UWB_FRAME_TYPE_DISC \<and>
      len \<ge> UWB_FRAME_LEN_DISC)"

definition uwb_frame_is_multipoll :: "u8 list option \<Rightarrow> nat \<Rightarrow> bool" where
  "uwb_frame_is_multipoll buf len =
     (if \<not> uwb_frame_is_valid buf len then False
      else if the buf ! 9 \<noteq> UWB_FRAME_TYPE_MPOL then False
      else if len < 11 + 1 then False
      else
        let n = unat (the buf ! 10) in
        if n = 0 \<or> n > UWB_FRAME_MAX_ANCHORS then False
        else len \<ge> 15 + 4 * n)"

definition uwb_frame_is_response :: "u8 list option \<Rightarrow> nat \<Rightarrow> bool" where
  "uwb_frame_is_response buf len =
     (uwb_frame_is_valid buf len \<and> the buf ! 9 = UWB_FRAME_TYPE_RESP \<and>
      len \<ge> UWB_FRAME_LEN_RESP)"

section \<open>Parsers of the ranging frames\<close>

definition uwb_frame_parse_discovery_response ::
  "u8 list option \<Rightarrow> nat \<Rightarrow> bool \<Rightarrow> errno + (u16 \<times> u32 \<times> u16)" where
  "uwb_frame_parse_discovery_response buf len outs =
     (case buf of
        None \<Rightarrow> Inl EINVAL
      | Some b \<Rightarrow>
          if \<not> outs then Inl EINVAL
          else if \<not> uwb_frame_is_response buf len then Inl EBADMSG
          else Inr (get_u16 b 7, get_u32 b 14, get_u16 b 18))"

definition get_slot :: "u8 list \<Rightarrow> nat \<Rightarrow> uwb_anchor_slot" where
  "get_slot b o' = \<lparr>slot_addr = get_u16 b o', slot_delay_us = get_u16 b (o' + 2)\<rparr>"

definition uwb_frame_parse_multipoll ::
  "u8 list option \<Rightarrow> nat \<Rightarrow> bool \<Rightarrow> errno + (uwb_anchor_slot list \<times> u8 \<times> u32)" where
  "uwb_frame_parse_multipoll buf len outs =
     (case buf of
        None \<Rightarrow> Inl EINVAL
      | Some b \<Rightarrow>
          if \<not> outs then Inl EINVAL
          else if \<not> uwb_frame_is_multipoll buf len then Inl EBADMSG
          else
            let n = unat (b ! 10) in
            Inr (map (\<lambda>i. get_slot b (11 + 4 * i)) [0..<n], b ! 10, get_u32 b (11 + 4 * n)))"

section \<open>Utilities\<close>

definition uwb_frame_get_src_addr :: "u8 list \<Rightarrow> u16" where
  "uwb_frame_get_src_addr b = get_u16 b 7"

definition uwb_frame_get_dest_addr :: "u8 list \<Rightarrow> u16" where
  "uwb_frame_get_dest_addr b = get_u16 b 5"

definition uwb_frame_get_seq_num :: "u8 list \<Rightarrow> u8" where
  "uwb_frame_get_seq_num b = b ! 2"

definition uwb_frame_set_seq_num :: "u8 list \<Rightarrow> u8 \<Rightarrow> u8 list" where
  "uwb_frame_set_seq_num b sq = put_u8 b 2 sq"

section \<open>BEACON\<close>

fun put_slot_map :: "u8 list \<Rightarrow> nat \<Rightarrow> u16 list \<Rightarrow> u8 list" where
  "put_slot_map b o' [] = b"
| "put_slot_map b o' (a # as) = put_slot_map (put_u16 b o' a) (o' + 2) as"

definition uwb_frame_beacon_build ::
  "u8 list option \<Rightarrow> nat \<Rightarrow> u32 \<Rightarrow> u16 list option \<Rightarrow> u8 \<Rightarrow> build_result" where
  "uwb_frame_beacon_build buf buf_len frame_counter slot_map n_slots =
     (case slot_map of
        None \<Rightarrow> (Inl EINVAL, buf)
      | Some sm \<Rightarrow>
          let n = unat n_slots; need = 15 + 2 * n in
          (case write_hdr buf buf_len need UWB_FRAME_ADDR_BCAST UWB_ADDR_GATEWAY
                  UWB_FRAME_TYPE_BEACON of
             Inl rc \<Rightarrow> (Inl rc, buf)
           | Inr b \<Rightarrow>
               let b = put_u8 b 10 UWB_PROTO_VER;
                   b = put_u32 b 11 frame_counter
               in (Inr need, Some (put_slot_map b 15 (take n sm)))))"

definition uwb_frame_is_beacon :: "u8 list option \<Rightarrow> nat \<Rightarrow> bool" where
  "uwb_frame_is_beacon buf len =
     (len \<ge> 15 \<and> uwb_frame_is_valid buf len \<and> the buf ! 9 = UWB_FRAME_TYPE_BEACON)"

text \<open>The slot count is computed in \<open>size_t\<close> and cut to \<open>uint8_t\<close>.\<close>

definition uwb_frame_parse_beacon ::
  "u8 list option \<Rightarrow> nat \<Rightarrow> errno + (u8 \<times> u32 \<times> u16 list \<times> u8)" where
  "uwb_frame_parse_beacon buf len =
     (if \<not> uwb_frame_is_beacon buf len then Inl EINVAL
      else if (len - 15) mod 2 \<noteq> 0 then Inl EINVAL
      else
        let b = the buf; ns = (of_nat ((len - 15) div 2) :: u8) in
        Inr (b ! 10, get_u32 b 11,
             map (\<lambda>i. get_u16 b (15 + 2 * i)) [0..<unat ns], ns))"

text \<open>The scan of \<open>uwb_frame_beacon_find_addr\<close> from index \<open>i\<close>; -1 is \<open>None\<close>.\<close>

fun find_slot :: "u16 list \<Rightarrow> nat \<Rightarrow> u16 \<Rightarrow> nat option" where
  "find_slot [] i addr = None"
| "find_slot (a # as) i addr = (if a = addr then Some i else find_slot as (i + 1) addr)"

definition uwb_frame_beacon_find_addr :: "u16 list option \<Rightarrow> u8 \<Rightarrow> u16 \<Rightarrow> nat option" where
  "uwb_frame_beacon_find_addr slot_map n_slots addr =
     (case slot_map of
        None \<Rightarrow> None
      | Some sm \<Rightarrow> find_slot (take (unat n_slots) sm) 0 addr)"

section \<open>JOIN and GRANT\<close>

definition uwb_frame_join_build ::
  "u8 list option \<Rightarrow> nat \<Rightarrow> u8 list option \<Rightarrow> u8 \<Rightarrow> build_result" where
  "uwb_frame_join_build buf buf_len eui req_tier =
     (case write_hdr buf buf_len UWB_FRAME_LEN_JOIN UWB_ADDR_GATEWAY UWB_ADDR_UNASSOC
             UWB_FRAME_TYPE_JOIN of
        Inl rc \<Rightarrow> (Inl rc, buf)
      | Inr b \<Rightarrow>
          (case eui of
             None \<Rightarrow> (Inl EINVAL, Some b)
           | Some e \<Rightarrow>
               (Inr UWB_FRAME_LEN_JOIN,
                Some (put_u8 (put_bytes b 10 (take UWB_FRAME_EUI_LEN e)) 18 req_tier))))"

definition uwb_frame_is_join :: "u8 list option \<Rightarrow> nat \<Rightarrow> bool" where
  "uwb_frame_is_join buf len =
     (len = UWB_FRAME_LEN_JOIN \<and> uwb_frame_is_valid buf len \<and>
      the buf ! 9 = UWB_FRAME_TYPE_JOIN)"

definition uwb_frame_parse_join :: "u8 list option \<Rightarrow> nat \<Rightarrow> errno + (u8 list \<times> u8)" where
  "uwb_frame_parse_join buf len =
     (if \<not> uwb_frame_is_join buf len then Inl EINVAL
      else Inr (get_bytes (the buf) 10 UWB_FRAME_EUI_LEN, the buf ! 18))"

definition uwb_frame_grant_build ::
  "u8 list option \<Rightarrow> nat \<Rightarrow> u8 list option \<Rightarrow> u16 \<Rightarrow> u8 \<Rightarrow> u8 \<Rightarrow> u16 \<Rightarrow> build_result" where
  "uwb_frame_grant_build buf buf_len eui short_addr slot_index rate_tier lease =
     (case write_hdr buf buf_len UWB_FRAME_LEN_GRANT UWB_FRAME_ADDR_BCAST UWB_ADDR_GATEWAY
             UWB_FRAME_TYPE_GRANT of
        Inl rc \<Rightarrow> (Inl rc, buf)
      | Inr b \<Rightarrow>
          (case eui of
             None \<Rightarrow> (Inl EINVAL, Some b)
           | Some e \<Rightarrow>
               let b = put_bytes b 10 (take UWB_FRAME_EUI_LEN e);
                   b = put_u16 b 18 short_addr;
                   b = put_u8 b 20 slot_index;
                   b = put_u8 b 21 rate_tier
               in (Inr UWB_FRAME_LEN_GRANT, Some (put_u16 b 22 lease))))"

definition uwb_frame_is_grant :: "u8 list option \<Rightarrow> nat \<Rightarrow> bool" where
  "uwb_frame_is_grant buf len =
     (len = UWB_FRAME_LEN_GRANT \<and> uwb_frame_is_valid buf len \<and>
      the buf ! 9 = UWB_FRAME_TYPE_GRANT)"

definition uwb_frame_parse_grant ::
  "u8 list option \<Rightarrow> nat \<Rightarrow> errno + (u8 list \<times> u16 \<times> u8 \<times> u8 \<times> u16)" where
  "uwb_frame_parse_grant buf len =
     (if \<not> uwb_frame_is_grant buf len then Inl EINVAL
      else
        let b = the buf in
        Inr (get_bytes b 10 UWB_FRAME_EUI_LEN, get_u16 b 18, b ! 20, b ! 21, get_u16 b 22))"

section \<open>KEEPALIVE and RELEASE\<close>

definition uwb_frame_keepalive_build ::
  "u8 list option \<Rightarrow> nat \<Rightarrow> u16 \<Rightarrow> u8 \<Rightarrow> u8 \<Rightarrow> build_result" where
  "uwb_frame_keepalive_build buf buf_len src_addr req_tier slot_index =
     (case write_hdr buf buf_len UWB_FRAME_LEN_KEEPALIVE UWB_ADDR_GATEWAY src_addr
             UWB_FRAME_TYPE_KEEPALIVE of
        Inl rc \<Rightarrow> (Inl rc, buf)
      | Inr b \<Rightarrow>
          (Inr UWB_FRAME_LEN_KEEPALIVE, Some (put_u8 (put_u8 b 10 req_tier) 11 slot_index)))"

definition uwb_frame_is_keepalive :: "u8 list option \<Rightarrow> nat \<Rightarrow> bool" where
  "uwb_frame_is_keepalive buf len =
     (len = UWB_FRAME_LEN_KEEPALIVE \<and> uwb_frame_is_valid buf len \<and>
      the buf ! 9 = UWB_FRAME_TYPE_KEEPALIVE)"

definition uwb_frame_parse_keepalive ::
  "u8 list option \<Rightarrow> nat \<Rightarrow> errno + (u16 \<times> u8 \<times> u8)" where
  "uwb_frame_parse_keepalive buf len =
     (if \<not> uwb_frame_is_keepalive buf len then Inl EINVAL
      else Inr (uwb_frame_get_src_addr (the buf), the buf ! 10, the buf ! 11))"

definition uwb_frame_release_build :: "u8 list option \<Rightarrow> nat \<Rightarrow> u16 \<Rightarrow> build_result" where
  "uwb_frame_release_build buf buf_len src_addr =
     (case write_hdr buf buf_len UWB_FRAME_LEN_RELEASE UWB_ADDR_GATEWAY src_addr
             UWB_FRAME_TYPE_RELEASE of
        Inl rc \<Rightarrow> (Inl rc, buf)
      | Inr b \<Rightarrow> (Inr UWB_FRAME_LEN_RELEASE, Some b))"

definition uwb_frame_is_release :: "u8 list option \<Rightarrow> nat \<Rightarrow> bool" where
  "uwb_frame_is_release buf len =
     (len = UWB_FRAME_LEN_RELEASE \<and> uwb_frame_is_valid buf len \<and>
      the buf ! 9 = UWB_FRAME_TYPE_RELEASE)"

section \<open>POS\<close>

definition uwb_frame_pos_build ::
  "u8 list option \<Rightarrow> nat \<Rightarrow> u16 \<Rightarrow> f32 \<Rightarrow> f32 \<Rightarrow> f32 \<Rightarrow> u8 \<Rightarrow> u8 \<Rightarrow> build_result" where
  "uwb_frame_pos_build buf buf_len src_addr x y residual_m n_anchors batt_soc =
     (case write_hdr buf buf_len UWB_FRAME_LEN_POS UWB_ADDR_GATEWAY src_addr
             UWB_FRAME_TYPE_POS of
        Inl rc \<Rightarrow> (Inl rc, buf)
      | Inr b \<Rightarrow>
          let b = put_f32 b 10 x;
              b = put_f32 b 14 y;
              b = put_f32 b 18 residual_m;
              b = put_u8 b 22 n_anchors
          in (Inr UWB_FRAME_LEN_POS, Some (put_u8 b 23 batt_soc)))"

definition uwb_frame_is_pos :: "u8 list option \<Rightarrow> nat \<Rightarrow> bool" where
  "uwb_frame_is_pos buf len =
     (len = UWB_FRAME_LEN_POS \<and> uwb_frame_is_valid buf len \<and>
      the buf ! 9 = UWB_FRAME_TYPE_POS)"

definition uwb_frame_parse_pos ::
  "u8 list option \<Rightarrow> nat \<Rightarrow> errno + (u16 \<times> f32 \<times> f32 \<times> f32 \<times> u8 \<times> u8)" where
  "uwb_frame_parse_pos buf len =
     (if \<not> uwb_frame_is_pos buf len then Inl EINVAL
      else
        let b = the buf in
        Inr (uwb_frame_get_src_addr b, get_f32 b 10, get_f32 b 14, get_f32 b 18,
             b ! 22, b ! 23))"


section \<open>The header that was written\<close>

lemma write_hdr_None [simp]: "write_hdr None cap need d s t = Inl EINVAL"
  by (simp add: write_hdr_def)

lemma write_hdr_small [simp]: "cap < need \<Longrightarrow> write_hdr (Some b) cap need d s t = Inl EMSGSIZE"
  by (simp add: write_hdr_def)

lemma write_hdr_fits:
  assumes "need \<le> cap" and "cap \<le> length b" and "10 \<le> need"
  obtains h where "write_hdr (Some b) cap need d s t = Inr h" and "length h = length b"
    and "h ! 0 = 0x41" and "h ! 1 = 0x88" and "h ! 3 = 0xCA" and "h ! 4 = 0xDE" and "h ! 9 = t"
    and "get_u16 h 5 = d" and "get_u16 h 7 = s" and "\<forall>n\<ge>10. drop n h = drop n b"
proof -
  let ?h = "put_u8 (put_u16 (put_u16 (put_u8 (put_u8 (put_u8 (put_u8 (put_u8 b 0 0x41) 1 0x88)
     2 0) 3 0xCA) 4 0xDE) 5 d) 7 s) 9 t"
  have "10 \<le> length b" "b \<noteq> []" using assms by auto
  then have "?h ! 0 = 0x41" "?h ! 1 = 0x88" "?h ! 3 = 0xCA" "?h ! 4 = 0xDE" "?h ! 9 = t"
    "get_u16 ?h 5 = d" "get_u16 ?h 7 = s" "\<forall>n\<ge>10. drop n ?h = drop n b"
    by (simp_all add: byte_simps)
  moreover have "write_hdr (Some b) cap need d s t = Inr ?h"
    using assms by (simp add: write_hdr_def Let_def)
  ultimately show thesis
    by (intro that [of ?h]) simp_all
qed

text \<open>A frame is valid when the ten header bytes are the ones the builders write.\<close>

lemma is_validI:
  "10 \<le> n \<Longrightarrow> n \<le> 37 \<Longrightarrow> f ! 0 = 0x41 \<Longrightarrow> f ! 1 = 0x88 \<Longrightarrow> f ! 3 = 0xCA \<Longrightarrow> f ! 4 = 0xDE \<Longrightarrow>
     uwb_frame_is_valid (Some f) n"
  by (simp add: uwb_frame_is_valid_def)

lemma is_valid_bounds: "uwb_frame_is_valid buf n \<Longrightarrow> 10 \<le> n \<and> n \<le> 37"
  by (auto simp: uwb_frame_is_valid_def split: option.splits if_splits)

lemma is_valid_None [simp]: "uwb_frame_is_valid None n = False"
  by (simp add: uwb_frame_is_valid_def)

lemma is_valid_agree:
  assumes "take n b = take n c"
  shows "uwb_frame_is_valid (Some b) n = uwb_frame_is_valid (Some c) n"
  using take_eq_nth [OF assms] by (auto simp: uwb_frame_is_valid_def)

lemma is_valid_seq [simp]:
  "3 \<le> length b \<Longrightarrow> uwb_frame_is_valid (Some (put_u8 b 2 s)) n = uwb_frame_is_valid (Some b) n"
  by (simp add: uwb_frame_is_valid_def put_u8_def)

text \<open>Bytes and fields other than the sequence number are unchanged by setting it.\<close>

lemma seq_fields [simp]:
  "i \<noteq> 2 \<Longrightarrow> put_u8 b 2 s ! i = b ! i"
  "2 < o' \<Longrightarrow> get_u16 (put_u8 b 2 s) o' = get_u16 b o'"
  "2 < o' \<Longrightarrow> get_u32 (put_u8 b 2 s) o' = get_u32 b o'"
  "2 < o' \<Longrightarrow> get_f32 (put_u8 b 2 s) o' = get_f32 b o'"
  "2 < o' \<Longrightarrow> get_bytes (put_u8 b 2 s) o' n = get_bytes b o' n"
  by (simp_all add: byte_simps)

lemmas validator_defs = uwb_frame_is_discovery_def uwb_frame_is_multipoll_def
  uwb_frame_is_response_def uwb_frame_is_beacon_def uwb_frame_is_join_def
  uwb_frame_is_grant_def uwb_frame_is_keepalive_def uwb_frame_is_release_def
  uwb_frame_is_pos_def

section \<open>Slot lists in a buffer\<close>

lemma length_put_slots [simp]: "length (put_slots b o' ss) = length b"
  by (induction b o' ss rule: put_slots.induct) simp_all

lemma length_put_slot_map [simp]: "length (put_slot_map b o' as) = length b"
  by (induction b o' as rule: put_slot_map.induct) simp_all

lemma put_slots_other [byte_simps]:
  "i < o' \<Longrightarrow> put_slots b o' ss ! i = b ! i"
  "i + 1 < o' \<Longrightarrow> get_u16 (put_slots b o' ss) i = get_u16 b i"
  "o' + 4 * length ss \<le> n \<Longrightarrow> drop n (put_slots b o' ss) = drop n b"
  by (induction b o' ss rule: put_slots.induct) (auto simp: byte_simps)

lemma put_slot_map_other [byte_simps]:
  "i < o' \<Longrightarrow> put_slot_map b o' as ! i = b ! i"
  "i + 1 < o' \<Longrightarrow> get_u16 (put_slot_map b o' as) i = get_u16 b i"
  "i + 3 < o' \<Longrightarrow> get_u32 (put_slot_map b o' as) i = get_u32 b i"
  "o' + 2 * length as \<le> n \<Longrightarrow> drop n (put_slot_map b o' as) = drop n b"
  by (induction b o' as rule: put_slot_map.induct) (auto simp: byte_simps)

lemma get_put_slots:
  "i < length ss \<Longrightarrow> o' + 4 * length ss \<le> length b \<Longrightarrow>
     get_slot (put_slots b o' ss) (o' + 4 * i) = ss ! i"
proof (induction b o' ss arbitrary: i rule: put_slots.induct)
  case (2 b o' s ss)
  then show ?case
    by (cases i) (auto simp: get_slot_def byte_simps algebra_simps)
qed simp

lemma get_put_slot_map:
  "i < length as \<Longrightarrow> o' + 2 * length as \<le> length b \<Longrightarrow>
     get_u16 (put_slot_map b o' as) (o' + 2 * i) = as ! i"
proof (induction b o' as arbitrary: i rule: put_slot_map.induct)
  case (2 b o' a as)
  then show ?case
    by (cases i) (auto simp: byte_simps algebra_simps)
qed simp

lemma get_put_slots_all [byte_simps]:
  "n = length ss \<Longrightarrow> o' + 4 * n \<le> length b \<Longrightarrow>
     map (\<lambda>i. get_slot (put_slots b o' ss) (o' + 4 * i)) [0..<n] = ss"
  by (rule nth_equalityI) (auto simp: get_put_slots)

lemma get_put_slot_map_all [byte_simps]:
  "n = length as \<Longrightarrow> o' + 2 * n \<le> length b \<Longrightarrow>
     map (\<lambda>i. get_u16 (put_slot_map b o' as) (o' + 2 * i)) [0..<n] = as"
  by (rule nth_equalityI) (auto simp: get_put_slot_map)

lemma get_slot_other [byte_simps]:
  "o' + 4 \<le> r \<Longrightarrow> get_slot (put_u32 b r z) o' = get_slot b o'"
  "2 < o' \<Longrightarrow> get_slot (put_u8 b 2 s) o' = get_slot b o'"
  by (simp_all add: get_slot_def byte_simps)

lemma get_slots_other [byte_simps]:
  "o' + 4 * n \<le> r \<Longrightarrow> map (\<lambda>i. get_slot (put_u32 b r z) (o' + 4 * i)) [0..<n]
     = map (\<lambda>i. get_slot b (o' + 4 * i)) [0..<n]"
  by (auto simp: byte_simps)

lemma get_slot_agree [no_overread]:
  "take n p = take n q \<Longrightarrow> o' + 3 < n \<Longrightarrow> get_slot p o' = get_slot q o'"
  using get_fields_agree(1) [of n p q] by (simp add: get_slot_def)

text \<open>All the rewrites two buffers that agree up to \<open>n\<close> give, oriented from the first to
  the second.\<close>

lemmas agree_simps = take_eq_nth get_fields_agree get_slot_agree is_valid_agree

section \<open>The frames of the gateway and the tag keep the codec contract\<close>

interpretation join: frame_codec
  "\<lambda>(e, t) buf cap. uwb_frame_join_build buf cap (Some e) t"
  uwb_frame_parse_join "\<lambda>_. UWB_FRAME_LEN_JOIN" "\<lambda>m. m" "\<lambda>(e, t). length e = 8"
proof (unfold_locales, goal_cases)
  case (3 m cap b)
  obtain e t where m: "m = (e, t)" by (cases m)
  from 3 have fits: "19 \<le> cap" "cap \<le> length b" "10 \<le> (19::nat)" by simp_all
  show ?case
    using 3 by (rule_tac write_hdr_fits [OF fits, of UWB_ADDR_GATEWAY UWB_ADDR_UNASSOC UWB_FRAME_TYPE_JOIN])
      (auto simp: m uwb_frame_join_build_def uwb_frame_parse_join_def uwb_frame_is_join_def byte_simps Let_def intro!: is_validI)
next
  case (5 n b c)
  then show ?case
    by (auto simp: uwb_frame_parse_join_def uwb_frame_is_join_def agree_simps [OF 5] Let_def)
qed (auto simp: uwb_frame_join_build_def uwb_frame_parse_join_def uwb_frame_is_join_def Let_def)

interpretation grant: frame_codec
  "\<lambda>(e, a, i, t, l) buf cap. uwb_frame_grant_build buf cap (Some e) a i t l"
  uwb_frame_parse_grant "\<lambda>_. UWB_FRAME_LEN_GRANT" "\<lambda>m. m" "\<lambda>(e, a, i, t, l). length e = 8"
proof (unfold_locales, goal_cases)
  case (3 m cap b)
  obtain e a i t l where m: "m = (e, a, i, t, l)" by (cases m)
  from 3 have fits: "24 \<le> cap" "cap \<le> length b" "10 \<le> (24::nat)" by simp_all
  show ?case
    using 3 by (rule_tac write_hdr_fits [OF fits, of UWB_FRAME_ADDR_BCAST UWB_ADDR_GATEWAY UWB_FRAME_TYPE_GRANT])
      (auto simp: m uwb_frame_grant_build_def uwb_frame_parse_grant_def uwb_frame_is_grant_def byte_simps Let_def intro!: is_validI)
next
  case (5 n b c)
  then show ?case
    by (auto simp: uwb_frame_parse_grant_def uwb_frame_is_grant_def agree_simps [OF 5] Let_def)
qed (auto simp: uwb_frame_grant_build_def uwb_frame_parse_grant_def uwb_frame_is_grant_def Let_def)

interpretation keepalive: frame_codec
  "\<lambda>(a, t, i) buf cap. uwb_frame_keepalive_build buf cap a t i"
  uwb_frame_parse_keepalive "\<lambda>_. UWB_FRAME_LEN_KEEPALIVE" "\<lambda>m. m" "\<lambda>_. True"
proof (unfold_locales, goal_cases)
  case (3 m cap b)
  obtain a t i where m: "m = (a, t, i)" by (cases m)
  from 3 have fits: "12 \<le> cap" "cap \<le> length b" "10 \<le> (12::nat)" by simp_all
  show ?case
    using 3 by (rule_tac write_hdr_fits [OF fits, of UWB_ADDR_GATEWAY a UWB_FRAME_TYPE_KEEPALIVE])
      (auto simp: m uwb_frame_keepalive_build_def uwb_frame_parse_keepalive_def uwb_frame_is_keepalive_def uwb_frame_get_src_addr_def byte_simps Let_def intro!: is_validI)
next
  case (5 n b c)
  then show ?case
    by (auto simp: uwb_frame_parse_keepalive_def uwb_frame_is_keepalive_def uwb_frame_get_src_addr_def agree_simps [OF 5] Let_def)
qed (auto simp: uwb_frame_keepalive_build_def uwb_frame_parse_keepalive_def uwb_frame_is_keepalive_def uwb_frame_get_src_addr_def Let_def)

interpretation pos: frame_codec
  "\<lambda>(a, x, y, r, n, so) buf cap. uwb_frame_pos_build buf cap a x y r n so"
  uwb_frame_parse_pos "\<lambda>_. UWB_FRAME_LEN_POS" "\<lambda>m. m" "\<lambda>_. True"
proof (unfold_locales, goal_cases)
  case (3 m cap b)
  obtain a x y r n so where m: "m = (a, x, y, r, n, so)" by (cases m)
  from 3 have fits: "24 \<le> cap" "cap \<le> length b" "10 \<le> (24::nat)" by simp_all
  show ?case
    using 3 by (rule_tac write_hdr_fits [OF fits, of UWB_ADDR_GATEWAY a UWB_FRAME_TYPE_POS])
      (auto simp: m uwb_frame_pos_build_def uwb_frame_parse_pos_def uwb_frame_is_pos_def uwb_frame_get_src_addr_def byte_simps Let_def intro!: is_validI)
next
  case (5 n b c)
  then show ?case
    by (auto simp: uwb_frame_parse_pos_def uwb_frame_is_pos_def uwb_frame_get_src_addr_def agree_simps [OF 5] Let_def)
qed (auto simp: uwb_frame_pos_build_def uwb_frame_parse_pos_def uwb_frame_is_pos_def uwb_frame_get_src_addr_def Let_def)

interpretation response: frame_codec
  "\<lambda>(a, d, t, p, q) buf cap. uwb_frame_response_build buf cap a d t p q"
  "(\<lambda>buf len. uwb_frame_parse_discovery_response buf len True)" "\<lambda>_. UWB_FRAME_LEN_RESP" "\<lambda>(a, d, t, p, q). (a, p, q)" "\<lambda>_. True"
proof (unfold_locales, goal_cases)
  case (3 m cap b)
  obtain a d t p q where m: "m = (a, d, t, p, q)" by (cases m)
  from 3 have fits: "20 \<le> cap" "cap \<le> length b" "10 \<le> (20::nat)" by simp_all
  show ?case
    using 3 by (rule_tac write_hdr_fits [OF fits, of d a UWB_FRAME_TYPE_RESP])
      (auto simp: m uwb_frame_response_build_def uwb_frame_parse_discovery_response_def uwb_frame_is_response_def byte_simps Let_def intro!: is_validI)
next
  case (5 n b c)
  then show ?case
    by (auto simp: uwb_frame_parse_discovery_response_def uwb_frame_is_response_def agree_simps [OF 5] Let_def)
qed (auto simp: uwb_frame_response_build_def uwb_frame_parse_discovery_response_def uwb_frame_is_response_def Let_def)

text \<open>A multi-poll: one to four slots, a beacon: zero to eleven addresses.\<close>

interpretation multipoll: frame_codec
  "\<lambda>(a, ss, ts) buf cap. uwb_frame_multipoll_build buf cap a (Some ss) (of_nat (length ss)) ts"
  "\<lambda>buf len. uwb_frame_parse_multipoll buf len True"
  "\<lambda>(a, ss, ts). 15 + 4 * length ss"
  "\<lambda>(a, ss, ts). (ss, of_nat (length ss), ts)"
  "\<lambda>(a, ss, ts). 1 \<le> length ss \<and> length ss \<le> 4"
proof (unfold_locales, goal_cases)
  case (1 m cap)
  then show ?case
    by (auto simp: uwb_frame_multipoll_build_def)
next
  case (2 m cap b)
  then show ?case
    by (auto simp: uwb_frame_multipoll_build_def Let_def)
next
  case (3 m cap b)
  obtain a ss ts where m: "m = (a, ss, ts)" by (cases m)
  let ?n = "length ss"
  from 3 m have fits: "15 + 4 * ?n \<le> cap" "cap \<le> length b" "10 \<le> 15 + 4 * ?n" by simp_all
  have n: "1 \<le> ?n" "?n \<le> 4" "unat (of_nat ?n :: u8) = ?n" "(of_nat ?n :: u8) \<noteq> 0"
    using 3 m by auto
  show ?case
    using n fits
    by (rule_tac write_hdr_fits [OF fits, of UWB_FRAME_ADDR_BCAST a UWB_FRAME_TYPE_MPOL])
      (auto simp: m uwb_frame_multipoll_build_def uwb_frame_parse_multipoll_def
        uwb_frame_is_multipoll_def byte_simps Let_def intro!: is_validI)
next
  case (5 n b c)
  then show ?case
    by (auto simp: uwb_frame_parse_multipoll_def uwb_frame_is_multipoll_def
        agree_simps [OF 5] Let_def)
next
  case (6 b s n)
  then show ?case
    by (simp add: uwb_frame_parse_multipoll_def uwb_frame_is_multipoll_def byte_simps Let_def)
qed (auto simp: uwb_frame_parse_multipoll_def)

interpretation beacon: frame_codec
  "\<lambda>(ctr, sm) buf cap. uwb_frame_beacon_build buf cap ctr (Some sm) (of_nat (length sm))"
  uwb_frame_parse_beacon
  "\<lambda>(ctr, sm). 15 + 2 * length sm"
  "\<lambda>(ctr, sm). (UWB_PROTO_VER, ctr, sm, of_nat (length sm))"
  "\<lambda>(ctr, sm). length sm \<le> UWB_FRAME_N_CFP"
proof (unfold_locales, goal_cases)
  case (3 m cap b)
  obtain ctr sm where m: "m = (ctr, sm)" by (cases m)
  let ?n = "length sm"
  from 3 m have fits: "15 + 2 * ?n \<le> cap" "cap \<le> length b" "10 \<le> 15 + 2 * ?n" by simp_all
  show ?case
    using fits 3 m
    by (rule_tac write_hdr_fits [OF fits, of UWB_FRAME_ADDR_BCAST UWB_ADDR_GATEWAY
          UWB_FRAME_TYPE_BEACON])
      (auto simp: m uwb_frame_beacon_build_def uwb_frame_parse_beacon_def
        uwb_frame_is_beacon_def byte_simps Let_def intro!: is_validI)
next
  case (5 n b c)
  have slots: "2 * i + 1 < n - 15 \<Longrightarrow> get_u16 b (15 + 2 * i) = get_u16 c (15 + 2 * i)" for i
    by (rule get_fields_agree(1) [OF 5]) simp
  have "unat (of_nat ((n - 15) div 2) :: u8) \<le> (n - 15) div 2"
    by (simp add: unat_of_nat)
  then show ?case
    by (auto simp: uwb_frame_parse_beacon_def uwb_frame_is_beacon_def
        agree_simps [OF 5] Let_def intro!: slots)
next
  case (6 b s n)
  then show ?case
    by (simp add: uwb_frame_parse_beacon_def uwb_frame_is_beacon_def byte_simps Let_def)
qed (auto simp: uwb_frame_beacon_build_def uwb_frame_parse_beacon_def uwb_frame_is_beacon_def
    Let_def)

section \<open>The two header-only frames\<close>

lemma discovery_build_valid:
  assumes "14 \<le> cap" and "cap \<le> length b"
  shows "\<exists>f. uwb_frame_discovery_build (Some b) cap a ts = (Inr 14, Some f) \<and>
    uwb_frame_is_discovery (Some f) 14 \<and> uwb_frame_get_src_addr f = a \<and> get_u32 f 10 = ts \<and>
    drop 14 f = drop 14 b"
  using assms
  by (rule_tac write_hdr_fits [of 14 cap b UWB_FRAME_ADDR_BCAST a UWB_FRAME_TYPE_DISC])
    (auto simp: uwb_frame_discovery_build_def uwb_frame_is_discovery_def
      uwb_frame_get_src_addr_def byte_simps intro!: is_validI)

lemma release_build_valid:
  assumes "10 \<le> cap" and "cap \<le> length b"
  shows "\<exists>f. uwb_frame_release_build (Some b) cap a = (Inr 10, Some f) \<and>
    uwb_frame_is_release (Some f) 10 \<and> uwb_frame_get_src_addr f = a \<and>
    drop 10 f = drop 10 b"
  using assms
  by (rule_tac write_hdr_fits [of 10 cap b UWB_ADDR_GATEWAY a UWB_FRAME_TYPE_RELEASE])
    (auto simp: uwb_frame_release_build_def uwb_frame_is_release_def
      uwb_frame_get_src_addr_def byte_simps intro!: is_validI)

section \<open>Dispatch by type\<close>

text \<open>The nine validators, as the gateway and the slave try them in turn.\<close>

definition uwb_frame_validators :: "(u8 list option \<Rightarrow> nat \<Rightarrow> bool) list" where
  "uwb_frame_validators =
     [uwb_frame_is_discovery, uwb_frame_is_multipoll, uwb_frame_is_response,
      uwb_frame_is_beacon, uwb_frame_is_join, uwb_frame_is_grant, uwb_frame_is_keepalive,
      uwb_frame_is_release, uwb_frame_is_pos]"

lemma validators_exclusive:
  "length (filter (\<lambda>v. v buf n) uwb_frame_validators) \<le> 1"
  by (auto simp: uwb_frame_validators_def validator_defs Let_def)

lemma validators_valid:
  "v \<in> set uwb_frame_validators \<Longrightarrow> v buf n \<Longrightarrow>
     uwb_frame_is_valid buf n \<and> 10 \<le> n \<and> n \<le> 37"
  using is_valid_bounds [of buf n]
  by (auto simp: uwb_frame_validators_def validator_defs Let_def split: if_splits)

text \<open>A twelve-slot beacon is built without an error and refused by every receiver.\<close>

lemma long_beacon_refused:
  assumes "11 < unat n_slots" and "15 + 2 * unat n_slots \<le> cap"
  shows "fst (uwb_frame_beacon_build (Some b) cap ctr (Some sm) n_slots)
      = Inr (15 + 2 * unat n_slots)
    \<and> uwb_frame_parse_beacon buf (15 + 2 * unat n_slots) = Inl EINVAL"
  using assms by (auto simp: uwb_frame_beacon_build_def write_hdr_def Let_def
      uwb_frame_parse_beacon_def uwb_frame_is_beacon_def dest: is_valid_bounds)

section \<open>Finding the own address in a beacon\<close>

lemma find_slot_bounds: "find_slot as k a = Some i \<Longrightarrow> k \<le> i \<and> i < k + length as"
  by (induction as arbitrary: k) (fastforce split: if_splits)+

lemma find_slot_None: "find_slot as k a = None \<longleftrightarrow> a \<notin> set as"
  by (induction as arbitrary: k) auto

lemma find_slot_Some:
  "find_slot as k a = Some (k + i) \<longleftrightarrow> i < length as \<and> as ! i = a \<and> (\<forall>j<i. as ! j \<noteq> a)"
proof (induction as arbitrary: k i)
  case (Cons x xs)
  show ?case
  proof (cases i)
    case 0
    then show ?thesis
      using find_slot_bounds [of xs "Suc k" a k] by auto
  next
    case (Suc n)
    then show ?thesis
      using Cons [of "Suc k" n] by (auto simp: All_less_Suc2)
  qed
qed simp

lemma beacon_find_addr_iff:
  assumes "unat n \<le> length sm"
  shows "uwb_frame_beacon_find_addr (Some sm) n a = Some i \<longleftrightarrow>
    i < unat n \<and> sm ! i = a \<and> (\<forall>j<i. sm ! j \<noteq> a)"
  using assms find_slot_Some [of "take (unat n) sm" 0 a i]
  by (auto simp: uwb_frame_beacon_find_addr_def)

section \<open>Properties\<close>

text \<open>The frames survive the air: a GRANT, a POS report and a beacon of up to eleven slots
  that a board has built, numbered and sent are parsed by a receiver, whose buffer holds
  anything past the payload, to exactly the fields that were built in.\<close>

theorem uwb_frames_survive_air:
  assumes "length e = 8" and "length sm \<le> UWB_FRAME_N_CFP" and "cap \<le> length b"
  shows "(uwb_frame_grant_build (Some b) cap (Some e) a i t l = (Inr n1, Some f1) \<longrightarrow>
      uwb_frame_parse_grant (Some (take n1 (uwb_frame_set_seq_num f1 sq) @ junk)) n1 = Inr (e, a, i, t, l))
    \<and> (uwb_frame_pos_build (Some b) cap a x y r nk so = (Inr n2, Some f2) \<longrightarrow>
      uwb_frame_parse_pos (Some (take n2 (uwb_frame_set_seq_num f2 sq) @ junk)) n2
        = Inr (a, x, y, r, nk, so))
    \<and> (uwb_frame_beacon_build (Some b) cap ctr (Some sm) (of_nat (length sm)) = (Inr n3, Some f3) \<longrightarrow>
      uwb_frame_parse_beacon (Some (take n3 (uwb_frame_set_seq_num f3 sq) @ junk)) n3
        = Inr (UWB_PROTO_VER, ctr, sm, of_nat (length sm)))"
  using grant.received [where m = "(e, a, i, t, l)" and cap = cap and b = b and n = n1 and f = f1 and s = sq]
    pos.received [where m = "(a, x, y, r, nk, so)" and cap = cap and b = b and n = n2 and f = f2 and s = sq]
    beacon.received [where m = "(ctr, sm)" and cap = cap and b = b and n = n3 and f = f3 and s = sq] assms
  by (simp add: uwb_frame_set_seq_num_def)

lemma uwb_frames_survive_air_witness:
  "uwb_frame_parse_grant (Some (take 24 (uwb_frame_set_seq_num
     (the (snd (uwb_frame_grant_build (Some (replicate 64 7)) 64 (Some [1, 2, 3, 4, 5, 6, 7, 8]) 256 3 1 50))) 9)
       @ [1, 2])) 24 = Inr ([1, 2, 3, 4, 5, 6, 7, 8], 256, 3, 1, 50)"
proof -
  have "uwb_frame_grant_build (Some (replicate 64 7)) 64 (Some [1, 2, 3, 4, 5, 6, 7, 8]) 256 3 1 50 =
      (Inr 24, Some (the (snd (uwb_frame_grant_build (Some (replicate 64 7)) 64
        (Some [1, 2, 3, 4, 5, 6, 7, 8]) 256 3 1 50))))"
    by (simp add: uwb_frame_grant_build_def write_hdr_def Let_def)
  then show ?thesis
    using uwb_frames_survive_air [of "[1, 2, 3, 4, 5, 6, 7, 8]" "[]" 64 "replicate 64 7" 256 3 1 50 24 _ 9 "[1, 2]"]
    by simp
qed

text \<open>A received frame is at most one message: of the nine validators at most one accepts it,
  and one that does has checked that the header is whole and the length at most 37, so no
  consumer reads past the frame.\<close>

theorem uwb_frame_dispatch:
  "length (filter (\<lambda>v. v buf n) uwb_frame_validators) \<le> 1 \<and>
   (\<forall>v\<in>set uwb_frame_validators. v buf n \<longrightarrow> uwb_frame_is_valid buf n \<and> 10 \<le> n \<and> n \<le> 37)"
  using validators_exclusive validators_valid by blast

lemma uwb_frame_dispatch_witness:
  "length (filter (\<lambda>v. v (Some [0x41, 0x88, 0, 0xCA, 0xDE, 0, 0, 1, 1, 0xE9]) 10) uwb_frame_validators) \<le> 1
   \<and> uwb_frame_is_release (Some [0x41, 0x88, 0, 0xCA, 0xDE, 0, 0, 1, 1, 0xE9]) 10"
  using uwb_frame_dispatch [of "Some [0x41, 0x88, 0, 0xCA, 0xDE, 0, 0, 1, 1, 0xE9]" 10]
  by (simp add: uwb_frame_is_release_def uwb_frame_is_valid_def)

end
