(* ===== verification/GwCore.thy ===== *)
theory GwCore
  imports UwbFrame
begin

text \<open>
  The gateway's seat table, src/gw_core.c: eleven CFP seats keyed by slot index,
  leases aged one superframe at a time and a short-address pool that never hands out
  an address a live seat holds. The locale \<open>seat_table\<close> is the contract the gateway
  relies on; it is interpreted on this table at the end.
\<close>

abbreviation (input) GW_N_CFP :: nat where "GW_N_CFP \<equiv> 11"
abbreviation (input) GW_LEASE_SF :: u16 where "GW_LEASE_SF \<equiv> 50"
abbreviation (input) GW_TAG_ADDR_BASE :: u16 where "GW_TAG_ADDR_BASE \<equiv> 0x0100"

record gw_seat =
  short_addr :: u16
  seat_eui :: "u8 list"
  tier :: u8
  lease_remaining :: u16

record gw_core_ctx =
  seats :: "gw_seat list"
  frame_counter :: u32
  next_short_addr :: u16

record gw_grant =
  g_short_addr :: u16
  g_slot_index :: u8
  g_tier :: u8
  g_lease :: u16

text \<open>\<open>memset(seat, 0, sizeof(seat))\<close>.\<close>

definition zero_seat :: gw_seat where
  "zero_seat = \<lparr>short_addr = 0, seat_eui = replicate 8 0, tier = 0, lease_remaining = 0\<rparr>"

definition gw_core_init :: gw_core_ctx where
  "gw_core_init = \<lparr>seats = replicate GW_N_CFP zero_seat, frame_counter = 0,
                   next_short_addr = GW_TAG_ADDR_BASE\<rparr>"

definition gw_core_build_slotmap :: "gw_core_ctx \<Rightarrow> u16 list" where
  "gw_core_build_slotmap c =
     map (\<lambda>s. if short_addr s \<noteq> 0 then short_addr s else UWB_FRAME_ADDR_BCAST) (seats c)"

definition find_seat_by_addr :: "gw_core_ctx \<Rightarrow> u16 \<Rightarrow> nat option" where
  "find_seat_by_addr c addr =
     (if addr = 0 then None else first_index (\<lambda>s. short_addr s = addr) (seats c))"

definition find_seat_by_eui :: "gw_core_ctx \<Rightarrow> u8 list \<Rightarrow> nat option" where
  "find_seat_by_eui c eui =
     first_index (\<lambda>s. short_addr s \<noteq> 0 \<and> seat_eui s = eui) (seats c)"

text \<open>The allocation loop with \<open>g\<close> of its twelve rounds left.\<close>

fun alloc_loop :: "nat \<Rightarrow> gw_core_ctx \<Rightarrow> u16 \<times> gw_core_ctx" where
  "alloc_loop 0 c = (GW_TAG_ADDR_BASE, c)"
| "alloc_loop (Suc g) c =
     (let a = next_short_addr c;
          n = a + 1;
          n = (if n \<ge> 0xFFFE then GW_TAG_ADDR_BASE else n);
          c = c\<lparr>next_short_addr := n\<rparr>
      in case find_seat_by_addr c a of
           None \<Rightarrow> (a, c)
         | Some _ \<Rightarrow> alloc_loop g c)"

definition alloc_short_addr :: "gw_core_ctx \<Rightarrow> u16 \<times> gw_core_ctx" where
  "alloc_short_addr c = alloc_loop (GW_N_CFP + 1) c"

definition gw_core_find_eui :: "gw_core_ctx \<Rightarrow> u16 \<Rightarrow> u8 list option" where
  "gw_core_find_eui c addr =
     map_option (\<lambda>i. seat_eui (seats c ! i)) (find_seat_by_addr c addr)"

text \<open>The part of the join after the seat is known.\<close>

definition gw_core_grant_seat ::
  "gw_core_ctx \<Rightarrow> nat \<Rightarrow> u8 \<Rightarrow> gw_grant option \<times> gw_core_ctx" where
  "gw_core_grant_seat c idx req_tier =
     (let s = (seats c ! idx)\<lparr>tier := req_tier, lease_remaining := GW_LEASE_SF\<rparr> in
      (Some \<lparr>g_short_addr = short_addr s, g_slot_index = of_nat idx, g_tier = req_tier,
             g_lease = GW_LEASE_SF\<rparr>,
       c\<lparr>seats := (seats c)[idx := s]\<rparr>))"

definition gw_core_join ::
  "gw_core_ctx \<Rightarrow> u8 list \<Rightarrow> u8 \<Rightarrow> gw_grant option \<times> gw_core_ctx" where
  "gw_core_join c eui req_tier =
     (case find_seat_by_eui c eui of
        Some idx \<Rightarrow> gw_core_grant_seat c idx req_tier
      | None \<Rightarrow>
          (case first_index (\<lambda>s. short_addr s = 0) (seats c) of
             None \<Rightarrow> (None, c)
           | Some idx \<Rightarrow>
               let (a, c) = alloc_short_addr c;
                   s = (seats c ! idx)\<lparr>short_addr := a, seat_eui := eui\<rparr>
               in gw_core_grant_seat (c\<lparr>seats := (seats c)[idx := s]\<rparr>) idx req_tier))"

definition gw_core_keepalive :: "gw_core_ctx \<Rightarrow> u16 \<Rightarrow> u8 \<Rightarrow> gw_core_ctx" where
  "gw_core_keepalive c addr req_tier =
     (case find_seat_by_addr c addr of
        None \<Rightarrow> c
      | Some idx \<Rightarrow>
          c\<lparr>seats := (seats c)[idx := (seats c ! idx)
              \<lparr>tier := req_tier, lease_remaining := GW_LEASE_SF\<rparr>]\<rparr>)"

definition gw_core_release :: "gw_core_ctx \<Rightarrow> u16 \<Rightarrow> gw_core_ctx" where
  "gw_core_release c addr =
     (case find_seat_by_addr c addr of
        None \<Rightarrow> c
      | Some idx \<Rightarrow> c\<lparr>seats := (seats c)[idx := zero_seat]\<rparr>)"

definition gw_core_tick_seat :: "gw_seat \<Rightarrow> gw_seat" where
  "gw_core_tick_seat s =
     (if short_addr s = 0 then s
      else
        let s = (if lease_remaining s > 0 then s\<lparr>lease_remaining := lease_remaining s - 1\<rparr> else s)
        in if lease_remaining s = 0 then zero_seat else s)"

definition gw_core_superframe_tick :: "gw_core_ctx \<Rightarrow> gw_core_ctx" where
  "gw_core_superframe_tick c =
     c\<lparr>frame_counter := frame_counter c + 1, seats := map gw_core_tick_seat (seats c)\<rparr>"

section \<open>The invariant\<close>

definition seat_ok :: "gw_seat \<Rightarrow> bool" where
  "seat_ok s \<longleftrightarrow>
     (if short_addr s = 0 then s = zero_seat
      else GW_TAG_ADDR_BASE \<le> short_addr s \<and> short_addr s < 0xFFFE \<and>
           0 < lease_remaining s \<and> lease_remaining s \<le> GW_LEASE_SF \<and>
           length (seat_eui s) = UWB_FRAME_EUI_LEN)"

definition seats_distinct :: "gw_seat list \<Rightarrow> bool" where
  "seats_distinct ss \<longleftrightarrow>
     (\<forall>i<length ss. \<forall>j<length ss. i \<noteq> j \<longrightarrow> short_addr (ss ! i) \<noteq> 0 \<longrightarrow>
        short_addr (ss ! i) \<noteq> short_addr (ss ! j) \<and>
        (short_addr (ss ! j) \<noteq> 0 \<longrightarrow> seat_eui (ss ! i) \<noteq> seat_eui (ss ! j)))"

definition gw_inv :: "gw_core_ctx \<Rightarrow> bool" where
  "gw_inv c \<longleftrightarrow> length (seats c) = GW_N_CFP \<and> list_all seat_ok (seats c) \<and>
     seats_distinct (seats c) \<and>
     GW_TAG_ADDR_BASE \<le> next_short_addr c \<and> next_short_addr c < 0xFFFE"

section \<open>Searching the table\<close>

lemma find_by_addr_None:
  "find_seat_by_addr c a = None \<longleftrightarrow> a = 0 \<or> a \<notin> short_addr ` set (seats c)"
  by (auto simp: find_seat_by_addr_def)

lemma find_by_addr_SomeD:
  "find_seat_by_addr c a = Some i \<Longrightarrow>
     i < length (seats c) \<and> short_addr (seats c ! i) = a \<and> a \<noteq> 0"
  by (auto simp: find_seat_by_addr_def split: if_splits dest: first_index_SomeD)

lemma find_by_eui_SomeD:
  "find_seat_by_eui c e = Some i \<Longrightarrow>
     i < length (seats c) \<and> short_addr (seats c ! i) \<noteq> 0 \<and> seat_eui (seats c ! i) = e"
  by (auto simp: find_seat_by_eui_def dest: first_index_SomeD)

lemma find_by_eui_None:
  "find_seat_by_eui c e = None \<longleftrightarrow>
     (\<forall>s\<in>set (seats c). short_addr s \<noteq> 0 \<longrightarrow> seat_eui s \<noteq> e)"
  by (auto simp: find_seat_by_eui_def)

lemma find_by_addr_seat:
  assumes "seats_distinct (seats c)" and "i < length (seats c)"
    and "short_addr (seats c ! i) \<noteq> 0"
  shows "find_seat_by_addr c (short_addr (seats c ! i)) = Some i"
proof -
  have "first_index (\<lambda>s. short_addr s = short_addr (seats c ! i)) (seats c) = Some i"
  proof (rule first_index_unique)
    show "j = i" if "j < length (seats c)" "short_addr (seats c ! j) = short_addr (seats c ! i)"
      for j
      using assms that unfolding seats_distinct_def by metis
  qed (use assms in simp_all)
  with assms(3) show ?thesis by (simp add: find_seat_by_addr_def)
qed

lemma find_by_eui_seat:
  assumes "seats_distinct (seats c)" and "i < length (seats c)"
    and "short_addr (seats c ! i) \<noteq> 0"
  shows "find_seat_by_eui c (seat_eui (seats c ! i)) = Some i"
  unfolding find_seat_by_eui_def
proof (rule first_index_unique)
  show "j = i" if "j < length (seats c)"
    "short_addr (seats c ! j) \<noteq> 0 \<and> seat_eui (seats c ! j) = seat_eui (seats c ! i)" for j
    using assms that unfolding seats_distinct_def by metis
qed (use assms in simp_all)

lemma find_next [simp]:
  "find_seat_by_addr (c\<lparr>next_short_addr := n\<rparr>) a = find_seat_by_addr c a"
  by (simp add: find_seat_by_addr_def)

section \<open>The address pool\<close>

definition pool :: "u16 \<Rightarrow> bool" where
  "pool a \<longleftrightarrow> GW_TAG_ADDR_BASE \<le> a \<and> a < 0xFFFE"

definition pool_next :: "u16 \<Rightarrow> u16" where
  "pool_next a = (if a + 1 \<ge> 0xFFFE then GW_TAG_ADDR_BASE else a + 1)"

lemma pool_nat: "pool a \<longleftrightarrow> 256 \<le> unat a \<and> unat a < 65534"
  by (simp add: pool_def word_le_nat_alt word_less_nat_alt)

lemma pool_nonzero: "pool a \<Longrightarrow> a \<noteq> 0"
  by (auto simp: pool_nat)

lemma unat_pool_next:
  assumes "pool a"
  shows "unat (pool_next a) = 256 + (unat a - 256 + 1) mod 65278"
proof -
  have n: "256 \<le> unat a" "unat a < 65534" using assms by (simp_all add: pool_nat)
  then have s: "unat (a + 1) = unat a + 1"
    by (simp add: unat_word_ariths)
  show ?thesis
  proof (cases "unat a = 65533")
    case True
    then show ?thesis by (simp add: pool_next_def word_le_nat_alt s)
  next
    case False
    with n have "(unat a - 256 + 1) mod 65278 = unat a - 255" by simp
    with False n show ?thesis by (simp add: pool_next_def word_le_nat_alt s)
  qed
qed

lemma pool_pool_next [simp]: "pool a \<Longrightarrow> pool (pool_next a)"
  using mod_less_divisor [of 65278 "unat a - 256 + 1"]
  by (simp add: pool_nat [of "pool_next a"] unat_pool_next)

lemma pool_funpow: "pool a \<Longrightarrow> pool ((pool_next ^^ i) a)"
  by (induction i) simp_all

lemma unat_pool_funpow:
  "pool a \<Longrightarrow> unat ((pool_next ^^ i) a) = 256 + (unat a - 256 + i) mod 65278"
proof (induction i)
  case 0
  then have "256 \<le> unat a" "unat a < 65534" by (simp_all add: pool_nat)
  then show ?case by simp
next
  case (Suc i)
  then show ?case
    using unat_pool_next [OF pool_funpow [OF Suc.prems, of i]] by (simp add: mod_Suc_eq)
qed

lemma pool_funpow_inj:
  assumes "pool a" and "k \<le> 65278"
  shows "inj_on (\<lambda>i. (pool_next ^^ i) a) {..<k}"
proof (rule inj_onI)
  fix i j
  assume ij: "i \<in> {..<k}" "j \<in> {..<k}" "(pool_next ^^ i) a = (pool_next ^^ j) a"
  then have "(unat a - 256 + i) mod 65278 = (unat a - 256 + j) mod 65278"
    using unat_pool_funpow [OF assms(1)] by (metis add_left_cancel)
  moreover have "unat a - 256 < 65278" "i < 65278" "j < 65278"
    using assms ij by (auto simp: pool_nat)
  moreover have "(x + k) mod m = (if x + k < m then x + k else x + k - m)"
    if "x < m" "k < m" for x k m :: nat
    using that by (simp add: mod_if)
  ultimately show "i = j"
    by (simp split: if_splits)
qed

lemma alloc_loop_spec:
  "pool (next_short_addr c) \<Longrightarrow>
   \<exists>i<g. find_seat_by_addr c ((pool_next ^^ i) (next_short_addr c)) = None \<Longrightarrow>
   find_seat_by_addr c (fst (alloc_loop g c)) = None \<and> pool (fst (alloc_loop g c)) \<and>
   (\<exists>n. pool n \<and> snd (alloc_loop g c) = c\<lparr>next_short_addr := n\<rparr>)"
proof (induction g arbitrary: c)
  case (Suc g)
  let ?c = "c\<lparr>next_short_addr := pool_next (next_short_addr c)\<rparr>"
  show ?case
  proof (cases "find_seat_by_addr c (next_short_addr c)")
    case None
    then show ?thesis
      using Suc.prems(1) pool_pool_next [of "next_short_addr c"]
      by (auto simp: Let_def pool_next_def split: if_splits)
  next
    case (Some k)
    from Suc.prems(2) obtain i where i: "i < Suc g"
      "find_seat_by_addr c ((pool_next ^^ i) (next_short_addr c)) = None" by blast
    with Some have "i \<noteq> 0" by (intro notI) simp
    then obtain j where "i = Suc j" by (cases i) auto
    with i have "\<exists>i<g. find_seat_by_addr ?c ((pool_next ^^ i) (next_short_addr ?c)) = None"
      by (intro exI [of _ j]) (simp add: funpow_swap1)
    with Suc.IH [of ?c] Suc.prems(1) have
      "find_seat_by_addr c (fst (alloc_loop g ?c)) = None \<and> pool (fst (alloc_loop g ?c)) \<and>
       (\<exists>n. pool n \<and> snd (alloc_loop g ?c) = ?c\<lparr>next_short_addr := n\<rparr>)" by simp
    moreover have "alloc_loop (Suc g) c = alloc_loop g ?c"
      using Some by (simp add: Let_def pool_next_def)
    ultimately show ?thesis by auto
  qed
qed simp

text \<open>Twelve candidates and at most eleven seats: the fallback is never reached.\<close>

lemma alloc_fresh:
  assumes "pool (next_short_addr c)" and "length (seats c) = 11"
  shows "find_seat_by_addr c (fst (alloc_short_addr c)) = None"
    and "pool (fst (alloc_short_addr c))"
    and "\<exists>n. pool n \<and> snd (alloc_short_addr c) = c\<lparr>next_short_addr := n\<rparr>"
proof -
  let ?f = "\<lambda>i. (pool_next ^^ i) (next_short_addr c)"
  have "\<not> ?f ` {..<12} \<subseteq> short_addr ` set (seats c)"
  proof
    assume "?f ` {..<12} \<subseteq> short_addr ` set (seats c)"
    then have "card (?f ` {..<12}) \<le> card (short_addr ` set (seats c))"
      by (intro card_mono) simp_all
    also have "\<dots> \<le> 11"
      using card_image_le [of "set (seats c)" short_addr] card_length [of "seats c"] assms(2)
      by simp
    finally show False
      using card_image [OF pool_funpow_inj [OF assms(1), of 12]] by simp
  qed
  then have "\<exists>i<12. find_seat_by_addr c (?f i) = None"
    by (auto simp: find_by_addr_None)
  from alloc_loop_spec [OF assms(1) this]
  show "find_seat_by_addr c (fst (alloc_short_addr c)) = None"
    "pool (fst (alloc_short_addr c))"
    "\<exists>n. pool n \<and> snd (alloc_short_addr c) = c\<lparr>next_short_addr := n\<rparr>"
    by (simp_all add: alloc_short_addr_def)
qed

section \<open>Every operation keeps the invariant\<close>

lemma short_addr_zero [simp]: "short_addr zero_seat = 0"
  by (simp add: zero_seat_def)

lemma gw_inv_pool:
  "gw_inv c \<longleftrightarrow> length (seats c) = 11 \<and> list_all seat_ok (seats c) \<and>
     seats_distinct (seats c) \<and> pool (next_short_addr c)"
  by (simp add: gw_inv_def pool_def)

lemma gw_invD:
  assumes "gw_inv c"
  shows "length (seats c) = 11" and "i < 11 \<Longrightarrow> seat_ok (seats c ! i)"
    and "seats_distinct (seats c)" and "pool (next_short_addr c)"
  using assms by (simp_all add: gw_inv_pool list_all_length)

lemma seats_distinctD:
  assumes "seats_distinct ss" and "i < length ss" and "j < length ss" and "j \<noteq> i"
    and "short_addr (ss ! i) \<noteq> 0"
  shows "short_addr (ss ! j) \<noteq> short_addr (ss ! i)"
    and "short_addr (ss ! j) \<noteq> 0 \<Longrightarrow> seat_eui (ss ! j) \<noteq> seat_eui (ss ! i)"
  using assms unfolding seats_distinct_def by metis+

lemma seats_distinct_update:
  assumes "seats_distinct ss"
    and "\<And>j. short_addr s \<noteq> 0 \<Longrightarrow> j < length ss \<Longrightarrow> j \<noteq> i \<Longrightarrow>
      short_addr (ss ! j) \<noteq> short_addr s \<and>
      (short_addr (ss ! j) \<noteq> 0 \<longrightarrow> seat_eui (ss ! j) \<noteq> seat_eui s)"
  shows "seats_distinct (ss[i := s])"
  unfolding seats_distinct_def
proof (intro allI impI)
  fix k j
  assume kj: "k < length (ss[i := s])" "j < length (ss[i := s])" "k \<noteq> j"
    "short_addr (ss[i := s] ! k) \<noteq> 0"
  show "short_addr (ss[i := s] ! k) \<noteq> short_addr (ss[i := s] ! j) \<and>
      (short_addr (ss[i := s] ! j) \<noteq> 0 \<longrightarrow>
       seat_eui (ss[i := s] ! k) \<noteq> seat_eui (ss[i := s] ! j))"
  proof (cases "k = i")
    case True
    with kj assms(2) [of j] show ?thesis by auto
  next
    case False
    with kj assms(2) [of k] assms(1) show ?thesis
      by (cases "j = i") (auto simp: seats_distinct_def)
  qed
qed

lemma gw_inv_update:
  assumes "gw_inv c" and "seat_ok s"
    and "\<And>j. short_addr s \<noteq> 0 \<Longrightarrow> j < 11 \<Longrightarrow> j \<noteq> i \<Longrightarrow>
      short_addr (seats c ! j) \<noteq> short_addr s \<and>
      (short_addr (seats c ! j) \<noteq> 0 \<longrightarrow> seat_eui (seats c ! j) \<noteq> seat_eui s)"
  shows "gw_inv (c\<lparr>seats := (seats c)[i := s]\<rparr>)"
  using assms seats_distinct_update [of "seats c" s i]
  by (cases "i < 11") (auto simp: gw_inv_pool list_all_length nth_list_update)

text \<open>A live seat gets a new tier and a full lease.\<close>

lemma gw_inv_renew:
  assumes "gw_inv c" and "i < 11" and "short_addr (seats c ! i) \<noteq> 0"
  shows "gw_inv (c\<lparr>seats := (seats c)[i := (seats c ! i)\<lparr>tier := t, lease_remaining := 50\<rparr>]\<rparr>)"
  using gw_invD(1,2) [OF assms(1)] assms(2,3) seats_distinctD [OF gw_invD(3) [OF assms(1)], of i]
  by (intro gw_inv_update [OF assms(1)]) (auto simp: seat_ok_def)

lemma gw_inv_init [simp]: "gw_inv gw_core_init"
  by (simp add: gw_inv_def gw_core_init_def list_all_length seat_ok_def seats_distinct_def)

lemma grant_seat_inv:
  assumes "gw_inv c" and "i < 11" and "short_addr (seats c ! i) \<noteq> 0"
  shows "gw_inv (snd (gw_core_grant_seat c i t))"
  using gw_inv_renew [OF assms] by (simp add: gw_core_grant_seat_def)

text \<open>The seat the join has just filled: the state before the tier and lease are set is
  described by the fresh address and the first free index.\<close>

lemma join_new_seat:
  assumes "gw_inv c" and "length e = 8" and "find_seat_by_eui c e = None"
    and "first_index (\<lambda>s. short_addr s = 0) (seats c) = Some i"
  obtains a n where "i < 11" and "short_addr (seats c ! i) = 0" and "pool a" and "pool n"
    and "a \<notin> short_addr ` set (seats c)"
    and "gw_core_join c e t =
      (Some \<lparr>g_short_addr = a, g_slot_index = of_nat i, g_tier = t, g_lease = 50\<rparr>,
       c\<lparr>next_short_addr := n, seats := (seats c)[i :=
         \<lparr>short_addr = a, seat_eui = e, tier = t, lease_remaining = 50\<rparr>]\<rparr>)"
proof -
  note inv = gw_invD [OF assms(1)]
  obtain a c' where ac: "alloc_short_addr c = (a, c')" by (cases "alloc_short_addr c")
  from alloc_fresh [OF inv(4,1)] ac obtain n where n: "pool n"
    "c' = c\<lparr>next_short_addr := n\<rparr>" "find_seat_by_addr c a = None" "pool a" by auto
  from first_index_SomeD [OF assms(4)] inv(1) have i: "i < 11" "short_addr (seats c ! i) = 0"
    by simp_all
  have "a \<notin> short_addr ` set (seats c)"
    using n by (auto simp: find_by_addr_None pool_nat)
  moreover have "seats c ! i = zero_seat"
    using inv(2) [OF i(1)] i(2) by (simp add: seat_ok_def)
  ultimately show thesis
    using that i n ac assms(3,4) inv(1)
    by (simp add: gw_core_join_def gw_core_grant_seat_def zero_seat_def Let_def)
qed

lemma join_known:
  assumes "find_seat_by_eui c e = Some i"
  shows "gw_core_join c e t = gw_core_grant_seat c i t"
  using assms by (simp add: gw_core_join_def)

lemma join_full:
  assumes "find_seat_by_eui c e = None"
    and "first_index (\<lambda>s. short_addr s = 0) (seats c) = None"
  shows "gw_core_join c e t = (None, c)"
  using assms unfolding gw_core_join_def by (simp only: option.case)

lemma join_inv:
  assumes "gw_inv c" and "length e = 8"
  shows "gw_inv (snd (gw_core_join c e t))"
proof (cases "find_seat_by_eui c e")
  case (Some i)
  with find_by_eui_SomeD [OF Some] gw_invD(1) [OF assms(1)] show ?thesis
    by (simp add: join_known grant_seat_inv [OF assms(1)])
next
  case None
  show ?thesis
  proof (cases "first_index (\<lambda>s. short_addr s = 0) (seats c)")
    case (Some i)
    then show ?thesis
    proof (rule join_new_seat [OF assms None, where t = t])
      fix a n
      assume p: "i < 11" "pool a" "pool n" "a \<notin> short_addr ` set (seats c)"
        "gw_core_join c e t =
          (Some \<lparr>g_short_addr = a, g_slot_index = of_nat i, g_tier = t, g_lease = 50\<rparr>,
           c\<lparr>next_short_addr := n, seats := (seats c)[i :=
             \<lparr>short_addr = a, seat_eui = e, tier = t, lease_remaining = 50\<rparr>]\<rparr>)"
      have "gw_inv (c\<lparr>next_short_addr := n\<rparr>)"
        using assms(1) p(3) by (simp add: gw_inv_pool)
      moreover have "seat_ok \<lparr>short_addr = a, seat_eui = e, tier = t, lease_remaining = 50\<rparr>"
        using p(2) assms(2) by (auto simp: seat_ok_def pool_def)
      moreover have "short_addr (seats c ! j) \<noteq> a" if "j < 11" for j
        using p(4) that gw_invD(1) [OF assms(1)] by force
      moreover have "short_addr (seats c ! j) \<noteq> 0 \<longrightarrow> seat_eui (seats c ! j) \<noteq> e" if "j < 11" for j
        using None that gw_invD(1) [OF assms(1)] by (auto simp: find_by_eui_None)
      ultimately have "gw_inv (c\<lparr>next_short_addr := n, seats := (seats (c\<lparr>next_short_addr := n\<rparr>))[i :=
           \<lparr>short_addr = a, seat_eui = e, tier = t, lease_remaining = 50\<rparr>]\<rparr>)"
        by (intro gw_inv_update) auto
      with p(5) show ?thesis by simp
    qed
  next
    case None': None
    with None assms(1) show ?thesis by (simp add: join_full)
  qed
qed

lemma keepalive_inv:
  assumes "gw_inv c"
  shows "gw_inv (gw_core_keepalive c a t)"
  using assms gw_invD(1) [OF assms] gw_inv_renew [OF assms]
  by (auto simp: gw_core_keepalive_def split: option.splits dest!: find_by_addr_SomeD)

lemma release_inv:
  assumes "gw_inv c"
  shows "gw_inv (gw_core_release c a)"
  using assms gw_inv_update [OF assms, of zero_seat]
  by (auto simp: gw_core_release_def seat_ok_def split: option.splits)

lemma tick_seat_ok: "seat_ok s \<Longrightarrow> seat_ok (gw_core_tick_seat s)"
  by (auto simp: seat_ok_def gw_core_tick_seat_def Let_def word_le_nat_alt word_less_nat_alt
      unat_sub_if' word_unat_eq_iff split: if_splits)

lemma tick_seat_addr:
  "short_addr (gw_core_tick_seat s) \<noteq> 0 \<Longrightarrow>
     short_addr (gw_core_tick_seat s) = short_addr s \<and>
     seat_eui (gw_core_tick_seat s) = seat_eui s"
  by (auto simp: gw_core_tick_seat_def Let_def split: if_splits)

lemma tick_inv:
  assumes "gw_inv c"
  shows "gw_inv (gw_core_superframe_tick c)"
proof -
  have "seats_distinct (map gw_core_tick_seat (seats c))"
    unfolding seats_distinct_def
    using gw_invD(3) [OF assms] tick_seat_addr unfolding seats_distinct_def
    by (metis (no_types, lifting) length_map nth_map)
  with assms show ?thesis
    by (simp add: gw_inv_pool gw_core_superframe_tick_def list_all_length tick_seat_ok)
qed

section \<open>The lease map the table stands for\<close>

text \<open>
  What a tag may rely on, without seats or arrays: an EUI holds an address, a slot, a
  tier and a number of superframes.
\<close>

type_synonym lease_map = "u8 list \<rightharpoonup> u16 \<times> nat \<times> u8 \<times> nat"

definition leases :: "gw_core_ctx \<Rightarrow> lease_map" where
  "leases c e = map_option (\<lambda>i. let s = seats c ! i in
      (short_addr s, i, tier s, unat (lease_remaining s))) (find_seat_by_eui c e)"

datatype gw_event = GwJoin "u8 list" u8 | GwKeepalive u16 u8 | GwRelease u16 | GwTick

fun gw_handle :: "gw_core_ctx \<Rightarrow> gw_event \<Rightarrow> gw_core_ctx" where
  "gw_handle c (GwJoin e t) = snd (gw_core_join c e t)"
| "gw_handle c (GwKeepalive a t) = gw_core_keepalive c a t"
| "gw_handle c (GwRelease a) = gw_core_release c a"
| "gw_handle c GwTick = gw_core_superframe_tick c"

fun gw_event_ok :: "gw_event \<Rightarrow> bool" where
  "gw_event_ok (GwJoin e t) = (length e = UWB_FRAME_EUI_LEN)"
| "gw_event_ok _ = True"

definition lease_keepalive :: "lease_map \<Rightarrow> u16 \<Rightarrow> u8 \<Rightarrow> lease_map" where
  "lease_keepalive m a t = (\<lambda>e. map_option (\<lambda>(a', i, t', l).
     if a' = a then (a', i, t, 50) else (a', i, t', l)) (m e))"

definition lease_release :: "lease_map \<Rightarrow> u16 \<Rightarrow> lease_map" where
  "lease_release m a = (\<lambda>e. case m e of None \<Rightarrow> None
     | Some (a', r) \<Rightarrow> if a' = a then None else Some (a', r))"

definition lease_tick :: "lease_map \<Rightarrow> lease_map" where
  "lease_tick m = (\<lambda>e. case m e of None \<Rightarrow> None
     | Some (a, i, t, l) \<Rightarrow> if l \<le> 1 then None else Some (a, i, t, l - 1))"

definition lease_slots :: "lease_map \<Rightarrow> nat set" where
  "lease_slots m = {i. \<exists>e a t l. m e = Some (a, i, t, l)}"

definition lease_addrs :: "lease_map \<Rightarrow> u16 set" where
  "lease_addrs m = {a. \<exists>e r. m e = Some (a, r)}"

inductive lease_step :: "lease_map \<Rightarrow> gw_event \<Rightarrow> lease_map \<Rightarrow> bool" where
  rejoin: "m e = Some (a, i, t', l) \<Longrightarrow> lease_step m (GwJoin e t) (m(e \<mapsto> (a, i, t, 50)))"
| join_new: "m e = None \<Longrightarrow> i < 11 \<Longrightarrow> i \<notin> lease_slots m \<Longrightarrow> pool a \<Longrightarrow> a \<notin> lease_addrs m \<Longrightarrow>
    lease_step m (GwJoin e t) (m(e \<mapsto> (a, i, t, 50)))"
| join_refused: "m e = None \<Longrightarrow> lease_slots m = {..<11} \<Longrightarrow> lease_step m (GwJoin e t) m"
| keepalive: "lease_step m (GwKeepalive a t) (lease_keepalive m a t)"
| release: "lease_step m (GwRelease a) (lease_release m a)"
| tick: "lease_step m GwTick (lease_tick m)"

inductive_cases lease_joinE: "lease_step m (GwJoin e t) m'"

lemma leases_iff:
  assumes "gw_inv c"
  shows "leases c e = Some (a, i, t, l) \<longleftrightarrow> i < 11 \<and> a \<noteq> 0 \<and>
    short_addr (seats c ! i) = a \<and> seat_eui (seats c ! i) = e \<and>
    tier (seats c ! i) = t \<and> unat (lease_remaining (seats c ! i)) = l"
  using find_by_eui_seat [OF gw_invD(3) [OF assms], of i] gw_invD(1) [OF assms]
  by (auto simp: leases_def Let_def dest: find_by_eui_SomeD)

lemma leases_seat:
  "gw_inv c \<Longrightarrow> i < 11 \<Longrightarrow> short_addr (seats c ! i) \<noteq> 0 \<Longrightarrow>
     leases c (seat_eui (seats c ! i)) = Some (short_addr (seats c ! i), i, tier (seats c ! i),
       unat (lease_remaining (seats c ! i)))"
  by (simp add: leases_iff)

lemma leases_None: "leases c e = None \<longleftrightarrow> find_seat_by_eui c e = None"
  by (simp add: leases_def)

lemma lease_slots_iff:
  "gw_inv c \<Longrightarrow> i \<in> lease_slots (leases c) \<longleftrightarrow> i < 11 \<and> short_addr (seats c ! i) \<noteq> 0"
  by (auto simp: lease_slots_def leases_iff)

lemma lease_addrs_iff:
  "gw_inv c \<Longrightarrow> a \<in> lease_addrs (leases c) \<longleftrightarrow> a \<noteq> 0 \<and> a \<in> short_addr ` set (seats c)"
  using gw_invD(1) [of c] by (auto simp: lease_addrs_def leases_iff set_conv_nth image_iff)

lemma leases_fill:
  assumes "gw_inv c" and "gw_inv c'" and "i < 11" and "seats c' = (seats c)[i := s]"
    and "short_addr s \<noteq> 0" and "short_addr (seats c ! i) \<noteq> 0 \<Longrightarrow> seat_eui (seats c ! i) = seat_eui s"
  shows "leases c' = (leases c)(seat_eui s \<mapsto>
    (short_addr s, i, tier s, unat (lease_remaining s)))"
proof (rule ext)
  fix e
  have len: "length (seats c) = 11" using gw_invD(1) [OF assms(1)] .
  show "leases c' e = ((leases c)(seat_eui s \<mapsto>
      (short_addr s, i, tier s, unat (lease_remaining s)))) e"
  proof (cases "e = seat_eui s")
    case True
    with assms(2,3,4,5) len show ?thesis by (simp add: leases_iff)
  next
    case False
    have "leases c' e = leases c e"
    proof (rule option_eqI)
      fix v :: "u16 \<times> nat \<times> u8 \<times> nat"
      obtain a j t l where "v = (a, j, t, l)" by (cases v)
      with assms False len show "leases c' e = Some v \<longleftrightarrow> leases c e = Some v"
        by (cases "j = i") (auto simp: leases_iff)
    qed
    with False show ?thesis by simp
  qed
qed

lemma leases_cong_seats: "seats c' = seats c \<Longrightarrow> leases c' = leases c"
  by (simp add: leases_def find_seat_by_eui_def fun_eq_iff)

lemma leases_renew:
  assumes "gw_inv c" and "i < 11" and "short_addr (seats c ! i) \<noteq> 0"
  shows "leases (c\<lparr>seats := (seats c)[i := (seats c ! i)\<lparr>tier := t, lease_remaining := 50\<rparr>]\<rparr>) =
    (leases c)(seat_eui (seats c ! i) \<mapsto> (short_addr (seats c ! i), i, t, 50))"
  using leases_fill [OF assms(1) gw_inv_renew [OF assms] assms(2)] assms(3) by simp

section \<open>The table implements the lease map\<close>

lemma join_refines:
  assumes "gw_inv c" and "length e = 8"
  shows "lease_step (leases c) (GwJoin e t) (leases (snd (gw_core_join c e t)))"
proof (cases "find_seat_by_eui c e")
  case (Some i)
  from find_by_eui_SomeD [OF Some] gw_invD(1) [OF assms(1)] have i: "i < 11"
    "short_addr (seats c ! i) \<noteq> 0" "seat_eui (seats c ! i) = e" by simp_all
  from leases_renew [OF assms(1) i(1,2), of t] i(3)
  have "leases (snd (gw_core_join c e t)) = (leases c)(e \<mapsto> (short_addr (seats c ! i), i, t, 50))"
    by (simp add: join_known [OF Some] gw_core_grant_seat_def)
  moreover from leases_seat [OF assms(1) i(1,2)] i(3)
  have "leases c e = Some (short_addr (seats c ! i), i, tier (seats c ! i),
      unat (lease_remaining (seats c ! i)))" by simp
  ultimately show ?thesis by (simp add: rejoin)
next
  case None
  note e = None
  show ?thesis
  proof (cases "first_index (\<lambda>s. short_addr s = 0) (seats c)")
    case None
    then have "lease_slots (leases c) = {..<11}"
      using gw_invD(1) [OF assms(1)] by (auto simp: lease_slots_iff [OF assms(1)])
    with e show ?thesis
      by (simp add: join_full [OF e None] join_refused leases_None)
  next
    case (Some i)
    obtain a n where p: "i < 11" "short_addr (seats c ! i) = 0" "pool a"
      "a \<notin> short_addr ` set (seats c)" and
      j: "gw_core_join c e t =
        (Some \<lparr>g_short_addr = a, g_slot_index = of_nat i, g_tier = t, g_lease = 50\<rparr>,
         c\<lparr>next_short_addr := n, seats := (seats c)[i :=
           \<lparr>short_addr = a, seat_eui = e, tier = t, lease_remaining = 50\<rparr>]\<rparr>)"
      by (rule join_new_seat [OF assms e Some, of t])
    have "gw_inv (snd (gw_core_join c e t))" by (rule join_inv [OF assms])
    with p j leases_fill [OF assms(1) this p(1), of
        "\<lparr>short_addr = a, seat_eui = e, tier = t, lease_remaining = 50\<rparr>"]
    have "leases (snd (gw_core_join c e t)) = (leases c)(e \<mapsto> (a, i, t, 50))"
      using pool_nonzero [of a] by simp
    moreover have "i \<notin> lease_slots (leases c)" "a \<notin> lease_addrs (leases c)"
      using p by (simp_all add: lease_slots_iff [OF assms(1)] lease_addrs_iff [OF assms(1)])
    ultimately show ?thesis
      using e p by (simp add: lease_step.join_new leases_None)
  qed
qed

lemma keepalive_leases:
  assumes "gw_inv c"
  shows "leases (gw_core_keepalive c a t) = lease_keepalive (leases c) a t"
proof (cases "find_seat_by_addr c a")
  case None
  then have "a \<notin> lease_addrs (leases c)"
    by (auto simp: lease_addrs_iff [OF assms] find_by_addr_None)
  then have "lease_keepalive (leases c) a t = leases c"
    by (auto simp: lease_keepalive_def lease_addrs_def fun_eq_iff split: option.splits
        intro!: option.map_ident_strong)
  with None show ?thesis by (simp add: gw_core_keepalive_def)
next
  case (Some i)
  from find_by_addr_SomeD [OF Some] gw_invD(1) [OF assms] have i: "i < 11"
    "short_addr (seats c ! i) = a" "a \<noteq> 0" by simp_all
  have "((leases c)(seat_eui (seats c ! i) \<mapsto> (a, i, t, 50))) e = lease_keepalive (leases c) a t e"
    for e
  proof (cases "leases c e")
    case None
    with leases_seat [OF assms i(1)] i show ?thesis
      by (auto simp: lease_keepalive_def)
  next
    case (Some v)
    then obtain b j t' l where v: "leases c e = Some (b, j, t', l)" by (cases v) auto
    then have j: "j < 11" "b \<noteq> 0" "short_addr (seats c ! j) = b" "seat_eui (seats c ! j) = e"
      by (simp_all add: leases_iff [OF assms])
    have "j \<noteq> i \<Longrightarrow> b \<noteq> a \<and> seat_eui (seats c ! i) \<noteq> e"
      using j i seats_distinctD [OF gw_invD(3) [OF assms], of i j] gw_invD(1) [OF assms] by auto
    with v i j show ?thesis
      by (cases "j = i") (auto simp: lease_keepalive_def)
  qed
  then show ?thesis
    using Some leases_renew [OF assms i(1), of t] i
    by (simp add: gw_core_keepalive_def fun_eq_iff)
qed

lemma release_leases:
  assumes "gw_inv c"
  shows "leases (gw_core_release c a) = lease_release (leases c) a"
proof (rule ext, rule option_eqI)
  fix e and v :: "u16 \<times> nat \<times> u8 \<times> nat"
  obtain b j t l where v: "v = (b, j, t, l)" by (cases v)
  have "gw_inv (gw_core_release c a)" by (rule release_inv [OF assms])
  then show "leases (gw_core_release c a) e = Some v \<longleftrightarrow> lease_release (leases c) a e = Some v"
  proof (cases "find_seat_by_addr c a")
    case None
    then have "a \<notin> lease_addrs (leases c)"
      by (auto simp: lease_addrs_iff [OF assms] find_by_addr_None)
    then show ?thesis
      using None by (cases "leases c e")
        (auto simp: gw_core_release_def lease_release_def lease_addrs_def split: if_splits)
  next
    case (Some i)
    from find_by_addr_SomeD [OF Some] gw_invD(1) [OF assms] have i: "i < 11" "length (seats c) = 11"
      "short_addr (seats c ! i) = a" "a \<noteq> 0" by simp_all
    have "leases (gw_core_release c a) e = Some v \<longleftrightarrow> leases c e = Some v \<and> j \<noteq> i"
      using release_inv [OF assms, of a] i Some assms
      by (cases "j = i") (auto simp: gw_core_release_def leases_iff v)
    also have "\<dots> \<longleftrightarrow> leases c e = Some v \<and> b \<noteq> a"
      using i seats_distinctD(1) [OF gw_invD(3) [OF assms], of i j]
      by (auto simp: leases_iff [OF assms] v)
    also have "\<dots> \<longleftrightarrow> lease_release (leases c) a e = Some v"
      by (auto simp: lease_release_def v split: option.splits if_splits)
    finally show ?thesis .
  qed
qed

lemma tick_seat_cases:
  assumes "seat_ok s"
  shows "short_addr s \<noteq> 0 \<Longrightarrow> 1 < unat (lease_remaining s) \<Longrightarrow>
      gw_core_tick_seat s = s\<lparr>lease_remaining := lease_remaining s - 1\<rparr> \<and>
      unat (lease_remaining s - 1) = unat (lease_remaining s) - 1"
    and "short_addr s = 0 \<or> unat (lease_remaining s) \<le> 1 \<Longrightarrow> gw_core_tick_seat s = zero_seat"
  using assms
  by (auto simp: gw_core_tick_seat_def seat_ok_def Let_def word_less_nat_alt unat_sub_if'
      word_unat_eq_iff)

lemma lease_tick_iff:
  "lease_tick m e = Some (a, i, t, l) \<longleftrightarrow> (\<exists>k. m e = Some (a, i, t, k) \<and> 1 < k \<and> l = k - 1)"
  by (auto simp: lease_tick_def split: option.splits if_splits)

lemma tick_leases:
  assumes "gw_inv c"
  shows "leases (gw_core_superframe_tick c) = lease_tick (leases c)"
proof (rule ext, rule option_eqI)
  fix e and v :: "u16 \<times> nat \<times> u8 \<times> nat"
  obtain a j t l where v: "v = (a, j, t, l)" by (cases v)
  have "leases (gw_core_superframe_tick c) e = Some v \<longleftrightarrow>
      (j < 11 \<and> a \<noteq> 0 \<and> short_addr (seats c ! j) = a \<and> seat_eui (seats c ! j) = e \<and>
       tier (seats c ! j) = t \<and> 1 < unat (lease_remaining (seats c ! j)) \<and>
       unat (lease_remaining (seats c ! j)) - 1 = l)"
  proof (cases "j < 11 \<and> short_addr (seats c ! j) \<noteq> 0 \<and> 1 < unat (lease_remaining (seats c ! j))")
    case True
    then show ?thesis
      using gw_invD(1) [OF assms] tick_inv [OF assms]
        tick_seat_cases(1) [OF gw_invD(2) [OF assms, of j]]
      by (auto simp: leases_iff v gw_core_superframe_tick_def)
  next
    case False
    then have "j < 11 \<Longrightarrow> gw_core_tick_seat (seats c ! j) = zero_seat"
      using tick_seat_cases(2) [OF gw_invD(2) [OF assms, of j]] by linarith
    with False show ?thesis
      using gw_invD(1) [OF assms] tick_inv [OF assms]
      by (auto simp: leases_iff v gw_core_superframe_tick_def)
  qed
  also have "\<dots> \<longleftrightarrow> lease_tick (leases c) e = Some v"
    by (auto simp: lease_tick_iff v leases_iff [OF assms])
  finally show "leases (gw_core_superframe_tick c) e = Some v \<longleftrightarrow>
      lease_tick (leases c) e = Some v" .
qed

lemma gw_handle_inv: "gw_inv c \<Longrightarrow> gw_event_ok ev \<Longrightarrow> gw_inv (gw_handle c ev)"
  by (cases ev) (simp_all add: join_inv keepalive_inv release_inv tick_inv)

lemma gw_handle_refines:
  "gw_inv c \<Longrightarrow> gw_event_ok ev \<Longrightarrow> lease_step (leases c) ev (leases (gw_handle c ev))"
  by (cases ev) (simp_all add: join_refines keepalive_leases release_leases tick_leases
      lease_step.intros)

section \<open>Expiry on the lease map\<close>

definition ticks :: "gw_event list \<Rightarrow> nat" where
  "ticks es = length (filter (\<lambda>ev. ev = GwTick) es)"

text \<open>Neither a join of \<open>e\<close> nor a keepalive from \<open>a\<close> is among the events.\<close>

definition silent :: "u8 list \<Rightarrow> u16 \<Rightarrow> gw_event list \<Rightarrow> bool" where
  "silent e a es \<longleftrightarrow> list_all (\<lambda>ev. case ev of GwJoin e' _ \<Rightarrow> e' \<noteq> e
     | GwKeepalive a' _ \<Rightarrow> a' \<noteq> a | _ \<Rightarrow> True) es"

lemma silent_simps [simp]:
  "silent e a []"
  "silent e a (GwJoin e' t # es) \<longleftrightarrow> e' \<noteq> e \<and> silent e a es"
  "silent e a (GwKeepalive a' t # es) \<longleftrightarrow> a' \<noteq> a \<and> silent e a es"
  "silent e a (GwRelease b # es) = silent e a es"
  "silent e a (GwTick # es) = silent e a es"
  by (simp_all add: silent_def)

lemma ticks_simps [simp]:
  "ticks [] = 0"
  "ticks (GwTick # es) = Suc (ticks es)"
  "ticks (GwJoin e t # es) = ticks es"
  "ticks (GwKeepalive b t # es) = ticks es"
  "ticks (GwRelease b # es) = ticks es"
  by (simp_all add: ticks_def)

definition lease_within :: "lease_map \<Rightarrow> u8 list \<Rightarrow> u16 \<Rightarrow> nat \<Rightarrow> bool" where
  "lease_within m e a k \<longleftrightarrow> (\<forall>b i t l. m e = Some (b, i, t, l) \<longrightarrow> b = a \<and> l \<le> k \<and> 0 < k)"

lemma lease_step_within:
  assumes "lease_step m ev m'" and "silent e a [ev]" and "lease_within m e a k"
  shows "lease_within m' e a (k - ticks [ev])"
  using assms
  by cases (fastforce simp: lease_within_def lease_keepalive_def lease_release_def lease_tick_def
      split: option.splits if_splits)+

text \<open>A lease is kept: same address and slot, as long as no release names it and the ticks
  leave something of it.\<close>

lemma lease_step_keeps:
  assumes "lease_step m ev m'" and "m e = Some (a, i, t, l)" and "ev \<noteq> GwRelease a"
    and "ticks [ev] < l" and "l \<le> 50"
  shows "\<exists>t' l'. m' e = Some (a, i, t', l') \<and> l - ticks [ev] \<le> l' \<and> l' \<le> 50"
  using assms
  by cases (auto simp: lease_keepalive_def lease_release_def lease_tick_def)

section \<open>The contract of a seat table\<close>

locale seat_table =
  fixes handle :: "'s \<Rightarrow> gw_event \<Rightarrow> 's"
    and inv :: "'s \<Rightarrow> bool"
    and held :: "'s \<Rightarrow> lease_map"
    and slotmap :: "'s \<Rightarrow> u16 list"
    and eui_of :: "'s \<Rightarrow> u16 \<Rightarrow> u8 list option"
  assumes handle_inv: "inv c \<Longrightarrow> gw_event_ok ev \<Longrightarrow> inv (handle c ev)"
    and handle_step: "inv c \<Longrightarrow> gw_event_ok ev \<Longrightarrow> lease_step (held c) ev (held (handle c ev))"
    and held_bounds: "inv c \<Longrightarrow> held c e = Some (a, i, t, l) \<Longrightarrow>
      pool a \<and> i < 11 \<and> 1 \<le> l \<and> l \<le> 50"
    and held_inj: "inv c \<Longrightarrow> held c e = Some (a, r) \<Longrightarrow> held c e' = Some (a, r') \<Longrightarrow> e = e'"
    and slotmap_len: "inv c \<Longrightarrow> length (slotmap c) = 11"
    and slotmap_nth: "inv c \<Longrightarrow> i < 11 \<Longrightarrow> slotmap c ! i = a \<Longrightarrow> a \<noteq> UWB_FRAME_ADDR_BCAST \<Longrightarrow>
      \<exists>e t l. held c e = Some (a, i, t, l)"
    and slotmap_held: "inv c \<Longrightarrow> held c e = Some (a, i, t, l) \<Longrightarrow> slotmap c ! i = a"
    and eui_of_iff: "inv c \<Longrightarrow> eui_of c a = Some e \<longleftrightarrow> (\<exists>r. held c e = Some (a, r))"
begin

lemma run_inv: "inv c \<Longrightarrow> list_all gw_event_ok es \<Longrightarrow> inv (foldl handle c es)"
  by (induction es arbitrary: c) (simp_all add: handle_inv)

lemma run_within:
  "inv c \<Longrightarrow> list_all gw_event_ok es \<Longrightarrow> silent e a es \<Longrightarrow> lease_within (held c) e a k \<Longrightarrow>
     lease_within (held (foldl handle c es)) e a (k - ticks es)"
proof (induction es arbitrary: c k)
  case (Cons ev es)
  then have ev: "silent e a [ev]" "silent e a es" "gw_event_ok ev" "list_all gw_event_ok es"
    by (simp_all add: silent_def)
  have t: "k - ticks (ev # es) = k - ticks [ev] - ticks es"
    by (cases ev) simp_all
  have "lease_within (held (handle c ev)) e a (k - ticks [ev])"
    by (rule lease_step_within [OF handle_step [OF Cons.prems(1) ev(3)] ev(1) Cons.prems(4)])
  from Cons.IH [OF handle_inv [OF Cons.prems(1) ev(3)] ev(4,2) this] t show ?case
    by (simp only: foldl_Cons)
qed simp

lemma run_expires:
  assumes "inv c" and "list_all gw_event_ok es" and "held c e = Some (a, i, t, l)"
    and "silent e a es" and "l \<le> ticks es"
  shows "held (foldl handle c es) e = None"
proof -
  have "lease_within (held c) e a l"
    using held_bounds [OF assms(1,3)] assms(3) by (simp add: lease_within_def)
  from run_within [OF assms(1,2,4) this] assms(5) show ?thesis
    by (cases "held (foldl handle c es) e") (auto simp: lease_within_def)
qed

lemma run_keeps:
  "inv c \<Longrightarrow> list_all gw_event_ok es \<Longrightarrow> held c e = Some (a, i, t, l) \<Longrightarrow>
   GwRelease a \<notin> set es \<Longrightarrow> ticks es < l \<Longrightarrow>
     \<exists>t' l'. held (foldl handle c es) e = Some (a, i, t', l') \<and> l - ticks es \<le> l'"
proof (induction es arbitrary: c t l)
  case (Cons ev es)
  have t: "ticks (ev # es) = ticks [ev] + ticks es"
    by (cases ev) simp_all
  have ok: "gw_event_ok ev" "list_all gw_event_ok es"
    using Cons.prems(2) by simp_all
  have "\<exists>t' l'. held (handle c ev) e = Some (a, i, t', l') \<and> l - ticks [ev] \<le> l' \<and> l' \<le> 50"
    using Cons.prems(4,5) t held_bounds [OF Cons.prems(1,3)]
    by (intro lease_step_keeps [OF handle_step [OF Cons.prems(1) ok(1)] Cons.prems(3)]) auto
  then obtain t' l' where l': "held (handle c ev) e = Some (a, i, t', l')" "l - ticks [ev] \<le> l'"
    by blast
  from Cons.IH [OF handle_inv [OF Cons.prems(1) ok(1)] ok(2) l'(1)] Cons.prems(4,5) l'(2) t
  show ?case by fastforce
qed simp

text \<open>A tag finds its own slot, and only its own, in the slot map.\<close>

lemma find_own_slot:
  assumes "inv c" and "held c e = Some (a, i, t, l)"
  shows "uwb_frame_beacon_find_addr (Some (slotmap c)) 11 a = Some i"
proof -
  have a: "a \<noteq> UWB_FRAME_ADDR_BCAST" "i < 11"
    using held_bounds [OF assms] by (auto simp: pool_nat)
  have "j = i" if "j < 11" "slotmap c ! j = a" for j
  proof -
    from slotmap_nth [OF assms(1) that a(1)] obtain e' t' l' where
      "held c e' = Some (a, j, t', l')" by blast
    with held_inj [OF assms(1) this assms(2)] assms(2) show ?thesis by simp
  qed
  then have "\<forall>j<i. slotmap c ! j \<noteq> a"
    using a(2) by (metis order.strict_trans less_irrefl)
  then show ?thesis
    using a(2) slotmap_len [OF assms(1)] slotmap_held [OF assms]
    by (simp add: beacon_find_addr_iff)
qed

end

lemma gw_find_eui_iff:
  assumes "gw_inv c"
  shows "gw_core_find_eui c a = Some e \<longleftrightarrow> (\<exists>r. leases c e = Some (a, r))"
proof
  assume "gw_core_find_eui c a = Some e"
  then show "\<exists>r. leases c e = Some (a, r)"
    using leases_seat [OF assms] gw_invD(1) [OF assms]
    by (auto simp: gw_core_find_eui_def dest!: find_by_addr_SomeD)
next
  assume "\<exists>r. leases c e = Some (a, r)"
  then show "gw_core_find_eui c a = Some e"
    using find_by_addr_seat [OF gw_invD(3) [OF assms]] gw_invD(1) [OF assms]
    by (auto simp: gw_core_find_eui_def leases_iff [OF assms])
qed

interpretation gw: seat_table gw_handle gw_inv leases gw_core_build_slotmap gw_core_find_eui
proof (unfold_locales, goal_cases)
  case (3 c e a i t l)
  then show ?case
    using gw_invD(2) [of c i]
    by (auto simp: leases_iff seat_ok_def pool_def word_le_nat_alt word_less_nat_alt)
next
  case (4 c e a r e' r')
  then show ?case
    using gw_find_eui_iff [OF 4(1), of a] by (metis option.inject)
next
  case (6 c i a)
  then show ?case
    using gw_invD(1) [of c] leases_seat [OF 6(1,2)]
    by (auto simp: gw_core_build_slotmap_def split: if_splits)
next
  case (7 c e a i t l)
  then show ?case
    using gw_invD(1) [of c] by (auto simp: gw_core_build_slotmap_def leases_iff)
qed (simp_all add: gw_handle_inv gw_handle_refines gw_core_build_slotmap_def gw_invD(1)
    gw_find_eui_iff)

text \<open>What a join answers.\<close>

lemma join_answer:
  assumes "gw_inv c" and "length e = 8"
  shows "case gw_core_join c e t of
      (None, c') \<Rightarrow> c' = c \<and> leases c e = None \<and> lease_slots (leases c) = {..<11}
    | (Some g, c') \<Rightarrow> leases c' e = Some (g_short_addr g, unat (g_slot_index g), t, 50) \<and>
        g_tier g = t \<and> g_lease g = 50 \<and>
        (\<forall>e'. e' \<noteq> e \<longrightarrow> leases c' e' = leases c e') \<and>
        (case leases c e of
           Some (a, i, _) \<Rightarrow> g_short_addr g = a \<and> unat (g_slot_index g) = i
         | None \<Rightarrow> g_short_addr g \<notin> lease_addrs (leases c))"
proof (cases "find_seat_by_eui c e")
  case (Some i)
  from find_by_eui_SomeD [OF Some] gw_invD(1) [OF assms(1)] have i: "i < 11"
    "short_addr (seats c ! i) \<noteq> 0" "seat_eui (seats c ! i) = e" by simp_all
  with leases_renew [OF assms(1) i(1,2), of t] leases_seat [OF assms(1) i(1,2)] show ?thesis
    by (simp add: join_known [OF Some] gw_core_grant_seat_def Let_def)
next
  case None
  note e = None
  show ?thesis
  proof (cases "first_index (\<lambda>s. short_addr s = 0) (seats c)")
    case None
    then have "lease_slots (leases c) = {..<11}"
      using gw_invD(1) [OF assms(1)] by (auto simp: lease_slots_iff [OF assms(1)])
    with e show ?thesis
      by (simp add: join_full [OF e None] leases_None)
  next
    case (Some i)
    obtain a n where p: "i < 11" "short_addr (seats c ! i) = 0" "pool a"
      "a \<notin> short_addr ` set (seats c)" and
      j: "gw_core_join c e t =
        (Some \<lparr>g_short_addr = a, g_slot_index = of_nat i, g_tier = t, g_lease = 50\<rparr>,
         c\<lparr>next_short_addr := n, seats := (seats c)[i :=
           \<lparr>short_addr = a, seat_eui = e, tier = t, lease_remaining = 50\<rparr>]\<rparr>)"
      by (rule join_new_seat [OF assms e Some, of t])
    have "gw_inv (snd (gw_core_join c e t))" by (rule join_inv [OF assms])
    with p j leases_fill [OF assms(1) this p(1), of
        "\<lparr>short_addr = a, seat_eui = e, tier = t, lease_remaining = 50\<rparr>"]
    have "leases (snd (gw_core_join c e t)) = (leases c)(e \<mapsto> (a, i, t, 50))"
      using pool_nonzero [of a] by simp
    moreover have "leases c e = None" using e by (simp add: leases_None)
    ultimately show ?thesis
      using p j by (simp add: lease_addrs_iff [OF assms(1)])
  qed
qed

section \<open>Properties\<close>

text \<open>The state after a sequence of events since power-up.\<close>

definition gw_run :: "gw_event list \<Rightarrow> gw_core_ctx" where
  "gw_run es = foldl gw_handle gw_core_init es"

lemma gw_run_inv: "list_all gw_event_ok es \<Longrightarrow> gw_inv (gw_run es)"
  unfolding gw_run_def by (rule gw.run_inv) simp

lemma gw_run_append: "gw_run (pre @ es) = foldl gw_handle (gw_run pre) es"
  by (simp add: gw_run_def)

lemma one_join: "leases (gw_run [GwJoin [1, 2, 3, 4, 5, 6, 7, 8] 2]) [1, 2, 3, 4, 5, 6, 7, 8] =
    Some (256, 0, 2, 50)"
  by code_simp

text \<open>C1: a tag that neither joins again nor sends a keepalive loses its seat: once as many
  superframes have passed as its lease had left, no seat is held for its EUI, whatever the
  other tags did.\<close>

theorem gw_lease_expires:
  assumes "list_all gw_event_ok (pre @ es)" and "leases (gw_run pre) e = Some (a, i, t, l)"
    and "silent e a es" and "l \<le> ticks es"
  shows "leases (gw_run (pre @ es)) e = None"
  using gw.run_expires [of "gw_run pre" es e a i t l] gw_run_inv [of pre] assms
  by (simp add: gw_run_append)

lemma gw_lease_expires_witness:
  "leases (gw_run ([GwJoin [1, 2, 3, 4, 5, 6, 7, 8] 2] @ replicate 50 GwTick)) [1, 2, 3, 4, 5, 6, 7, 8]
     = None"
  by (rule gw_lease_expires [OF _ one_join]) code_simp+

text \<open>A seat is never lost early: while the released addresses do not name it and fewer
  superframes pass than the lease has left, the tag keeps its address and its slot, and the
  lease has lost at most those superframes.\<close>

theorem gw_lease_kept:
  assumes "list_all gw_event_ok (pre @ es)" and "leases (gw_run pre) e = Some (a, i, t, l)"
    and "GwRelease a \<notin> set es" and "ticks es < l"
  shows "\<exists>t' l'. leases (gw_run (pre @ es)) e = Some (a, i, t', l') \<and> l - ticks es \<le> l'"
  using gw.run_keeps [of "gw_run pre" es e a i t l] gw_run_inv [of pre] assms
  by (simp add: gw_run_append)

lemma gw_lease_kept_witness:
  "\<exists>t' l'. leases (gw_run ([GwJoin [1, 2, 3, 4, 5, 6, 7, 8] 2] @ [GwTick, GwJoin [8, 7, 6, 5, 4, 3, 2, 1] 0, GwRelease 257]))
     [1, 2, 3, 4, 5, 6, 7, 8] = Some (256, 0, t', l') \<and>
     50 - ticks [GwTick, GwJoin [8, 7, 6, 5, 4, 3, 2, 1] 0, GwRelease 257] \<le> l'"
  by (rule gw_lease_kept [OF _ one_join]) (simp_all add: numeral_eq_Suc)

text \<open>C27: every state the gateway reaches satisfies the seat-table invariant (eleven seats,
  distinct live addresses and EUIs, addresses in the pool, leases of 1 to 50), and each event
  it handles is a step of the abstract lease table.\<close>

theorem gw_refines_leases:
  assumes "list_all gw_event_ok (es @ [ev])"
  shows "gw_inv (gw_run es) \<and> lease_step (leases (gw_run es)) ev (leases (gw_run (es @ [ev])))"
  using gw_run_inv [of es] gw_handle_refines [of "gw_run es" ev] assms
  by (simp add: gw_run_append)

lemma gw_refines_leases_witness:
  "gw_inv (gw_run [GwJoin [1, 2, 3, 4, 5, 6, 7, 8] 2]) \<and>
     lease_step (leases (gw_run [GwJoin [1, 2, 3, 4, 5, 6, 7, 8] 2])) GwTick
       (leases (gw_run ([GwJoin [1, 2, 3, 4, 5, 6, 7, 8] 2] @ [GwTick])))"
  by (rule gw_refines_leases) simp

text \<open>What a join answers: a tag that holds a seat gets the same address and slot back; a new
  one gets an address nobody holds, or nothing exactly when all eleven seats are taken; the
  grant reports the lease that was entered and no other tag's lease changes.\<close>

theorem gw_join_grants:
  assumes "list_all gw_event_ok es" and "length e = UWB_FRAME_EUI_LEN"
  shows "case gw_core_join (gw_run es) e t of
      (None, c') \<Rightarrow> c' = gw_run es \<and> leases (gw_run es) e = None \<and>
        lease_slots (leases (gw_run es)) = {..<11}
    | (Some g, c') \<Rightarrow> leases c' e = Some (g_short_addr g, unat (g_slot_index g), t, 50) \<and>
        g_tier g = t \<and> g_lease g = 50 \<and>
        (\<forall>e'. e' \<noteq> e \<longrightarrow> leases c' e' = leases (gw_run es) e') \<and>
        (case leases (gw_run es) e of
           Some (a, i, _) \<Rightarrow> g_short_addr g = a \<and> unat (g_slot_index g) = i
         | None \<Rightarrow> g_short_addr g \<notin> lease_addrs (leases (gw_run es)))"
  by (rule join_answer [OF gw_run_inv [OF assms(1)] assms(2)])

lemma gw_join_grants_witness:
  "case gw_core_join (gw_run [GwTick]) [1, 2, 3, 4, 5, 6, 7, 8] 1 of
      (None, c') \<Rightarrow> c' = gw_run [GwTick] \<and> leases (gw_run [GwTick]) [1, 2, 3, 4, 5, 6, 7, 8] = None \<and>
        lease_slots (leases (gw_run [GwTick])) = {..<11}
    | (Some g, c') \<Rightarrow> leases c' [1, 2, 3, 4, 5, 6, 7, 8] = Some (g_short_addr g, unat (g_slot_index g), 1, 50) \<and>
        g_tier g = 1 \<and> g_lease g = 50 \<and>
        (\<forall>e'. e' \<noteq> [1, 2, 3, 4, 5, 6, 7, 8] \<longrightarrow> leases c' e' = leases (gw_run [GwTick]) e') \<and>
        (case leases (gw_run [GwTick]) [1, 2, 3, 4, 5, 6, 7, 8] of
           Some (a, i, _) \<Rightarrow> g_short_addr g = a \<and> unat (g_slot_index g) = i
         | None \<Rightarrow> g_short_addr g \<notin> lease_addrs (leases (gw_run [GwTick])))"
  by (rule gw_join_grants) simp_all

end
