(* ===== verification/AposFrame.thy ===== *)
theory AposFrame
  imports FrameCodec
begin

text \<open>
  The survey codec, src/apos_frame.c and .h: one message type with a subtype byte. The
  builders and parsers follow the file's order; the conventions are those of the shared
  codec (\<open>outs\<close>: no out pointer is NULL). A signed \<open>mean_mm\<close> is an \<open>int\<close> that the wire
  carries as its 32-bit two's complement pattern.
\<close>

abbreviation (input) APOS_FRAME_TYPE :: u8 where "APOS_FRAME_TYPE \<equiv> 0xEB"
abbreviation (input) APOS_SUB_SURVEY_BEGIN :: u8 where "APOS_SUB_SURVEY_BEGIN \<equiv> 1"
abbreviation (input) APOS_SUB_ENUM_RSP :: u8 where "APOS_SUB_ENUM_RSP \<equiv> 2"
abbreviation (input) APOS_SUB_RANGE_CMD :: u8 where "APOS_SUB_RANGE_CMD \<equiv> 3"
abbreviation (input) APOS_SUB_RANGE_RSP :: u8 where "APOS_SUB_RANGE_RSP \<equiv> 4"
abbreviation (input) APOS_SUB_SETPOS :: u8 where "APOS_SUB_SETPOS \<equiv> 5"
abbreviation (input) APOS_SUB_SETPOS_ACK :: u8 where "APOS_SUB_SETPOS_ACK \<equiv> 6"
abbreviation (input) APOS_SUB_SURVEY_END :: u8 where "APOS_SUB_SURVEY_END \<equiv> 7"
abbreviation (input) APOS_HDR_LEN :: nat where "APOS_HDR_LEN \<equiv> 11"
abbreviation (input) APOS_LEN_SURVEY_BEGIN :: nat where "APOS_LEN_SURVEY_BEGIN \<equiv> 15"
abbreviation (input) APOS_LEN_ENUM_RSP :: nat where "APOS_LEN_ENUM_RSP \<equiv> 34"
abbreviation (input) APOS_LEN_RANGE_CMD :: nat where "APOS_LEN_RANGE_CMD \<equiv> 16"
abbreviation (input) APOS_LEN_RANGE_RSP :: nat where "APOS_LEN_RANGE_RSP \<equiv> 22"
abbreviation (input) APOS_LEN_SETPOS :: nat where "APOS_LEN_SETPOS \<equiv> 25"
abbreviation (input) APOS_LEN_SETPOS_ACK :: nat where "APOS_LEN_SETPOS_ACK \<equiv> 26"
abbreviation (input) APOS_LEN_SURVEY_END :: nat where "APOS_LEN_SURVEY_END \<equiv> 13"
abbreviation (input) APOS_LEN_MAX :: nat where "APOS_LEN_MAX \<equiv> 34"
abbreviation (input) APOS_ADDR_BCAST :: u16 where "APOS_ADDR_BCAST \<equiv> 0xFFFF"
abbreviation (input) APOS_EUI_LEN :: nat where "APOS_EUI_LEN \<equiv> 8"

type_synonym xyz = "f32 \<times> f32 \<times> f32"
type_synonym apos_build = "(errno + nat) \<times> u8 list option"

section \<open>Header and helpers\<close>

definition put_xyz :: "u8 list \<Rightarrow> nat \<Rightarrow> f32 \<Rightarrow> f32 \<Rightarrow> f32 \<Rightarrow> u8 list" where
  "put_xyz p o' x y z = put_f32 (put_f32 (put_f32 p o' x) (o' + 4) y) (o' + 8) z"

definition get_xyz :: "u8 list \<Rightarrow> nat \<Rightarrow> xyz" where
  "get_xyz p o' = (get_f32 p o', get_f32 p (o' + 4), get_f32 p (o' + 8))"

definition apos_write_hdr ::
  "u8 list option \<Rightarrow> nat \<Rightarrow> nat \<Rightarrow> u16 \<Rightarrow> u16 \<Rightarrow> u8 \<Rightarrow> errno + u8 list" where
  "apos_write_hdr buf buf_len need dest src subtype =
     (case buf of
        None \<Rightarrow> Inl EINVAL
      | Some b \<Rightarrow>
          if buf_len < need then Inl EMSGSIZE
          else
            let b = put_u8 b 0 0x41;
                b = put_u8 b 1 0x88;
                b = put_u8 b 2 0;
                b = put_u8 b 3 0xCA;
                b = put_u8 b 4 0xDE;
                b = put_u16 b 5 dest;
                b = put_u16 b 7 src;
                b = put_u8 b 9 APOS_FRAME_TYPE
            in Inr (put_u8 b 10 subtype))"

definition known_subtype :: "u8 \<Rightarrow> bool" where
  "known_subtype s \<longleftrightarrow> s \<ge> APOS_SUB_SURVEY_BEGIN \<and> s \<le> APOS_SUB_SURVEY_END"

definition apos_frame_is_apos :: "u8 list option \<Rightarrow> nat \<Rightarrow> bool" where
  "apos_frame_is_apos buf len =
     (case buf of
        None \<Rightarrow> False
      | Some b \<Rightarrow>
          if len < APOS_HDR_LEN then False
          else if b ! 0 \<noteq> 0x41 \<or> b ! 1 \<noteq> 0x88 then False
          else if b ! 3 \<noteq> 0xCA \<or> b ! 4 \<noteq> 0xDE then False
          else if b ! 9 \<noteq> APOS_FRAME_TYPE then False
          else known_subtype (b ! 10))"

definition apos_frame_subtype :: "u8 list \<Rightarrow> u8" where
  "apos_frame_subtype b = b ! 10"

definition apos_frame_src :: "u8 list \<Rightarrow> u16" where
  "apos_frame_src b = get_u16 b 7"

definition apos_frame_dest :: "u8 list \<Rightarrow> u16" where
  "apos_frame_dest b = get_u16 b 5"

definition apos_frame_set_seq :: "u8 list \<Rightarrow> u8 \<Rightarrow> u8 list" where
  "apos_frame_set_seq b sq = put_u8 b 2 sq"

definition parse_check :: "u8 list option \<Rightarrow> nat \<Rightarrow> u8 \<Rightarrow> nat \<Rightarrow> errno option" where
  "parse_check buf len subtype expect =
     (if \<not> apos_frame_is_apos buf len then Some EINVAL
      else if the buf ! 10 \<noteq> subtype \<or> len \<noteq> expect then Some EINVAL
      else None)"

section \<open>SURVEY_BEGIN\<close>

definition apos_frame_survey_begin_build ::
  "u8 list option \<Rightarrow> nat \<Rightarrow> u16 \<Rightarrow> u16 \<Rightarrow> u16 \<Rightarrow> apos_build" where
  "apos_frame_survey_begin_build buf buf_len src session window_s =
     (case apos_write_hdr buf buf_len APOS_LEN_SURVEY_BEGIN APOS_ADDR_BCAST src APOS_SUB_SURVEY_BEGIN of
        Inl rc \<Rightarrow> (Inl rc, buf)
      | Inr b \<Rightarrow>
          let b = put_u16 b 11 session
          in (Inr APOS_LEN_SURVEY_BEGIN, Some (put_u16 b 13 window_s)))"

definition apos_frame_parse_survey_begin ::
  "u8 list option \<Rightarrow> nat \<Rightarrow> bool \<Rightarrow> errno + (u16 \<times> u16)" where
  "apos_frame_parse_survey_begin buf len outs =
     (case parse_check buf len APOS_SUB_SURVEY_BEGIN APOS_LEN_SURVEY_BEGIN of
        Some rc \<Rightarrow> Inl rc
      | None \<Rightarrow>
          if \<not> outs then Inl EINVAL
          else let b = the buf in
            Inr (get_u16 b 11, get_u16 b 13))"

section \<open>ENUM_RSP\<close>

definition apos_frame_enum_rsp_build ::
  "u8 list option \<Rightarrow> nat \<Rightarrow> u16 \<Rightarrow> u16 \<Rightarrow> u16 \<Rightarrow> u8 list option \<Rightarrow> bool \<Rightarrow> f32 \<Rightarrow> f32 \<Rightarrow> f32 \<Rightarrow> apos_build" where
  "apos_frame_enum_rsp_build buf buf_len src dest session eui pos_valid x y z =
     (case eui of
       None \<Rightarrow> (Inl EINVAL, buf)
     | Some e \<Rightarrow>
     (case apos_write_hdr buf buf_len APOS_LEN_ENUM_RSP dest src APOS_SUB_ENUM_RSP of
        Inl rc \<Rightarrow> (Inl rc, buf)
      | Inr b \<Rightarrow>
          let b = put_u16 b 11 session;
              b = put_bytes b 13 (take APOS_EUI_LEN e);
              b = put_u8 b 21 (if pos_valid then 1 else 0)
          in (Inr APOS_LEN_ENUM_RSP, Some (put_xyz b 22 x y z))))"

definition apos_frame_parse_enum_rsp ::
  "u8 list option \<Rightarrow> nat \<Rightarrow> bool \<Rightarrow> errno + (u16 \<times> u8 list \<times> bool \<times> xyz)" where
  "apos_frame_parse_enum_rsp buf len outs =
     (case parse_check buf len APOS_SUB_ENUM_RSP APOS_LEN_ENUM_RSP of
        Some rc \<Rightarrow> Inl rc
      | None \<Rightarrow>
          if \<not> outs then Inl EINVAL
          else let b = the buf in
            Inr (get_u16 b 11, get_bytes b 13 APOS_EUI_LEN, b ! 21 \<noteq> 0, get_xyz b 22))"

section \<open>RANGE_CMD\<close>

definition apos_frame_range_cmd_build ::
  "u8 list option \<Rightarrow> nat \<Rightarrow> u16 \<Rightarrow> u16 \<Rightarrow> u16 \<Rightarrow> u16 \<Rightarrow> u8 \<Rightarrow> apos_build" where
  "apos_frame_range_cmd_build buf buf_len src dest session peer_addr n_exchanges =
     (case apos_write_hdr buf buf_len APOS_LEN_RANGE_CMD dest src APOS_SUB_RANGE_CMD of
        Inl rc \<Rightarrow> (Inl rc, buf)
      | Inr b \<Rightarrow>
          let b = put_u16 b 11 session;
              b = put_u16 b 13 peer_addr
          in (Inr APOS_LEN_RANGE_CMD, Some (put_u8 b 15 n_exchanges)))"

definition apos_frame_parse_range_cmd ::
  "u8 list option \<Rightarrow> nat \<Rightarrow> bool \<Rightarrow> errno + (u16 \<times> u16 \<times> u8)" where
  "apos_frame_parse_range_cmd buf len outs =
     (case parse_check buf len APOS_SUB_RANGE_CMD APOS_LEN_RANGE_CMD of
        Some rc \<Rightarrow> Inl rc
      | None \<Rightarrow>
          if \<not> outs then Inl EINVAL
          else let b = the buf in
            Inr (get_u16 b 11, get_u16 b 13, b ! 15))"

section \<open>RANGE_RSP\<close>

definition apos_frame_range_rsp_build ::
  "u8 list option \<Rightarrow> nat \<Rightarrow> u16 \<Rightarrow> u16 \<Rightarrow> u16 \<Rightarrow> u16 \<Rightarrow> int \<Rightarrow> u16 \<Rightarrow> u8 \<Rightarrow> apos_build" where
  "apos_frame_range_rsp_build buf buf_len src dest session peer_addr mean_mm sd_mm n_ok =
     (case apos_write_hdr buf buf_len APOS_LEN_RANGE_RSP dest src APOS_SUB_RANGE_RSP of
        Inl rc \<Rightarrow> (Inl rc, buf)
      | Inr b \<Rightarrow>
          let b = put_u16 b 11 session;
              b = put_u16 b 13 peer_addr;
              b = put_u32 b 15 (word_of_int mean_mm);
              b = put_u16 b 19 sd_mm
          in (Inr APOS_LEN_RANGE_RSP, Some (put_u8 b 21 n_ok)))"

definition apos_frame_parse_range_rsp ::
  "u8 list option \<Rightarrow> nat \<Rightarrow> bool \<Rightarrow> errno + (u16 \<times> u16 \<times> int \<times> u16 \<times> u8)" where
  "apos_frame_parse_range_rsp buf len outs =
     (case parse_check buf len APOS_SUB_RANGE_RSP APOS_LEN_RANGE_RSP of
        Some rc \<Rightarrow> Inl rc
      | None \<Rightarrow>
          if \<not> outs then Inl EINVAL
          else let b = the buf in
            Inr (get_u16 b 11, get_u16 b 13, sint (get_u32 b 15), get_u16 b 19, b ! 21))"

section \<open>SETPOS\<close>

definition apos_frame_setpos_build ::
  "u8 list option \<Rightarrow> nat \<Rightarrow> u16 \<Rightarrow> u16 \<Rightarrow> u16 \<Rightarrow> f32 \<Rightarrow> f32 \<Rightarrow> f32 \<Rightarrow> apos_build" where
  "apos_frame_setpos_build buf buf_len src dest session x y z =
     (case apos_write_hdr buf buf_len APOS_LEN_SETPOS dest src APOS_SUB_SETPOS of
        Inl rc \<Rightarrow> (Inl rc, buf)
      | Inr b \<Rightarrow>
          let b = put_u16 b 11 session
          in (Inr APOS_LEN_SETPOS, Some (put_xyz b 13 x y z)))"

definition apos_frame_parse_setpos ::
  "u8 list option \<Rightarrow> nat \<Rightarrow> bool \<Rightarrow> errno + (u16 \<times> xyz)" where
  "apos_frame_parse_setpos buf len outs =
     (case parse_check buf len APOS_SUB_SETPOS APOS_LEN_SETPOS of
        Some rc \<Rightarrow> Inl rc
      | None \<Rightarrow>
          if \<not> outs then Inl EINVAL
          else let b = the buf in
            Inr (get_u16 b 11, get_xyz b 13))"

section \<open>SETPOS_ACK\<close>

definition apos_frame_setpos_ack_build ::
  "u8 list option \<Rightarrow> nat \<Rightarrow> u16 \<Rightarrow> u16 \<Rightarrow> u16 \<Rightarrow> f32 \<Rightarrow> f32 \<Rightarrow> f32 \<Rightarrow> bool \<Rightarrow> apos_build" where
  "apos_frame_setpos_ack_build buf buf_len src dest session x y z ok =
     (case apos_write_hdr buf buf_len APOS_LEN_SETPOS_ACK dest src APOS_SUB_SETPOS_ACK of
        Inl rc \<Rightarrow> (Inl rc, buf)
      | Inr b \<Rightarrow>
          let b = put_u16 b 11 session;
              b = put_xyz b 13 x y z
          in (Inr APOS_LEN_SETPOS_ACK, Some (put_u8 b 25 (if ok then 1 else 0))))"

definition apos_frame_parse_setpos_ack ::
  "u8 list option \<Rightarrow> nat \<Rightarrow> bool \<Rightarrow> errno + (u16 \<times> xyz \<times> bool)" where
  "apos_frame_parse_setpos_ack buf len outs =
     (case parse_check buf len APOS_SUB_SETPOS_ACK APOS_LEN_SETPOS_ACK of
        Some rc \<Rightarrow> Inl rc
      | None \<Rightarrow>
          if \<not> outs then Inl EINVAL
          else let b = the buf in
            Inr (get_u16 b 11, get_xyz b 13, b ! 25 \<noteq> 0))"

section \<open>SURVEY_END\<close>

definition apos_frame_survey_end_build ::
  "u8 list option \<Rightarrow> nat \<Rightarrow> u16 \<Rightarrow> u16 \<Rightarrow> apos_build" where
  "apos_frame_survey_end_build buf buf_len src session =
     (case apos_write_hdr buf buf_len APOS_LEN_SURVEY_END APOS_ADDR_BCAST src APOS_SUB_SURVEY_END of
        Inl rc \<Rightarrow> (Inl rc, buf)
      | Inr b \<Rightarrow>
          (Inr APOS_LEN_SURVEY_END, Some (put_u16 b 11 session)))"

definition apos_frame_parse_survey_end ::
  "u8 list option \<Rightarrow> nat \<Rightarrow> bool \<Rightarrow> errno + (u16)" where
  "apos_frame_parse_survey_end buf len outs =
     (case parse_check buf len APOS_SUB_SURVEY_END APOS_LEN_SURVEY_END of
        Some rc \<Rightarrow> Inl rc
      | None \<Rightarrow>
          if \<not> outs then Inl EINVAL
          else let b = the buf in
            Inr (get_u16 b 11))"

section \<open>Reading back\<close>

lemma length_put_xyz [simp]: "length (put_xyz p o' x y z) = length p"
  by (simp add: put_xyz_def)

lemma get_put_xyz [byte_simps]:
  "o' + 12 \<le> length p \<Longrightarrow> get_xyz (put_xyz p o' x y z) o' = (x, y, z)"
  by (simp add: get_xyz_def put_xyz_def byte_simps)

lemma put_xyz_other [byte_simps]:
  "i < o' \<or> o' + 12 \<le> i \<Longrightarrow> put_xyz p o' x y z ! i = p ! i"
  "i + 1 < o' \<or> o' + 12 \<le> i \<Longrightarrow> get_u16 (put_xyz p o' x y z) i = get_u16 p i"
  "i + k \<le> o' \<or> o' + 12 \<le> i \<Longrightarrow> get_bytes (put_xyz p o' x y z) i k = get_bytes p i k"
  "o' + 12 \<le> n \<Longrightarrow> drop n (put_xyz p o' x y z) = drop n p"
  by (auto simp: put_xyz_def byte_simps get_bytes_def)

lemma get_xyz_other [byte_simps]:
  "r < o' \<or> r \<ge> o' + 12 \<Longrightarrow> get_xyz (put_u8 p r v) o' = get_xyz p o'"
  by (auto simp: get_xyz_def byte_simps)

lemma get_xyz_agree:
  "take n p = take n q \<Longrightarrow> o' + 11 < n \<Longrightarrow> get_xyz p o' = get_xyz q o'"
  using get_fields_agree(3) [of n p q] by (simp add: get_xyz_def)

lemma apos_hdr_None [simp]: "apos_write_hdr None cap need d s t = Inl EINVAL"
  by (simp add: apos_write_hdr_def)

lemma apos_hdr_small [simp]:
  "cap < need \<Longrightarrow> apos_write_hdr (Some b) cap need d s t = Inl EMSGSIZE"
  by (simp add: apos_write_hdr_def)

lemma apos_hdr_fits:
  assumes "need \<le> cap" and "cap \<le> length b" and "11 \<le> need"
  obtains h where "apos_write_hdr (Some b) cap need d s t = Inr h" and "length h = length b"
    and "h ! 0 = 0x41" and "h ! 1 = 0x88" and "h ! 3 = 0xCA" and "h ! 4 = 0xDE"
    and "h ! 9 = APOS_FRAME_TYPE" and "h ! 10 = t"
    and "get_u16 h 5 = d" and "get_u16 h 7 = s" and "\<forall>n\<ge>11. drop n h = drop n b"
proof -
  let ?h = "put_u8 (put_u8 (put_u16 (put_u16 (put_u8 (put_u8 (put_u8 (put_u8 (put_u8 b 0 0x41) 1 0x88)
     2 0) 3 0xCA) 4 0xDE) 5 d) 7 s) 9 APOS_FRAME_TYPE) 10 t"
  have "11 \<le> length b" "b \<noteq> []" using assms by auto
  then have "?h ! 0 = 0x41" "?h ! 1 = 0x88" "?h ! 3 = 0xCA" "?h ! 4 = 0xDE"
    "?h ! 9 = APOS_FRAME_TYPE" "?h ! 10 = t"
    "get_u16 ?h 5 = d" "get_u16 ?h 7 = s" "\<forall>n\<ge>11. drop n ?h = drop n b"
    by (simp_all add: byte_simps)
  moreover have "apos_write_hdr (Some b) cap need d s t = Inr ?h"
    using assms by (simp add: apos_write_hdr_def Let_def)
  ultimately show thesis
    by (intro that [of ?h]) simp_all
qed

lemma is_aposI:
  "11 \<le> n \<Longrightarrow> f ! 0 = 0x41 \<Longrightarrow> f ! 1 = 0x88 \<Longrightarrow> f ! 3 = 0xCA \<Longrightarrow> f ! 4 = 0xDE \<Longrightarrow>
     f ! 9 = APOS_FRAME_TYPE \<Longrightarrow> known_subtype (f ! 10) \<Longrightarrow> apos_frame_is_apos (Some f) n"
  by (simp add: apos_frame_is_apos_def)

lemma is_apos_None [simp]: "apos_frame_is_apos None n = False"
  by (simp add: apos_frame_is_apos_def)

lemma is_apos_len: "apos_frame_is_apos buf n \<Longrightarrow> 11 \<le> n"
  by (simp add: apos_frame_is_apos_def split: option.splits if_splits)

lemma parse_check_None [simp]: "parse_check None n t k = Some EINVAL"
  by (simp add: parse_check_def)

lemma parse_check_agree:
  assumes "take n b = take n c"
  shows "parse_check (Some b) n t k = parse_check (Some c) n t k"
  using take_eq_nth [OF assms]
  by (auto simp: parse_check_def apos_frame_is_apos_def)

lemma parse_check_ok:
  "parse_check buf n t k = None \<longleftrightarrow> apos_frame_is_apos buf n \<and> the buf ! 10 = t \<and> n = k"
  by (simp add: parse_check_def)

lemma parse_check_seq [simp]:
  "parse_check (Some (put_u8 b 2 s)) n t k = parse_check (Some b) n t k"
  by (simp add: parse_check_def apos_frame_is_apos_def put_u8_def)

lemma known_subtypes [simp]:
  "known_subtype 1" "known_subtype 2" "known_subtype 3" "known_subtype 4" "known_subtype 5"
  "known_subtype 6" "known_subtype 7"
  by (simp_all add: known_subtype_def word_le_nat_alt)

lemma apos_seq_fields [simp]:
  "i \<noteq> 2 \<Longrightarrow> put_u8 b 2 s ! i = b ! i"
  "2 < o' \<Longrightarrow> get_u16 (put_u8 b 2 s) o' = get_u16 b o'"
  "2 < o' \<Longrightarrow> get_u32 (put_u8 b 2 s) o' = get_u32 b o'"
  "2 < o' \<Longrightarrow> get_xyz (put_u8 b 2 s) o' = get_xyz b o'"
  "2 < o' \<Longrightarrow> get_bytes (put_u8 b 2 s) o' n = get_bytes b o' n"
  by (simp_all add: byte_simps)

lemma sint_of_int32: "- 2147483648 \<le> m \<Longrightarrow> m < 2147483648 \<Longrightarrow> sint (word_of_int m :: u32) = m"
  by (rule sint_exact) simp_all

section \<open>Every survey frame keeps the codec contract\<close>

lemmas apos_agree_simps = take_eq_nth get_fields_agree get_xyz_agree parse_check_agree

interpretation survey_begin: frame_codec
  "\<lambda>(src, s, w) buf cap. apos_frame_survey_begin_build buf cap src s w"
  "\<lambda>buf len. apos_frame_parse_survey_begin buf len True"
  "\<lambda>_. APOS_LEN_SURVEY_BEGIN" "\<lambda>(src, s, w). (s, w)" "\<lambda>(src, s, w). True"
proof (unfold_locales, goal_cases)
  case (3 m cap b)
  obtain src s w where m: "m = (src, s, w)" by (cases m)
  from 3 have fits: "15 \<le> cap" "cap \<le> length b" "11 \<le> (15::nat)" by simp_all
  show ?case
    using 3 by (rule_tac apos_hdr_fits [OF fits, of APOS_ADDR_BCAST src APOS_SUB_SURVEY_BEGIN])
      (auto simp: m apos_frame_survey_begin_build_def apos_frame_parse_survey_begin_def
        parse_check_def is_aposI byte_simps Let_def)
next
  case (5 n b c)
  show ?case
  proof (cases "parse_check (Some c) n APOS_SUB_SURVEY_BEGIN APOS_LEN_SURVEY_BEGIN")
    case None
    then have n: "n = APOS_LEN_SURVEY_BEGIN" by (simp add: parse_check_ok)
    show ?thesis
      using None by (simp add: apos_frame_parse_survey_begin_def apos_agree_simps [OF 5, unfolded n] n)
  qed (simp add: apos_frame_parse_survey_begin_def parse_check_agree [OF 5])
qed (auto simp: apos_frame_survey_begin_build_def apos_frame_parse_survey_begin_def Let_def
    split: option.splits)

interpretation enum_rsp: frame_codec
  "\<lambda>(src, dest, s, e, v, x, y, z) buf cap. apos_frame_enum_rsp_build buf cap src dest s (Some e) v x y z"
  "\<lambda>buf len. apos_frame_parse_enum_rsp buf len True"
  "\<lambda>_. APOS_LEN_ENUM_RSP" "\<lambda>(src, dest, s, e, v, x, y, z). (s, e, v, x, y, z)" "\<lambda>(src, dest, s, e, v, x, y, z). length e = 8"
proof (unfold_locales, goal_cases)
  case (3 m cap b)
  obtain src dest s e v x y z where m: "m = (src, dest, s, e, v, x, y, z)" by (metis surj_pair)
  from 3 have fits: "34 \<le> cap" "cap \<le> length b" "11 \<le> (34::nat)" by simp_all
  show ?case
    using 3 by (rule_tac apos_hdr_fits [OF fits, of dest src APOS_SUB_ENUM_RSP])
      (auto simp: m apos_frame_enum_rsp_build_def apos_frame_parse_enum_rsp_def
        parse_check_def is_aposI byte_simps Let_def)
next
  case (5 n b c)
  show ?case
  proof (cases "parse_check (Some c) n APOS_SUB_ENUM_RSP APOS_LEN_ENUM_RSP")
    case None
    then have n: "n = APOS_LEN_ENUM_RSP" by (simp add: parse_check_ok)
    show ?thesis
      using None by (simp add: apos_frame_parse_enum_rsp_def apos_agree_simps [OF 5, unfolded n] n)
  qed (simp add: apos_frame_parse_enum_rsp_def parse_check_agree [OF 5])
qed (auto simp: apos_frame_enum_rsp_build_def apos_frame_parse_enum_rsp_def Let_def
    split: option.splits)

interpretation range_cmd: frame_codec
  "\<lambda>(src, dest, s, p, nx) buf cap. apos_frame_range_cmd_build buf cap src dest s p nx"
  "\<lambda>buf len. apos_frame_parse_range_cmd buf len True"
  "\<lambda>_. APOS_LEN_RANGE_CMD" "\<lambda>(src, dest, s, p, nx). (s, p, nx)" "\<lambda>(src, dest, s, p, nx). True"
proof (unfold_locales, goal_cases)
  case (3 m cap b)
  obtain src dest s p nx where m: "m = (src, dest, s, p, nx)" by (cases m)
  from 3 have fits: "16 \<le> cap" "cap \<le> length b" "11 \<le> (16::nat)" by simp_all
  show ?case
    using 3 by (rule_tac apos_hdr_fits [OF fits, of dest src APOS_SUB_RANGE_CMD])
      (auto simp: m apos_frame_range_cmd_build_def apos_frame_parse_range_cmd_def
        parse_check_def is_aposI byte_simps Let_def)
next
  case (5 n b c)
  show ?case
  proof (cases "parse_check (Some c) n APOS_SUB_RANGE_CMD APOS_LEN_RANGE_CMD")
    case None
    then have n: "n = APOS_LEN_RANGE_CMD" by (simp add: parse_check_ok)
    show ?thesis
      using None by (simp add: apos_frame_parse_range_cmd_def apos_agree_simps [OF 5, unfolded n] n)
  qed (simp add: apos_frame_parse_range_cmd_def parse_check_agree [OF 5])
qed (auto simp: apos_frame_range_cmd_build_def apos_frame_parse_range_cmd_def Let_def
    split: option.splits)

interpretation range_rsp: frame_codec
  "\<lambda>(src, dest, s, p, mm, d, nk) buf cap. apos_frame_range_rsp_build buf cap src dest s p mm d nk"
  "\<lambda>buf len. apos_frame_parse_range_rsp buf len True"
  "\<lambda>_. APOS_LEN_RANGE_RSP" "\<lambda>(src, dest, s, p, mm, d, nk). (s, p, mm, d, nk)" "\<lambda>(src, dest, s, p, mm, d, nk). - 2147483648 \<le> mm \<and> mm < 2147483648"
proof (unfold_locales, goal_cases)
  case (3 m cap b)
  obtain src dest s p mm d nk where m: "m = (src, dest, s, p, mm, d, nk)" by (cases m)
  from 3 have fits: "22 \<le> cap" "cap \<le> length b" "11 \<le> (22::nat)" by simp_all
  show ?case
    using 3 by (rule_tac apos_hdr_fits [OF fits, of dest src APOS_SUB_RANGE_RSP])
      (auto simp: m apos_frame_range_rsp_build_def apos_frame_parse_range_rsp_def
        parse_check_def is_aposI byte_simps Let_def sint_of_int32)
next
  case (5 n b c)
  show ?case
  proof (cases "parse_check (Some c) n APOS_SUB_RANGE_RSP APOS_LEN_RANGE_RSP")
    case None
    then have n: "n = APOS_LEN_RANGE_RSP" by (simp add: parse_check_ok)
    show ?thesis
      using None by (simp add: apos_frame_parse_range_rsp_def apos_agree_simps [OF 5, unfolded n] n)
  qed (simp add: apos_frame_parse_range_rsp_def parse_check_agree [OF 5])
qed (auto simp: apos_frame_range_rsp_build_def apos_frame_parse_range_rsp_def Let_def
    split: option.splits)

interpretation setpos: frame_codec
  "\<lambda>(src, dest, s, x, y, z) buf cap. apos_frame_setpos_build buf cap src dest s x y z"
  "\<lambda>buf len. apos_frame_parse_setpos buf len True"
  "\<lambda>_. APOS_LEN_SETPOS" "\<lambda>(src, dest, s, x, y, z). (s, x, y, z)" "\<lambda>(src, dest, s, x, y, z). True"
proof (unfold_locales, goal_cases)
  case (3 m cap b)
  obtain src dest s x y z where m: "m = (src, dest, s, x, y, z)" by (cases m)
  from 3 have fits: "25 \<le> cap" "cap \<le> length b" "11 \<le> (25::nat)" by simp_all
  show ?case
    using 3 by (rule_tac apos_hdr_fits [OF fits, of dest src APOS_SUB_SETPOS])
      (auto simp: m apos_frame_setpos_build_def apos_frame_parse_setpos_def
        parse_check_def is_aposI byte_simps Let_def)
next
  case (5 n b c)
  show ?case
  proof (cases "parse_check (Some c) n APOS_SUB_SETPOS APOS_LEN_SETPOS")
    case None
    then have n: "n = APOS_LEN_SETPOS" by (simp add: parse_check_ok)
    show ?thesis
      using None by (simp add: apos_frame_parse_setpos_def apos_agree_simps [OF 5, unfolded n] n)
  qed (simp add: apos_frame_parse_setpos_def parse_check_agree [OF 5])
qed (auto simp: apos_frame_setpos_build_def apos_frame_parse_setpos_def Let_def
    split: option.splits)

interpretation setpos_ack: frame_codec
  "\<lambda>(src, dest, s, x, y, z, v) buf cap. apos_frame_setpos_ack_build buf cap src dest s x y z v"
  "\<lambda>buf len. apos_frame_parse_setpos_ack buf len True"
  "\<lambda>_. APOS_LEN_SETPOS_ACK" "\<lambda>(src, dest, s, x, y, z, v). (s, (x, y, z), v)" "\<lambda>(src, dest, s, x, y, z, v). True"
proof (unfold_locales, goal_cases)
  case (3 m cap b)
  obtain src dest s x y z v where m: "m = (src, dest, s, x, y, z, v)" by (cases m)
  from 3 have fits: "26 \<le> cap" "cap \<le> length b" "11 \<le> (26::nat)" by simp_all
  show ?case
    using 3 by (rule_tac apos_hdr_fits [OF fits, of dest src APOS_SUB_SETPOS_ACK])
      (auto simp: m apos_frame_setpos_ack_build_def apos_frame_parse_setpos_ack_def
        parse_check_def is_aposI byte_simps Let_def)
next
  case (5 n b c)
  show ?case
  proof (cases "parse_check (Some c) n APOS_SUB_SETPOS_ACK APOS_LEN_SETPOS_ACK")
    case None
    then have n: "n = APOS_LEN_SETPOS_ACK" by (simp add: parse_check_ok)
    show ?thesis
      using None by (simp add: apos_frame_parse_setpos_ack_def apos_agree_simps [OF 5, unfolded n] n)
  qed (simp add: apos_frame_parse_setpos_ack_def parse_check_agree [OF 5])
qed (auto simp: apos_frame_setpos_ack_build_def apos_frame_parse_setpos_ack_def Let_def
    split: option.splits)

interpretation survey_end: frame_codec
  "\<lambda>(src, s) buf cap. apos_frame_survey_end_build buf cap src s"
  "\<lambda>buf len. apos_frame_parse_survey_end buf len True"
  "\<lambda>_. APOS_LEN_SURVEY_END" "\<lambda>(src, s). s" "\<lambda>(src, s). True"
proof (unfold_locales, goal_cases)
  case (3 m cap b)
  obtain src s where m: "m = (src, s)" by (cases m)
  from 3 have fits: "13 \<le> cap" "cap \<le> length b" "11 \<le> (13::nat)" by simp_all
  show ?case
    using 3 by (rule_tac apos_hdr_fits [OF fits, of APOS_ADDR_BCAST src APOS_SUB_SURVEY_END])
      (auto simp: m apos_frame_survey_end_build_def apos_frame_parse_survey_end_def
        parse_check_def is_aposI byte_simps Let_def)
next
  case (5 n b c)
  show ?case
  proof (cases "parse_check (Some c) n APOS_SUB_SURVEY_END APOS_LEN_SURVEY_END")
    case None
    then have n: "n = APOS_LEN_SURVEY_END" by (simp add: parse_check_ok)
    show ?thesis
      using None by (simp add: apos_frame_parse_survey_end_def apos_agree_simps [OF 5, unfolded n] n)
  qed (simp add: apos_frame_parse_survey_end_def parse_check_agree [OF 5])
qed (auto simp: apos_frame_survey_end_build_def apos_frame_parse_survey_end_def Let_def
    split: option.splits)

section \<open>Addresses and subtype of what a builder wrote\<close>

text \<open>The receiver's view after the sequence number has been set.\<close>

definition apos_hdr_is :: "u8 list \<Rightarrow> nat \<Rightarrow> u16 \<Rightarrow> u16 \<Rightarrow> u8 \<Rightarrow> bool" where
  "apos_hdr_is f n dest src sub \<longleftrightarrow> apos_frame_is_apos (Some f) n \<and> apos_frame_dest f = dest \<and>
     apos_frame_src f = src \<and> apos_frame_subtype f = sub"

lemma apos_hdr_seq [simp]: "apos_hdr_is (apos_frame_set_seq f q) n d s t = apos_hdr_is f n d s t"
  by (simp add: apos_hdr_is_def apos_frame_set_seq_def apos_frame_is_apos_def apos_frame_dest_def
      apos_frame_src_def apos_frame_subtype_def)

lemma is_apos_agree:
  assumes "take n f = take n g" and "apos_frame_is_apos (Some f) n"
  shows "apos_frame_is_apos (Some g) n"
  using take_eq_nth [OF assms(1)] assms(2)
  by (auto simp: apos_frame_is_apos_def split: if_splits)

lemma apos_hdr_agree:
  assumes "take n f = take n g" and "apos_hdr_is f n d s t"
  shows "apos_hdr_is g n d s t"
proof -
  have "11 \<le> n" using assms(2) is_apos_len by (auto simp: apos_hdr_is_def)
  then show ?thesis
    using assms(2) apos_agree_simps(1,2) [OF assms(1)] is_apos_agree [OF assms(1)]
    by (simp add: apos_hdr_is_def apos_frame_dest_def apos_frame_src_def apos_frame_subtype_def)
qed

lemma survey_begin_hdr:
  assumes "apos_frame_survey_begin_build (Some b) cap src s w = (Inr n, Some f)" and "cap \<le> length b"
  shows "apos_hdr_is f n APOS_ADDR_BCAST src APOS_SUB_SURVEY_BEGIN"
proof -
  have fits: "15 \<le> cap" "cap \<le> length b" "11 \<le> (15::nat)"
    using assms by (cases "15 \<le> cap"; simp add: apos_frame_survey_begin_build_def)+
  show ?thesis
    using assms by (rule_tac apos_hdr_fits [OF fits, of APOS_ADDR_BCAST src APOS_SUB_SURVEY_BEGIN])
      (auto simp: apos_frame_survey_begin_build_def apos_hdr_is_def apos_frame_dest_def apos_frame_src_def
        apos_frame_subtype_def is_aposI byte_simps Let_def)
qed

lemma enum_rsp_hdr:
  assumes "apos_frame_enum_rsp_build (Some b) cap src dest s (Some e) v x y z = (Inr n, Some f)" and "cap \<le> length b" and "length e = 8"
  shows "apos_hdr_is f n dest src APOS_SUB_ENUM_RSP"
proof -
  have fits: "34 \<le> cap" "cap \<le> length b" "11 \<le> (34::nat)"
    using assms by (cases "34 \<le> cap"; simp add: apos_frame_enum_rsp_build_def)+
  show ?thesis
    using assms by (rule_tac apos_hdr_fits [OF fits, of dest src APOS_SUB_ENUM_RSP])
      (auto simp: apos_frame_enum_rsp_build_def apos_hdr_is_def apos_frame_dest_def apos_frame_src_def
        apos_frame_subtype_def is_aposI byte_simps Let_def)
qed

lemma range_cmd_hdr:
  assumes "apos_frame_range_cmd_build (Some b) cap src dest s p nx = (Inr n, Some f)" and "cap \<le> length b"
  shows "apos_hdr_is f n dest src APOS_SUB_RANGE_CMD"
proof -
  have fits: "16 \<le> cap" "cap \<le> length b" "11 \<le> (16::nat)"
    using assms by (cases "16 \<le> cap"; simp add: apos_frame_range_cmd_build_def)+
  show ?thesis
    using assms by (rule_tac apos_hdr_fits [OF fits, of dest src APOS_SUB_RANGE_CMD])
      (auto simp: apos_frame_range_cmd_build_def apos_hdr_is_def apos_frame_dest_def apos_frame_src_def
        apos_frame_subtype_def is_aposI byte_simps Let_def)
qed

lemma range_rsp_hdr:
  assumes "apos_frame_range_rsp_build (Some b) cap src dest s p mm d nk = (Inr n, Some f)" and "cap \<le> length b"
  shows "apos_hdr_is f n dest src APOS_SUB_RANGE_RSP"
proof -
  have fits: "22 \<le> cap" "cap \<le> length b" "11 \<le> (22::nat)"
    using assms by (cases "22 \<le> cap"; simp add: apos_frame_range_rsp_build_def)+
  show ?thesis
    using assms by (rule_tac apos_hdr_fits [OF fits, of dest src APOS_SUB_RANGE_RSP])
      (auto simp: apos_frame_range_rsp_build_def apos_hdr_is_def apos_frame_dest_def apos_frame_src_def
        apos_frame_subtype_def is_aposI byte_simps Let_def)
qed

lemma setpos_hdr:
  assumes "apos_frame_setpos_build (Some b) cap src dest s x y z = (Inr n, Some f)" and "cap \<le> length b"
  shows "apos_hdr_is f n dest src APOS_SUB_SETPOS"
proof -
  have fits: "25 \<le> cap" "cap \<le> length b" "11 \<le> (25::nat)"
    using assms by (cases "25 \<le> cap"; simp add: apos_frame_setpos_build_def)+
  show ?thesis
    using assms by (rule_tac apos_hdr_fits [OF fits, of dest src APOS_SUB_SETPOS])
      (auto simp: apos_frame_setpos_build_def apos_hdr_is_def apos_frame_dest_def apos_frame_src_def
        apos_frame_subtype_def is_aposI byte_simps Let_def)
qed

lemma setpos_ack_hdr:
  assumes "apos_frame_setpos_ack_build (Some b) cap src dest s x y z v = (Inr n, Some f)" and "cap \<le> length b"
  shows "apos_hdr_is f n dest src APOS_SUB_SETPOS_ACK"
proof -
  have fits: "26 \<le> cap" "cap \<le> length b" "11 \<le> (26::nat)"
    using assms by (cases "26 \<le> cap"; simp add: apos_frame_setpos_ack_build_def)+
  show ?thesis
    using assms by (rule_tac apos_hdr_fits [OF fits, of dest src APOS_SUB_SETPOS_ACK])
      (auto simp: apos_frame_setpos_ack_build_def apos_hdr_is_def apos_frame_dest_def apos_frame_src_def
        apos_frame_subtype_def is_aposI byte_simps Let_def)
qed

lemma survey_end_hdr:
  assumes "apos_frame_survey_end_build (Some b) cap src s = (Inr n, Some f)" and "cap \<le> length b"
  shows "apos_hdr_is f n APOS_ADDR_BCAST src APOS_SUB_SURVEY_END"
proof -
  have fits: "13 \<le> cap" "cap \<le> length b" "11 \<le> (13::nat)"
    using assms by (cases "13 \<le> cap"; simp add: apos_frame_survey_end_build_def)+
  show ?thesis
    using assms by (rule_tac apos_hdr_fits [OF fits, of APOS_ADDR_BCAST src APOS_SUB_SURVEY_END])
      (auto simp: apos_frame_survey_end_build_def apos_hdr_is_def apos_frame_dest_def apos_frame_src_def
        apos_frame_subtype_def is_aposI byte_simps Let_def)
qed

text \<open>Each parser accepts one subtype, so a frame is parsed as at most one message.\<close>

lemma apos_parse_subtype:
  "apos_frame_parse_survey_begin buf n True = Inr r1 \<Longrightarrow> apos_frame_subtype (the buf) = 1 \<and> n = 15"
  "apos_frame_parse_enum_rsp buf n True = Inr r2 \<Longrightarrow> apos_frame_subtype (the buf) = 2 \<and> n = 34"
  "apos_frame_parse_range_cmd buf n True = Inr r3 \<Longrightarrow> apos_frame_subtype (the buf) = 3 \<and> n = 16"
  "apos_frame_parse_range_rsp buf n True = Inr r4 \<Longrightarrow> apos_frame_subtype (the buf) = 4 \<and> n = 22"
  "apos_frame_parse_setpos buf n True = Inr r5 \<Longrightarrow> apos_frame_subtype (the buf) = 5 \<and> n = 25"
  "apos_frame_parse_setpos_ack buf n True = Inr r6 \<Longrightarrow> apos_frame_subtype (the buf) = 6 \<and> n = 26"
  "apos_frame_parse_survey_end buf n True = Inr r7 \<Longrightarrow> apos_frame_subtype (the buf) = 7 \<and> n = 13"
  by (auto simp: apos_frame_parse_survey_begin_def apos_frame_parse_enum_rsp_def
      apos_frame_parse_range_cmd_def apos_frame_parse_range_rsp_def apos_frame_parse_setpos_def
      apos_frame_parse_setpos_ack_def apos_frame_parse_survey_end_def parse_check_ok
      apos_frame_subtype_def split: option.splits)

section \<open>Properties\<close>

text \<open>C31: the survey messages survive the air: a range command, a range report, a SETPOS and its
  acknowledgement, built, numbered and sent, are parsed by the receiver to the fields that were
  built in, negative means included, whatever follows the payload in its buffer.\<close>

theorem apos_frames_survive_air:
  assumes "cap \<le> length b" and "- 2147483648 \<le> mm" and "mm < 2147483648"
  shows "(apos_frame_range_cmd_build (Some b) cap src dest ss p nx = (Inr n1, Some f1) \<longrightarrow>
      apos_frame_parse_range_cmd (Some (take n1 (apos_frame_set_seq f1 sq) @ junk)) n1 True = Inr (ss, p, nx))
    \<and> (apos_frame_range_rsp_build (Some b) cap src dest ss p mm d nk = (Inr n2, Some f2) \<longrightarrow>
      apos_frame_parse_range_rsp (Some (take n2 (apos_frame_set_seq f2 sq) @ junk)) n2 True
        = Inr (ss, p, mm, d, nk))
    \<and> (apos_frame_setpos_build (Some b) cap src dest ss x y z = (Inr n3, Some f3) \<longrightarrow>
      apos_frame_parse_setpos (Some (take n3 (apos_frame_set_seq f3 sq) @ junk)) n3 True
        = Inr (ss, x, y, z))
    \<and> (apos_frame_setpos_ack_build (Some b) cap src dest ss x y z v = (Inr n4, Some f4) \<longrightarrow>
      apos_frame_parse_setpos_ack (Some (take n4 (apos_frame_set_seq f4 sq) @ junk)) n4 True
        = Inr (ss, (x, y, z), v))"
  using range_cmd.received [where m = "(src, dest, ss, p, nx)" and cap = cap and b = b and n = n1 and f = f1 and s = sq]
    range_rsp.received [where m = "(src, dest, ss, p, mm, d, nk)" and cap = cap and b = b and n = n2 and f = f2 and s = sq]
    setpos.received [where m = "(src, dest, ss, x, y, z)" and cap = cap and b = b and n = n3 and f = f3 and s = sq]
    setpos_ack.received [where m = "(src, dest, ss, x, y, z, v)" and cap = cap and b = b and n = n4 and f = f4 and s = sq]
    assms
  by (simp add: apos_frame_set_seq_def)

lemma apos_frames_survive_air_witness:
  "apos_frame_parse_range_rsp (Some (take 22 (apos_frame_set_seq
     (the (snd (apos_frame_range_rsp_build (Some (replicate 34 0)) 34 2 0 7 3 (- 150) 25 38))) 4) @ [9, 9])) 22 True
     = Inr (7, 3, - 150, 25, 38)"
proof -
  have "apos_frame_range_rsp_build (Some (replicate 34 0)) 34 2 0 7 3 (- 150) 25 38 =
      (Inr 22, Some (the (snd (apos_frame_range_rsp_build (Some (replicate 34 0)) 34 2 0 7 3 (- 150) 25 38))))"
    by (simp add: apos_frame_range_rsp_build_def apos_write_hdr_def Let_def)
  then show ?thesis
    using apos_frames_survive_air [where cap = 34 and b = "replicate 34 0" and mm = "- 150" and src = 2
        and dest = 0 and ss = 7 and p = 3 and d = 25 and nk = 38 and ?n2.0 = 22 and sq = 4 and junk = "[9, 9]"]
    by simp
qed

end
