(* ===== verification/Float32.thy ===== *)
theory Float32
  imports Prelude Complex_Main
begin

text \<open>
  IEEE 754 arithmetic on bit patterns, as the firmware's \<open>float\<close> and \<open>double\<close> code uses it:
  round to nearest, ties to even, with subnormals, infinities and one quiet NaN. Every
  operation is computed exactly on rationals and rounded once (no fused multiply-add).
  The definitions are executable; the format is given by its mantissa and exponent widths
  \<open>mb\<close> and \<open>eb\<close>, instantiated for 32 and 64 bits.
\<close>

section \<open>Values of a format\<close>

text \<open>\<open>Fin s m e\<close> is \<open>m * 2 ^ e\<close>, negative if \<open>s\<close>.\<close>

datatype fl = NaN | Inf bool | Fin bool nat int

definition bias :: "nat \<Rightarrow> int" where
  "bias eb = 2 ^ (eb - 1) - 1"

definition emin :: "nat \<Rightarrow> nat \<Rightarrow> int" where
  "emin mb eb = 1 - bias eb - int mb"

definition fl_decode :: "nat \<Rightarrow> nat \<Rightarrow> nat \<Rightarrow> fl" where
  "fl_decode mb eb w =
     (let s = odd (w div 2 ^ (mb + eb)); ex = (w div 2 ^ mb) mod 2 ^ eb; fr = w mod 2 ^ mb in
      if ex = 2 ^ eb - 1 then (if fr = 0 then Inf s else NaN)
      else if ex = 0 then Fin s fr (emin mb eb)
      else Fin s (2 ^ mb + fr) (emin mb eb + int ex - 1))"

definition fl_sign :: "nat \<Rightarrow> nat \<Rightarrow> bool \<Rightarrow> nat \<Rightarrow> nat" where
  "fl_sign mb eb s w = (if s then 2 ^ (mb + eb) else 0) + w"

definition fl_inf :: "nat \<Rightarrow> nat \<Rightarrow> nat" where
  "fl_inf mb eb = (2 ^ eb - 1) * 2 ^ mb"

definition fl_nan :: "nat \<Rightarrow> nat \<Rightarrow> nat" where
  "fl_nan mb eb = fl_inf mb eb + 2 ^ (mb - 1)"

text \<open>The number of binary digits.\<close>

fun bitlen :: "nat \<Rightarrow> nat" where
  "bitlen n = (if n = 0 then 0 else 1 + bitlen (n div 2))"

declare bitlen.simps [simp del]

text \<open>The pattern of the rational \<open>num / den\<close>, rounded: the quotient in units of the last
  place, whose carry runs into the exponent field by itself.\<close>

definition fl_scale :: "nat \<Rightarrow> nat \<Rightarrow> int \<Rightarrow> nat \<times> nat" where
  "fl_scale num den q = (if q \<ge> 0 then (num, den * 2 ^ nat q) else (num * 2 ^ nat (- q), den))"

definition fl_log2 :: "nat \<Rightarrow> nat \<Rightarrow> int" where
  "fl_log2 num den =
     (let k = int (bitlen num) - int (bitlen den); (n, d) = fl_scale num den k in
      if n \<ge> d then k else k - 1)"

definition fl_round :: "nat \<Rightarrow> nat \<Rightarrow> bool \<Rightarrow> nat \<Rightarrow> nat \<Rightarrow> nat" where
  "fl_round mb eb s num den =
     fl_sign mb eb s
       (if num = 0 then 0
        else
          let q = max (fl_log2 num den - int mb) (emin mb eb);
              (n, d) = fl_scale num den q;
              m = n div d; r = n mod d;
              m = (if 2 * r > d \<or> (2 * r = d \<and> odd m) then m + 1 else m)
          in min (fl_inf mb eb) (nat (q - emin mb eb) * 2 ^ mb + m))"

text \<open>The pattern of \<open>n * 2 ^ e\<close> for a natural number \<open>n\<close>.\<close>

definition fl_round_scaled :: "nat \<Rightarrow> nat \<Rightarrow> bool \<Rightarrow> nat \<Rightarrow> int \<Rightarrow> nat" where
  "fl_round_scaled mb eb s n e =
     (if e \<ge> 0 then fl_round mb eb s (n * 2 ^ nat e) 1
      else fl_round mb eb s n (2 ^ nat (- e)))"

section \<open>Operations\<close>

fun fl_add :: "nat \<Rightarrow> nat \<Rightarrow> fl \<Rightarrow> fl \<Rightarrow> nat" where
  "fl_add mb eb NaN y = fl_nan mb eb"
| "fl_add mb eb x NaN = fl_nan mb eb"
| "fl_add mb eb (Inf s) (Inf t) =
     (if s = t then fl_sign mb eb s (fl_inf mb eb) else fl_nan mb eb)"
| "fl_add mb eb (Inf s) (Fin t m e) = fl_sign mb eb s (fl_inf mb eb)"
| "fl_add mb eb (Fin t m e) (Inf s) = fl_sign mb eb s (fl_inf mb eb)"
| "fl_add mb eb (Fin s m e) (Fin t n f) =
     (let g = min e f;
          a = int m * 2 ^ nat (e - g); b = int n * 2 ^ nat (f - g);
          v = (if s then - a else a) + (if t then - b else b)
      in if v = 0 then fl_sign mb eb (s \<and> t) 0
         else fl_round_scaled mb eb (v < 0) (nat \<bar>v\<bar>) g)"

fun fl_mul :: "nat \<Rightarrow> nat \<Rightarrow> fl \<Rightarrow> fl \<Rightarrow> nat" where
  "fl_mul mb eb NaN y = fl_nan mb eb"
| "fl_mul mb eb x NaN = fl_nan mb eb"
| "fl_mul mb eb (Inf s) (Inf t) = fl_sign mb eb (s \<noteq> t) (fl_inf mb eb)"
| "fl_mul mb eb (Inf s) (Fin t m e) =
     (if m = 0 then fl_nan mb eb else fl_sign mb eb (s \<noteq> t) (fl_inf mb eb))"
| "fl_mul mb eb (Fin t m e) (Inf s) =
     (if m = 0 then fl_nan mb eb else fl_sign mb eb (s \<noteq> t) (fl_inf mb eb))"
| "fl_mul mb eb (Fin s m e) (Fin t n f) = fl_round_scaled mb eb (s \<noteq> t) (m * n) (e + f)"

fun fl_div :: "nat \<Rightarrow> nat \<Rightarrow> fl \<Rightarrow> fl \<Rightarrow> nat" where
  "fl_div mb eb NaN y = fl_nan mb eb"
| "fl_div mb eb x NaN = fl_nan mb eb"
| "fl_div mb eb (Inf s) (Inf t) = fl_nan mb eb"
| "fl_div mb eb (Inf s) (Fin t m e) = fl_sign mb eb (s \<noteq> t) (fl_inf mb eb)"
| "fl_div mb eb (Fin t m e) (Inf s) = fl_sign mb eb (s \<noteq> t) 0"
| "fl_div mb eb (Fin s m e) (Fin t n f) =
     (if n = 0 then (if m = 0 then fl_nan mb eb else fl_sign mb eb (s \<noteq> t) (fl_inf mb eb))
      else let (a, b) = fl_scale m n (f - e) in fl_round mb eb (s \<noteq> t) a b)"

text \<open>The integer square root, digit by digit.\<close>

fun isqrt :: "nat \<Rightarrow> nat" where
  "isqrt n = (if n = 0 then 0
     else let r = 2 * isqrt (n div 4) in if (r + 1) * (r + 1) \<le> n then r + 1 else r)"

declare isqrt.simps [simp del]

text \<open>A square root that is not exact lies strictly between two candidates with more digits
  than the format keeps, so half a unit more decides the rounding as the exact value would.\<close>

fun fl_sqrt :: "nat \<Rightarrow> nat \<Rightarrow> fl \<Rightarrow> nat" where
  "fl_sqrt mb eb NaN = fl_nan mb eb"
| "fl_sqrt mb eb (Inf s) = (if s then fl_nan mb eb else fl_inf mb eb)"
| "fl_sqrt mb eb (Fin s m e) =
     (if m = 0 then fl_sign mb eb s 0
      else if s then fl_nan mb eb
      else
        let (m, e) = (if even e then (m, e) else (2 * m, e - 1));
            k = mb + 3; n = m * 4 ^ k; r = isqrt n;
            h = 2 * r + (if r * r = n then 0 else 1)
        in fl_round_scaled mb eb False h (e div 2 - int k - 1))"

fun fl_lt :: "fl \<Rightarrow> fl \<Rightarrow> bool" where
  "fl_lt NaN y = False"
| "fl_lt x NaN = False"
| "fl_lt (Inf s) (Inf t) = (s \<and> \<not> t)"
| "fl_lt (Inf s) (Fin t m e) = s"
| "fl_lt (Fin t m e) (Inf s) = (\<not> s)"
| "fl_lt (Fin s m e) (Fin t n f) =
     (let g = min e f;
          a = int m * 2 ^ nat (e - g); b = int n * 2 ^ nat (f - g)
      in (if s then - a else a) < (if t then - b else b))"

definition fl_eq :: "fl \<Rightarrow> fl \<Rightarrow> bool" where
  "fl_eq x y \<longleftrightarrow> x \<noteq> NaN \<and> y \<noteq> NaN \<and> \<not> fl_lt x y \<and> \<not> fl_lt y x"

definition fl_of_int :: "nat \<Rightarrow> nat \<Rightarrow> int \<Rightarrow> nat" where
  "fl_of_int mb eb n = fl_round mb eb (n < 0) (nat \<bar>n\<bar>) 1"

fun fl_convert :: "nat \<Rightarrow> nat \<Rightarrow> fl \<Rightarrow> nat" where
  "fl_convert mb eb NaN = fl_nan mb eb"
| "fl_convert mb eb (Inf s) = fl_sign mb eb s (fl_inf mb eb)"
| "fl_convert mb eb (Fin s m e) = fl_round_scaled mb eb s m e"

text \<open>The integer part, as the conversion to an integer type takes it.\<close>

fun fl_to_int :: "fl \<Rightarrow> int option" where
  "fl_to_int NaN = None"
| "fl_to_int (Inf s) = None"
| "fl_to_int (Fin s m e) =
     (let v = (if e \<ge> 0 then int m * 2 ^ nat e else int m div 2 ^ nat (- e)) in
      Some (if s then - v else v))"

section \<open>Binary32 and binary64\<close>

definition f32_val :: "f32 \<Rightarrow> fl" where "f32_val w = fl_decode 23 8 (unat w)"
definition f64_val :: "f64 \<Rightarrow> fl" where "f64_val w = fl_decode 52 11 (unat w)"

definition f32_add :: "f32 \<Rightarrow> f32 \<Rightarrow> f32" where
  "f32_add a b = of_nat (fl_add 23 8 (f32_val a) (f32_val b))"

definition f32_neg :: "f32 \<Rightarrow> f32" where
  "f32_neg a = a XOR 0x80000000"

definition f32_abs :: "f32 \<Rightarrow> f32" where
  "f32_abs a = a AND 0x7FFFFFFF"

definition f32_sub :: "f32 \<Rightarrow> f32 \<Rightarrow> f32" where
  "f32_sub a b = f32_add a (f32_neg b)"

definition f32_mul :: "f32 \<Rightarrow> f32 \<Rightarrow> f32" where
  "f32_mul a b = of_nat (fl_mul 23 8 (f32_val a) (f32_val b))"

definition f32_div :: "f32 \<Rightarrow> f32 \<Rightarrow> f32" where
  "f32_div a b = of_nat (fl_div 23 8 (f32_val a) (f32_val b))"

definition f32_sqrt :: "f32 \<Rightarrow> f32" where
  "f32_sqrt a = of_nat (fl_sqrt 23 8 (f32_val a))"

definition f32_lt :: "f32 \<Rightarrow> f32 \<Rightarrow> bool" where
  "f32_lt a b = fl_lt (f32_val a) (f32_val b)"

definition f32_eq :: "f32 \<Rightarrow> f32 \<Rightarrow> bool" where
  "f32_eq a b = fl_eq (f32_val a) (f32_val b)"

definition f32_le :: "f32 \<Rightarrow> f32 \<Rightarrow> bool" where
  "f32_le a b = (f32_lt a b \<or> f32_eq a b)"

definition f32_of_int :: "int \<Rightarrow> f32" where
  "f32_of_int n = of_nat (fl_of_int 23 8 n)"

definition f64_mul :: "f64 \<Rightarrow> f64 \<Rightarrow> f64" where
  "f64_mul a b = of_nat (fl_mul 52 11 (f64_val a) (f64_val b))"

definition f64_add :: "f64 \<Rightarrow> f64 \<Rightarrow> f64" where
  "f64_add a b = of_nat (fl_add 52 11 (f64_val a) (f64_val b))"

definition f64_div :: "f64 \<Rightarrow> f64 \<Rightarrow> f64" where
  "f64_div a b = of_nat (fl_div 52 11 (f64_val a) (f64_val b))"

definition f64_neg :: "f64 \<Rightarrow> f64" where
  "f64_neg a = a XOR 0x8000000000000000"

definition f64_sub :: "f64 \<Rightarrow> f64 \<Rightarrow> f64" where
  "f64_sub a b = f64_add a (f64_neg b)"

definition f64_lt :: "f64 \<Rightarrow> f64 \<Rightarrow> bool" where
  "f64_lt a b = fl_lt (f64_val a) (f64_val b)"

definition f64_of_int :: "int \<Rightarrow> f64" where
  "f64_of_int n = of_nat (fl_of_int 52 11 n)"

definition f32_to_f64 :: "f32 \<Rightarrow> f64" where
  "f32_to_f64 a = of_nat (fl_convert 52 11 (f32_val a))"

definition f64_to_f32 :: "f64 \<Rightarrow> f32" where
  "f64_to_f32 a = of_nat (fl_convert 23 8 (f64_val a))"

section \<open>Comparison\<close>

lemma fl_lt_irrefl [simp]: "\<not> fl_lt x x"
  by (cases x) simp_all

lemma fl_lt_asym: "fl_lt x y \<Longrightarrow> \<not> fl_lt y x"
  by (cases x; cases y) (auto simp: Let_def min.commute)

text \<open>The real number of a finite value; the comparison is the order of the reals.\<close>

fun fl_real :: "fl \<Rightarrow> real" where
  "fl_real (Fin s m e) = (if s then - real m else real m) * 2 powi e"
| "fl_real x = 0"

lemma fl_lt_real:
  "fl_lt (Fin s m e) (Fin t n f) \<longleftrightarrow> fl_real (Fin s m e) < fl_real (Fin t n f)"
proof -
  let ?g = "min e f"
  have sc: "(2 :: real) powi h = 2 ^ nat (h - ?g) * 2 powi ?g" if "?g \<le> h" for h
  proof -
    have "(2 :: real) powi h = 2 powi (h - ?g) * 2 powi ?g"
      by (simp flip: power_int_add)
    also have "(2 :: real) powi (h - ?g) = 2 ^ nat (h - ?g)"
      using that by (simp add: power_int_def)
    finally show ?thesis by simp
  qed
  have pos: "(0 :: real) < 2 powi ?g" by simp
  let ?a = "(if s then - int m else int m) * 2 ^ nat (e - ?g)"
  let ?b = "(if t then - int n else int n) * 2 ^ nat (f - ?g)"
  have "fl_real (Fin s m e) = of_int ?a * 2 powi ?g" "fl_real (Fin t n f) = of_int ?b * 2 powi ?g"
    using sc [of e] sc [of f] by simp_all
  then have "fl_real (Fin s m e) < fl_real (Fin t n f) \<longleftrightarrow> (of_int ?a :: real) < of_int ?b"
    using pos by (simp only: mult_less_cancel_right_pos)
  also have "\<dots> \<longleftrightarrow> ?a < ?b" by (rule of_int_less_iff)
  finally show ?thesis
    by (cases s; cases t) (simp_all add: Let_def)
qed

lemma fl_lt_trans: "fl_lt x y \<Longrightarrow> fl_lt y z \<Longrightarrow> fl_lt x z"
proof (cases x; cases y; cases z)
qed (auto simp: fl_lt_real simp del: fl_lt.simps(7) fl_real.simps)

lemma f32_lt_trans: "f32_lt a b \<Longrightarrow> f32_lt b c \<Longrightarrow> f32_lt a c"
  by (auto simp: f32_lt_def intro: fl_lt_trans)

lemma f32_lt_irrefl [simp]: "\<not> f32_lt a a"
  by (simp add: f32_lt_def)

lemma f32_lt_asym: "f32_lt a b \<Longrightarrow> \<not> f32_lt b a"
  by (simp add: f32_lt_def fl_lt_asym)

lemma f32_le_not_lt: "f32_le a b \<Longrightarrow> \<not> f32_lt b a"
  using fl_lt_asym by (auto simp: f32_le_def f32_eq_def fl_eq_def f32_lt_def)

lemma f32_neg_neg [simp]: "f32_neg (f32_neg a) = a"
  by (simp add: f32_neg_def xor.assoc)

section \<open>The integer square root\<close>

lemma isqrt_bounds: "isqrt n * isqrt n \<le> n \<and> n < (isqrt n + 1) * (isqrt n + 1)"
proof (induction n rule: isqrt.induct)
  case (1 n)
  show ?case
  proof (cases "n = 0")
    case True
    then show ?thesis by (simp add: isqrt.simps)
  next
    case False
    let ?r = "isqrt (n div 4)"
    have "?r * ?r \<le> n div 4" "n div 4 < (?r + 1) * (?r + 1)"
      using 1 [OF False] by simp_all
    then have "4 * (?r * ?r) \<le> n" "n < 4 * ((?r + 1) * (?r + 1))"
      by linarith+
    then have b: "(2 * ?r) * (2 * ?r) \<le> n" "n < (2 * ?r + 2) * (2 * ?r + 2)"
      by (simp_all add: algebra_simps)
    have "isqrt n = (if (2 * ?r + 1) * (2 * ?r + 1) \<le> n then 2 * ?r + 1 else 2 * ?r)"
      using False by (subst isqrt.simps) (simp add: Let_def)
    then show ?thesis
      using b by auto
  qed
qed

section \<open>Evaluation in the kernel\<close>

text \<open>\<open>(int32_t)x\<close> of a \<open>double\<close>: undefined (\<open>None\<close>) where the integer part does not fit.\<close>

definition f64_to_i32 :: "f64 \<Rightarrow> int option" where
  "f64_to_i32 a =
     (case fl_to_int (f64_val a) of
        None \<Rightarrow> None
      | Some v \<Rightarrow> if - (2 ^ 31) \<le> v \<and> v < 2 ^ 31 then Some v else None)"

text \<open>Rules with which the simplifier computes on numerals.\<close>

lemma bitlen_numeral [simp]:
  "bitlen 0 = 0" "bitlen 1 = 1" "bitlen (Suc 0) = 1"
  "bitlen (numeral (num.Bit0 k)) = 1 + bitlen (numeral k)"
  "bitlen (numeral (num.Bit1 k)) = 1 + bitlen (numeral k)"
  by (simp_all add: bitlen.simps [of 0] bitlen.simps [of 1] bitlen.simps [of "Suc 0"]
      bitlen.simps [of "numeral (num.Bit0 k)"] bitlen.simps [of "numeral (num.Bit1 k)"])

lemma isqrt_numeral [simp]:
  "isqrt 0 = 0" "isqrt 1 = 1" "isqrt (Suc 0) = 1"
  "isqrt (numeral k) = (let r = 2 * isqrt (numeral k div 4) in
     if (r + 1) * (r + 1) \<le> numeral k then r + 1 else r)"
  by (simp_all add: isqrt.simps [of 0] isqrt.simps [of 1] isqrt.simps [of "Suc 0"]
      isqrt.simps [of "numeral k"])

lemmas fl_eval = f32_add_def f32_sub_def f32_mul_def f32_div_def f32_sqrt_def f32_lt_def
  f32_eq_def f32_le_def f32_of_int_def f32_val_def fl_decode_def bias_def emin_def fl_sign_def
  fl_inf_def fl_nan_def fl_scale_def fl_log2_def fl_round_def fl_round_scaled_def fl_eq_def
  fl_of_int_def f32_neg_def f32_abs_def Let_def

lemmas fl_eval64 = fl_eval f64_add_def f64_mul_def f64_div_def f64_sub_def f64_neg_def f64_lt_def
  f64_of_int_def f64_val_def f32_to_f64_def f64_to_f32_def f64_to_i32_def

text \<open>1.5 + 2.25 = 3.75, 0.1 * 3 = 0.3 in its last place, 1 / 3, the square root of two, an
  integer that has to be rounded, and two comparisons.\<close>

lemma f32_samples:
  "f32_add 0x3FC00000 0x40100000 = 0x40700000"
  "f32_mul 0x3DCCCCCD 0x40400000 = 0x3E99999A"
  "f32_div 0x3F800000 0x40400000 = 0x3EAAAAAB"
  "f32_sqrt 0x40000000 = 0x3FB504F3"
  "f32_of_int 16777217 = 0x4B800000"
  "f32_lt 0xBF800000 0" "\<not> f32_lt 0x7FC00000 0"
  by (simp_all add: fl_eval)

end
