(* ===== verification/AposTable.thy ===== *)
theory AposTable
  imports Float32
begin

text \<open>
  The gateway's working set for one survey, src/apos_table.c: enumerated anchors, directed
  range measurements, and their reduction to undirected edges. An array with its count is
  the list of its first entries, an index a \<open>nat\<close>; a pointer argument is an \<open>option\<close>.
\<close>

abbreviation (input) APOS_MAX_NODES :: nat where "APOS_MAX_NODES \<equiv> 8"
abbreviation (input) APOS_MAX_EDGES :: nat where "APOS_MAX_EDGES \<equiv> 28"
abbreviation (input) APOS_MAX_MEAS :: nat where "APOS_MAX_MEAS \<equiv> 56"
abbreviation (input) APOS_SD_FLOOR_MM :: u16 where "APOS_SD_FLOOR_MM \<equiv> 1"
abbreviation (input) APOS_ONEWAY_SD_INFLATE :: f32 where "APOS_ONEWAY_SD_INFLATE \<equiv> 0x40000000"

record apos_edge =
  e_i :: nat
  e_j :: nat
  e_d_m :: f32
  e_sd_m :: f32

record apos_peer =
  p_eui :: "u8 list"
  p_short_addr :: u16
  p_pos_valid :: bool
  p_x :: f32
  p_y :: f32
  p_z :: f32

record apos_dir_meas =
  m_from :: nat
  m_to :: nat
  m_mean_mm :: int
  m_sd_mm :: u16
  m_n_ok :: u8

record apos_table =
  peer :: "apos_peer list"
  meas :: "apos_dir_meas list"

definition apos_table_init :: apos_table where
  "apos_table_init = \<lparr>peer = [], meas = []\<rparr>"

definition apos_table_find_eui :: "apos_table option \<Rightarrow> u8 list option \<Rightarrow> errno + nat" where
  "apos_table_find_eui t eui =
     (case (t, eui) of
        (Some t, Some e) \<Rightarrow>
          (case first_index (\<lambda>p. p_eui p = e) (peer t) of Some k \<Rightarrow> Inr k | None \<Rightarrow> Inl ENOENT)
      | _ \<Rightarrow> Inl EINVAL)"

definition apos_table_find_addr :: "apos_table option \<Rightarrow> u16 \<Rightarrow> errno + nat" where
  "apos_table_find_addr t addr =
     (case t of
        None \<Rightarrow> Inl EINVAL
      | Some t \<Rightarrow>
          (case first_index (\<lambda>p. p_short_addr p = addr) (peer t) of
             Some k \<Rightarrow> Inr k | None \<Rightarrow> Inl ENOENT))"

text \<open>Some other peer than \<open>existing\<close> claims the address.\<close>

definition addr_claimed :: "apos_table \<Rightarrow> errno + nat \<Rightarrow> u16 \<Rightarrow> bool" where
  "addr_claimed t existing addr =
     list_ex (\<lambda>k. p_short_addr (peer t ! k) = addr \<and> existing \<noteq> Inr k) [0..<length (peer t)]"

definition apos_table_add_peer ::
  "apos_table option \<Rightarrow> u8 list option \<Rightarrow> u16 \<Rightarrow> bool \<Rightarrow> f32 \<Rightarrow> f32 \<Rightarrow> f32
     \<Rightarrow> (errno + nat) \<times> apos_table option" where
  "apos_table_add_peer tp eui addr pos_valid x y z =
     (case (tp, eui) of
        (Some t, Some e) \<Rightarrow>
          let existing = apos_table_find_eui tp eui;
              row = \<lparr>p_eui = e, p_short_addr = addr, p_pos_valid = pos_valid,
                     p_x = x, p_y = y, p_z = z\<rparr>
          in if addr_claimed t existing addr then (Inl EADDRINUSE, tp)
             else
               (case existing of
                  Inr slot \<Rightarrow> (Inr slot, Some (t\<lparr>peer := (peer t)[slot := row]\<rparr>))
                | Inl _ \<Rightarrow>
                    if length (peer t) \<ge> APOS_MAX_NODES then (Inl ENOSPC, tp)
                    else (Inr (length (peer t)), Some (t\<lparr>peer := peer t @ [row]\<rparr>)))
      | _ \<Rightarrow> (Inl EINVAL, tp))"

definition apos_table_add_meas ::
  "apos_table option \<Rightarrow> nat \<Rightarrow> nat \<Rightarrow> int \<Rightarrow> u16 \<Rightarrow> u8 \<Rightarrow> errno option \<times> apos_table option" where
  "apos_table_add_meas tp from to mean_mm sd_mm n_ok =
     (case tp of
        None \<Rightarrow> (Some EINVAL, tp)
      | Some t \<Rightarrow>
          if from = to \<or> from \<ge> length (peer t) \<or> to \<ge> length (peer t) then (Some EINVAL, tp)
          else
            let row = \<lparr>m_from = from, m_to = to, m_mean_mm = mean_mm, m_sd_mm = sd_mm,
                       m_n_ok = n_ok\<rparr> in
            (case first_index (\<lambda>m. m_from m = from \<and> m_to m = to) (meas t) of
               Some k \<Rightarrow> (None, Some (t\<lparr>meas := (meas t)[k := row]\<rparr>))
             | None \<Rightarrow>
                 if length (meas t) \<ge> APOS_MAX_MEAS then (Some ENOSPC, tp)
                 else (None, Some (t\<lparr>meas := meas t @ [row]\<rparr>))))"

definition meas_usable :: "u8 \<Rightarrow> apos_dir_meas \<Rightarrow> bool" where
  "meas_usable min_n_ok m \<longleftrightarrow> m_n_ok m \<ge> min_n_ok \<and> m_mean_mm m > 0"

definition find_meas :: "apos_table \<Rightarrow> nat \<Rightarrow> nat \<Rightarrow> u8 \<Rightarrow> apos_dir_meas option" where
  "find_meas t a b min_n_ok =
     find (\<lambda>m. m_from m = a \<and> m_to m = b \<and> meas_usable min_n_ok m) (meas t)"

definition sd_m_of :: "apos_dir_meas \<Rightarrow> f32" where
  "sd_m_of m =
     (let sd = (if m_sd_mm m \<ge> APOS_SD_FLOOR_MM then m_sd_mm m else APOS_SD_FLOOR_MM) in
      f32_div (f32_of_int (uint sd)) (f32_of_int 1000))"

text \<open>The edge of the pair from what was measured in the two directions.\<close>

definition sym_edge ::
  "nat \<Rightarrow> nat \<Rightarrow> apos_dir_meas option \<Rightarrow> apos_dir_meas option \<Rightarrow> apos_edge option" where
  "sym_edge i j f r =
     (case (f, r) of
        (None, None) \<Rightarrow> None
      | (Some f, Some r) \<Rightarrow>
          let sf = sd_m_of f; sr = sd_m_of r;
              wf = f32_div (f32_of_int 1) (f32_mul sf sf);
              wr = f32_div (f32_of_int 1) (f32_mul sr sr);
              df = f32_div (f32_of_int (m_mean_mm f)) (f32_of_int 1000);
              dr = f32_div (f32_of_int (m_mean_mm r)) (f32_of_int 1000)
          in Some \<lparr>e_i = i, e_j = j,
               e_d_m = f32_div (f32_add (f32_mul wf df) (f32_mul wr dr)) (f32_add wf wr),
               e_sd_m = f32_div (f32_of_int 1) (f32_sqrt (f32_add wf wr))\<rparr>
      | _ \<Rightarrow>
          let m = (case f of Some m \<Rightarrow> m | None \<Rightarrow> the r) in
          Some \<lparr>e_i = i, e_j = j,
                e_d_m = f32_div (f32_of_int (m_mean_mm m)) (f32_of_int 1000),
                e_sd_m = f32_mul (sd_m_of m) APOS_ONEWAY_SD_INFLATE\<rparr>)"

text \<open>The unordered pairs in the order of the two loops.\<close>

definition node_pairs :: "nat \<Rightarrow> (nat \<times> nat) list" where
  "node_pairs n = concat (map (\<lambda>i. map (Pair i) [i + 1..<n]) [0..<n])"

text \<open>Both loops stop once the output is full.\<close>

fun sym_loop :: "apos_table \<Rightarrow> nat \<Rightarrow> u8 \<Rightarrow> (nat \<times> nat) list \<Rightarrow> apos_edge list \<Rightarrow> apos_edge list" where
  "sym_loop t out_cap min_n_ok [] out = out"
| "sym_loop t out_cap min_n_ok ((i, j) # ps) out =
     (if length out \<ge> out_cap then out
      else
        (case sym_edge i j (find_meas t i j min_n_ok) (find_meas t j i min_n_ok) of
           None \<Rightarrow> sym_loop t out_cap min_n_ok ps out
         | Some e \<Rightarrow> sym_loop t out_cap min_n_ok ps (out @ [e])))"

text \<open>\<open>outs\<close>: the output array is not NULL. The count returned is the length.\<close>

definition apos_table_symmetrise ::
  "apos_table option \<Rightarrow> bool \<Rightarrow> nat \<Rightarrow> u8 \<Rightarrow> apos_edge list" where
  "apos_table_symmetrise tp outs out_cap min_n_ok =
     (case tp of
        None \<Rightarrow> []
      | Some t \<Rightarrow>
          if \<not> outs then []
          else sym_loop t out_cap min_n_ok (node_pairs (length (peer t))) [])"

text \<open>One pair's contribution to the two maxima.\<close>

definition quality_pair ::
  "apos_dir_meas option \<Rightarrow> apos_dir_meas option \<Rightarrow> int \<times> u16 \<Rightarrow> int \<times> u16" where
  "quality_pair f r w =
     (let (worst_recip, worst_sd) = w;
          worst_sd = (case f of Some m \<Rightarrow> if m_sd_mm m > worst_sd then m_sd_mm m else worst_sd
                      | None \<Rightarrow> worst_sd);
          worst_sd = (case r of Some m \<Rightarrow> if m_sd_mm m > worst_sd then m_sd_mm m else worst_sd
                      | None \<Rightarrow> worst_sd)
      in case (f, r) of
           (Some a, Some b) \<Rightarrow>
             let d = m_mean_mm a - m_mean_mm b;
                 d = (if d < 0 then - d else d)
             in (if d > worst_recip then d else worst_recip, worst_sd)
         | _ \<Rightarrow> (worst_recip, worst_sd))"

definition apos_table_quality :: "apos_table option \<Rightarrow> u8 \<Rightarrow> int \<times> u16" where
  "apos_table_quality tp min_n_ok =
     (case tp of
        None \<Rightarrow> (-1, 0)
      | Some t \<Rightarrow>
          foldl (\<lambda>w (i, j). quality_pair (find_meas t i j min_n_ok) (find_meas t j i min_n_ok) w)
            (-1, 0) (node_pairs (length (peer t))))"

definition apos_table_missing_pairs :: "apos_table option \<Rightarrow> u8 \<Rightarrow> nat" where
  "apos_table_missing_pairs tp min_n_ok =
     (case tp of
        None \<Rightarrow> 0
      | Some t \<Rightarrow>
          length (filter (\<lambda>(i, j). find_meas t i j min_n_ok = None \<and>
                                   find_meas t j i min_n_ok = None)
            (node_pairs (length (peer t)))))"

section \<open>The invariant\<close>

definition meas_ok :: "nat \<Rightarrow> apos_dir_meas \<Rightarrow> bool" where
  "meas_ok n m \<longleftrightarrow> m_from m < n \<and> m_to m < n \<and> m_from m \<noteq> m_to m"

definition tab_inv :: "apos_table \<Rightarrow> bool" where
  "tab_inv t \<longleftrightarrow> length (peer t) \<le> APOS_MAX_NODES \<and>
     distinct (map p_eui (peer t)) \<and> distinct (map p_short_addr (peer t)) \<and>
     list_all (meas_ok (length (peer t))) (meas t) \<and>
     distinct (map (\<lambda>m. (m_from m, m_to m)) (meas t))"

lemma tab_inv_init [simp]: "tab_inv apos_table_init"
  by (simp add: tab_inv_def apos_table_init_def)

text \<open>Distinct ordered pairs of eight nodes: the measurement array cannot overflow.\<close>

lemma meas_bound:
  assumes "tab_inv t"
  shows "length (meas t) \<le> length (peer t) * (length (peer t) - 1)" and "length (meas t) \<le> 56"
proof -
  let ?n = "length (peer t)"
  let ?P = "(SIGMA a:{..<?n}. {..<?n} - {a})"
  have "set (map (\<lambda>m. (m_from m, m_to m)) (meas t)) \<subseteq> ?P"
    using assms by (auto simp: tab_inv_def meas_ok_def list_all_iff)
  then have "card (set (map (\<lambda>m. (m_from m, m_to m)) (meas t))) \<le> card ?P"
    by (intro card_mono) auto
  moreover have "card (set (map (\<lambda>m. (m_from m, m_to m)) (meas t))) = length (meas t)"
    using assms by (subst distinct_card) (simp_all add: tab_inv_def)
  moreover have "card ?P = ?n * (?n - 1)"
    by (simp add: card_Diff_singleton_if)
  ultimately show l: "length (meas t) \<le> ?n * (?n - 1)" by simp
  have "?n \<le> 8" using assms by (simp add: tab_inv_def)
  then have "?n * (?n - 1) \<le> 8 * 7" by (intro mult_le_mono) auto
  with l show "length (meas t) \<le> 56" by simp
qed

lemma addr_claimed_iff:
  "addr_claimed t existing a \<longleftrightarrow>
     (\<exists>k<length (peer t). p_short_addr (peer t ! k) = a \<and> existing \<noteq> Inr k)"
  by (auto simp: addr_claimed_def list_ex_iff)

lemma find_eui_SomeD:
  "apos_table_find_eui (Some t) (Some e) = Inr k \<Longrightarrow>
     k < length (peer t) \<and> p_eui (peer t ! k) = e"
  by (auto simp: apos_table_find_eui_def split: option.splits dest: first_index_SomeD)

lemma find_eui_ENOENT:
  "apos_table_find_eui (Some t) (Some e) = Inl x \<longleftrightarrow> x = ENOENT \<and> e \<notin> p_eui ` set (peer t)"
  by (auto simp: apos_table_find_eui_def split: option.splits dest: first_index_SomeD)

section \<open>Registering an anchor\<close>

lemma find_eui_nth:
  assumes "tab_inv t" and "k < length (peer t)"
  shows "apos_table_find_eui (Some t) (Some (p_eui (peer t ! k))) = Inr k"
proof -
  have "first_index (\<lambda>p. p_eui p = p_eui (peer t ! k)) (peer t) = Some k"
  proof (rule first_index_unique)
    show "j = k" if "j < length (peer t)" "p_eui (peer t ! j) = p_eui (peer t ! k)" for j
      using assms that by (auto simp: tab_inv_def distinct_conv_nth)
  qed (use assms in simp_all)
  then show ?thesis by (simp add: apos_table_find_eui_def)
qed

lemma find_addr_nth:
  assumes "tab_inv t" and "k < length (peer t)"
  shows "apos_table_find_addr (Some t) (p_short_addr (peer t ! k)) = Inr k"
proof -
  have "first_index (\<lambda>p. p_short_addr p = p_short_addr (peer t ! k)) (peer t) = Some k"
  proof (rule first_index_unique)
    show "j = k" if "j < length (peer t)" "p_short_addr (peer t ! j) = p_short_addr (peer t ! k)"
      for j using assms that by (auto simp: tab_inv_def distinct_conv_nth)
  qed (use assms in simp_all)
  then show ?thesis by (simp add: apos_table_find_addr_def)
qed

lemma find_addr_SomeD:
  "apos_table_find_addr (Some t) a = Inr k \<Longrightarrow>
     k < length (peer t) \<and> p_short_addr (peer t ! k) = a"
  by (auto simp: apos_table_find_addr_def split: option.splits dest: first_index_SomeD)

text \<open>The three outcomes, with the table as it is left.\<close>

lemma add_peer_cases:
  assumes "tab_inv t"
  obtains (claimed) k where "k < length (peer t)" "p_short_addr (peer t ! k) = a"
      "p_eui (peer t ! k) \<noteq> e"
      "apos_table_add_peer (Some t) (Some e) a v x y z = (Inl EADDRINUSE, Some t)"
    | (full) "length (peer t) = 8" "e \<notin> p_eui ` set (peer t)"
      "a \<notin> p_short_addr ` set (peer t)"
      "apos_table_add_peer (Some t) (Some e) a v x y z = (Inl ENOSPC, Some t)"
    | (update) k where "k < length (peer t)" "p_eui (peer t ! k) = e"
      "\<forall>j<length (peer t). p_short_addr (peer t ! j) = a \<longrightarrow> j = k"
      "apos_table_add_peer (Some t) (Some e) a v x y z = (Inr k, Some (t\<lparr>peer := (peer t)[k :=
         \<lparr>p_eui = e, p_short_addr = a, p_pos_valid = v, p_x = x, p_y = y, p_z = z\<rparr>]\<rparr>))"
    | (new) "length (peer t) < 8" "e \<notin> p_eui ` set (peer t)"
      "a \<notin> p_short_addr ` set (peer t)"
      "apos_table_add_peer (Some t) (Some e) a v x y z = (Inr (length (peer t)),
         Some (t\<lparr>peer := peer t @
         [\<lparr>p_eui = e, p_short_addr = a, p_pos_valid = v, p_x = x, p_y = y, p_z = z\<rparr>]\<rparr>))"
proof (cases "addr_claimed t (apos_table_find_eui (Some t) (Some e)) a")
  case True
  then obtain k where k: "k < length (peer t)" "p_short_addr (peer t ! k) = a"
    "apos_table_find_eui (Some t) (Some e) \<noteq> Inr k" by (auto simp: addr_claimed_iff)
  with find_eui_nth [OF assms k(1)] have "p_eui (peer t ! k) \<noteq> e" by auto
  with k True show thesis
    by (intro claimed [of k]) (simp_all add: apos_table_add_peer_def)
next
  case False
  note nc = False
  show thesis
  proof (cases "apos_table_find_eui (Some t) (Some e)")
    case (Inr k)
    with find_eui_SomeD [OF Inr] nc show thesis
      by (intro update [of k]) (auto simp: apos_table_add_peer_def addr_claimed_iff Let_def)
  next
    case (Inl x)
    then have e: "e \<notin> p_eui ` set (peer t)" by (simp add: find_eui_ENOENT)
    have a: "a \<notin> p_short_addr ` set (peer t)"
      using nc Inl by (auto simp: addr_claimed_iff in_set_conv_nth)
    show thesis
    proof (cases "length (peer t) \<ge> 8")
      case True
      then have "length (peer t) = 8" using assms by (simp add: tab_inv_def)
      with e a nc Inl show thesis
        by (intro full) (simp_all add: apos_table_add_peer_def)
    next
      case False
      with e a nc Inl show thesis
        by (intro new) (simp_all add: apos_table_add_peer_def)
    qed
  qed
qed

lemma meas_ok_mono: "meas_ok n m \<Longrightarrow> n \<le> n' \<Longrightarrow> meas_ok n' m"
  by (simp add: meas_ok_def)

lemma add_peer_inv:
  assumes "tab_inv t"
  shows "\<exists>t'. snd (apos_table_add_peer (Some t) (Some e) a v x y z) = Some t' \<and> tab_inv t'"
proof (rule add_peer_cases [OF assms, of a e v x y z])
  fix k
  assume k: "k < length (peer t)" "p_eui (peer t ! k) = e"
    "\<forall>j<length (peer t). p_short_addr (peer t ! j) = a \<longrightarrow> j = k"
    "apos_table_add_peer (Some t) (Some e) a v x y z = (Inr k, Some (t\<lparr>peer := (peer t)[k :=
         \<lparr>p_eui = e, p_short_addr = a, p_pos_valid = v, p_x = x, p_y = y, p_z = z\<rparr>]\<rparr>))"
  have e: "(map p_eui (peer t))[k := e] = map p_eui (peer t)"
    using k(1,2) by (simp add: list_update_same_conv)
  have "a \<notin> set (map p_short_addr (peer t)) - {map p_short_addr (peer t) ! k}"
    using k(1,3) by (auto simp: in_set_conv_nth)
  then have "distinct ((map p_short_addr (peer t))[k := a])"
    using assms by (intro distinct_list_update) (simp_all add: tab_inv_def)
  with e assms have "tab_inv (t\<lparr>peer := (peer t)[k :=
         \<lparr>p_eui = e, p_short_addr = a, p_pos_valid = v, p_x = x, p_y = y, p_z = z\<rparr>]\<rparr>)"
    by (simp add: tab_inv_def map_update)
  with k(4) show ?thesis by simp
qed (use assms in \<open>auto simp: tab_inv_def list_all_iff image_iff intro: meas_ok_mono\<close>)

text \<open>After a successful registration both lookups find the row, and the others are as
  before.\<close>

lemma add_peer_lookup:
  assumes "tab_inv t" and "apos_table_add_peer (Some t) (Some e) a v x y z = (Inr k, Some t')"
  shows "apos_table_find_eui (Some t') (Some e) = Inr k"
    and "apos_table_find_addr (Some t') a = Inr k"
    and "peer t' ! k = \<lparr>p_eui = e, p_short_addr = a, p_pos_valid = v, p_x = x, p_y = y, p_z = z\<rparr>"
    and "j < length (peer t) \<Longrightarrow> j \<noteq> k \<Longrightarrow> peer t' ! j = peer t ! j"
    and "meas t' = meas t"
proof -
  have inv: "tab_inv t'"
    using add_peer_inv [OF assms(1), of e a v x y z] assms(2) by simp
  have row: "k < length (peer t') \<and>
      peer t' ! k = \<lparr>p_eui = e, p_short_addr = a, p_pos_valid = v, p_x = x, p_y = y, p_z = z\<rparr> \<and>
      (j < length (peer t) \<longrightarrow> j \<noteq> k \<longrightarrow> peer t' ! j = peer t ! j) \<and> meas t' = meas t"
    by (rule add_peer_cases [OF assms(1), of a e v x y z])
      (use assms(2) in \<open>auto simp: nth_append\<close>)
  then show "peer t' ! k = \<lparr>p_eui = e, p_short_addr = a, p_pos_valid = v, p_x = x, p_y = y, p_z = z\<rparr>"
    "j < length (peer t) \<Longrightarrow> j \<noteq> k \<Longrightarrow> peer t' ! j = peer t ! j" "meas t' = meas t"
    by simp_all
  show "apos_table_find_eui (Some t') (Some e) = Inr k"
    "apos_table_find_addr (Some t') a = Inr k"
    using find_eui_nth [OF inv, of k] find_addr_nth [OF inv, of k] row by simp_all
qed

section \<open>Recording a measurement\<close>

lemma find_update_other:
  "\<not> P (xs ! k) \<Longrightarrow> \<not> P r \<Longrightarrow> find P (xs[k := r]) = find P xs"
proof (induction xs arbitrary: k)
  case (Cons x xs)
  then show ?case by (cases k) auto
qed simp

lemma find_update_only:
  "k < length xs \<Longrightarrow> (\<And>j. j < length xs \<Longrightarrow> j \<noteq> k \<Longrightarrow> \<not> P (xs ! j)) \<Longrightarrow>
     find P (xs[k := r]) = (if P r then Some r else None)"
proof (induction xs arbitrary: k)
  case (Cons x xs)
  show ?case
  proof (cases k)
    case 0
    then have "\<not> P y" if "y \<in> set xs" for y
      using that Cons.prems(2) [of "Suc j" for j] by (auto simp: in_set_conv_nth)
    then show ?thesis using 0 by (auto simp: find_None_iff)
  next
    case (Suc n)
    have "\<not> P (xs ! j)" if "j < length xs" "j \<noteq> n" for j
      using Cons.prems(2) [of "Suc j"] that Suc by simp
    then show ?thesis
      using Cons.prems Cons.IH [of n] Suc Cons.prems(2) [of 0] by simp
  qed
qed simp

lemma find_snoc: "find P (xs @ [r]) = (case find P xs of Some y \<Rightarrow> Some y
    | None \<Rightarrow> if P r then Some r else None)"
  by (induction xs) auto

lemma add_meas_cases:
  assumes "tab_inv t" and "a \<noteq> b" and "a < length (peer t)" and "b < length (peer t)"
  shows "\<exists>t'. apos_table_add_meas (Some t) a b m s n = (None, Some t') \<and> tab_inv t' \<and>
    peer t' = peer t \<and>
    (\<forall>min. find_meas t' a b min =
       (let r = \<lparr>m_from = a, m_to = b, m_mean_mm = m, m_sd_mm = s, m_n_ok = n\<rparr> in
        if meas_usable min r then Some r else None)) \<and>
    (\<forall>min c d. (c, d) \<noteq> (a, b) \<longrightarrow> find_meas t' c d min = find_meas t c d min)"
proof (cases "first_index (\<lambda>m. m_from m = a \<and> m_to m = b) (meas t)")
  let ?r = "\<lparr>m_from = a, m_to = b, m_mean_mm = m, m_sd_mm = s, m_n_ok = n\<rparr>"
  case (Some k)
  from first_index_SomeD [OF Some] have k: "k < length (meas t)" "m_from (meas t ! k) = a"
    "m_to (meas t ! k) = b" by simp_all
  let ?t = "t\<lparr>meas := (meas t)[k := ?r]\<rparr>"
  have keys: "map (\<lambda>m. (m_from m, m_to m)) ((meas t)[k := ?r]) = map (\<lambda>m. (m_from m, m_to m)) (meas t)"
    using k by (simp add: map_update list_update_same_conv)
  have "(m_from (meas t ! j), m_to (meas t ! j)) \<noteq> (a, b)" if "j < length (meas t)" "j \<noteq> k" for j
    using assms(1) k that nth_eq_iff_index_eq [of "map (\<lambda>m. (m_from m, m_to m)) (meas t)" j k]
    by (simp add: tab_inv_def)
  then have "find (\<lambda>m. m_from m = a \<and> m_to m = b \<and> meas_usable min m) ((meas t)[k := ?r]) =
      (if m_from ?r = a \<and> m_to ?r = b \<and> meas_usable min ?r then Some ?r else None)" for min
    by (intro find_update_only [OF k(1)]) auto
  then have "find_meas ?t a b min = (if meas_usable min ?r then Some ?r else None)" for min
    by (simp add: find_meas_def)
  moreover have "find_meas ?t c e min = find_meas t c e min" if "(c, e) \<noteq> (a, b)" for c e min
    using that k find_update_other [of "\<lambda>m. m_from m = c \<and> m_to m = e \<and> meas_usable min m" "meas t" k ?r]
    by (auto simp: find_meas_def)
  moreover have "tab_inv ?t"
    using assms keys k by (auto simp: tab_inv_def list_all_length nth_list_update meas_ok_def)
  ultimately show ?thesis
    using assms Some by (simp add: apos_table_add_meas_def Let_def not_le)
next
  let ?r = "\<lparr>m_from = a, m_to = b, m_mean_mm = m, m_sd_mm = s, m_n_ok = n\<rparr>"
  case None
  let ?t = "t\<lparr>meas := meas t @ [?r]\<rparr>"
  from None have none: "\<forall>x\<in>set (meas t). \<not> (m_from x = a \<and> m_to x = b)" by simp
  then have inv: "tab_inv ?t"
    using assms by (auto simp: tab_inv_def meas_ok_def image_iff)
  from meas_bound(2) [OF this] have "length (meas t) < 56" by simp
  moreover have "find_meas ?t a b min = (if meas_usable min ?r then Some ?r else None)" for min
  proof -
    have "find (\<lambda>m. m_from m = a \<and> m_to m = b \<and> meas_usable min m) (meas t) = None"
      using none by (auto simp: find_None_iff)
    then show ?thesis by (simp add: find_meas_def find_snoc)
  qed
  moreover have "find_meas ?t c e min = find_meas t c e min" if "(c, e) \<noteq> (a, b)" for c e min
    using that unfolding find_meas_def by (auto simp: find_snoc split: option.splits)
  moreover have "apos_table_add_meas (Some t) a b m s n = (None, Some ?t)"
    using assms \<open>length (meas t) < 56\<close>
    by (simp add: apos_table_add_meas_def None Let_def not_le del: first_index_None)
  ultimately show ?thesis
    using inv by (simp add: Let_def)
qed

section \<open>The reduction to edges\<close>

lemma set_node_pairs: "set (node_pairs n) = {(i, j). i < j \<and> j < n}"
  by (auto simp: node_pairs_def image_iff)

lemma distinct_node_pairs: "distinct (node_pairs n)"
proof -
  have "distinct (concat (map (\<lambda>i. map (Pair i) [i + 1..<n]) xs))" if "distinct xs" for xs
    using that by (induction xs) (auto simp: distinct_map inj_on_def)
  then show ?thesis by (simp add: node_pairs_def)
qed

lemma double_gauss: "2 * (\<Sum>i<n. i) = n * (n - 1 :: nat)"
proof (induction n)
  case (Suc n)
  then show ?case by (cases n) simp_all
qed simp

lemma length_node_pairs: "2 * length (node_pairs n) = n * (n - 1)"
proof -
  have "length (node_pairs n) = (\<Sum>i<n. n - Suc i)"
    by (simp add: node_pairs_def length_concat o_def interv_sum_list_conv_sum_set_nat
        lessThan_atLeast0)
  also have "\<dots> = (\<Sum>i<n. i)"
    by (rule sum.nat_diff_reindex)
  finally show ?thesis
    using double_gauss [of n] by simp
qed

definition pair_usable :: "apos_table \<Rightarrow> u8 \<Rightarrow> nat \<times> nat \<Rightarrow> bool" where
  "pair_usable t min_n_ok p =
     (find_meas t (fst p) (snd p) min_n_ok \<noteq> None \<or> find_meas t (snd p) (fst p) min_n_ok \<noteq> None)"

definition pair_edge :: "apos_table \<Rightarrow> u8 \<Rightarrow> nat \<times> nat \<Rightarrow> apos_edge" where
  "pair_edge t min_n_ok p = the (sym_edge (fst p) (snd p)
     (find_meas t (fst p) (snd p) min_n_ok) (find_meas t (snd p) (fst p) min_n_ok))"

lemma sym_edge_None: "sym_edge i j f r = None \<longleftrightarrow> f = None \<and> r = None"
  by (auto simp: sym_edge_def Let_def split: option.splits)

lemma sym_edge_ij: "sym_edge i j f r = Some e \<Longrightarrow> e_i e = i \<and> e_j e = j"
  by (auto simp: sym_edge_def Let_def split: option.splits)

text \<open>The two loops are a filter, a map and a prefix.\<close>

lemma sym_loop_eq:
  "length out \<le> cap \<Longrightarrow> sym_loop t cap mn ps out =
     out @ take (cap - length out) (map (pair_edge t mn) (filter (pair_usable t mn) ps))"
proof (induction ps arbitrary: out)
  case (Cons p ps)
  obtain i j where p: "p = (i, j)" by (cases p)
  show ?case
  proof (cases "length out \<ge> cap")
    case False
    show ?thesis
    proof (cases "sym_edge i j (find_meas t i j mn) (find_meas t j i mn)")
      case None
      then show ?thesis
        using False Cons p by (simp add: pair_usable_def sym_edge_None) (simp add: sym_edge_def)
    next
      case (Some e)
      then have "pair_usable t mn p"
        using p sym_edge_None [of i j "find_meas t i j mn" "find_meas t j i mn"]
        by (auto simp: pair_usable_def)
      moreover have "cap - length out = Suc (cap - Suc (length out))"
        using False by simp
      ultimately show ?thesis
        using False Some Cons.IH [of "out @ [e]"] p by (simp add: pair_edge_def)
    qed
  qed (use Cons p in simp)
qed simp

lemma symmetrise_eq:
  "apos_table_symmetrise (Some t) True cap mn =
     take cap (map (pair_edge t mn) (filter (pair_usable t mn) (node_pairs (length (peer t)))))"
  by (simp add: apos_table_symmetrise_def sym_loop_eq)

lemma pair_edge_ij: "pair_usable t mn p \<Longrightarrow> (e_i (pair_edge t mn p), e_j (pair_edge t mn p)) = p"
  by (cases "sym_edge (fst p) (snd p) (find_meas t (fst p) (snd p) mn) (find_meas t (snd p) (fst p) mn)")
    (auto simp: pair_edge_def pair_usable_def sym_edge_None dest: sym_edge_ij)

text \<open>Edges and holes account for every pair, and no pair has two edges.\<close>

lemma edges_and_holes:
  assumes "28 \<le> cap" and "tab_inv t"
  shows "2 * (length (apos_table_symmetrise (Some t) True cap mn)
      + apos_table_missing_pairs (Some t) mn) = length (peer t) * (length (peer t) - 1)"
proof -
  let ?ps = "node_pairs (length (peer t))"
  let ?n = "length (peer t)"
  have "?n \<le> 8" using assms(2) by (simp add: tab_inv_def)
  then have "?n * (?n - 1) \<le> 8 * 7" by (intro mult_le_mono) auto
  then have "length ?ps \<le> 28" using length_node_pairs [of ?n] by simp
  then have c: "length (filter (pair_usable t mn) ?ps) \<le> cap"
    using length_filter_le [of "pair_usable t mn" ?ps] assms(1) by linarith
  have "apos_table_missing_pairs (Some t) mn = length (filter (\<lambda>p. \<not> pair_usable t mn p) ?ps)"
    by (simp add: apos_table_missing_pairs_def pair_usable_def case_prod_unfold)
  with c sum_length_filter_compl [of "pair_usable t mn" ?ps] length_node_pairs [of ?n]
  show ?thesis by (simp add: symmetrise_eq)
qed

lemma symmetrise_pairs:
  "distinct (map (\<lambda>e. (e_i e, e_j e)) (apos_table_symmetrise (Some t) True cap mn))"
  "e \<in> set (apos_table_symmetrise (Some t) True cap mn) \<Longrightarrow>
     e_i e < e_j e \<and> e_j e < length (peer t) \<and> pair_usable t mn (e_i e, e_j e)"
  "length (apos_table_symmetrise (Some t) True cap mn) \<le> cap"
proof -
  let ?us = "filter (pair_usable t mn) (node_pairs (length (peer t)))"
  have m: "map (\<lambda>e. (e_i e, e_j e)) (map (pair_edge t mn) ?us) = ?us"
    by (rule nth_equalityI) (auto simp: pair_edge_ij dest: nth_mem)
  have "map (\<lambda>e. (e_i e, e_j e)) (apos_table_symmetrise (Some t) True cap mn) = take cap ?us"
    unfolding symmetrise_eq take_map [symmetric] using m by (simp add: take_map)
  then show "distinct (map (\<lambda>e. (e_i e, e_j e)) (apos_table_symmetrise (Some t) True cap mn))"
    by (simp add: distinct_node_pairs)
  show "length (apos_table_symmetrise (Some t) True cap mn) \<le> cap"
    by (simp add: symmetrise_eq)
  assume "e \<in> set (apos_table_symmetrise (Some t) True cap mn)"
  then obtain p where "p \<in> set ?us" "e = pair_edge t mn p"
    unfolding symmetrise_eq by (metis (no_types, lifting) in_set_takeD imageE set_map)
  then show "e_i e < e_j e \<and> e_j e < length (peer t) \<and> pair_usable t mn (e_i e, e_j e)"
    using pair_edge_ij [of t mn p] by (auto simp: set_node_pairs)
qed

section \<open>Quality maxima\<close>

lemma find_meas_SomeD:
  "find_meas t a b mn = Some m \<Longrightarrow> m \<in> set (meas t) \<and> m_from m = a \<and> m_to m = b \<and> 0 < m_mean_mm m"
  unfolding find_meas_def by (auto simp: find_Some_iff meas_usable_def)

definition recip_mm :: "apos_table \<Rightarrow> u8 \<Rightarrow> nat \<times> nat \<Rightarrow> int" where
  "recip_mm t mn p =
     (case (find_meas t (fst p) (snd p) mn, find_meas t (snd p) (fst p) mn) of
        (Some a, Some b) \<Rightarrow> \<bar>m_mean_mm a - m_mean_mm b\<bar>
      | _ \<Rightarrow> -1)"

lemma quality_pair_recip:
  "fst (quality_pair (find_meas t i j mn) (find_meas t j i mn) w) = max (fst w) (recip_mm t mn (i, j))"
  if "-1 \<le> fst w"
  using that by (auto simp: quality_pair_def recip_mm_def Let_def max_def split: option.splits prod.splits)

lemma quality_recip:
  "fst (apos_table_quality (Some t) mn) =
     foldl (\<lambda>w p. max w (recip_mm t mn p)) (-1) (node_pairs (length (peer t)))"
proof -
  have "-1 \<le> fst w \<Longrightarrow> fst (foldl (\<lambda>w (i, j). quality_pair (find_meas t i j mn) (find_meas t j i mn) w)
      w ps) = foldl (\<lambda>w p. max w (recip_mm t mn p)) (fst w) ps" for w ps
  proof (induction ps arbitrary: w)
    case (Cons p ps)
    obtain i j where p: "p = (i, j)" by (cases p)
    have "-1 \<le> fst (quality_pair (find_meas t i j mn) (find_meas t j i mn) w)"
      using Cons.prems by (simp add: quality_pair_recip)
    from Cons.IH [OF this] Cons.prems p show ?case by (simp add: quality_pair_recip)
  qed simp
  then show ?thesis by (simp add: apos_table_quality_def)
qed

lemma foldl_max_ge: "w \<le> foldl (\<lambda>w p. max w (f p)) (w :: int) ps"
  by (induction ps arbitrary: w) (auto intro: order_trans [OF max.cobounded1])

lemma foldl_max: "p \<in> set ps \<Longrightarrow> f p \<le> foldl (\<lambda>w p. max w (f p)) (w :: int) ps"
  by (induction ps arbitrary: w) (auto intro: order_trans [OF max.cobounded2 foldl_max_ge])

lemma foldl_max_attained:
  "foldl (\<lambda>w p. max w (f p)) (w :: int) ps = w \<or>
     (\<exists>p\<in>set ps. foldl (\<lambda>w p. max w (f p)) w ps = f p)"
proof (induction ps arbitrary: w)
  case (Cons p ps)
  from Cons.IH [of "max w (f p)"] show ?case by (auto simp: max_def split: if_splits)
qed simp

text \<open>The reported reciprocal disagreement is the largest over the pairs measured both ways:
  an upper bound that is attained, and -1 exactly when there is no such pair.\<close>

lemma quality_is_max:
  "p \<in> set (node_pairs (length (peer t))) \<Longrightarrow> recip_mm t mn p \<le> fst (apos_table_quality (Some t) mn)"
  "fst (apos_table_quality (Some t) mn) = -1 \<or>
     (\<exists>p\<in>set (node_pairs (length (peer t))). fst (apos_table_quality (Some t) mn) = recip_mm t mn p)"
  unfolding quality_recip by (rule foldl_max, assumption, rule foldl_max_attained)

section \<open>Properties\<close>

definition sample_table :: apos_table where
  "sample_table = apos_table_init\<lparr>peer :=
     [\<lparr>p_eui = [1, 1, 1, 1, 1, 1, 1, 1], p_short_addr = 1, p_pos_valid = False, p_x = 0, p_y = 0, p_z = 0\<rparr>,
      \<lparr>p_eui = [2, 2, 2, 2, 2, 2, 2, 2], p_short_addr = 2, p_pos_valid = False, p_x = 0, p_y = 0, p_z = 0\<rparr>]\<rparr>"

lemma sample_table_inv: "tab_inv sample_table"
  by (simp add: sample_table_def tab_inv_def apos_table_init_def)

text \<open>The node table names every anchor once: whatever is registered, no two rows share an EUI
  or a short address, and after a successful registration both lookups give its row, the other
  rows and the measurements are untouched.\<close>

theorem apos_table_register:
  assumes "tab_inv t"
  shows "(\<exists>t'. snd (apos_table_add_peer (Some t) (Some e) a v x y z) = Some t' \<and> tab_inv t') \<and>
    (\<forall>k t'. apos_table_add_peer (Some t) (Some e) a v x y z = (Inr k, Some t') \<longrightarrow>
      apos_table_find_eui (Some t') (Some e) = Inr k \<and> apos_table_find_addr (Some t') a = Inr k \<and>
      (\<forall>j<length (peer t). j \<noteq> k \<longrightarrow> peer t' ! j = peer t ! j) \<and> meas t' = meas t)"
  using add_peer_inv [OF assms, of e a v x y z] add_peer_lookup [OF assms, of e a v x y z] by blast

lemma apos_table_register_witness:
  "apos_table_find_addr (snd (apos_table_add_peer (Some sample_table) (Some [3, 3, 3, 3, 3, 3, 3, 3]) 3 True 5 6 7)) 3
     = Inr 2"
proof -
  obtain k t' where r: "apos_table_add_peer (Some sample_table) (Some [3, 3, 3, 3, 3, 3, 3, 3]) 3 True 5 6 7 = (Inr k, Some t')"
    and "k = 2"
    by (simp add: apos_table_add_peer_def apos_table_find_eui_def addr_claimed_def sample_table_def
        apos_table_init_def upt_rec)
  then show ?thesis
    using apos_table_register [OF sample_table_inv, of "[3, 3, 3, 3, 3, 3, 3, 3]" 3 True 5 6 7] by auto
qed

text \<open>A recorded range is found again under its ordered pair, provided it is usable, and the
  record of no other pair changes; recording cannot overflow the array, whatever the order.\<close>

theorem apos_table_record:
  assumes "tab_inv t" and "a \<noteq> b" and "a < length (peer t)" and "b < length (peer t)"
  shows "\<exists>t'. apos_table_add_meas (Some t) a b m s n = (None, Some t') \<and> tab_inv t' \<and>
    length (meas t') \<le> 56 \<and> peer t' = peer t \<and>
    (\<forall>mn. find_meas t' a b mn =
       (let r = \<lparr>m_from = a, m_to = b, m_mean_mm = m, m_sd_mm = s, m_n_ok = n\<rparr> in
        if meas_usable mn r then Some r else None)) \<and>
    (\<forall>mn c d. (c, d) \<noteq> (a, b) \<longrightarrow> find_meas t' c d mn = find_meas t c d mn)"
  using add_meas_cases [OF assms, of m s n] meas_bound(2) by blast

lemma apos_table_record_witness:
  "\<exists>t'. apos_table_add_meas (Some sample_table) 0 1 4000 30 40 = (None, Some t') \<and> tab_inv t' \<and>
    length (meas t') \<le> 56 \<and>
    find_meas t' 0 1 10 = Some \<lparr>m_from = 0, m_to = 1, m_mean_mm = 4000, m_sd_mm = 30, m_n_ok = 40\<rparr>"
proof -
  have "(0 :: nat) \<noteq> 1" "0 < length (peer sample_table)" "1 < length (peer sample_table)"
    by (simp_all add: sample_table_def)
  from apos_table_record [OF sample_table_inv this, of 4000 30 40] show ?thesis
    by (auto simp: Let_def meas_usable_def)
qed

text \<open>The reduction to edges loses no pair and doubles none: with room for 28 edges every pair
  of anchors is either one edge, between a lower and a higher index, with at least one usable
  direction, or one of the missing pairs that are counted.\<close>

theorem apos_table_edges_complete:
  assumes "28 \<le> cap" and "tab_inv t"
  shows "2 * (length (apos_table_symmetrise (Some t) True cap mn) + apos_table_missing_pairs (Some t) mn)
      = length (peer t) * (length (peer t) - 1) \<and>
    distinct (map (\<lambda>e. (e_i e, e_j e)) (apos_table_symmetrise (Some t) True cap mn)) \<and>
    (\<forall>e\<in>set (apos_table_symmetrise (Some t) True cap mn).
      e_i e < e_j e \<and> e_j e < length (peer t) \<and> pair_usable t mn (e_i e, e_j e))"
  using edges_and_holes [OF assms] symmetrise_pairs(1,2) by blast

lemma apos_table_edges_complete_witness:
  "2 * (length (apos_table_symmetrise (Some sample_table) True 28 10)
      + apos_table_missing_pairs (Some sample_table) 10) = 2"
  using apos_table_edges_complete [OF _ sample_table_inv, of 28 10] by (simp add: sample_table_def)

end
