(* ===== verification/AposGeom.thy ===== *)
theory AposGeom
  imports AposTable
begin

text \<open>
  The survey's geometry solver, src/apos_geom.c: closed-form seeding of a node array from
  measured distances and its Levenberg-Marquardt refinement, with the operator's gauge
  enforced by construction. Floats are their IEEE patterns and every expression is in the
  source's order of evaluation; the libm functions the code calls (\<open>hypotf\<close>, \<open>cosf\<close>,
  \<open>acosf\<close>) are arguments, collected in the record \<open>libm\<close>.
\<close>

record libm =
  lm_hypotf :: "f32 \<Rightarrow> f32 \<Rightarrow> f32"
  lm_cosf :: "f32 \<Rightarrow> f32"
  lm_acosf :: "f32 \<Rightarrow> f32"

abbreviation (input) F0 :: f32 where "F0 \<equiv> 0"
abbreviation (input) F1 :: f32 where "F1 \<equiv> 0x3F800000"
abbreviation (input) F2 :: f32 where "F2 \<equiv> 0x40000000"
abbreviation (input) F3 :: f32 where "F3 \<equiv> 0x40400000"
abbreviation (input) F6 :: f32 where "F6 \<equiv> 0x40C00000"
abbreviation (input) F10 :: f32 where "F10 \<equiv> 0x41200000"
abbreviation (input) F_TENTH :: f32 where "F_TENTH \<equiv> 0x3DCCCCCD"
abbreviation (input) F_MINUS1 :: f32 where "F_MINUS1 \<equiv> 0xBF800000"
abbreviation (input) EPS :: f32 where "EPS \<equiv> 0x358637BD"
abbreviation (input) F_1EM4 :: f32 where "F_1EM4 \<equiv> 0x38D1B717"
abbreviation (input) F_1EM12 :: f32 where "F_1EM12 \<equiv> 0x2B8CBCCC"
abbreviation (input) F_1EM3 :: f32 where "F_1EM3 \<equiv> 0x3A83126F"
abbreviation (input) F_1EM9 :: f32 where "F_1EM9 \<equiv> 0x3089705F"
abbreviation (input) F_1E12 :: f32 where "F_1E12 \<equiv> 0x5368D4A5"
abbreviation (input) F_PI :: f32 where "F_PI \<equiv> 0x40490FDB"

abbreviation (input) APOS_MIN_NODES_3D :: nat where "APOS_MIN_NODES_3D \<equiv> 4"
abbreviation (input) APOS_MIN_NODES_2D :: nat where "APOS_MIN_NODES_2D \<equiv> 3"
abbreviation (input) APOS_LM_MAX_ITER :: nat where "APOS_LM_MAX_ITER \<equiv> 200"

datatype apos_geom_dim = APOS_GEOM_3D | APOS_GEOM_2D

datatype apos_node_state = APOS_NODE_UNPLACED | APOS_NODE_PLACED | APOS_NODE_AMBIGUOUS

record apos_gauge =
  g_origin :: nat
  g_xaxis :: nat
  g_plane :: nat
  g_up :: nat
  g_dim :: apos_geom_dim

type_synonym vec3 = "f32 \<times> f32 \<times> f32"

record apos_node_out =
  n_x :: f32
  n_y :: f32
  n_z :: f32
  n_state :: apos_node_state
  n_residual_m :: f32

record apos_result =
  r_node :: "apos_node_out list"
  r_n_nodes :: nat
  r_n_placed :: nat
  r_n_ambiguous :: nat
  r_dim :: apos_geom_dim
  r_rms_m :: f32
  r_worst_edge_m :: f32
  r_worst_i :: nat
  r_worst_j :: nat
  r_planarity_m :: f32
  r_gauge_collinearity_ratio :: f32
  r_iterations :: nat

definition apos_geom_free_params :: "apos_geom_dim \<Rightarrow> nat \<Rightarrow> int" where
  "apos_geom_free_params dm n_placed =
     (if dm = APOS_GEOM_2D then 2 * int n_placed - 3 else 3 * int n_placed - 6)"

section \<open>Vectors\<close>

fun edge_d :: "apos_edge list \<Rightarrow> nat \<Rightarrow> nat \<Rightarrow> f32" where
  "edge_d [] a b = F_MINUS1"
| "edge_d (k # ks) a b =
     (if (e_i k = a \<and> e_j k = b) \<or> (e_i k = b \<and> e_j k = a) then e_d_m k else edge_d ks a b)"

fun vsub :: "vec3 \<Rightarrow> vec3 \<Rightarrow> vec3" where
  "vsub (a0, a1, a2) (b0, b1, b2) = (f32_sub a0 b0, f32_sub a1 b1, f32_sub a2 b2)"

fun vdot :: "vec3 \<Rightarrow> vec3 \<Rightarrow> f32" where
  "vdot (a0, a1, a2) (b0, b1, b2) =
     f32_add (f32_add (f32_mul a0 b0) (f32_mul a1 b1)) (f32_mul a2 b2)"

definition vnorm :: "vec3 \<Rightarrow> f32" where
  "vnorm a = f32_sqrt (vdot a a)"

fun vscale :: "vec3 \<Rightarrow> f32 \<Rightarrow> vec3" where
  "vscale (a0, a1, a2) s = (f32_mul a0 s, f32_mul a1 s, f32_mul a2 s)"

fun vcross :: "vec3 \<Rightarrow> vec3 \<Rightarrow> vec3" where
  "vcross (a0, a1, a2) (b0, b1, b2) =
     (f32_sub (f32_mul a1 b2) (f32_mul a2 b1),
      f32_sub (f32_mul a2 b0) (f32_mul a0 b2),
      f32_sub (f32_mul a0 b1) (f32_mul a1 b0))"

section \<open>Trilateration\<close>

text \<open>\<open>p + x ex + y ey + z ez\<close> and \<open>p + x ex + y ey - z ez\<close>, left to right per coordinate.\<close>

fun tri_point :: "(f32 \<Rightarrow> f32 \<Rightarrow> f32) \<Rightarrow> vec3 \<Rightarrow> f32 \<Rightarrow> vec3 \<Rightarrow> f32 \<Rightarrow> vec3 \<Rightarrow> f32 \<Rightarrow> vec3 \<Rightarrow> vec3" where
  "tri_point pm (p0, p1, p2) x (ex0, ex1, ex2) y (ey0, ey1, ey2) z (ez0, ez1, ez2) =
     (pm (f32_add (f32_add p0 (f32_mul x ex0)) (f32_mul y ey0)) (f32_mul z ez0),
      pm (f32_add (f32_add p1 (f32_mul x ex1)) (f32_mul y ey1)) (f32_mul z ez1),
      pm (f32_add (f32_add p2 (f32_mul x ex2)) (f32_mul y ey2)) (f32_mul z ez2))"

text \<open>The height over the base: a shortfall within a tenth of the first radius is clamped to
  zero, a larger one is \<open>None\<close>.\<close>

definition tri_height :: "f32 \<Rightarrow> f32 \<Rightarrow> f32 option" where
  "tri_height z2 r0 =
     (if f32_lt z2 F0 then
        let slack = f32_mul F_TENTH r0 in
        if f32_lt (f32_mul slack slack) (f32_neg z2) then None else Some F0
      else Some (f32_sqrt z2))"

definition trilaterate3 ::
  "vec3 \<Rightarrow> vec3 \<Rightarrow> vec3 \<Rightarrow> f32 \<Rightarrow> f32 \<Rightarrow> f32 \<Rightarrow> errno + (vec3 \<times> vec3)" where
  "trilaterate3 p0 p1 p2 r0 r1 r2 =
     (let p1p0 = vsub p1 p0; d = vnorm p1p0 in
      if f32_lt d EPS then Inl EDOM
      else
        let ex = vscale p1p0 (f32_div F1 d);
            p2p0 = vsub p2 p0;
            i = vdot ex p2p0;
            t = vsub p2p0 (case ex of (x0, x1, x2) \<Rightarrow> (f32_mul i x0, f32_mul i x1, f32_mul i x2));
            j = vnorm t
        in if f32_lt j EPS then Inl EDOM
           else
             let ey = vscale t (f32_div F1 j);
                 ez = vcross ex ey;
                 x = f32_div (f32_add (f32_sub (f32_mul r0 r0) (f32_mul r1 r1)) (f32_mul d d))
                       (f32_mul F2 d);
                 y = f32_sub (f32_div (f32_add (f32_add (f32_sub (f32_mul r0 r0) (f32_mul r2 r2))
                       (f32_mul i i)) (f32_mul j j)) (f32_mul F2 j))
                       (f32_mul (f32_div i j) x);
                 z2 = f32_sub (f32_sub (f32_mul r0 r0) (f32_mul x x)) (f32_mul y y)
             in case tri_height z2 r0 of
                  None \<Rightarrow> Inl EDOM
                | Some z \<Rightarrow> Inr (tri_point f32_add p0 x ex y ey z ez,
                                 tri_point f32_sub p0 x ex y ey z ez))"

definition trilaterate2 ::
  "f32 \<times> f32 \<Rightarrow> f32 \<times> f32 \<Rightarrow> f32 \<Rightarrow> f32 \<Rightarrow> errno + ((f32 \<times> f32) \<times> (f32 \<times> f32))" where
  "trilaterate2 p0 p1 r0 r1 =
     (let dx = f32_sub (fst p1) (fst p0);
          dy = f32_sub (snd p1) (snd p0);
          d = f32_sqrt (f32_add (f32_mul dx dx) (f32_mul dy dy))
      in if f32_lt d EPS then Inl EDOM
         else
           let exx = f32_div dx d; exy = f32_div dy d;
               eyx = f32_neg exy; eyy = exx;
               x = f32_div (f32_add (f32_sub (f32_mul r0 r0) (f32_mul r1 r1)) (f32_mul d d))
                     (f32_mul F2 d);
               y2 = f32_sub (f32_mul r0 r0) (f32_mul x x)
           in case tri_height y2 r0 of
                None \<Rightarrow> Inl EDOM
              | Some y \<Rightarrow> Inr
                  ((f32_add (f32_add (fst p0) (f32_mul x exx)) (f32_mul y eyx),
                    f32_add (f32_add (snd p0) (f32_mul x exy)) (f32_mul y eyy)),
                   (f32_sub (f32_add (fst p0) (f32_mul x exx)) (f32_mul y eyx),
                    f32_sub (f32_add (snd p0) (f32_mul x exy)) (f32_mul y eyy))))"

section \<open>The gauge\<close>

text \<open>The double loop over the first \<open>n_check\<close> designations.\<close>

fun distinct_below :: "nat \<Rightarrow> nat list \<Rightarrow> bool" where
  "distinct_below n [] = True"
| "distinct_below n (a # as) = (a < n \<and> list_all (\<lambda>b. a \<noteq> b) as \<and> distinct_below n as)"

definition apos_geom_gauge_valid :: "apos_gauge option \<Rightarrow> nat \<Rightarrow> bool" where
  "apos_geom_gauge_valid g n_nodes =
     (case g of
        None \<Rightarrow> False
      | Some g \<Rightarrow>
          let min_nodes = (if g_dim g = APOS_GEOM_2D then APOS_MIN_NODES_2D
                           else APOS_MIN_NODES_3D) in
          if n_nodes < min_nodes \<or> n_nodes > APOS_MAX_NODES then False
          else
            let n_check = (if g_dim g = APOS_GEOM_2D then 3 else 4) in
            distinct_below n_nodes
              (take n_check [g_origin g, g_xaxis g, g_plane g, g_up g]))"

section \<open>Node access\<close>

definition placed :: "apos_result \<Rightarrow> nat \<Rightarrow> bool" where
  "placed r n \<longleftrightarrow> n_state (r_node r ! n) \<noteq> APOS_NODE_UNPLACED"

definition apos_geom_zoff :: "apos_result option \<Rightarrow> f32 \<Rightarrow> apos_result option" where
  "apos_geom_zoff r dz =
     map_option (\<lambda>r. r\<lparr>r_node := map (\<lambda>k. let v = r_node r ! k in
        if k < r_n_nodes r \<and> n_state v \<noteq> APOS_NODE_UNPLACED
        then v\<lparr>n_z := f32_add (n_z v) dz\<rparr> else v) [0..<length (r_node r)]\<rparr>) r"

text \<open>The other end of an edge at \<open>n\<close>.\<close>

definition edge_other :: "apos_edge \<Rightarrow> nat \<Rightarrow> nat option" where
  "edge_other e n = (if e_i e = n then Some (e_j e) else if e_j e = n then Some (e_i e) else None)"

fun placed_neighbours :: "apos_edge list \<Rightarrow> apos_result \<Rightarrow> nat \<Rightarrow> nat \<Rightarrow> (nat \<times> f32) list" where
  "placed_neighbours [] r n cap = []"
| "placed_neighbours (e # es) r n cap =
     (if cap = 0 then []
      else
        (case edge_other e n of
           None \<Rightarrow> placed_neighbours es r n cap
         | Some other \<Rightarrow>
             if other \<ge> r_n_nodes r then placed_neighbours es r n cap
             else if \<not> placed r other then placed_neighbours es r n cap
             else (other, e_d_m e) # placed_neighbours es r n (cap - 1)))"

definition node_xyz :: "apos_result \<Rightarrow> nat \<Rightarrow> vec3" where
  "node_xyz r n = (let v = r_node r ! n in (n_x v, n_y v, n_z v))"

fun vadd :: "vec3 \<Rightarrow> vec3 \<Rightarrow> vec3" where
  "vadd (a0, a1, a2) (b0, b1, b2) = (f32_add a0 b0, f32_add a1 b1, f32_add a2 b2)"

text \<open>Sum and count over the placed nodes, in index order.\<close>

definition placed_sum :: "apos_result \<Rightarrow> vec3 \<times> nat" where
  "placed_sum r =
     foldl (\<lambda>(acc, cnt) k. if placed r k then (vadd acc (node_xyz r k), cnt + 1) else (acc, cnt))
       ((F0, F0, F0), 0) [0..<r_n_nodes r]"

definition placed_centroid :: "apos_result \<Rightarrow> vec3" where
  "placed_centroid r =
     (let (c, cnt) = placed_sum r in
      if cnt \<noteq> 0 then vscale c (f32_div F1 (f32_of_int (int cnt))) else c)"

definition set_node :: "apos_result \<Rightarrow> nat \<Rightarrow> vec3 \<Rightarrow> apos_node_state \<Rightarrow> apos_result" where
  "set_node r n p st =
     (case p of (px, py, pz) \<Rightarrow>
       r\<lparr>r_node := (r_node r)[n := (r_node r ! n)\<lparr>n_x := px, n_y := py, n_z := pz, n_state := st\<rparr>],
         r_n_placed := r_n_placed r + 1,
         r_n_ambiguous := (if st = APOS_NODE_AMBIGUOUS then r_n_ambiguous r + 1
                           else r_n_ambiguous r)\<rparr>)"

section \<open>Placing one node\<close>

text \<open>2D: two neighbours give two candidates; a third measured range chooses between them,
  otherwise the placed centroid does and the node is flagged.\<close>

definition place_2d :: "libm \<Rightarrow> apos_result \<Rightarrow> nat \<Rightarrow> (nat \<times> f32) list \<Rightarrow> apos_result option" where
  "place_2d lm r n nbs =
     (let xy = (\<lambda>k. let v = r_node r ! fst (nbs ! k) in (n_x v, n_y v));
          p0 = xy 0; p1 = xy 1 in
      case trilaterate2 p0 p1 (snd (nbs ! 0)) (snd (nbs ! 1)) of
        Inl _ \<Rightarrow> None
      | Inr (sa, sb) \<Rightarrow>
          let pa = (fst sa, snd sa, F0); pb = (fst sb, snd sb, F0) in
          if length nbs \<ge> 3 then
            let p2 = xy 2;
                da = f32_abs (f32_sub (lm_hypotf lm (f32_sub (fst sa) (fst p2))
                       (f32_sub (snd sa) (snd p2))) (snd (nbs ! 2)));
                db = f32_abs (f32_sub (lm_hypotf lm (f32_sub (fst sb) (fst p2))
                       (f32_sub (snd sb) (snd p2))) (snd (nbs ! 2)))
            in Some (set_node r n (if f32_le da db then pa else pb) APOS_NODE_PLACED)
          else
            let u = (f32_sub (fst p1) (fst p0), f32_sub (snd p1) (snd p0));
                (c0, c1, _) = placed_centroid r;
                v = (f32_sub c0 (fst p0), f32_sub c1 (snd p0));
                cs = f32_sub (f32_mul (fst u) (snd v)) (f32_mul (snd u) (fst v));
                va = (f32_sub (fst sa) (fst p0), f32_sub (snd sa) (snd p0));
                as' = f32_sub (f32_mul (fst u) (snd va)) (f32_mul (snd u) (fst va))
            in Some (set_node r n (if f32_le F0 cs = f32_le F0 as' then pa else pb)
                 APOS_NODE_AMBIGUOUS))"

definition place_3d :: "apos_result \<Rightarrow> nat \<Rightarrow> (nat \<times> f32) list \<Rightarrow> apos_result option" where
  "place_3d r n nbs =
     (let p = (\<lambda>k. node_xyz r (fst (nbs ! k))); rad = (\<lambda>k. snd (nbs ! k)) in
      case trilaterate3 (p 0) (p 1) (p 2) (rad 0) (rad 1) (rad 2) of
        Inl _ \<Rightarrow> None
      | Inr (sa, sb) \<Rightarrow>
          if length nbs \<ge> 4 then
            let da = f32_abs (f32_sub (vnorm (vsub sa (p 3))) (rad 3));
                db = f32_abs (f32_sub (vnorm (vsub sb (p 3))) (rad 3))
            in Some (set_node r n (if f32_le da db then sa else sb) APOS_NODE_PLACED)
          else
            let c = placed_centroid r;
                nrm = vcross (vsub (p 1) (p 0)) (vsub (p 2) (p 0));
                cs = vdot (vsub c (p 0)) nrm;
                as' = vdot (vsub sa (p 0)) nrm
            in Some (set_node r n (if f32_le F0 cs = f32_le F0 as' then sa else sb)
                 APOS_NODE_AMBIGUOUS))"

definition min_needed :: "apos_geom_dim \<Rightarrow> nat" where
  "min_needed dm = (if dm = APOS_GEOM_2D then 2 else 3)"

definition place_from_neighbours ::
  "libm \<Rightarrow> apos_edge list \<Rightarrow> apos_result \<Rightarrow> nat \<Rightarrow> apos_result option" where
  "place_from_neighbours lm es r n =
     (let nbs = placed_neighbours es r n APOS_MAX_NODES in
      if length nbs < min_needed (r_dim r) then None
      else if r_dim r = APOS_GEOM_2D then place_2d lm r n nbs
      else place_3d r n nbs)"

section \<open>Seeding\<close>

definition zero_node :: apos_node_out where
  "zero_node = \<lparr>n_x = F0, n_y = F0, n_z = F0, n_state = APOS_NODE_UNPLACED, n_residual_m = F0\<rparr>"

definition empty_result :: "apos_geom_dim \<Rightarrow> nat \<Rightarrow> apos_result" where
  "empty_result dm n =
     \<lparr>r_node = replicate APOS_MAX_NODES zero_node, r_n_nodes = n, r_n_placed = 0,
      r_n_ambiguous = 0, r_dim = dm, r_rms_m = F0, r_worst_edge_m = F0, r_worst_i = 0,
      r_worst_j = 0, r_planarity_m = F0, r_gauge_collinearity_ratio = F0, r_iterations = 0\<rparr>"

text \<open>The scan for the candidate with the most placed neighbours, first index first.\<close>

definition best_candidate ::
  "apos_edge list \<Rightarrow> apos_result \<Rightarrow> bool list \<Rightarrow> (nat \<times> nat) option" where
  "best_candidate es r tried =
     foldl (\<lambda>best n.
        if placed r n \<or> tried ! n then best
        else
          let c = length (placed_neighbours es r n APOS_MAX_NODES) in
          if c \<ge> min_needed (r_dim r) \<and>
             c > (case best of None \<Rightarrow> 0 | Some (_, best_cnt) \<Rightarrow> best_cnt)
          then Some (n, c) else best)
       None [0..<r_n_nodes r]"

definition open_nodes :: "apos_result \<Rightarrow> bool list \<Rightarrow> nat list" where
  "open_nodes r tried = filter (\<lambda>n. \<not> placed r n \<and> \<not> tried ! n) [0..<r_n_nodes r]"

lemma best_candidate_open:
  "best_candidate es r tried = Some (n, c) \<Longrightarrow>
     n \<in> set (open_nodes r tried) \<and> min_needed (r_dim r) \<le> c \<and>
     c = length (placed_neighbours es r n APOS_MAX_NODES)"
proof -
  let ?f = "\<lambda>best n. if placed r n \<or> tried ! n then best
        else let c = length (placed_neighbours es r n APOS_MAX_NODES) in
          if c \<ge> min_needed (r_dim r) \<and>
             c > (case best of None \<Rightarrow> 0 | Some (_, best_cnt) \<Rightarrow> best_cnt)
          then Some (n, c) else best"
  let ?ok = "\<lambda>best. case best of None \<Rightarrow> True | Some (n, c) \<Rightarrow>
      n \<in> set (open_nodes r tried) \<and> min_needed (r_dim r) \<le> c \<and>
      c = length (placed_neighbours es r n APOS_MAX_NODES)"
  have step: "?ok best \<Longrightarrow> set ns \<subseteq> {..<r_n_nodes r} \<Longrightarrow> ?ok (foldl ?f best ns)" for best ns
    by (induction ns arbitrary: best) (auto simp: open_nodes_def Let_def)
  have sub: "set [0..<r_n_nodes r] \<subseteq> {..<r_n_nodes r}" by auto
  have "?ok (foldl ?f None [0..<r_n_nodes r])"
    by (rule step [OF _ sub]) simp
  then show "best_candidate es r tried = Some (n, c) \<Longrightarrow> ?thesis"
    by (auto simp: best_candidate_def)
qed

text \<open>A placed node leaves the open ones, and so does one marked as tried.\<close>

definition same_frame :: "apos_result \<Rightarrow> apos_result \<Rightarrow> bool" where
  "same_frame r s \<longleftrightarrow> length (r_node s) = length (r_node r) \<and> r_n_nodes s = r_n_nodes r \<and>
     r_dim s = r_dim r"

lemma set_node_frame: "same_frame r (set_node r n p st)"
  by (cases p) (simp add: same_frame_def set_node_def)

lemma set_node_placed:
  "n < length (r_node r) \<Longrightarrow> st \<noteq> APOS_NODE_UNPLACED \<Longrightarrow>
     placed (set_node r n p st) k \<longleftrightarrow> k = n \<or> placed r k"
  by (cases p) (auto simp: placed_def set_node_def nth_list_update)

definition node_set :: "apos_result \<Rightarrow> nat \<Rightarrow> apos_result \<Rightarrow> bool" where
  "node_set r n s \<longleftrightarrow> (\<exists>p st. s = set_node r n p st \<and> st \<noteq> APOS_NODE_UNPLACED \<and>
     (r_dim r = APOS_GEOM_2D \<longrightarrow> snd (snd p) = F0))"

lemma node_setI:
  "st \<noteq> APOS_NODE_UNPLACED \<Longrightarrow> (r_dim r = APOS_GEOM_2D \<Longrightarrow> snd (snd p) = F0) \<Longrightarrow>
     node_set r n (set_node r n p st)"
  unfolding node_set_def by blast

lemma place_Some:
  "place_from_neighbours lm es r n = Some s \<Longrightarrow> node_set r n s"
  by (auto simp: place_from_neighbours_def place_2d_def place_3d_def Let_def
      split: if_splits sum.splits prod.splits intro!: node_setI)

text \<open>The \<open>for (;;)\<close> loop with a bound on its rounds: every round places an open node or
  marks it as tried, so eight rounds are enough (\<open>seed_loop_done\<close> below).\<close>

fun seed_loop :: "nat \<Rightarrow> libm \<Rightarrow> apos_edge list \<Rightarrow> apos_result \<Rightarrow> bool list \<Rightarrow> apos_result \<times> bool list" where
  "seed_loop 0 lm es r tried = (r, tried)"
| "seed_loop (Suc k) lm es r tried =
     (case best_candidate es r tried of
        None \<Rightarrow> (r, tried)
      | Some (n, _) \<Rightarrow>
          (case place_from_neighbours lm es r n of
             None \<Rightarrow> seed_loop k lm es r (tried[n := True])
           | Some s \<Rightarrow> seed_loop k lm es s tried))"

text \<open>The three nodes that fix the frame, from the three distances between them.\<close>

definition seed_gauge :: "apos_gauge \<Rightarrow> nat \<Rightarrow> f32 \<Rightarrow> f32 \<Rightarrow> f32 \<Rightarrow> apos_result" where
  "seed_gauge g n_nodes d01 d02 d12 =
     (let r = empty_result (g_dim g) n_nodes;
          r = set_node r (g_origin g) (F0, F0, F0) APOS_NODE_PLACED;
          r = set_node r (g_xaxis g) (d01, F0, F0) APOS_NODE_PLACED;
          px = f32_div (f32_add (f32_sub (f32_mul d02 d02) (f32_mul d12 d12)) (f32_mul d01 d01))
                 (f32_mul F2 d01);
          py2 = f32_sub (f32_mul d02 d02) (f32_mul px px);
          py = (if f32_lt F0 py2 then f32_sqrt py2 else F0)
      in set_node r (g_plane g) (px, py, F0) APOS_NODE_PLACED)"

definition seed_up :: "apos_edge list \<Rightarrow> apos_gauge \<Rightarrow> apos_result \<Rightarrow> apos_result option" where
  "seed_up es g r =
     (let nbs = placed_neighbours es r (g_up g) APOS_MAX_NODES;
          p = (\<lambda>k. node_xyz r (fst (nbs ! k))); rad = (\<lambda>k. snd (nbs ! k)) in
      if length nbs < 3 then None
      else
        (case trilaterate3 (p 0) (p 1) (p 2) (rad 0) (rad 1) (rad 2) of
           Inl _ \<Rightarrow> None
         | Inr (sa, sb) \<Rightarrow>
             Some (set_node r (g_up g) (if f32_le (snd (snd sb)) (snd (snd sa)) then sa else sb)
               APOS_NODE_PLACED)))"

text \<open>\<open>ptrs\<close>: the edge array and the result pointer are not NULL. The result structure is
  returned as the call leaves it, also where it fails half way.\<close>

definition apos_geom_seed ::
  "libm \<Rightarrow> bool \<Rightarrow> apos_edge list \<Rightarrow> nat \<Rightarrow> apos_gauge option \<Rightarrow> apos_result
     \<Rightarrow> errno option \<times> apos_result" where
  "apos_geom_seed lm ptrs es n_nodes gp out =
     (if \<not> ptrs \<or> gp = None then (Some EINVAL, out)
      else if \<not> apos_geom_gauge_valid gp n_nodes then (Some EINVAL, out)
      else
        let g = the gp;
            d01 = edge_d es (g_origin g) (g_xaxis g);
            d02 = edge_d es (g_origin g) (g_plane g);
            d12 = edge_d es (g_xaxis g) (g_plane g)
        in if f32_le d01 F0 \<or> f32_le d02 F0 \<or> f32_le d12 F0
           then (Some ENODATA, empty_result (g_dim g) n_nodes)
           else
             let r = seed_gauge g n_nodes d01 d02 d12;
                 tried = replicate APOS_MAX_NODES False
             in if g_dim g = APOS_GEOM_3D then
                  (case seed_up es g r of
                     None \<Rightarrow> (Some ENODATA, r)
                   | Some r \<Rightarrow> (None, fst (seed_loop APOS_MAX_NODES lm es r tried)))
                else (None, fst (seed_loop APOS_MAX_NODES lm es r tried)))"

section \<open>Levenberg-Marquardt refinement\<close>

text \<open>The parameter map: for each node the parameter numbers of its coordinates, \<open>None\<close> for
  a fixed one.\<close>

type_synonym pmap_row = "nat option \<times> nat option \<times> nat option"

definition pmap_node :: "apos_result \<Rightarrow> apos_gauge \<Rightarrow> nat \<Rightarrow> nat \<Rightarrow> pmap_row \<times> nat" where
  "pmap_node r g n p =
     (if \<not> placed r n \<or> n = g_origin g then ((None, None, None), p)
      else if n = g_xaxis g then ((Some p, None, None), p + 1)
      else if n = g_plane g \<or> r_dim r = APOS_GEOM_2D then ((Some p, Some (p + 1), None), p + 2)
      else ((Some p, Some (p + 1), Some (p + 2)), p + 3))"

fun pmap_rows :: "apos_result \<Rightarrow> apos_gauge \<Rightarrow> nat list \<Rightarrow> nat \<Rightarrow> pmap_row list \<times> nat" where
  "pmap_rows r g [] p = ([], p)"
| "pmap_rows r g (n # ns) p =
     (let (row, p) = pmap_node r g n p; (rows, p) = pmap_rows r g ns p in (row # rows, p))"

definition pmap_build :: "apos_result \<Rightarrow> apos_gauge \<Rightarrow> pmap_row list \<times> nat" where
  "pmap_build r g =
     (let (rows, p) = pmap_rows r g [0..<r_n_nodes r] 0 in
      (rows @ replicate (APOS_MAX_NODES - r_n_nodes r) (None, None, None), p))"

definition edge_usable :: "apos_result \<Rightarrow> apos_edge \<Rightarrow> bool" where
  "edge_usable r e =
     (if e_i e \<ge> r_n_nodes r \<or> e_j e \<ge> r_n_nodes r \<or> e_i e = e_j e then False
      else placed r (e_i e) \<and> placed r (e_j e))"

definition edge_sd :: "apos_edge \<Rightarrow> f32" where
  "edge_sd e = (if f32_lt F_1EM4 (e_sd_m e) then e_sd_m e else F_1EM4)"

definition edge_vec :: "apos_result \<Rightarrow> apos_edge \<Rightarrow> vec3" where
  "edge_vec r e = vsub (node_xyz r (e_i e)) (node_xyz r (e_j e))"

definition cost :: "apos_edge list \<Rightarrow> apos_result \<Rightarrow> f32" where
  "cost es r =
     foldl (\<lambda>c e. if \<not> edge_usable r e then c
        else let res = f32_div (f32_sub (vnorm (edge_vec r e)) (e_d_m e)) (edge_sd e)
             in f32_add c (f32_mul res res)) F0 es"

section \<open>The dense solver\<close>

type_synonym matrix = "f32 list list"

definition pivot_row :: "matrix \<Rightarrow> nat \<Rightarrow> nat \<Rightarrow> nat" where
  "pivot_row A c n =
     foldl (\<lambda>piv rr. if f32_lt (f32_abs (A ! piv ! c)) (f32_abs (A ! rr ! c)) then rr else piv)
       c [c + 1..<n]"

definition swap :: "'a list \<Rightarrow> nat \<Rightarrow> nat \<Rightarrow> 'a list" where
  "swap xs i j = xs[i := xs ! j, j := xs ! i]"

text \<open>Row \<open>rr\<close> with \<open>f\<close> times row \<open>c\<close> subtracted from column \<open>c\<close> on.\<close>

definition eliminate_row :: "nat \<Rightarrow> nat \<Rightarrow> matrix \<times> f32 list \<Rightarrow> nat \<Rightarrow> matrix \<times> f32 list" where
  "eliminate_row c n M rr =
     (let (A, b) = M; f = f32_div (A ! rr ! c) (A ! c ! c) in
      if f32_eq f F0 then (A, b)
      else
        (A[rr := foldl (\<lambda>row k. row[k := f32_sub (row ! k) (f32_mul f (A ! c ! k))]) (A ! rr) [c..<n]],
         b[rr := f32_sub (b ! rr) (f32_mul f (b ! c))]))"

fun forward_elim :: "nat list \<Rightarrow> nat \<Rightarrow> matrix \<times> f32 list \<Rightarrow> (matrix \<times> f32 list) option" where
  "forward_elim [] n M = Some M"
| "forward_elim (c # cs) n (A, b) =
     (let piv = pivot_row A c n in
      if f32_lt (f32_abs (A ! piv ! c)) F_1EM12 then None
      else
        let (A, b) = (if piv \<noteq> c then (swap A c piv, swap b c piv) else (A, b))
        in forward_elim cs n (foldl (eliminate_row c n) (A, b) [c + 1..<n]))"

definition back_subst :: "matrix \<Rightarrow> nat \<Rightarrow> f32 list \<Rightarrow> nat \<Rightarrow> f32 list" where
  "back_subst A n b rr =
     (let s = foldl (\<lambda>s k. f32_sub s (f32_mul (A ! rr ! k) (b ! k))) (b ! rr) [rr + 1..<n]
      in b[rr := f32_div s (A ! rr ! rr)])"

definition solve_dense :: "matrix \<Rightarrow> f32 list \<Rightarrow> nat \<Rightarrow> f32 list option" where
  "solve_dense A b n =
     (case forward_elim [0..<n] n (A, b) of
        None \<Rightarrow> None
      | Some (A, b) \<Rightarrow> Some (foldl (back_subst A n) b (rev [0..<n])))"

section \<open>Steps and diagnostics\<close>

definition step_coord :: "f32 list \<Rightarrow> nat option \<Rightarrow> f32 \<Rightarrow> f32" where
  "step_coord st ix v = (case ix of None \<Rightarrow> v | Some k \<Rightarrow> f32_add v (st ! k))"

definition apply_step :: "apos_result \<Rightarrow> pmap_row list \<Rightarrow> f32 list \<Rightarrow> apos_result" where
  "apply_step r m st =
     r\<lparr>r_node := map (\<lambda>n. let v = r_node r ! n in
        if n < r_n_nodes r then
          (case m ! n of (i0, i1, i2) \<Rightarrow>
            v\<lparr>n_x := step_coord st i0 (n_x v), n_y := step_coord st i1 (n_y v),
              n_z := step_coord st i2 (n_z v)\<rparr>)
        else v) [0..<length (r_node r)]\<rparr>"

text \<open>Smallest eigenvalue of a symmetric 3 by 3 matrix, given as a function of its indices.\<close>

definition det3 :: "(nat \<Rightarrow> nat \<Rightarrow> f32) \<Rightarrow> f32" where
  "det3 B =
     f32_add
       (f32_sub
         (f32_mul (B 0 0) (f32_sub (f32_mul (B 1 1) (B 2 2)) (f32_mul (B 1 2) (B 2 1))))
         (f32_mul (B 0 1) (f32_sub (f32_mul (B 1 0) (B 2 2)) (f32_mul (B 1 2) (B 2 0)))))
       (f32_mul (B 0 2) (f32_sub (f32_mul (B 1 0) (B 2 1)) (f32_mul (B 1 1) (B 2 0))))"

definition smallest_eig_sym3 :: "libm \<Rightarrow> (nat \<Rightarrow> nat \<Rightarrow> f32) \<Rightarrow> f32" where
  "smallest_eig_sym3 lm A =
     (let p1 = f32_add (f32_add (f32_mul (A 0 1) (A 0 1)) (f32_mul (A 0 2) (A 0 2)))
                 (f32_mul (A 1 2) (A 1 2)) in
      if f32_le p1 F0 then
        let mn = A 0 0;
            mn = (if f32_lt (A 1 1) mn then A 1 1 else mn)
        in (if f32_lt (A 2 2) mn then A 2 2 else mn)
      else
        let q = f32_div (f32_add (f32_add (A 0 0) (A 1 1)) (A 2 2)) F3;
            d0 = f32_sub (A 0 0) q; d1 = f32_sub (A 1 1) q; d2 = f32_sub (A 2 2) q;
            p2 = f32_add (f32_add (f32_add (f32_mul d0 d0) (f32_mul d1 d1)) (f32_mul d2 d2))
                   (f32_mul F2 p1);
            p = f32_sqrt (f32_div p2 F6)
        in if f32_lt p EPS then q
           else
             let B = (\<lambda>i j. f32_div (f32_sub (A i j) (if i = j then q else F0)) p);
                 rr = f32_div (det3 B) F2;
                 rr = (if f32_lt rr F_MINUS1 then F_MINUS1 else if f32_lt F1 rr then F1 else rr)
             in f32_add q (f32_mul (f32_mul F2 p)
                  (lm_cosf lm (f32_add (f32_div (lm_acosf lm rr) F3)
                     (f32_div (f32_mul F2 F_PI) F3)))))"

definition vec_nth :: "vec3 \<Rightarrow> nat \<Rightarrow> f32" where
  "vec_nth v i = (if i = 0 then fst v else if i = 1 then fst (snd v) else snd (snd v))"

definition planarity :: "libm \<Rightarrow> apos_result \<Rightarrow> f32" where
  "planarity lm r =
     (let (c, cnt) = placed_sum r in
      if cnt < 4 then F0
      else
        let c = vscale c (f32_div F1 (f32_of_int (int cnt)));
            vs = map (\<lambda>n. vsub (node_xyz r n) c) (filter (placed r) [0..<r_n_nodes r]);
            C = (\<lambda>i j. f32_div
                   (foldl (\<lambda>acc v. f32_add acc (f32_mul (vec_nth v i) (vec_nth v j))) F0 vs)
                   (f32_of_int (int cnt)));
            ev = smallest_eig_sym3 lm C
        in if f32_lt F0 ev then f32_sqrt ev else F0)"

definition gauge_collinearity :: "apos_result \<Rightarrow> apos_gauge \<Rightarrow> f32" where
  "gauge_collinearity r g =
     (if r_dim r \<noteq> APOS_GEOM_2D then F0
      else
        let base = n_x (r_node r ! g_xaxis g) in
        if f32_lt (f32_abs base) EPS then F0
        else f32_div (f32_abs (n_y (r_node r ! g_plane g))) (f32_abs base))"

record diag =
  d_sum :: f32
  d_used :: nat
  d_node_sum :: "f32 list"
  d_node_cnt :: "nat list"
  d_worst :: f32
  d_wi :: nat
  d_wj :: nat

definition diag_edge :: "apos_result \<Rightarrow> diag \<Rightarrow> apos_edge \<Rightarrow> diag" where
  "diag_edge r d e =
     (if \<not> edge_usable r e then d
      else
        let res = f32_sub (vnorm (edge_vec r e)) (e_d_m e);
            ares = f32_abs res; sq = f32_mul res res; i = e_i e; j = e_j e;
            ns = (d_node_sum d)[i := f32_add (d_node_sum d ! i) sq];
            nc = (d_node_cnt d)[i := d_node_cnt d ! i + 1];
            d = d\<lparr>d_sum := f32_add (d_sum d) sq, d_used := d_used d + 1,
                  d_node_sum := ns[j := f32_add (ns ! j) sq],
                  d_node_cnt := nc[j := nc ! j + 1]\<rparr>
        in if f32_lt (d_worst d) ares then d\<lparr>d_worst := ares, d_wi := i, d_wj := j\<rparr> else d)"

definition fill_diagnostics :: "libm \<Rightarrow> apos_edge list \<Rightarrow> apos_result \<Rightarrow> apos_gauge \<Rightarrow> apos_result" where
  "fill_diagnostics lm es r g =
     (let d = foldl (diag_edge r) \<lparr>d_sum = F0, d_used = 0, d_node_sum = replicate APOS_MAX_NODES F0,
                d_node_cnt = replicate APOS_MAX_NODES 0, d_worst = F0, d_wi = 0, d_wj = 0\<rparr> es;
          r = r\<lparr>r_worst_edge_m := d_worst d, r_worst_i := d_wi d, r_worst_j := d_wj d,
                r_rms_m := (if d_used d \<noteq> 0
                            then f32_sqrt (f32_div (d_sum d) (f32_of_int (int (d_used d)))) else F0),
                r_node := map (\<lambda>n. let v = r_node r ! n in
                   if n < r_n_nodes r then
                     v\<lparr>n_residual_m := (if d_node_cnt d ! n \<noteq> 0
                        then f32_sqrt (f32_div (d_node_sum d ! n) (f32_of_int (int (d_node_cnt d ! n))))
                        else F0)\<rparr>
                   else v) [0..<length (r_node r)]\<rparr>
      in r\<lparr>r_planarity_m := planarity lm r, r_gauge_collinearity_ratio := gauge_collinearity r g\<rparr>)"

section \<open>The iteration\<close>

text \<open>The columns and gradient entries of one edge: per axis, the free coordinate of either
  end.\<close>

definition edge_grad ::
  "pmap_row list \<Rightarrow> apos_edge \<Rightarrow> vec3 \<Rightarrow> f32 \<Rightarrow> f32 \<Rightarrow> (nat \<times> f32) list" where
  "edge_grad m e d len w =
     (let pick = (\<lambda>row axis. if axis = 0 then fst row else if axis = (1::nat) then fst (snd row)
                   else snd (snd row));
          g = (\<lambda>axis. f32_div (vec_nth d axis) len) in
      concat (map (\<lambda>axis.
        (case pick (m ! e_i e) axis of Some c \<Rightarrow> [(c, f32_mul (g axis) w)] | None \<Rightarrow> []) @
        (case pick (m ! e_j e) axis of Some c \<Rightarrow> [(c, f32_mul (f32_neg (g axis)) w)] | None \<Rightarrow> []))
        [0, 1, 2]))"

definition accumulate ::
  "f32 \<Rightarrow> (nat \<times> f32) list \<Rightarrow> matrix \<times> f32 list \<Rightarrow> nat \<times> f32 \<Rightarrow> matrix \<times> f32 list" where
  "accumulate res cols M cg =
     (let (JtJ, Jtr) = M; (cp, gp) = cg in
      (JtJ[cp := foldl (\<lambda>row (cq, gq). row[cq := f32_add (row ! cq) (f32_mul gp gq)]) (JtJ ! cp) cols],
       Jtr[cp := f32_sub (Jtr ! cp) (f32_mul gp res)]))"

definition normal_edge :: "apos_result \<Rightarrow> pmap_row list \<Rightarrow> matrix \<times> f32 list \<Rightarrow> apos_edge
    \<Rightarrow> matrix \<times> f32 list" where
  "normal_edge r m M e =
     (if \<not> edge_usable r e then M
      else
        let d = edge_vec r e; len = vnorm d in
        if f32_lt len EPS then M
        else
          let w = f32_div F1 (edge_sd e);
              res = f32_mul (f32_sub len (e_d_m e)) w;
              cols = edge_grad m e d len w
          in foldl (accumulate res cols) M cols)"

definition normal_eqs :: "apos_edge list \<Rightarrow> apos_result \<Rightarrow> pmap_row list \<Rightarrow> nat \<Rightarrow> matrix \<times> f32 list" where
  "normal_eqs es r m np =
     foldl (normal_edge r m) (replicate np (replicate np F0), replicate np F0) es"

definition damped :: "matrix \<Rightarrow> f32 \<Rightarrow> nat \<Rightarrow> matrix" where
  "damped JtJ lambda np =
     map (\<lambda>p. (JtJ ! p)[p := f32_add (JtJ ! p ! p)
        (f32_mul lambda (if f32_lt F0 (JtJ ! p ! p) then JtJ ! p ! p else F1))]) [0..<np]"

text \<open>The iterations from \<open>it\<close> on, with \<open>k\<close> of the 200 left. The trial result is a copy made
  before the iteration count is stored.\<close>

fun lm_loop ::
  "nat \<Rightarrow> nat \<Rightarrow> apos_edge list \<Rightarrow> pmap_row list \<Rightarrow> nat \<Rightarrow> f32 \<Rightarrow> f32 \<Rightarrow> apos_result \<Rightarrow> apos_result" where
  "lm_loop 0 it es m np lambda c_cur io = io"
| "lm_loop (Suc k) it es m np lambda c_cur io =
     (let (JtJ, Jtr) = normal_eqs es io m np in
      case solve_dense (damped JtJ lambda np) Jtr np of
        None \<Rightarrow>
          let lambda = f32_mul lambda F10 in
          if f32_lt F_1E12 lambda then io
          else lm_loop k (it + 1) es m np lambda c_cur io
      | Some bvec \<Rightarrow>
          let trial = apply_step io m bvec;
              c_new = cost es trial;
              io = io\<lparr>r_iterations := it + 1\<rparr>
          in if f32_lt c_new c_cur then
               let rel = f32_div (f32_sub c_cur c_new) (f32_add c_cur EPS);
                   io = trial;
                   c_cur = c_new;
                   lambda = f32_mul lambda F_TENTH;
                   lambda = (if f32_lt lambda F_1EM12 then F_1EM12 else lambda)
               in if f32_lt rel F_1EM9 then io
                  else lm_loop k (it + 1) es m np lambda c_cur io
             else
               let lambda = f32_mul lambda F10 in
               if f32_lt F_1E12 lambda then io
               else lm_loop k (it + 1) es m np lambda c_cur io)"

definition apos_geom_refine ::
  "libm \<Rightarrow> bool \<Rightarrow> apos_edge list \<Rightarrow> apos_gauge option \<Rightarrow> apos_result \<Rightarrow> errno option \<times> apos_result" where
  "apos_geom_refine lm ptrs es gp io =
     (if \<not> ptrs \<or> gp = None then (Some EINVAL, io)
      else if \<not> apos_geom_gauge_valid gp (r_n_nodes io) then (Some EINVAL, io)
      else
        let g = the gp;
            io = io\<lparr>r_dim := g_dim g\<rparr>;
            (m, np) = pmap_build io g
        in if filter (edge_usable io) es = [] then (Some ENODATA, io)
           else if np = 0 then (None, fill_diagnostics lm es io g)
           else
             let c_cur = cost es io;
                 io = io\<lparr>r_iterations := 0\<rparr>
             in (None, fill_diagnostics lm es
                  (lm_loop APOS_LM_MAX_ITER 0 es m np F_1EM3 c_cur io) g))"

definition apos_geom_solve ::
  "libm \<Rightarrow> bool \<Rightarrow> apos_edge list \<Rightarrow> nat \<Rightarrow> apos_gauge option \<Rightarrow> apos_result
     \<Rightarrow> errno option \<times> apos_result" where
  "apos_geom_solve lm ptrs es n_nodes gp out =
     (case apos_geom_seed lm ptrs es n_nodes gp out of
        (Some rc, out) \<Rightarrow> (Some rc, out)
      | (None, out) \<Rightarrow> apos_geom_refine lm ptrs es gp out)"

end
