(* ===== verification/AposGeomProps.thy ===== *)
theory AposGeomProps
  imports AposGeom
begin

text \<open>
  What the solver of \<open>AposGeom\<close> guarantees whatever the ranges were: the counters of a
  seed are those of its nodes, the seeding loop ends because it has nothing left to try,
  the free parameters are 3N-6 (2N-3 in the plane), and the refinement cannot move the
  frame nor raise the cost.
\<close>

section \<open>The gauge\<close>

definition gauge_nodes :: "apos_gauge \<Rightarrow> nat set" where
  "gauge_nodes g = {g_origin g, g_xaxis g, g_plane g} \<union>
     (if g_dim g = APOS_GEOM_3D then {g_up g} else {})"

lemma gauge_valid_iff:
  "apos_geom_gauge_valid (Some g) n \<longleftrightarrow>
     card (gauge_nodes g) = (if g_dim g = APOS_GEOM_2D then 3 else 4) \<and>
     gauge_nodes g \<subseteq> {..<n} \<and> n \<le> 8"
proof -
  have c3: "card {a, b, c} = 3 \<longleftrightarrow> a \<noteq> b \<and> a \<noteq> c \<and> b \<noteq> c" for a b c :: nat
    by (auto simp: card_insert_if)
  have c4: "card {a, b, c, d} = 4 \<longleftrightarrow> a \<noteq> b \<and> a \<noteq> c \<and> a \<noteq> d \<and> b \<noteq> c \<and> b \<noteq> d \<and> c \<noteq> d"
    for a b c d :: nat by (auto simp: card_insert_if)
  have le: "card S \<le> n" if "S \<subseteq> {..<n}" for S
    using card_mono [of "{..<n}" S] that by simp
  have t3: "take 3 [a, b, c, d] = [a, b, c]" and t4: "take 4 [a, b, c, d] = [a, b, c, d]"
    for a b c d :: nat by simp_all
  show ?thesis
  proof (cases "g_dim g")
    case APOS_GEOM_2D
    have "3 \<le> n" if "gauge_nodes g \<subseteq> {..<n}" "card (gauge_nodes g) = 3"
      using le [OF that(1)] that(2) by simp
    with APOS_GEOM_2D show ?thesis
      by (simp add: apos_geom_gauge_valid_def gauge_nodes_def t3 c3) (auto simp: not_less)
  next
    case APOS_GEOM_3D
    have "4 \<le> n" if "gauge_nodes g \<subseteq> {..<n}" "card (gauge_nodes g) = 4"
      using le [OF that(1)] that(2) by simp
    moreover have "gauge_nodes g = {g_origin g, g_xaxis g, g_plane g, g_up g}"
      using APOS_GEOM_3D by (auto simp: gauge_nodes_def)
    ultimately show ?thesis using APOS_GEOM_3D
      by (simp add: apos_geom_gauge_valid_def t4 c4) (auto simp: not_less)
  qed
qed

section \<open>Counters and frames\<close>

definition result_wf :: "apos_result \<Rightarrow> bool" where
  "result_wf r \<longleftrightarrow> length (r_node r) = 8 \<and> r_n_nodes r \<le> 8 \<and>
     r_n_placed r = length (filter (placed r) [0..<8]) \<and>
     r_n_ambiguous r = length (filter (\<lambda>n. n_state (r_node r ! n) = APOS_NODE_AMBIGUOUS) [0..<8]) \<and>
     (\<forall>n<8. placed r n \<longrightarrow> n < r_n_nodes r) \<and>
     (\<forall>n<8. r_dim r = APOS_GEOM_2D \<longrightarrow> n_z (r_node r ! n) = F0)"

lemma filter_insert_one:
  "n < k \<Longrightarrow> \<not> P n \<Longrightarrow> length (filter (\<lambda>i. i = n \<or> P i) [0..<k]) = Suc (length (filter P [0..<k]))"
proof -
  assume n: "n < k" "\<not> P n"
  have "length (filter Q [0..<k]) = card {i. i < k \<and> Q i}" for Q
    by (subst distinct_card [symmetric]) (auto intro: arg_cong [of _ _ card])
  moreover have "{i. i < k \<and> (i = n \<or> P i)} = insert n {i. i < k \<and> P i}" using n by auto
  ultimately show ?thesis using n by simp
qed

lemma set_node_nth:
  "n < length (r_node r) \<Longrightarrow> k \<noteq> n \<Longrightarrow> r_node (set_node r n p st) ! k = r_node r ! k"
  by (cases p) (simp add: set_node_def)

lemma set_node_self:
  "n < length (r_node r) \<Longrightarrow> r_node (set_node r n (a, b, c) st) ! n =
     (r_node r ! n)\<lparr>n_x := a, n_y := b, n_z := c, n_state := st\<rparr>"
  by (simp add: set_node_def)

lemma set_node_wf:
  assumes "result_wf r" and "n < r_n_nodes r" and "\<not> placed r n" and "node_set r n s"
  shows "result_wf s" and "r_n_nodes s = r_n_nodes r" and "r_dim s = r_dim r"
    and "placed s k \<longleftrightarrow> k = n \<or> placed r k" and "k \<noteq> n \<Longrightarrow> r_node s ! k = r_node r ! k"
proof -
  obtain a b c st where s: "s = set_node r n (a, b, c) st" "st \<noteq> APOS_NODE_UNPLACED"
    "r_dim r = APOS_GEOM_2D \<Longrightarrow> c = F0"
    using assms(4) by (auto simp: node_set_def)
  have n: "n < 8" "n < length (r_node r)" using assms(1,2) by (auto simp: result_wf_def)
  have pl: "placed s = (\<lambda>k. k = n \<or> placed r k)"
    unfolding s(1) using set_node_placed [OF n(2) s(2)] by auto
  have other: "r_node s ! k = r_node r ! k" if "k \<noteq> n" for k
    unfolding s(1) using set_node_nth [OF n(2) that] .
  have fr: "length (r_node s) = length (r_node r)" "r_n_nodes s = r_n_nodes r" "r_dim s = r_dim r"
    "r_n_placed s = r_n_placed r + 1"
    "r_n_ambiguous s = (if st = APOS_NODE_AMBIGUOUS then r_n_ambiguous r + 1 else r_n_ambiguous r)"
    unfolding s(1) by (simp_all add: set_node_def)
  have self: "n_z (r_node s ! n) = c" "n_state (r_node s ! n) = st"
    unfolding s(1) using n(2) by (simp_all add: set_node_self)
  let ?amb = "\<lambda>r n. n_state (r_node r ! n) = APOS_NODE_AMBIGUOUS"
  have na: "\<not> ?amb r n" using assms(3) by (simp add: placed_def)
  have "?amb s = (if st = APOS_NODE_AMBIGUOUS then (\<lambda>i. i = n \<or> ?amb r i) else ?amb r)"
    using other self(2) na by (intro ext, rename_tac i, case_tac "i = n") simp_all
  then have amb: "length (filter (?amb s) [0..<8]) =
      (if st = APOS_NODE_AMBIGUOUS then Suc (length (filter (?amb r) [0..<8]))
       else length (filter (?amb r) [0..<8]))"
    using filter_insert_one [of n 8 "?amb r"] n(1) na by simp
  have cnt: "length (filter (placed s) [0..<8]) = Suc (length (filter (placed r) [0..<8]))"
    unfolding pl using n(1) assms(3) by (rule filter_insert_one)
  have z: "\<forall>k<8. r_dim r = APOS_GEOM_2D \<longrightarrow> n_z (r_node s ! k) = F0"
    using assms(1) other self(1) s(3) by (metis result_wf_def)
  show "result_wf s"
    using assms(1,2) fr amb cnt z pl unfolding result_wf_def by auto
  show "r_n_nodes s = r_n_nodes r" "r_dim s = r_dim r" "placed s k \<longleftrightarrow> k = n \<or> placed r k"
    "k \<noteq> n \<Longrightarrow> r_node s ! k = r_node r ! k"
    using fr pl other by simp_all
qed

section \<open>The seeding loop\<close>

lemma open_nodes_place:
  assumes "n \<in> set (open_nodes r tried)" and "r_n_nodes s = r_n_nodes r"
    and "\<And>k. placed s k \<longleftrightarrow> k = n \<or> placed r k"
  shows "length (open_nodes s tried) < length (open_nodes r tried)"
proof -
  have "open_nodes s tried = filter (\<lambda>k. k \<noteq> n) (open_nodes r tried)"
    using assms(2,3) by (auto simp: open_nodes_def intro: filter_cong)
  then show ?thesis
    using assms(1) by (simp add: length_filter_less)
qed

lemma open_nodes_tried:
  assumes "n \<in> set (open_nodes r tried)" and "n < length tried"
  shows "length (open_nodes r (tried[n := True])) < length (open_nodes r tried)"
proof -
  have "open_nodes r (tried[n := True]) = filter (\<lambda>k. k \<noteq> n) (open_nodes r tried)"
    using assms(2) by (auto simp: open_nodes_def nth_list_update intro: filter_cong)
  then show ?thesis
    using assms(1) by (simp add: length_filter_less)
qed

text \<open>With as many rounds as open nodes the loop reaches its own exit, and the frame, the
  counters and the nodes placed before are kept.\<close>

lemma seed_loop_spec:
  assumes "result_wf r" and "length tried = 8"
  shows "result_wf (fst (seed_loop k lm es r tried))"
    and "r_n_nodes (fst (seed_loop k lm es r tried)) = r_n_nodes r"
    and "r_dim (fst (seed_loop k lm es r tried)) = r_dim r"
    and "placed r i \<Longrightarrow> r_node (fst (seed_loop k lm es r tried)) ! i = r_node r ! i"
    and "length (open_nodes r tried) \<le> k \<Longrightarrow>
      best_candidate es (fst (seed_loop k lm es r tried)) (snd (seed_loop k lm es r tried)) = None"
proof -
  let ?P = "\<lambda>k r tried. let R = seed_loop k lm es r tried in result_wf (fst R) \<and>
      r_n_nodes (fst R) = r_n_nodes r \<and> r_dim (fst R) = r_dim r \<and>
      (\<forall>i. placed r i \<longrightarrow> r_node (fst R) ! i = r_node r ! i) \<and>
      (length (open_nodes r tried) \<le> k \<longrightarrow> best_candidate es (fst R) (snd R) = None)"
  have "?P k r tried" using assms
  proof (induction k arbitrary: r tried)
    case 0
    have "best_candidate es r tried = None" if "open_nodes r tried = []"
      using that best_candidate_open [of es r tried] by (cases "best_candidate es r tried") auto
    with 0 show ?case by (simp add: Let_def)
  next
    case (Suc k)
    show ?case
    proof (cases "best_candidate es r tried")
      case None
      with Suc.prems show ?thesis by (simp add: Let_def)
    next
      case (Some nc)
      obtain n c where nc: "nc = (n, c)" by (cases nc)
      have n: "n \<in> set (open_nodes r tried)"
        using best_candidate_open [of es r tried n c] Some nc by simp
      then have nn: "n < r_n_nodes r" "\<not> placed r n" "n < 8"
        using Suc.prems(1) by (auto simp: open_nodes_def result_wf_def)
      show ?thesis
      proof (cases "place_from_neighbours lm es r n")
        case None
        then have "seed_loop (Suc k) lm es r tried = seed_loop k lm es r (tried[n := True])"
          using Some nc by simp
        moreover have "length (open_nodes r (tried[n := True])) < length (open_nodes r tried)"
          using open_nodes_tried [OF n] nn(3) Suc.prems(2) by simp
        moreover have "?P k r (tried[n := True])"
          using Suc.prems by (intro Suc.IH) simp_all
        ultimately show ?thesis unfolding Let_def by auto
      next
        case (Some s)
        note w = set_node_wf [OF Suc.prems(1) nn(1,2) place_Some [OF Some]]
        have "seed_loop (Suc k) lm es r tried = seed_loop k lm es s tried"
          using Some \<open>best_candidate es r tried = Some nc\<close> nc by simp
        moreover have "length (open_nodes s tried) < length (open_nodes r tried)"
          using open_nodes_place [OF n] w by simp
        moreover have "?P k s tried"
          using Suc.prems w(1) by (intro Suc.IH) simp_all
        moreover have "placed r i \<Longrightarrow> placed s i \<and> r_node s ! i = r_node r ! i" for i
          using w(4,5) [of i] nn(2) by auto
        ultimately show ?thesis using w(2,3) unfolding Let_def by auto
      qed
    qed
  qed
  then show "result_wf (fst (seed_loop k lm es r tried))"
    "r_n_nodes (fst (seed_loop k lm es r tried)) = r_n_nodes r"
    "r_dim (fst (seed_loop k lm es r tried)) = r_dim r"
    "placed r i \<Longrightarrow> r_node (fst (seed_loop k lm es r tried)) ! i = r_node r ! i"
    "length (open_nodes r tried) \<le> k \<Longrightarrow>
      best_candidate es (fst (seed_loop k lm es r tried)) (snd (seed_loop k lm es r tried)) = None"
    by (auto simp: Let_def)
qed

section \<open>The result of a seed\<close>

lemma empty_result_wf:
  "n \<le> 8 \<Longrightarrow> result_wf (empty_result d n) \<and> r_n_nodes (empty_result d n) = n \<and>
     r_dim (empty_result d n) = d \<and> \<not> (i < 8 \<and> placed (empty_result d n) i)"
  by (auto simp: result_wf_def empty_result_def placed_def filter_empty_conv zero_node_def)

text \<open>The coordinates the three gauge nodes get.\<close>

definition gauge_placed :: "apos_gauge \<Rightarrow> f32 \<Rightarrow> apos_result \<Rightarrow> bool" where
  "gauge_placed g d01 r \<longleftrightarrow>
     placed r (g_origin g) \<and> node_xyz r (g_origin g) = (F0, F0, F0) \<and>
     placed r (g_xaxis g) \<and> node_xyz r (g_xaxis g) = (d01, F0, F0) \<and>
     placed r (g_plane g) \<and> n_z (r_node r ! g_plane g) = F0"

lemma gauge_placed_keeps:
  assumes "gauge_placed g d01 r" and "\<And>i. placed r i \<Longrightarrow> r_node s ! i = r_node r ! i"
  shows "gauge_placed g d01 s"
  using assms by (simp add: gauge_placed_def placed_def node_xyz_def)

lemma seed_gauge_spec:
  assumes "apos_geom_gauge_valid (Some g) n"
  shows "result_wf (seed_gauge g n d01 d02 d12)" and "r_n_nodes (seed_gauge g n d01 d02 d12) = n"
    and "r_dim (seed_gauge g n d01 d02 d12) = g_dim g" and "gauge_placed g d01 (seed_gauge g n d01 d02 d12)"
    and "i < 8 \<Longrightarrow> placed (seed_gauge g n d01 d02 d12) i \<Longrightarrow> i \<in> {g_origin g, g_xaxis g, g_plane g}"
proof -
  have v: "g_origin g \<noteq> g_xaxis g" "g_origin g \<noteq> g_plane g" "g_xaxis g \<noteq> g_plane g"
    "g_origin g < n" "g_xaxis g < n" "g_plane g < n" "n \<le> 8"
    using assms by (cases "g_dim g"; simp add: apos_geom_gauge_valid_def Let_def numeral_eq_Suc
        split: if_splits)+
  define r0 where "r0 = empty_result (g_dim g) n"
  define r1 where "r1 = set_node r0 (g_origin g) (F0, F0, F0) APOS_NODE_PLACED"
  define r2 where "r2 = set_node r1 (g_xaxis g) (d01, F0, F0) APOS_NODE_PLACED"
  obtain px py where r3: "seed_gauge g n d01 d02 d12 = set_node r2 (g_plane g) (px, py, F0) APOS_NODE_PLACED"
    by (simp add: seed_gauge_def r0_def r1_def r2_def Let_def)
  have w0: "result_wf r0" "r_n_nodes r0 = n" "r_dim r0 = g_dim g"
    and p0: "i < 8 \<Longrightarrow> \<not> placed r0 i" for i
    using empty_result_wf [of n "g_dim g"] v(7) unfolding r0_def by auto
  have ns: "node_set r k (set_node r k (a, b, F0) APOS_NODE_PLACED)" for r k a b
    by (rule node_setI) simp_all
  note w1 = set_node_wf [OF w0(1) _ _ ns [of r0 "g_origin g" F0 F0, folded r1_def]]
  have q1: "result_wf r1" "r_n_nodes r1 = n" "r_dim r1 = g_dim g"
    "\<And>i. placed r1 i \<longleftrightarrow> i = g_origin g \<or> placed r0 i"
    using w1 v w0 p0 by auto
  note w2 = set_node_wf [OF q1(1) _ _ ns [of r1 "g_xaxis g" d01 F0, folded r2_def]]
  have q2: "result_wf r2" "r_n_nodes r2 = n" "r_dim r2 = g_dim g"
    "\<And>i. placed r2 i \<longleftrightarrow> i = g_xaxis g \<or> placed r1 i"
    "\<And>i. i \<noteq> g_xaxis g \<Longrightarrow> r_node r2 ! i = r_node r1 ! i"
    using w2 v q1 p0 by auto
  note w3 = set_node_wf [OF q2(1) _ _ ns [of r2 "g_plane g" px py, folded r3]]
  have q3: "result_wf (seed_gauge g n d01 d02 d12)" "r_n_nodes (seed_gauge g n d01 d02 d12) = n"
    "r_dim (seed_gauge g n d01 d02 d12) = g_dim g"
    "\<And>i. placed (seed_gauge g n d01 d02 d12) i \<longleftrightarrow> i = g_plane g \<or> placed r2 i"
    "\<And>i. i \<noteq> g_plane g \<Longrightarrow> r_node (seed_gauge g n d01 d02 d12) ! i = r_node r2 ! i"
    using w3 v q1 q2 p0 by auto
  have len: "length (r_node r0) = 8" "length (r_node r1) = 8" "length (r_node r2) = 8"
    using w0 q1 q2 by (auto simp: result_wf_def)
  have xs: "node_xyz r1 (g_origin g) = (F0, F0, F0)" "node_xyz r2 (g_xaxis g) = (d01, F0, F0)"
    "n_z (r_node (seed_gauge g n d01 d02 d12) ! g_plane g) = F0"
    using v len by (simp_all add: r3 r1_def r2_def set_node_def node_xyz_def)
  show "gauge_placed g d01 (seed_gauge g n d01 d02 d12)"
    using xs q1(4) q2(4,5) q3(4,5) v by (simp add: gauge_placed_def node_xyz_def)
  show "result_wf (seed_gauge g n d01 d02 d12)" "r_n_nodes (seed_gauge g n d01 d02 d12) = n"
    "r_dim (seed_gauge g n d01 d02 d12) = g_dim g" by (fact q3)+
  show "i < 8 \<Longrightarrow> placed (seed_gauge g n d01 d02 d12) i \<Longrightarrow> i \<in> {g_origin g, g_xaxis g, g_plane g}"
    using q1(4) q2(4) q3(4) p0 by auto
qed

lemma seed_up_spec:
  "seed_up es g r = Some s \<Longrightarrow> r_dim r = APOS_GEOM_3D \<Longrightarrow> node_set r (g_up g) s"
  by (auto simp: seed_up_def Let_def split: if_splits sum.splits intro!: node_setI)

text \<open>What a successful seed leaves: a well-formed result for the caller's node count in
  which the gauge nodes have the coordinates that define the frame.\<close>

lemma seed_ok_spec:
  assumes "apos_geom_seed lm ptrs es n gp out = (None, r)"
  shows "\<exists>g. gp = Some g \<and> result_wf r \<and> r_n_nodes r = n \<and> r_dim r = g_dim g \<and>
     gauge_placed g (edge_d es (g_origin g) (g_xaxis g)) r \<and>
     (g_dim g = APOS_GEOM_3D \<longrightarrow> placed r (g_up g))"
proof -
  obtain g where g: "gp = Some g" "apos_geom_gauge_valid (Some g) n"
    using assms by (auto simp: apos_geom_seed_def split: if_splits)
  let ?d = "edge_d es"
  define r1 where "r1 = seed_gauge g n (?d (g_origin g) (g_xaxis g)) (?d (g_origin g) (g_plane g))
    (?d (g_xaxis g) (g_plane g))"
  let ?tr = "replicate APOS_MAX_NODES False"
  note sg = seed_gauge_spec [OF g(2), where ?d01.0 = "?d (g_origin g) (g_xaxis g)"
      and ?d02.0 = "?d (g_origin g) (g_plane g)" and ?d12.0 = "?d (g_xaxis g) (g_plane g)", folded r1_def]
  have "\<exists>r2. r = fst (seed_loop APOS_MAX_NODES lm es r2 ?tr) \<and> result_wf r2 \<and> r_n_nodes r2 = n \<and>
      r_dim r2 = g_dim g \<and> gauge_placed g (?d (g_origin g) (g_xaxis g)) r2 \<and>
      (g_dim g = APOS_GEOM_3D \<longrightarrow> placed r2 (g_up g))"
  proof (cases "g_dim g")
    case APOS_GEOM_2D
    then have "r = fst (seed_loop APOS_MAX_NODES lm es r1 ?tr)"
      using assms g by (simp add: apos_geom_seed_def r1_def Let_def split: if_splits)
    with sg APOS_GEOM_2D show ?thesis by auto
  next
    case APOS_GEOM_3D
    then obtain r2 where r2: "seed_up es g r1 = Some r2" "r = fst (seed_loop APOS_MAX_NODES lm es r2 ?tr)"
      using assms g by (auto simp: apos_geom_seed_def r1_def Let_def split: if_splits option.splits)
    have up: "g_up g < n" "n \<le> 8" "g_up g \<notin> {g_origin g, g_xaxis g, g_plane g}"
      using g(2) APOS_GEOM_3D by (auto simp: apos_geom_gauge_valid_def Let_def numeral_eq_Suc
          split: if_splits)
    then have np: "\<not> placed r1 (g_up g)" using sg(5) [of "g_up g"] by auto
    note w = set_node_wf [OF sg(1) _ np seed_up_spec [OF r2(1)]]
    have side: "g_up g < r_n_nodes r1" "r_dim r1 = APOS_GEOM_3D"
      using sg(2,3) up(1) APOS_GEOM_3D by simp_all
    have "r_node r2 ! i = r_node r1 ! i" if "placed r1 i" for i
      using w(5) [OF side, of i] that np by blast
    then have "gauge_placed g (?d (g_origin g) (g_xaxis g)) r2"
      by (rule gauge_placed_keeps [OF sg(4)])
    moreover have "placed r2 (g_up g)" using w(4) [OF side, of "g_up g"] by simp
    ultimately show ?thesis
      using w(1-3) [OF side] sg(2,3) APOS_GEOM_3D r2(2) by metis
  qed
  then obtain r2 where r2: "r = fst (seed_loop APOS_MAX_NODES lm es r2 ?tr)" "result_wf r2"
      "r_n_nodes r2 = n" "r_dim r2 = g_dim g" "gauge_placed g (?d (g_origin g) (g_xaxis g)) r2"
      "g_dim g = APOS_GEOM_3D \<longrightarrow> placed r2 (g_up g)" by blast
  note sl = seed_loop_spec [OF r2(2), where tried = ?tr and k = APOS_MAX_NODES and lm = lm and es = es,
      simplified length_replicate, OF refl]
  have "gauge_placed g (?d (g_origin g) (g_xaxis g)) r"
    unfolding r2(1) by (rule gauge_placed_keeps [OF r2(5)], rule sl(4))
  moreover have "g_dim g = APOS_GEOM_3D \<longrightarrow> placed r (g_up g)"
    unfolding r2(1) using r2(6) sl(4) by (auto simp: placed_def)
  ultimately show ?thesis using sl(1-3) r2(1,3,4) g(1) by auto
qed

section \<open>The parameters of the refinement\<close>

text \<open>How many coordinates of a node are free.\<close>

definition free_coords :: "apos_result \<Rightarrow> apos_gauge \<Rightarrow> nat \<Rightarrow> nat" where
  "free_coords r g n = (if \<not> placed r n \<or> n = g_origin g then 0 else if n = g_xaxis g then 1
     else if n = g_plane g \<or> r_dim r = APOS_GEOM_2D then 2 else 3)"

lemma pmap_rows_Cons:
  "fst (pmap_rows r g (n # ns) p) =
     fst (pmap_node r g n p) # fst (pmap_rows r g ns (snd (pmap_node r g n p)))"
  "snd (pmap_rows r g (n # ns) p) = snd (pmap_rows r g ns (snd (pmap_node r g n p)))"
  by (simp_all add: Let_def split_def)

lemma pmap_node_count: "snd (pmap_node r g n p) = p + free_coords r g n"
  by (simp add: pmap_node_def free_coords_def)

lemma pmap_rows_count:
  "snd (pmap_rows r g ns p) = p + sum_list (map (free_coords r g) ns)"
proof (induction ns arbitrary: p)
  case (Cons n ns)
  then show ?case by (simp only: pmap_rows_Cons pmap_node_count) simp
qed simp

lemma pmap_rows_length [simp]: "length (fst (pmap_rows r g ns p)) = length ns"
proof (induction ns arbitrary: p)
  case (Cons n ns)
  then show ?case by (simp only: pmap_rows_Cons) simp
qed simp

lemma pmap_rows_nth:
  "k < length ns \<Longrightarrow> \<exists>q. fst (pmap_rows r g ns p) ! k = fst (pmap_node r g (ns ! k) q)"
proof (induction ns arbitrary: k p)
  case (Cons n ns)
  then show ?case by (simp only: pmap_rows_Cons) (cases k; auto)
qed simp

lemma pmap_build_split:
  "pmap_build r g = (fst (pmap_rows r g [0..<r_n_nodes r] 0) @
     replicate (APOS_MAX_NODES - r_n_nodes r) (None, None, None),
     snd (pmap_rows r g [0..<r_n_nodes r] 0))"
  by (simp add: pmap_build_def split_def Let_def)

lemma pmap_build_count:
  "snd (pmap_build r g) = sum_list (map (free_coords r g) [0..<r_n_nodes r])"
  by (simp add: pmap_build_split pmap_rows_count)

lemma sum_list_upt: "sum_list (map f [0..<n]) = sum f {..<n}" for f :: "nat \<Rightarrow> nat"
  by (induction n) simp_all

text \<open>With every node placed the free parameters are 3N-6, and 2N-3 in the plane.\<close>

lemma pmap_build_dof:
  assumes "apos_geom_gauge_valid (Some g) n" and "r_n_nodes r = n" and "r_dim r = g_dim g"
    and "\<forall>k<n. placed r k"
  shows "snd (pmap_build r g) = (if g_dim g = APOS_GEOM_2D then 2 * n - 3 else 3 * n - 6)"
proof -
  let ?d = "if g_dim g = APOS_GEOM_2D then 2 else 3 :: nat"
  have v: "g_origin g \<noteq> g_xaxis g" "g_origin g \<noteq> g_plane g" "g_xaxis g \<noteq> g_plane g"
    "g_origin g < n" "g_xaxis g < n" "g_plane g < n" "3 \<le> n"
    using assms(1) by (cases "g_dim g"; simp add: apos_geom_gauge_valid_def Let_def numeral_eq_Suc
        split: if_splits)+
  let ?G = "{g_origin g, g_xaxis g, g_plane g}"
  have split: "{..<n} = ?G \<union> ({..<n} - ?G)" using v by auto
  have "sum (free_coords r g) ({..<n} - ?G) = sum (\<lambda>_. ?d) ({..<n} - ?G)"
    using assms(3,4) by (intro sum.cong) (auto simp: free_coords_def)
  moreover have "card ({..<n} - ?G) = n - 3"
    using v by (subst card_Diff_subset) (auto simp: card_insert_if)
  moreover have "sum (free_coords r g) ?G = 3"
    using v assms(2,4) by (simp add: free_coords_def)
  ultimately have "sum (free_coords r g) {..<n} = 3 + (n - 3) * ?d"
    by (subst split, subst sum.union_disjoint) auto
  then show ?thesis
    using v(7) assms(2) by (auto simp: pmap_build_count sum_list_upt)
qed

section \<open>What a step cannot move\<close>

text \<open>Two results with the same nodes placed, whose fixed coordinates agree.\<close>

definition gauge_kept :: "apos_gauge \<Rightarrow> apos_result \<Rightarrow> apos_result \<Rightarrow> bool" where
  "gauge_kept g r s \<longleftrightarrow> same_frame r s \<and>
     r_n_placed s = r_n_placed r \<and> r_n_ambiguous s = r_n_ambiguous r \<and>
     (\<forall>n < length (r_node r). n_state (r_node s ! n) = n_state (r_node r ! n) \<and>
       (\<not> placed r n \<or> n = g_origin g \<longrightarrow> node_xyz s n = node_xyz r n) \<and>
       (n = g_xaxis g \<longrightarrow> n_y (r_node s ! n) = n_y (r_node r ! n)) \<and>
       (n \<in> {g_xaxis g, g_plane g} \<or> r_dim r = APOS_GEOM_2D \<longrightarrow> n_z (r_node s ! n) = n_z (r_node r ! n)))"

lemma gauge_kept_refl [simp]: "gauge_kept g r r"
  by (simp add: gauge_kept_def same_frame_def)

lemma gauge_kept_trans: "gauge_kept g r s \<Longrightarrow> gauge_kept g s t \<Longrightarrow> gauge_kept g r t"
  by (simp add: gauge_kept_def same_frame_def placed_def)

lemma gauge_kept_iterations [simp]: "gauge_kept g r (s\<lparr>r_iterations := k\<rparr>) \<longleftrightarrow> gauge_kept g r s"
  by (simp add: gauge_kept_def same_frame_def node_xyz_def)

text \<open>\<open>m\<close> is a parameter map of the placement \<open>r\<close>.\<close>

definition pmap_of :: "apos_result \<Rightarrow> apos_gauge \<Rightarrow> pmap_row list \<Rightarrow> bool" where
  "pmap_of r g m \<longleftrightarrow> (\<forall>n < r_n_nodes r. \<exists>q. m ! n = fst (pmap_node r g n q))"

lemma pmap_build_pmap_of: "pmap_of r g (fst (pmap_build r g))"
proof -
  have "\<exists>q. fst (pmap_rows r g [0..<r_n_nodes r] 0) ! n = fst (pmap_node r g n q)"
    if "n < r_n_nodes r" for n
    using pmap_rows_nth [of n "[0..<r_n_nodes r]" r g 0] that by simp
  then show ?thesis
    by (simp add: pmap_of_def pmap_build_split nth_append)
qed

lemma pmap_of_kept:
  assumes "pmap_of r g m" and "gauge_kept g r s" and "r_n_nodes r \<le> length (r_node r)"
  shows "pmap_of s g m"
proof -
  have "pmap_node s g n q = pmap_node r g n q" if "n < r_n_nodes r" for n q
  proof -
    have "placed s n = placed r n" "r_dim s = r_dim r"
      using assms(2,3) that by (simp_all add: gauge_kept_def same_frame_def placed_def)
    then show ?thesis by (simp add: pmap_node_def)
  qed
  moreover have "r_n_nodes s = r_n_nodes r" using assms(2) by (simp add: gauge_kept_def same_frame_def)
  ultimately show ?thesis using assms(1) by (simp add: pmap_of_def)
qed

lemma apply_step_kept:
  assumes "pmap_of r g m" and "g_origin g \<noteq> g_xaxis g"
  shows "gauge_kept g r (apply_step r m st)"
proof -
  have "\<exists>q. m ! n = fst (pmap_node r g n q)" if "n < r_n_nodes r" for n
    using assms(1) that by (simp add: pmap_of_def)
  then have row: "\<exists>q. m ! n = (if \<not> placed r n \<or> n = g_origin g then (None, None, None)
      else if n = g_xaxis g then (Some q, None, None)
      else if n = g_plane g \<or> r_dim r = APOS_GEOM_2D then (Some q, Some (q + 1), None)
      else (Some q, Some (q + 1), Some (q + 2)))" if "n < r_n_nodes r" for n
    using that by (force simp: pmap_node_def)
  have "n_state (r_node (apply_step r m st) ! n) = n_state (r_node r ! n) \<and>
       (\<not> placed r n \<or> n = g_origin g \<longrightarrow> node_xyz (apply_step r m st) n = node_xyz r n) \<and>
       (n = g_xaxis g \<longrightarrow> n_y (r_node (apply_step r m st) ! n) = n_y (r_node r ! n)) \<and>
       (n \<in> {g_xaxis g, g_plane g} \<or> r_dim r = APOS_GEOM_2D \<longrightarrow>
          n_z (r_node (apply_step r m st) ! n) = n_z (r_node r ! n))"
    if "n < length (r_node r)" for n
  proof (cases "n < r_n_nodes r")
    case True
    then show ?thesis using row [OF True] that
      by (auto simp: apply_step_def Let_def node_xyz_def step_coord_def split: if_splits)
  next
    case False
    then show ?thesis using that by (simp add: apply_step_def Let_def node_xyz_def)
  qed
  then show ?thesis by (auto simp: gauge_kept_def same_frame_def apply_step_def Let_def)
qed

section \<open>The iteration\<close>

lemma cost_cong:
  assumes "r_n_nodes s = r_n_nodes r"
    and "\<And>n. n < r_n_nodes r \<Longrightarrow> placed s n = placed r n \<and> node_xyz s n = node_xyz r n"
  shows "cost es s = cost es r"
proof -
  have u: "edge_usable s e = edge_usable r e" for e
    using assms by (auto simp: edge_usable_def)
  have v: "edge_vec s e = edge_vec r e" if "edge_usable r e" for e
    using that assms(2) by (simp add: edge_usable_def edge_vec_def split: if_splits)
  show ?thesis unfolding cost_def u
    by (intro foldl_cong refl) (simp add: v Let_def)
qed

lemma cost_iterations [simp]: "cost es (r\<lparr>r_iterations := k\<rparr>) = cost es r"
  by (rule cost_cong) (simp_all add: placed_def node_xyz_def)

lemma lm_loop_kept:
  assumes "pmap_of io g m" and "g_origin g \<noteq> g_xaxis g" and "r_n_nodes io \<le> length (r_node io)"
  shows "gauge_kept g io (lm_loop k it es m np lambda c io)"
  using assms
proof (induction k arbitrary: it lambda c io)
  case (Suc k)
  have keep: "gauge_kept g io (lm_loop k it' es m np l' c' s)" if "gauge_kept g io s" for it' l' c' s
  proof -
    have "r_n_nodes s \<le> length (r_node s)"
      using that Suc.prems(3) by (simp add: gauge_kept_def same_frame_def)
    from Suc.IH [OF pmap_of_kept [OF Suc.prems(1) that Suc.prems(3)] Suc.prems(2) this]
    show ?thesis using gauge_kept_trans [OF that] by blast
  qed
  have step: "gauge_kept g io (apply_step io m st)" for st
    using Suc.prems by (intro apply_step_kept) auto
  show ?case
    by (simp add: Let_def split_def keep step split: option.split)
qed simp

lemma lm_loop_cost:
  "\<not> f32_lt (cost es io) (cost es (lm_loop k it es m np lambda (cost es io) io))"
proof (induction k arbitrary: it lambda io)
  case (Suc k)
  have io': "\<not> f32_lt (cost es io)
      (cost es (lm_loop k it' es m np l' (cost es io) (io\<lparr>r_iterations := j\<rparr>)))" for it' l' j
    using Suc.IH [of "io\<lparr>r_iterations := j\<rparr>"] by simp
  have tr: "\<not> f32_lt (cost es io) (cost es (lm_loop k it' es m np l' (cost es s) s))"
    if "f32_lt (cost es s) (cost es io)" for it' l' s
    using Suc.IH [of s] that f32_lt_trans by blast
  show ?case
    by (auto simp: Let_def split_def io' tr Suc.IH f32_lt_irrefl dest: f32_lt_asym split: option.split)
qed (simp add: f32_lt_irrefl)

lemma lm_loop_iterations:
  "r_iterations io \<le> j \<Longrightarrow> it + k \<le> j \<Longrightarrow> r_iterations (lm_loop k it es m np lambda c io) \<le> j"
proof (induction k arbitrary: it lambda c io)
  case (Suc k)
  have t: "r_iterations (apply_step io m st) = r_iterations io" for st
    by (simp add: apply_step_def)
  show ?case using Suc.prems by (simp add: Let_def split_def Suc.IH t split: option.split)
qed simp

text \<open>An accepted step copies the trial result over the count stored just before: a first
  step that converges leaves the count at zero.\<close>

lemma lm_loop_accept_count:
  assumes "solve_dense (damped (fst (normal_eqs es io m np)) lambda np) (snd (normal_eqs es io m np)) np
      = Some st"
    and "f32_lt (cost es (apply_step io m st)) c"
    and "f32_lt (f32_div (f32_sub c (cost es (apply_step io m st))) (f32_add c EPS)) F_1EM9"
  shows "r_iterations (lm_loop (Suc k) it es m np lambda c io) = r_iterations io"
  using assms by (simp add: Let_def split_def apply_step_def)

lemma fill_diagnostics_node:
  "n < length (r_node r) \<Longrightarrow> n_state (r_node (fill_diagnostics lm es r g) ! n) = n_state (r_node r ! n) \<and>
     node_xyz (fill_diagnostics lm es r g) n = node_xyz r n"
  by (simp add: fill_diagnostics_def Let_def node_xyz_def)

lemma fill_diagnostics_kept: "gauge_kept g r (fill_diagnostics lm es r g')"
  unfolding gauge_kept_def same_frame_def
proof (intro conjI allI impI)
  fix n assume n: "n < length (r_node r)"
  note f = fill_diagnostics_node [OF n, of lm es g']
  show "n_state (r_node (fill_diagnostics lm es r g') ! n) = n_state (r_node r ! n)"
    and "node_xyz (fill_diagnostics lm es r g') n = node_xyz r n"
    and "n_y (r_node (fill_diagnostics lm es r g') ! n) = n_y (r_node r ! n)"
    and "n_z (r_node (fill_diagnostics lm es r g') ! n) = n_z (r_node r ! n)"
    using f by (simp_all add: node_xyz_def Let_def)
qed (simp_all add: fill_diagnostics_def Let_def)

lemma fill_diagnostics_cost:
  "r_n_nodes r \<le> length (r_node r) \<Longrightarrow> cost es (fill_diagnostics lm es' r g) = cost es r"
  using fill_diagnostics_node [of _ r lm es' g]
  by (intro cost_cong) (simp_all add: placed_def fill_diagnostics_def Let_def)

text \<open>The whole refinement: the nodes that are placed, the frame and, in the plane, every z stay
  what the seed made them.\<close>

lemma refine_cases:
  obtains "apos_geom_refine lm ptrs es gp io = (Some EINVAL, io)"
  | g where "gp = Some g" "apos_geom_gauge_valid gp (r_n_nodes io)"
      "apos_geom_refine lm ptrs es gp io = (Some ENODATA, io\<lparr>r_dim := g_dim g\<rparr>)"
  | g where "gp = Some g" "apos_geom_gauge_valid gp (r_n_nodes io)"
      "apos_geom_refine lm ptrs es gp io = (None, fill_diagnostics lm es (io\<lparr>r_dim := g_dim g\<rparr>) g)"
  | g where "gp = Some g" "apos_geom_gauge_valid gp (r_n_nodes io)"
      "apos_geom_refine lm ptrs es gp io =
        (let r = io\<lparr>r_dim := g_dim g\<rparr>; p = pmap_build r g in
         (None, fill_diagnostics lm es
            (lm_loop APOS_LM_MAX_ITER 0 es (fst p) (snd p) F_1EM3 (cost es r) (r\<lparr>r_iterations := 0\<rparr>)) g))"
proof (cases "\<not> ptrs \<or> gp = None \<or> \<not> apos_geom_gauge_valid gp (r_n_nodes io)")
  case True
  then show ?thesis using that(1) by (auto simp: apos_geom_refine_def)
next
  case False
  then obtain g where g: "gp = Some g" "ptrs" "apos_geom_gauge_valid (Some g) (r_n_nodes io)" by auto
  let ?r = "io\<lparr>r_dim := g_dim g\<rparr>"
  consider "filter (edge_usable ?r) es = []"
    | "filter (edge_usable ?r) es \<noteq> []" "snd (pmap_build ?r g) = 0"
    | "filter (edge_usable ?r) es \<noteq> []" "snd (pmap_build ?r g) \<noteq> 0" by blast
  then show ?thesis
  proof cases
    case 1
    then show ?thesis using that(2) [of g] g by (simp add: apos_geom_refine_def Let_def split_def)
  next
    case 2
    then show ?thesis using that(3) [of g] g by (simp add: apos_geom_refine_def Let_def split_def)
  next
    case 3
    then show ?thesis using that(4) [of g] g by (simp add: apos_geom_refine_def Let_def split_def)
  qed
qed

lemma refine_kept:
  assumes "r_n_nodes io \<le> length (r_node io)" and "gp = Some g"
  shows "gauge_kept g (io\<lparr>r_dim := g_dim g\<rparr>)
      ((snd (apos_geom_refine lm ptrs es gp io))\<lparr>r_dim := g_dim g\<rparr>)"
proof (cases rule: refine_cases [of lm ptrs es gp io])
  case (4 g')
  let ?r = "io\<lparr>r_dim := g_dim g\<rparr>"
  let ?p = "pmap_build ?r g"
  have gg: "g' = g" and ne: "g_origin g \<noteq> g_xaxis g"
    using 4 assms(2) by (auto simp: apos_geom_gauge_valid_def numeral_eq_Suc Let_def split: if_splits)
  let ?l = "lm_loop APOS_LM_MAX_ITER 0 es (fst ?p) (snd ?p) F_1EM3 (cost es ?r) (?r\<lparr>r_iterations := 0\<rparr>)"
  have "pmap_of (?r\<lparr>r_iterations := 0\<rparr>) g (fst ?p)"
    using pmap_of_kept [OF pmap_build_pmap_of [of ?r g], of "?r\<lparr>r_iterations := 0\<rparr>"] assms(1) by simp
  then have "gauge_kept g (?r\<lparr>r_iterations := 0\<rparr>) ?l"
    using assms(1) ne by (intro lm_loop_kept) simp_all
  moreover have "gauge_kept g ?r (?r\<lparr>r_iterations := 0\<rparr>)" by simp
  ultimately have "gauge_kept g ?r (fill_diagnostics lm es ?l g)"
    using gauge_kept_trans fill_diagnostics_kept by blast
  moreover have "s\<lparr>r_dim := g_dim g\<rparr> = s" if "gauge_kept g ?r s" for s
    using that by (simp add: gauge_kept_def same_frame_def)
  ultimately show ?thesis using 4 gg by (simp add: Let_def)
next
  case (3 g')
  then have "g' = g" using assms(2) by simp
  moreover have "gauge_kept g (io\<lparr>r_dim := g_dim g\<rparr>) (fill_diagnostics lm es (io\<lparr>r_dim := g_dim g\<rparr>) g)"
    by (rule fill_diagnostics_kept)
  moreover have "s\<lparr>r_dim := g_dim g\<rparr> = s" if "gauge_kept g (io\<lparr>r_dim := g_dim g\<rparr>) s" for s
    using that by (simp add: gauge_kept_def same_frame_def)
  ultimately show ?thesis using 3 by simp
qed (use assms(2) in simp_all)

lemma cost_dim [simp]: "cost es (io\<lparr>r_dim := d\<rparr>) = cost es io"
  by (rule cost_cong) (simp_all add: placed_def node_xyz_def)

lemma refine_cost:
  assumes "r_n_nodes io \<le> length (r_node io)"
  shows "\<not> f32_lt (cost es io) (cost es (snd (apos_geom_refine lm ptrs es gp io)))"
proof (cases rule: refine_cases [of lm ptrs es gp io])
  case (3 g)
  then show ?thesis
    using fill_diagnostics_cost [of "io\<lparr>r_dim := g_dim g\<rparr>" es lm es g] assms
    by (simp add: f32_lt_irrefl)
next
  case (4 g)
  let ?r = "io\<lparr>r_dim := g_dim g\<rparr>"
  let ?p = "pmap_build ?r g"
  let ?l = "lm_loop APOS_LM_MAX_ITER 0 es (fst ?p) (snd ?p) F_1EM3 (cost es ?r) (?r\<lparr>r_iterations := 0\<rparr>)"
  have ne: "g_origin g \<noteq> g_xaxis g"
    using 4 by (auto simp: apos_geom_gauge_valid_def numeral_eq_Suc Let_def split: if_splits)
  have "pmap_of (?r\<lparr>r_iterations := 0\<rparr>) g (fst ?p)"
    using pmap_of_kept [OF pmap_build_pmap_of [of ?r g], of "?r\<lparr>r_iterations := 0\<rparr>"] assms by simp
  then have "gauge_kept g (?r\<lparr>r_iterations := 0\<rparr>) ?l"
    using assms ne by (intro lm_loop_kept) simp_all
  then have "r_n_nodes ?l \<le> length (r_node ?l)"
    using assms by (simp add: gauge_kept_def same_frame_def)
  then have "cost es (snd (apos_geom_refine lm ptrs es gp io)) = cost es ?l"
    using 4 by (simp add: Let_def fill_diagnostics_cost)
  then show ?thesis
    using lm_loop_cost [of es "?r\<lparr>r_iterations := 0\<rparr>"] by simp
qed (simp_all add: f32_lt_irrefl)

section \<open>Properties\<close>

definition sample_gauge :: apos_gauge where
  "sample_gauge = \<lparr>g_origin = 0, g_xaxis = 1, g_plane = 2, g_up = 0, g_dim = APOS_GEOM_2D\<rparr>"

definition sample_edges :: "apos_edge list" where
  "sample_edges = [\<lparr>e_i = 0, e_j = 1, e_d_m = 0x40400000, e_sd_m = F_1EM4\<rparr>,
     \<lparr>e_i = 0, e_j = 2, e_d_m = 0x40800000, e_sd_m = F_1EM4\<rparr>,
     \<lparr>e_i = 1, e_j = 2, e_d_m = 0x40A00000, e_sd_m = F_1EM4\<rparr>]"

lemma sample_valid: "apos_geom_gauge_valid (Some sample_gauge) 3"
  by (simp add: apos_geom_gauge_valid_def sample_gauge_def numeral_eq_Suc Let_def)

lemma sample_seeds: "\<exists>r. apos_geom_seed lm True sample_edges 3 (Some sample_gauge) out = (None, r)"
proof -
  have "\<not> f32_le 0x40400000 F0" "\<not> f32_le 0x40800000 F0" "\<not> f32_le 0x40A00000 F0"
    by (simp_all add: fl_eval)
  then show ?thesis
    using sample_valid by (simp add: apos_geom_seed_def Let_def sample_edges_def sample_gauge_def)
qed



text \<open>C28: refining never makes the fit worse: whatever the ranges, the weighted cost of the result
  is not above that of the seed it started from.\<close>

theorem apos_refine_cost:
  assumes "r_n_nodes io \<le> length (r_node io)"
  shows "\<not> f32_lt (cost es io) (cost es (snd (apos_geom_refine lm ptrs es gp io)))"
  by (rule refine_cost [OF assms])

lemma apos_refine_cost_witness:
  "\<not> f32_lt (cost sample_edges (empty_result APOS_GEOM_2D 3))
     (cost sample_edges (snd (apos_geom_refine \<lparr>lm_hypotf = (\<lambda>_ _. 0), lm_cosf = id, lm_acosf = id\<rparr> True
        sample_edges (Some sample_gauge) (empty_result APOS_GEOM_2D 3))))"
  by (rule apos_refine_cost) (simp add: empty_result_def)

text \<open>C29: refining cannot move the frame: nodes that were not placed and the origin stay where they
  are, the x-axis node keeps y and z, the plane node keeps z, in the plane every node keeps z, and
  no node changes its state.\<close>

theorem apos_refine_frame:
  assumes "r_n_nodes io \<le> length (r_node io)" and "gp = Some g" and "n < length (r_node io)"
    and "r_dim io = g_dim g" and "apos_geom_refine lm ptrs es gp io = (rc, s)"
  shows "n_state (r_node s ! n) = n_state (r_node io ! n) \<and>
    (\<not> placed io n \<or> n = g_origin g \<longrightarrow> node_xyz s n = node_xyz io n) \<and>
    (n = g_xaxis g \<longrightarrow> n_y (r_node s ! n) = n_y (r_node io ! n)) \<and>
    (n \<in> {g_xaxis g, g_plane g} \<or> g_dim g = APOS_GEOM_2D \<longrightarrow> n_z (r_node s ! n) = n_z (r_node io ! n))"
proof -
  have "io\<lparr>r_dim := g_dim g\<rparr> = io" using assms(4) by simp
  then have "gauge_kept g io (s\<lparr>r_dim := g_dim g\<rparr>)"
    using refine_kept [OF assms(1,2), of lm ptrs es] assms(5) by simp
  then show ?thesis using assms(3,4) by (simp add: gauge_kept_def node_xyz_def)
qed

lemma apos_refine_frame_witness:
  "node_xyz (snd (apos_geom_refine \<lparr>lm_hypotf = (\<lambda>_ _. 0), lm_cosf = id, lm_acosf = id\<rparr> True
     sample_edges (Some sample_gauge) (empty_result APOS_GEOM_2D 3))) 0 = (F0, F0, F0)"
  using apos_refine_frame [OF _ refl _ _ surjective_pairing, where n = 0 and g = sample_gauge
      and io = "empty_result APOS_GEOM_2D 3"]
  by (simp add: empty_result_def zero_node_def sample_gauge_def node_xyz_def)

text \<open>The refinement has the degrees of freedom the documentation promises: with a valid gauge
  and every node placed it varies 3N-6 coordinates, 2N-3 in the plane, and
  \<open>apos_geom_free_params\<close> reports that number.\<close>

theorem apos_refine_dof:
  assumes "apos_geom_gauge_valid (Some g) n" and "r_n_nodes r = n" and "r_dim r = g_dim g"
    and "\<forall>k<n. placed r k"
  shows "snd (pmap_build r g) = (if g_dim g = APOS_GEOM_2D then 2 * n - 3 else 3 * n - 6) \<and>
    int (snd (pmap_build r g)) = apos_geom_free_params (g_dim g) n"
proof -
  have "3 \<le> n" using assms(1)
    by (cases "g_dim g"; simp add: apos_geom_gauge_valid_def Let_def split: if_splits)
  then show ?thesis
    using pmap_build_dof [OF assms] by (auto simp: apos_geom_free_params_def)
qed

lemma apos_refine_dof_witness:
  "snd (pmap_build ((empty_result APOS_GEOM_2D 3)\<lparr>r_node := replicate 8 (zero_node\<lparr>n_state := APOS_NODE_PLACED\<rparr>)\<rparr>)
     sample_gauge) = 3"
  using apos_refine_dof [OF sample_valid, of
      "(empty_result APOS_GEOM_2D 3)\<lparr>r_node := replicate 8 (zero_node\<lparr>n_state := APOS_NODE_PLACED\<rparr>)\<rparr>"]
  by (simp add: empty_result_def sample_gauge_def placed_def)

end
