(* ===== verification/CalMath.thy ===== *)
theory CalMath
  imports ByteFields "HOL-Library.Multiset" "HOL-Library.Monad_Syntax"
begin

text \<open>
  Calibration arithmetic, src/cal_math.c and src/cal_solve.c: the CRC-32 and the stored
  record, the antenna-delay solver, the median/MAD filter, the TX-only solve, and the
  insertion sort that the survey's batch statistics share.

  An \<open>int32_t\<close> value is an \<open>int\<close>; every arithmetic step that could leave the type goes
  through \<open>i32\<close>, which is \<open>None\<close> where C's signed overflow is undefined.
\<close>

section \<open>Signed 32-bit arithmetic\<close>

definition i32 :: "int \<Rightarrow> int option" where
  "i32 x = (if - (2 ^ 31) \<le> x \<and> x < 2 ^ 31 then Some x else None)"

text \<open>C division rounds toward zero.\<close>

definition cdiv :: "int \<Rightarrow> int \<Rightarrow> int" where
  "cdiv a b = (if a < 0 then - (- a div b) else a div b)"

section \<open>CRC-32\<close>

definition crc_bit :: "u32 \<Rightarrow> u32" where
  "crc_bit crc = (drop_bit 1 crc) XOR (0xEDB88320 AND (- (crc AND 1)))"

fun crc_bits :: "nat \<Rightarrow> u32 \<Rightarrow> u32" where
  "crc_bits 0 crc = crc"
| "crc_bits (Suc b) crc = crc_bits b (crc_bit crc)"

definition crc_byte :: "u32 \<Rightarrow> u8 \<Rightarrow> u32" where
  "crc_byte crc p = crc_bits 8 (crc XOR ucast p)"

definition cal_crc32 :: "u8 list \<Rightarrow> u32" where
  "cal_crc32 p = NOT (foldl crc_byte 0xFFFFFFFF p)"

section \<open>The calibration record\<close>

abbreviation (input) CAL_MAGIC :: u32 where "CAL_MAGIC \<equiv> 0xCA11B000"
abbreviation (input) CAL_VERSION :: u8 where "CAL_VERSION \<equiv> 1"

record cal_record =
  cr_magic :: u32
  cr_version :: u8
  cr_phy_option :: u8
  cr_tx_ant_dly :: u16
  cr_rx_ant_dly :: u16
  cr_pad :: u16
  cr_ref_mm :: u32
  cr_residual_mm :: u16
  cr_pad2 :: u16
  cr_crc32 :: u32

text \<open>The \<open>CAL_CRC_LEN\<close> bytes before the CRC field, as the structure lies in memory on the
  little-endian target.\<close>

definition cal_record_bytes :: "cal_record \<Rightarrow> u8 list" where
  "cal_record_bytes r =
     (let b = put_u32 (replicate 20 0) 0 (cr_magic r);
          b = put_u8 b 4 (cr_version r);
          b = put_u8 b 5 (cr_phy_option r);
          b = put_u16 b 6 (cr_tx_ant_dly r);
          b = put_u16 b 8 (cr_rx_ant_dly r);
          b = put_u16 b 10 (cr_pad r);
          b = put_u32 b 12 (cr_ref_mm r);
          b = put_u16 b 16 (cr_residual_mm r)
      in put_u16 b 18 (cr_pad2 r))"

definition cal_record_finalize :: "cal_record \<Rightarrow> cal_record" where
  "cal_record_finalize r =
     (let r = r\<lparr>cr_magic := CAL_MAGIC, cr_version := CAL_VERSION, cr_pad := 0, cr_pad2 := 0\<rparr>
      in r\<lparr>cr_crc32 := cal_crc32 (cal_record_bytes r)\<rparr>)"

definition cal_record_valid :: "cal_record \<Rightarrow> u8 \<Rightarrow> bool" where
  "cal_record_valid r expected_phy =
     (if cr_magic r \<noteq> CAL_MAGIC then False
      else if cr_version r \<noteq> CAL_VERSION then False
      else if cr_phy_option r \<noteq> expected_phy then False
      else cr_crc32 r = cal_crc32 (cal_record_bytes r))"

section \<open>The delay solver\<close>

abbreviation (input) CAL_MM_PER_UNIT_X1000 :: int where "CAL_MM_PER_UNIT_X1000 \<equiv> 2340"
abbreviation (input) CAL_MAX_TOTAL_DLY :: int where "CAL_MAX_TOTAL_DLY \<equiv> 65000"
abbreviation (input) CAL_MAX_SAMPLES :: nat where "CAL_MAX_SAMPLES \<equiv> 128"
abbreviation (input) CAL_TX_DLY_MIN :: int where "CAL_TX_DLY_MIN \<equiv> 14000"
abbreviation (input) CAL_TX_DLY_MAX :: int where "CAL_TX_DLY_MAX \<equiv> 19000"

definition div_round_pos :: "int \<Rightarrow> int \<Rightarrow> int option" where
  "div_round_pos num den =
     (if num \<ge> 0 then do { s \<leftarrow> i32 (num + den div 2); Some (s div den) }
      else do { n \<leftarrow> i32 (- num); s \<leftarrow> i32 (n + den div 2); Some (- (s div den)) })"

definition cal_solve_step :: "int \<Rightarrow> int \<Rightarrow> u16 \<Rightarrow> u16 option" where
  "cal_solve_step measured_mm ref_mm cur_total_dly = do {
     err_mm \<leftarrow> i32 (measured_mm - ref_mm);
     e \<leftarrow> i32 (err_mm * 1000);
     delta_units \<leftarrow> div_round_pos e CAL_MM_PER_UNIT_X1000;
     new_total \<leftarrow> i32 (uint cur_total_dly + delta_units);
     let new_total = (if new_total < 0 then 0 else new_total);
         new_total = (if new_total > CAL_MAX_TOTAL_DLY then CAL_MAX_TOTAL_DLY else new_total)
     in Some (word_of_int new_total) }"

definition cal_split_dly :: "u16 \<Rightarrow> u16 \<times> u16" where
  "cal_split_dly tot = (tot div 2, tot - tot div 2)"

text \<open>The solve for the TX delay alone: the value to use, and whether it had to be clamped
  (\<open>-ERANGE\<close>). The combined delay is cut to 16 bits on its way to the solver.\<close>

definition cal_solve_tx_delay :: "int \<Rightarrow> int \<Rightarrow> u16 \<Rightarrow> u16 \<Rightarrow> (bool \<times> u16) option" where
  "cal_solve_tx_delay measured_mm ref_mm cur_tx cur_rx = do {
     let cur_total = (ucast cur_tx + ucast cur_rx :: u32);
     new_total \<leftarrow> cal_solve_step measured_mm ref_mm (ucast cur_total);
     let new_tx = uint new_total - uint cur_rx
     in if new_tx < CAL_TX_DLY_MIN then Some (False, word_of_int CAL_TX_DLY_MIN)
        else if new_tx > CAL_TX_DLY_MAX then Some (False, word_of_int CAL_TX_DLY_MAX)
        else Some (True, word_of_int new_tx) }"

section \<open>Sorting and the filtered mean\<close>

text \<open>The inner loop of the insertion sort: \<open>key\<close> moves down from the hole at \<open>j\<close>.\<close>

fun insert_down :: "int list \<Rightarrow> int \<Rightarrow> nat \<Rightarrow> int list" where
  "insert_down a key 0 = a[0 := key]"
| "insert_down a key (Suc j) =
     (if a ! j > key then insert_down (a[Suc j := a ! j]) key j else a[Suc j := key])"

definition sort_i32 :: "int list \<Rightarrow> int list" where
  "sort_i32 a = foldl (\<lambda>a i. insert_down a (a ! i) i) a [1..<length a]"

definition median_sorted :: "int list \<Rightarrow> int" where
  "median_sorted a = a ! (length a div 2)"

text \<open>\<open>|x - m|\<close> in 32-bit arithmetic.\<close>

definition abs_dev :: "int \<Rightarrow> int \<Rightarrow> int option" where
  "abs_dev x m = do { d \<leftarrow> i32 (x - m); if d < 0 then i32 (- d) else Some d }"

text \<open>\<open>devs[i] = |work[i] - med|\<close> for all \<open>i\<close>.\<close>

fun abs_devs :: "int list \<Rightarrow> int \<Rightarrow> int list option" where
  "abs_devs [] m = Some []"
| "abs_devs (x # xs) m = do { d \<leftarrow> abs_dev x m; ds \<leftarrow> abs_devs xs m; Some (d # ds) }"

text \<open>The accumulating loop: \<open>int64_t sum\<close> over at most 128 values of 32 bits cannot
  overflow, so the sum is an unchecked \<open>int\<close>.\<close>

fun keep_near :: "int list \<Rightarrow> int \<Rightarrow> int \<Rightarrow> int \<Rightarrow> nat \<Rightarrow> (int \<times> nat) option" where
  "keep_near [] med limit acc kept = Some (acc, kept)"
| "keep_near (s # ss) med limit acc kept = do {
     d \<leftarrow> abs_dev s med;
     if d \<le> limit then keep_near ss med limit (acc + s) (kept + 1)
     else keep_near ss med limit acc kept }"

text \<open>\<open>None\<close>: undefined behaviour. \<open>Some None\<close>: the function returns false.\<close>

definition cal_filtered_mean :: "int list \<Rightarrow> (int \<times> nat) option option" where
  "cal_filtered_mean samples =
     (let n = length samples in
      if n = 0 \<or> n > CAL_MAX_SAMPLES then Some None
      else do {
        let work = sort_i32 samples;
        let med = median_sorted work;
        devs \<leftarrow> abs_devs work med;
        let mad = median_sorted (sort_i32 devs);
        let mad = (if mad < 1 then 1 else mad);
        limit \<leftarrow> i32 (6 * mad);
        r \<leftarrow> keep_near samples med limit 0 0;
        if snd r = 0 then Some None else Some (Some (cdiv (fst r) (int (snd r)), snd r)) })"

section \<open>The built-in assertion vectors\<close>

text \<open>The checks of \<open>cal_math_selftest\<close>, in order; the function counts the false ones.\<close>

definition selftest_record :: cal_record where
  "selftest_record = cal_record_finalize
     \<lparr>cr_magic = 0, cr_version = 0, cr_phy_option = 7, cr_tx_ant_dly = 16371,
      cr_rx_ant_dly = 16371, cr_pad = 0, cr_ref_mm = 2000, cr_residual_mm = 0, cr_pad2 = 0,
      cr_crc32 = 0\<rparr>"

definition selftest_checks :: "bool list" where
  "selftest_checks =
     [cal_crc32 [49, 50, 51, 52, 53, 54, 55, 56, 57] = 0xCBF43926,
      cal_record_valid selftest_record 7,
      \<not> cal_record_valid selftest_record 9,
      \<not> cal_record_valid
          (selftest_record\<lparr>cr_tx_ant_dly := cr_tx_ant_dly selftest_record XOR 1\<rparr>) 7,
      cal_solve_step 2234 2000 32742 = Some 32842,
      cal_solve_step 1766 2000 32742 = Some 32642,
      cal_solve_step 0 100000 10 = Some 0,
      cal_split_dly 32742 = (16371, 16371),
      cal_split_dly 33 = (16, 17),
      (case cal_filtered_mean [100, 102, 98, 101, 99, 5000] of
         Some (Some (mean, kept)) \<Rightarrow> kept = 5 \<and> 98 \<le> mean \<and> mean \<le> 102
       | _ \<Rightarrow> False)]"

definition cal_math_selftest :: nat where
  "cal_math_selftest = length (filter (\<lambda>ok. \<not> ok) selftest_checks)"

section \<open>The CRC detects a changed byte\<close>

text \<open>The polynomial has its top bit set, so one step of the register is injective.\<close>

lemma no_bit_u32: "32 \<le> n \<Longrightarrow> \<not> bit (w :: u32) n"
  by (auto dest: bit_imp_le_length)

lemma crc_bit_inj: "crc_bit x = crc_bit y \<longleftrightarrow> x = y"
proof
  assume e: "crc_bit x = crc_bit y"
  have top: "bit (crc_bit z) 31 \<longleftrightarrow> bit z 0" for z
    using no_bit_u32 [of 32 z] by (cases "bit z 0") (simp_all add: crc_bit_def bit_simps bit_0 and_one_eq odd_iff_mod_2_eq_one
        even_iff_mod_2_eq_zero)
  then have b0: "bit x 0 = bit y 0" using e by metis
  then have m: "x AND 1 = y AND 1"
    by (simp add: and_one_eq mod_2_eq_odd bit_0)
  have "drop_bit 1 x = drop_bit 1 y"
    using e m unfolding crc_bit_def by (simp add: xor_cancel)
  then have "bit (drop_bit 1 x) n = bit (drop_bit 1 y) n" for n
    by (rule arg_cong)
  then have "bit x (Suc n) = bit y (Suc n)" for n
    by (simp only: bit_drop_bit_eq o_def plus_1_eq_Suc)
  with b0 show "x = y"
    by (intro bit_word_eqI) (metis not0_implies_Suc)
qed simp

lemma crc_bits_inj: "crc_bits n x = crc_bits n y \<longleftrightarrow> x = y"
  by (induction n arbitrary: x y) (simp_all add: crc_bit_inj)

lemma crc_byte_inj:
  "crc_byte x b = crc_byte y b \<longleftrightarrow> x = y"
  "crc_byte x b = crc_byte x c \<longleftrightarrow> b = c"
  by (simp_all add: crc_byte_def crc_bits_inj xor_cancel ucast_u8_inj)

lemma crc_suffix_inj: "foldl crc_byte x bs = foldl crc_byte y bs \<longleftrightarrow> x = y"
  by (induction bs arbitrary: x y) (simp_all add: crc_byte_inj)

lemma crc_prefix_cong:
  "length p = length q \<Longrightarrow> cal_crc32 (p @ b # r) = cal_crc32 (p @ c # r) \<longleftrightarrow> b = c"
  by (simp add: cal_crc32_def crc_suffix_inj crc_byte_inj)

lemma crc_one_byte:
  assumes "i < length p" and "b \<noteq> p ! i"
  shows "cal_crc32 (p[i := b]) \<noteq> cal_crc32 p"
proof -
  have "p = take i p @ p ! i # drop (Suc i) p"
    using assms(1) by (rule id_take_nth_drop)
  moreover have "p[i := b] = take i p @ b # drop (Suc i) p"
    using assms(1) by (rule upd_conv_take_nth_drop)
  ultimately show ?thesis
    using crc_prefix_cong [of "take i p" "take i p" b "drop (Suc i) p" "p ! i"] assms(2) by metis
qed

lemma finalize_valid:
  "cal_record_valid (cal_record_finalize r) phy \<longleftrightarrow> phy = cr_phy_option r"
  by (auto simp: cal_record_valid_def cal_record_finalize_def Let_def cal_record_bytes_def)

section \<open>The solver\<close>

lemma i32_Some [simp]: "- 2147483648 \<le> x \<Longrightarrow> x < 2147483648 \<Longrightarrow> i32 x = Some x"
  by (simp add: i32_def)

definition round_half_away :: "int \<Rightarrow> int \<Rightarrow> int" where
  "round_half_away num den = (if num \<ge> 0 then (num + den div 2) div den
     else - ((- num + den div 2) div den))"

text \<open>The rounding is to nearest.\<close>

lemma round_half_away_near:
  assumes "0 < den" and "even den"
  shows "2 * \<bar>num - round_half_away num den * den\<bar> \<le> den"
proof -
  have near: "2 * \<bar>n - (n + den div 2) div den * den\<bar> \<le> den" if "0 \<le> n" for n
  proof -
    let ?q = "(n + den div 2) div den"
    have "n - ?q * den = (n + den div 2) mod den - den div 2"
      using div_mult_mod_eq [of "n + den div 2" den] by linarith
    moreover have "0 \<le> (n + den div 2) mod den" "(n + den div 2) mod den < den"
      using assms(1) by simp_all
    moreover have "2 * (den div 2) = den" using assms(2) by simp
    ultimately have "\<bar>n - ?q * den\<bar> \<le> den div 2" by linarith
    then have "2 * \<bar>n - ?q * den\<bar> \<le> 2 * (den div 2)" by (rule mult_left_mono) simp
    also have "\<dots> = den" using assms(2) by simp
    finally show ?thesis .
  qed
  show ?thesis
  proof (cases "num \<ge> 0")
    case True
    then show ?thesis using near [of num] by (simp add: round_half_away_def)
  next
    case False
    let ?q = "(- num + den div 2) div den"
    have "round_half_away num den = - ?q" using False by (simp add: round_half_away_def)
    then have "num - round_half_away num den * den = - (- num - ?q * den)" by simp
    then have "\<bar>num - round_half_away num den * den\<bar> = \<bar>- num - ?q * den\<bar>"
      by (simp only: abs_minus_cancel)
    with near [of "- num"] False show ?thesis by simp
  qed
qed

lemma div_round_pos_exact:
  assumes "0 < den" and "\<bar>num\<bar> + den < 2147483648"
  shows "div_round_pos num den = Some (round_half_away num den)"
proof -
  have "0 \<le> den div 2" "den div 2 \<le> den" using assms(1) by simp_all
  with assms show ?thesis
    by (auto simp: div_round_pos_def round_half_away_def)
qed

definition clamp_dly :: "int \<Rightarrow> int" where
  "clamp_dly d = max 0 (min CAL_MAX_TOTAL_DLY d)"

lemma bounded_quotient:
  assumes "\<bar>e\<bar> \<le> 2147481000" and "2 * \<bar>e - d * 2340\<bar> \<le> (2340 :: int)"
  shows "\<bar>d\<bar> \<le> 1000000"
proof -
  have "\<bar>e - d * 2340\<bar> \<le> 1170" using assms(2) by simp
  with assms(1) show ?thesis unfolding abs_le_iff by linarith
qed

lemma solve_step_exact:
  assumes "\<bar>measured_mm - ref_mm\<bar> \<le> 2147481"
  shows "cal_solve_step measured_mm ref_mm cur = Some (word_of_int (clamp_dly
    (uint cur + round_half_away ((measured_mm - ref_mm) * 1000) CAL_MM_PER_UNIT_X1000)))"
proof -
  let ?e = "(measured_mm - ref_mm) * 1000"
  let ?d = "round_half_away ?e 2340"
  have e: "\<bar>?e\<bar> \<le> 2147481000" using assms by (simp add: abs_mult)
  have "2 * \<bar>?e - ?d * 2340\<bar> \<le> 2340" by (rule round_half_away_near) simp_all
  with e have "\<bar>?d\<bar> \<le> 1000000" by (rule bounded_quotient)
  moreover have "0 \<le> uint cur" "uint cur < 65536" using uint_lt2p [of cur] by simp_all
  ultimately have "i32 (uint cur + ?d) = Some (uint cur + ?d)"
    by (intro i32_Some) linarith+
  moreover have "div_round_pos ?e 2340 = Some ?d"
    using e by (intro div_round_pos_exact) linarith+
  moreover have "i32 (measured_mm - ref_mm) = Some (measured_mm - ref_mm)" "i32 ?e = Some ?e"
    using assms e by (intro i32_Some; linarith)+
  ultimately show ?thesis
    by (simp add: cal_solve_step_def clamp_dly_def Let_def max_def min_def)
qed

text \<open>The residual error that one step leaves: with the model of the radio that each unit of
  delay shortens the reading by 2.34 mm, at most half a unit, where the step is not clamped.\<close>

lemma solve_step_residual:
  assumes "\<bar>measured_mm - ref_mm\<bar> \<le> 2147481"
    and "cal_solve_step measured_mm ref_mm cur = Some new"
    and "0 < uint new" and "uint new < 65000"
  shows "\<bar>(measured_mm - ref_mm) * 1000 - (uint new - uint cur) * 2340\<bar> \<le> 1170"
proof -
  let ?d = "round_half_away ((measured_mm - ref_mm) * 1000) 2340"
  have "new = word_of_int (clamp_dly (uint cur + ?d))"
    using solve_step_exact [OF assms(1)] assms(2) by simp
  moreover have "0 \<le> clamp_dly (uint cur + ?d)" "clamp_dly (uint cur + ?d) \<le> 65000"
    by (simp_all add: clamp_dly_def)
  ultimately have n: "uint new = clamp_dly (uint cur + ?d)"
    by (simp add: unsigned_of_int take_bit_int_eq_self)
  with assms(3,4) have "uint new - uint cur = ?d"
    by (auto simp: clamp_dly_def)
  with round_half_away_near [of 2340 "(measured_mm - ref_mm) * 1000"] show ?thesis by simp
qed

lemma split_dly_sum:
  "fst (cal_split_dly t) + snd (cal_split_dly t) = t"
  by (simp add: cal_split_dly_def)

lemma split_dly_even:
  "uint (snd (cal_split_dly t)) - uint (fst (cal_split_dly t)) = uint t mod 2"
proof -
  have "uint (t div 2) = uint t div 2" by (simp add: uint_div)
  moreover have "uint (t - t div 2) = uint t - uint t div 2"
  proof -
    have "uint t div 2 \<le> uint t"
      using uint_ge_0 [of t] by presburger
    with calculation show ?thesis by (simp add: uint_sub_if')
  qed
  ultimately show ?thesis
    by (simp add: cal_split_dly_def) presburger
qed

text \<open>The TX solve: what it returns is always in the accepted range, and is the exact
  correction when it is not flagged.\<close>

lemma solve_tx_range:
  assumes "cal_solve_tx_delay m r tx rx = Some (ok, out)"
  shows "14000 \<le> uint out \<and> uint out \<le> 19000"
  using assms
  by (auto simp: cal_solve_tx_delay_def Let_def bind_eq_Some_conv uint_sub_if' split: if_splits)

lemma solve_tx_ok:
  assumes "cal_solve_tx_delay m r tx rx = Some (True, out)" and "uint tx + uint rx < 65536"
  shows "\<exists>t. cal_solve_step m r (tx + rx) = Some t \<and> uint out = uint t - uint rx"
proof -
  have "uint tx mod 4294967296 = uint tx" "uint rx mod 4294967296 = uint rx"
    using uint_lt2p [of tx] uint_lt2p [of rx] by (simp_all add: mod_pos_pos_trivial)
  then have "(ucast (ucast tx + ucast rx :: u32) :: u16) = tx + rx"
    by (simp add: word_uint_eq_iff unsigned_ucast_eq uint_word_ariths take_bit_eq_mod
        mod_mod_cancel)
  with assms show ?thesis
    by (auto simp: cal_solve_tx_delay_def Let_def bind_eq_Some_conv uint_sub_if' split: if_splits)
qed

section \<open>The insertion sort sorts\<close>

lemma insert_down_length [simp]: "length (insert_down a key j) = length a"
  by (induction a key j rule: insert_down.induct) simp_all

lemma insort_last: "sorted (xs @ [key]) \<Longrightarrow> insort key xs = xs @ [key]"
proof -
  assume s: "sorted (xs @ [key])"
  then have "sort (xs @ [key]) = insort key xs"
    by (intro properties_for_sort) (simp_all add: sorted_insort sorted_append)
  then show ?thesis
    using s by (simp add: sorted_sort_id)
qed

lemma insort_before:
  "sorted (xs @ [y]) \<Longrightarrow> key < y \<Longrightarrow> insort key (xs @ [y]) = insort key xs @ [y]"
  by (induction xs) (auto simp: sorted_append)

text \<open>The inner loop inserts into the sorted front part; the hole is at its end.\<close>

lemma insert_down_insort:
  "sorted xs \<Longrightarrow> insert_down (xs @ h # zs) key (length xs) = insort key xs @ zs"
proof (induction xs arbitrary: h zs rule: rev_induct)
  case (snoc y xs)
  have s: "sorted xs" using snoc.prems by (simp add: sorted_append)
  show ?case
  proof (cases "y > key")
    case True
    have "insert_down ((xs @ [y]) @ h # zs) key (length (xs @ [y])) =
        insert_down (xs @ y # y # zs) key (length xs)"
      using True by (simp add: nth_append list_update_append)
    also have "\<dots> = insort key xs @ y # zs"
      by (rule snoc.IH [OF s])
    finally show ?thesis
      using insort_before [OF snoc.prems True] by simp
  next
    case False
    then have "sorted ((xs @ [y]) @ [key])"
      using snoc.prems by (auto simp: sorted_append)
    then show ?thesis
      using False insort_last [of "xs @ [y]" key] by (simp add: nth_append list_update_append)
  qed
qed simp

lemma sort_loop:
  "n \<le> length a \<Longrightarrow>
     foldl (\<lambda>a i. insert_down a (a ! i) i) a [1..<n] = sort (take n a) @ drop n a"
proof (induction n)
  case (Suc n)
  show ?case
  proof (cases n)
    case 0
    with Suc.prems show ?thesis
      by (cases a) simp_all
  next
    case (Suc m)
    let ?s = "sort (take n a)"
    have n: "n < length a" "length ?s = n" using Suc.prems by simp_all
    have d: "drop n a = a ! n # drop (Suc n) a"
      using n(1) by (rule Cons_nth_drop_Suc [symmetric])
    have "foldl (\<lambda>a i. insert_down a (a ! i) i) a [1..<Suc n] =
        insert_down (?s @ drop n a) ((?s @ drop n a) ! n) n"
      using Suc.IH n Suc by simp
    also have "\<dots> = insort (a ! n) ?s @ drop (Suc n) a"
      using insert_down_insort [of ?s "a ! n" "drop (Suc n) a" "a ! n"] n d
      by (simp add: nth_append)
    also have "insort (a ! n) ?s = sort (take (Suc n) a)"
      using n(1) by (intro properties_for_sort [symmetric])
        (simp_all add: take_Suc_conv_app_nth sorted_insort)
    finally show ?thesis .
  qed
qed simp

lemma sort_i32_sort: "sort_i32 a = sort a"
  using sort_loop [of "length a" a] by (simp add: sort_i32_def)

section \<open>The filter keeps the majority and averages inside its range\<close>

lemma length_filter_mono:
  "(\<And>x. P x \<Longrightarrow> Q x) \<Longrightarrow> length (filter P xs) \<le> length (filter Q xs)"
  by (induction xs) auto

lemma length_filter_sort: "length (filter P (sort xs)) = length (filter P xs)"
  by (metis mset_filter mset_sort size_mset)

text \<open>At least \<open>k + 1\<close> elements are at most the \<open>k\<close>-th of the sorted list.\<close>

lemma count_upto_kth:
  assumes "k < length xs"
  shows "k + 1 \<le> length (filter (\<lambda>x. x \<le> sort xs ! k) xs)"
proof -
  let ?s = "sort xs"
  have "filter (\<lambda>x. x \<le> ?s ! k) (take (Suc k) ?s) = take (Suc k) ?s"
    using assms by (auto simp: filter_id_conv in_set_conv_nth sorted_nth_mono)
  then have "k + 1 \<le> length (filter (\<lambda>x. x \<le> ?s ! k) (take (Suc k) ?s @ drop (Suc k) ?s))"
    using assms unfolding filter_append by simp
  also have "\<dots> = length (filter (\<lambda>x. x \<le> ?s ! k) ?s)"
    by (simp only: append_take_drop_id)
  also have "\<dots> = length (filter (\<lambda>x. x \<le> ?s ! k) xs)"
    by (rule length_filter_sort)
  finally show ?thesis .
qed

lemma abs_dev_small:
  "\<bar>x - m\<bar> < 2147483648 \<Longrightarrow> abs_dev x m = Some \<bar>x - m\<bar>"
  by (auto simp: abs_dev_def)

lemma abs_devs_small:
  "(\<And>x. x \<in> set xs \<Longrightarrow> \<bar>x - m\<bar> < 2147483648) \<Longrightarrow> abs_devs xs m = Some (map (\<lambda>x. \<bar>x - m\<bar>) xs)"
  by (induction xs) (simp_all add: abs_dev_small)

lemma keep_near_small:
  "(\<And>x. x \<in> set xs \<Longrightarrow> \<bar>x - m\<bar> < 2147483648) \<Longrightarrow>
     keep_near xs m limit acc kept = Some
       (acc + sum_list (filter (\<lambda>x. \<bar>x - m\<bar> \<le> limit) xs),
        kept + length (filter (\<lambda>x. \<bar>x - m\<bar> \<le> limit) xs))"
  by (induction xs arbitrary: acc kept) (simp_all add: abs_dev_small)

lemma cdiv_mean:
  assumes "xs \<noteq> []" and "\<And>x. x \<in> set xs \<Longrightarrow> lo \<le> x \<and> x \<le> hi"
  shows "lo \<le> cdiv (sum_list xs) (int (length xs))" and "cdiv (sum_list xs) (int (length xs)) \<le> hi"
proof -
  let ?n = "int (length xs)"
  have n: "0 < ?n" using assms(1) by simp
  have "lo * ?n \<le> sum_list xs \<and> sum_list xs \<le> hi * ?n"
    using assms(2) by (induction xs) (fastforce simp: algebra_simps)+
  then have b: "lo * ?n \<le> sum_list xs" "sum_list xs \<le> hi * ?n" by simp_all
  have div: "c * ?n \<le> m \<Longrightarrow> c \<le> m div ?n" "m \<le> c * ?n \<Longrightarrow> m div ?n \<le> c" for c m
    using zdiv_mono1 [of "c * ?n" m ?n] zdiv_mono1 [of m "c * ?n" ?n] n by simp_all
  show "lo \<le> cdiv (sum_list xs) ?n"
    using div(1) [OF b(1)] div(2) [of "- sum_list xs" "- lo"] b(1) by (simp add: cdiv_def)
  show "cdiv (sum_list xs) ?n \<le> hi"
    using div(2) [OF b(2)] div(1) [of "- hi" "- sum_list xs"] b(2) by (simp add: cdiv_def)
qed

text \<open>A median of the samples is one of them.\<close>

lemma median_mem: "xs \<noteq> [] \<Longrightarrow> median_sorted (sort_i32 xs) \<in> set xs"
  unfolding median_sorted_def sort_i32_sort by (metis length_greater_0_conv div_less_dividend
      length_sort nth_mem one_less_numeral_iff semiring_norm(76) set_sort)

lemma filtered_mean_ok:
  assumes "samples \<noteq> []" and "length samples \<le> 128"
    and range: "\<And>x. x \<in> set samples \<Longrightarrow> lo \<le> x \<and> x \<le> hi" and "hi - lo < 357913941"
  shows "\<exists>mean kept. cal_filtered_mean samples = Some (Some (mean, kept)) \<and>
    lo \<le> mean \<and> mean \<le> hi \<and> length samples div 2 + 1 \<le> kept \<and> kept \<le> length samples"
proof -
  let ?med = "median_sorted (sort_i32 samples)"
  let ?devs = "map (\<lambda>x. \<bar>x - ?med\<bar>) (sort_i32 samples)"
  let ?mad = "median_sorted (sort_i32 ?devs)"
  let ?mad1 = "if ?mad < 1 then 1 else ?mad"
  let ?near = "filter (\<lambda>x. \<bar>x - ?med\<bar> \<le> 6 * ?mad1) samples"
  have med: "lo \<le> ?med" "?med \<le> hi"
    using range [OF median_mem [OF assms(1)]] by simp_all
  have dev: "\<bar>x - ?med\<bar> \<le> hi - lo" if "x \<in> set samples" for x
    using range [OF that] med by linarith
  have "?mad \<in> set ?devs"
    using assms(1) by (intro median_mem) (simp add: sort_i32_sort flip: set_empty)
  then have mad: "0 \<le> ?mad" "?mad \<le> hi - lo"
    using dev by (auto simp: sort_i32_sort)
  have small: "\<bar>x - ?med\<bar> < 2147483648" if "x \<in> set samples" for x
    using dev [OF that] assms(4) by linarith
  have devs: "abs_devs (sort_i32 samples) ?med = Some ?devs"
    using small by (intro abs_devs_small) (simp add: sort_i32_sort)
  have keep: "keep_near samples ?med (6 * ?mad1) 0 0 = Some (sum_list ?near, length ?near)"
    using keep_near_small [of samples ?med "6 * ?mad1" 0 0] small by simp
  have "length samples div 2 + 1 \<le> length (filter (\<lambda>d. d \<le> ?mad) ?devs)"
    using count_upto_kth [of "length samples div 2" ?devs] assms(1)
    by (simp add: median_sorted_def sort_i32_sort)
  also have "\<dots> = length (filter (\<lambda>x. \<bar>x - ?med\<bar> \<le> ?mad) samples)"
    by (simp add: filter_map o_def sort_i32_sort length_filter_sort)
  also have "\<dots> \<le> length ?near"
    using mad by (intro length_filter_mono) auto
  finally have kept: "length samples div 2 + 1 \<le> length ?near" .
  then have ne: "?near \<noteq> []" by fastforce
  have "i32 (6 * ?mad1) = Some (6 * ?mad1)"
    using mad assms(4) by (intro i32_Some) auto
  then have "cal_filtered_mean samples =
      Some (Some (cdiv (sum_list ?near) (int (length ?near)), length ?near))"
    using assms(1,2) devs keep ne by (simp add: cal_filtered_mean_def Let_def)
  moreover have "lo \<le> cdiv (sum_list ?near) (int (length ?near))"
    "cdiv (sum_list ?near) (int (length ?near)) \<le> hi"
    using cdiv_mean [OF ne, of lo hi] range by simp_all
  ultimately show ?thesis
    using kept by (intro exI [of _ "cdiv (sum_list ?near) (int (length ?near))"]
        exI [of _ "length ?near"]) simp
qed

section \<open>The self test passes\<close>

lemma crc_bits_8:
  "crc_bits 8 c = crc_bit (crc_bit (crc_bit (crc_bit (crc_bit (crc_bit (crc_bit (crc_bit c)))))))"
  by (simp add: numeral_eq_Suc)

lemma crc_known_answer: "cal_crc32 [49, 50, 51, 52, 53, 54, 55, 56, 57] = 0xCBF43926"
  by (simp add: cal_crc32_def crc_byte_def crc_bits_8 crc_bit_def)

lemma mean_known_answer:
  "cal_filtered_mean [100, 102, 98, 101, 99, 5000] = Some (Some (100, 5))"
proof -
  have "sort [100, 102, 98, 101, 99, 5000] = [98, 99, 100, 101, 102, 5000 :: int]"
    "sort [3, 2, 1, 0, 1, 4899] = [0, 1, 1, 2, 3, 4899 :: int]" by simp_all
  then show ?thesis
  by (simp add: cal_filtered_mean_def sort_i32_sort median_sorted_def abs_dev_def cdiv_def i32_def)
qed

lemma steps: "cal_solve_step 2234 2000 32742 = Some 32842" "cal_solve_step 1766 2000 32742 = Some 32642"
   "cal_solve_step 0 100000 10 = Some 0"  "cal_split_dly 32742 = (16371, 16371)"
      "cal_split_dly 33 = (16, 17)"
  by (simp_all add: cal_solve_step_def div_round_pos_def i32_def cal_split_dly_def)

text \<open>A valid record with one byte of its protected part changed is refused.\<close>

lemma record_one_byte:
  assumes "cal_record_valid r phy" and "cr_crc32 r' = cr_crc32 r"
    and "cal_record_bytes r' = (cal_record_bytes r)[i := b]" and "i < 20"
    and "b \<noteq> cal_record_bytes r ! i"
  shows "\<not> cal_record_valid r' phy'"
proof -
  have "length (cal_record_bytes r) = 20" by (simp add: cal_record_bytes_def Let_def)
  with crc_one_byte [of i "cal_record_bytes r" b] assms show ?thesis
    by (auto simp: cal_record_valid_def split: if_splits)
qed

lemma tx_low_byte:
  "cal_record_bytes (r\<lparr>cr_tx_ant_dly := cr_tx_ant_dly r XOR 1\<rparr>) =
     (cal_record_bytes r)[6 := ucast (cr_tx_ant_dly r) XOR 1]"
  "cal_record_bytes r ! 6 = ucast (cr_tx_ant_dly r)"
proof -
  have "(ucast (v XOR 1) :: u8) = ucast v XOR 1" "(ucast (drop_bit 8 (v XOR 1)) :: u8) = ucast (drop_bit 8 v)"
    for v :: u16 by (rule bit_word_eqI; auto simp: bit_simps)+
  then show "cal_record_bytes (r\<lparr>cr_tx_ant_dly := cr_tx_ant_dly r XOR 1\<rparr>) =
     (cal_record_bytes r)[6 := ucast (cr_tx_ant_dly r) XOR 1]"
    by (intro nth_equalityI)
      (simp_all add: cal_record_bytes_def Let_def put_u8_def put_u16_def put_u32_def nth_list_update)
  show "cal_record_bytes r ! 6 = ucast (cr_tx_ant_dly r)"
    by (simp add: cal_record_bytes_def Let_def put_u8_def put_u16_def put_u32_def)
qed

lemma corrupted_refused:
  assumes "cal_record_valid r phy"
  shows "\<not> cal_record_valid (r\<lparr>cr_tx_ant_dly := cr_tx_ant_dly r XOR 1\<rparr>) phy"
proof -
  have "x XOR 1 \<noteq> x" for x :: u8
    using xor_cancel(2) [of x 1 0] by simp
  then show ?thesis
    using record_one_byte [OF assms, of "r\<lparr>cr_tx_ant_dly := cr_tx_ant_dly r XOR 1\<rparr>" 6] tx_low_byte
    by simp
qed

lemma selftest_passes: "cal_math_selftest = 0"
proof -
  have "cal_record_valid selftest_record p \<longleftrightarrow> p = 7" for p
    unfolding selftest_record_def finalize_valid by simp
  then show ?thesis
    using corrupted_refused [of selftest_record 7]
    by (simp add: cal_math_selftest_def selftest_checks_def crc_known_answer steps
        mean_known_answer)
qed

section \<open>Properties\<close>

text \<open>C32: a stored calibration record is accepted only as it was written: the record that
  \<open>cal_record_finalize\<close> makes is valid for its PHY option and for no other, and a valid
  record of which any one protected byte has changed is refused for every PHY option.\<close>

theorem cal_record_integrity:
  assumes "cal_record_valid r phy" and "cr_crc32 r' = cr_crc32 r"
    and "cal_record_bytes r' = (cal_record_bytes r)[i := b]" and "i < 20"
    and "b \<noteq> cal_record_bytes r ! i"
  shows "\<not> cal_record_valid r' phy' \<and>
    (cal_record_valid (cal_record_finalize r') phy' \<longleftrightarrow> phy' = cr_phy_option r')"
  using record_one_byte [OF assms] finalize_valid by simp

lemma cal_record_integrity_witness:
  "\<not> cal_record_valid (selftest_record\<lparr>cr_tx_ant_dly := cr_tx_ant_dly selftest_record XOR 1\<rparr>) 7 \<and>
    (cal_record_valid (cal_record_finalize
       (selftest_record\<lparr>cr_tx_ant_dly := cr_tx_ant_dly selftest_record XOR 1\<rparr>)) 7 \<longleftrightarrow>
     7 = cr_phy_option (selftest_record\<lparr>cr_tx_ant_dly := cr_tx_ant_dly selftest_record XOR 1\<rparr>))"
proof (rule cal_record_integrity)
  show "cal_record_valid selftest_record 7"
    unfolding selftest_record_def finalize_valid by simp
  show "ucast (cr_tx_ant_dly selftest_record) XOR 1 \<noteq> cal_record_bytes selftest_record ! 6"
    unfolding tx_low_byte(2) by (metis xor_cancel(2) xor.right_neutral zero_neq_one)
qed (simp_all only: tx_low_byte, simp_all)

text \<open>One step of the antenna-delay solver is exact: for every measured and reference distance
  within 2147 m of each other it does not overflow, and the delay it returns leaves at most half
  a unit (1.17 mm) of the error, unless it is at one of its limits.\<close>

theorem cal_solve_converges:
  assumes "\<bar>measured_mm - ref_mm\<bar> \<le> 2147481"
  shows "\<exists>new. cal_solve_step measured_mm ref_mm cur = Some new \<and> uint new \<le> 65000 \<and>
    (new = 0 \<or> uint new = 65000 \<or>
     \<bar>(measured_mm - ref_mm) * 1000 - (uint new - uint cur) * 2340\<bar> \<le> 1170)"
proof -
  obtain new where new: "cal_solve_step measured_mm ref_mm cur = Some new"
    and v: "uint new = clamp_dly (uint cur + round_half_away ((measured_mm - ref_mm) * 1000) 2340)"
    using solve_step_exact [OF assms, of cur]
    by (simp add: unsigned_of_int take_bit_int_eq_self clamp_dly_def)
  then have "uint new \<le> 65000" by (simp add: clamp_dly_def)
  moreover have "0 < uint new \<or> new = 0"
    using uint_ge_0 [of new] by (metis le_less uint_0_iff)
  ultimately show ?thesis
    using new solve_step_residual [OF assms new] by (auto simp: less_le)
qed

lemma cal_solve_converges_witness:
  "\<exists>new. cal_solve_step 2234 2000 32742 = Some new \<and> uint new \<le> 65000 \<and>
    (new = 0 \<or> uint new = 65000 \<or>
     \<bar>(2234 - 2000) * 1000 - (uint new - uint (32742 :: u16)) * 2340\<bar> \<le> 1170)"
  by (rule cal_solve_converges) simp

text \<open>The outlier filter never overflows and never answers with nothing on a batch of 1 to 128
  samples that spread over less than 357 km: it keeps more than half of them and its mean lies
  between the smallest and the largest sample.\<close>

theorem cal_filter_mean:
  assumes "samples \<noteq> []" and "length samples \<le> 128"
    and "\<forall>x\<in>set samples. lo \<le> x \<and> x \<le> hi" and "hi - lo < 357913941"
  shows "\<exists>mean kept. cal_filtered_mean samples = Some (Some (mean, kept)) \<and>
    lo \<le> mean \<and> mean \<le> hi \<and> length samples div 2 + 1 \<le> kept \<and> kept \<le> length samples"
  using assms by (intro filtered_mean_ok) auto

lemma cal_filter_mean_witness:
  "\<exists>mean kept. cal_filtered_mean [100, 102, 98, 101, 99, 5000] = Some (Some (mean, kept)) \<and>
    98 \<le> mean \<and> mean \<le> 5000 \<and> length [100, 102, 98, 101, 99, 5000 :: int] div 2 + 1 \<le> kept \<and>
    kept \<le> length [100, 102, 98, 101, 99, 5000 :: int]"
  by (rule cal_filter_mean) simp_all

end
