(* ===== verification/RadioTime.thy ===== *)
theory RadioTime
  imports ByteFields
begin

text \<open>
  Radio time and small pure helpers: src/uwb_dwtime.c and .h (timestamps, the unit
  conversion, the bounded status wait), src/disc_schedule.c (the discovery stagger) and
  src/tag_id.c (FNV-1a). The radio is an argument: the five timestamp bytes the driver
  returns, and for the wait the sequence of status words and clock readings it will see.
\<close>

section \<open>Timestamps\<close>

text \<open>The five bytes are shifted in from the last, as the loops of
  \<open>uwb_get_rx_timestamp_u64\<close> and \<open>uwb_get_tx_timestamp_u64\<close> do.\<close>

fun ts_shift_in :: "u8 list \<Rightarrow> nat \<Rightarrow> u64 \<Rightarrow> u64" where
  "ts_shift_in tab 0 ts = ts"
| "ts_shift_in tab (Suc i) ts = ts_shift_in tab i (push_bit 8 ts OR ucast (tab ! i))"

definition uwb_get_rx_timestamp_u64 :: "u8 list \<Rightarrow> u64" where
  "uwb_get_rx_timestamp_u64 ts_tab = ts_shift_in ts_tab 5 0"

definition uwb_get_tx_timestamp_u64 :: "u8 list \<Rightarrow> u64" where
  "uwb_get_tx_timestamp_u64 ts_tab = ts_shift_in ts_tab 5 0"

abbreviation (input) RESP_MSG_TS_LEN :: nat where "RESP_MSG_TS_LEN \<equiv> 4"
abbreviation (input) FCS_LEN :: nat where "FCS_LEN \<equiv> 2"

definition uwb_resp_msg_set_ts :: "u8 list \<Rightarrow> nat \<Rightarrow> u64 \<Rightarrow> u8 list" where
  "uwb_resp_msg_set_ts buf o' ts =
     foldl (\<lambda>b i. b[o' + i := ucast (drop_bit (i * 8) ts)]) buf [0..<RESP_MSG_TS_LEN]"

definition UUS_TO_HI32 :: "u32 \<Rightarrow> u32" where
  "UUS_TO_HI32 uus = ucast (drop_bit 8 ((ucast uus :: u64) * 65536))"

text \<open>The wait: \<open>sys k\<close> is the status word the \<open>k\<close>-th read returns and \<open>clk k\<close> the uptime
  read after it. The result is the loop's and the number of reads.\<close>

partial_function (option) wait_loop ::
  "(nat \<Rightarrow> u32) \<Rightarrow> (nat \<Rightarrow> int) \<Rightarrow> u32 \<Rightarrow> int \<Rightarrow> nat \<Rightarrow> (bool \<times> nat) option" where
  "wait_loop sys clk lo_mask deadline k =
     (if sys k AND lo_mask \<noteq> 0 then Some (True, k)
      else if clk k \<ge> deadline then Some (False, k)
      else wait_loop sys clk lo_mask deadline (k + 1))"

definition uwb_wait_for_sysstatus_lo ::
  "(nat \<Rightarrow> u32) \<Rightarrow> (nat \<Rightarrow> int) \<Rightarrow> int \<Rightarrow> u32 \<Rightarrow> u32 \<Rightarrow> (bool \<times> nat) option" where
  "uwb_wait_for_sysstatus_lo sys clk now lo_mask timeout_ms =
     wait_loop sys clk lo_mask (now + uint timeout_ms) 0"

text \<open>The result of the wait where it returns; \<open>wait_terminates\<close> says that it does once the
  uptime reaches the deadline.\<close>

definition wait_ok :: "(nat \<Rightarrow> u32) \<Rightarrow> (nat \<Rightarrow> int) \<Rightarrow> int \<Rightarrow> u32 \<Rightarrow> u32 \<Rightarrow> bool" where
  "wait_ok sys clk now lo_mask timeout_ms =
     (case uwb_wait_for_sysstatus_lo sys clk now lo_mask timeout_ms of
        Some (b, _) \<Rightarrow> b | None \<Rightarrow> False)"

text \<open>A transmission handed to the radio: the bytes written, the length programmed (it counts
  the frame check sequence the radio puts in the last two places) and, if delayed, the
  programmed time. What a receiver is given is the payload.\<close>

record tx_frame =
  tx_data :: "u8 list"
  tx_len :: nat
  tx_when :: "u32 option"

definition on_air :: "tx_frame \<Rightarrow> u8 list" where
  "on_air t = take (tx_len t - FCS_LEN) (tx_data t)"

text \<open>What one transmission sees of the radio and the kernel: the result of
  \<open>dwt_starttx\<close>, then the status words and uptimes of the wait for the end of the frame.\<close>

record tx_env =
  tx_start_ok :: bool
  tx_sys :: "nat \<Rightarrow> u32"
  tx_clk :: "nat \<Rightarrow> int"
  tx_now :: int

abbreviation (input) DWT_INT_TXFRS_BIT_MASK :: u32 where "DWT_INT_TXFRS_BIT_MASK \<equiv> 0x80"

definition tx_completes :: "tx_env \<Rightarrow> u32 \<Rightarrow> bool" where
  "tx_completes e timeout_ms = wait_ok (tx_sys e) (tx_clk e) (tx_now e) DWT_INT_TXFRS_BIT_MASK timeout_ms"

section \<open>Discovery stagger\<close>

abbreviation (input) DISC_BASE_UUS :: u32 where "DISC_BASE_UUS \<equiv> 2000"
abbreviation (input) DISC_SLOT_UUS :: u32 where "DISC_SLOT_UUS \<equiv> 3500"

definition disc_resp_delay_uus :: "u8 \<Rightarrow> u32" where
  "disc_resp_delay_uus anchor_id = DISC_BASE_UUS + ucast anchor_id * DISC_SLOT_UUS"

section \<open>The tag id\<close>

definition tag_id_from_eui :: "u8 list \<Rightarrow> u32" where
  "tag_id_from_eui data = foldl (\<lambda>h b. (h XOR ucast b) * 16777619) 2166136261 data"

section \<open>Lemmas\<close>

lemma set_ts_put_u32:
  "o' + 4 \<le> length buf \<Longrightarrow> uwb_resp_msg_set_ts buf o' ts = put_u32 buf o' (ucast ts)"
proof -
  have b: "(ucast (drop_bit k ts) :: u8) = ucast (drop_bit k (ucast ts :: u32))" if "k \<le> 24" for k
    using that by (intro bit_word_eqI) (auto simp: bit_simps)
  show ?thesis
    using b [of 0] b [of 8] b [of 16] b [of 24]
    by (simp add: uwb_resp_msg_set_ts_def put_u32_def upt_rec numeral_eq_Suc)
qed

text \<open>The field carries the low 32 bits of the timestamp.\<close>

lemma set_ts_read:
  "o' + 4 \<le> length buf \<Longrightarrow> get_u32 (uwb_resp_msg_set_ts buf o' ts) o' = ucast ts"
  by (simp add: set_ts_put_u32 get_put_u32)

text \<open>The timestamp is the five bytes, least significant first, and has 40 bits.\<close>

lemma ts_unfold:
  "uwb_get_rx_timestamp_u64 tab =
     push_bit 32 (ucast (tab ! 4)) OR push_bit 24 (ucast (tab ! 3)) OR
     push_bit 16 (ucast (tab ! 2)) OR push_bit 8 (ucast (tab ! 1)) OR ucast (tab ! 0)"
  by (simp add: uwb_get_rx_timestamp_u64_def numeral_eq_Suc push_bit_or or.assoc)

lemma no_bit_u8: "8 \<le> m \<Longrightarrow> \<not> bit (w :: u8) m"
  by (auto dest: bit_imp_le_length)

lemma ts_bits:
  "bit (uwb_get_rx_timestamp_u64 tab) n \<longleftrightarrow> n < 40 \<and> bit (tab ! (n div 8)) (n mod 8)"
proof -
  obtain j k where jk: "n = 8 * j + k" "k < 8"
    by (metis mod_less_divisor mult_div_mod_eq zero_less_numeral)
  have d: "(8 * j + k) div 8 = j" "(8 * j + k) mod 8 = k"
    using jk(2) by simp_all
  consider "j = 0" | "j = 1" | "j = 2" | "j = 3" | "j = 4" | "5 \<le> j" by linarith
  then show ?thesis
    unfolding jk(1) d using jk(2)
    by cases (auto simp: ts_unfold bit_simps no_bit_u8)
qed

lemma ts_40bit: "take_bit 40 (uwb_get_rx_timestamp_u64 tab) = uwb_get_rx_timestamp_u64 tab"
  by (rule bit_word_eqI) (auto simp: bit_take_bit_iff ts_bits)

lemma tx_rx_ts [simp]: "uwb_get_tx_timestamp_u64 = uwb_get_rx_timestamp_u64"
  by (simp add: fun_eq_iff uwb_get_tx_timestamp_u64_def uwb_get_rx_timestamp_u64_def)

section \<open>Unit conversion and the stagger\<close>

text \<open>The conversion is exact in the wrapping unit: 256 ticks to the microsecond.\<close>

lemma uus_to_hi32: "UUS_TO_HI32 uus = 256 * uus"
proof -
  have "(ucast uus :: u64) * 65536 = push_bit 16 (ucast uus)" "256 * uus = push_bit 8 uus"
    by (simp_all add: push_bit_eq_mult)
  then show ?thesis
    unfolding UUS_TO_HI32_def by (intro bit_word_eqI) (auto simp: bit_simps)
qed

lemma unat_disc_delay: "unat (disc_resp_delay_uus i) = 2000 + 3500 * unat i"
proof -
  have "unat i < 256" using unsigned_less [of i] by simp
  then show ?thesis
    by (simp add: disc_resp_delay_uus_def unat_word_ariths unsigned_ucast_eq take_bit_nat_eq_self)
qed

text \<open>Two anchors answer one broadcast at least a slot apart.\<close>

lemma disc_stagger:
  "i < j \<Longrightarrow> unat (disc_resp_delay_uus i) + 3500 \<le> unat (disc_resp_delay_uus j)"
  by (simp add: unat_disc_delay word_less_nat_alt)

section \<open>The wait ends, and why\<close>

lemma wait_loop_hit:
  "k \<le> n \<Longrightarrow> sys n AND m \<noteq> 0 \<or> clk n \<ge> d \<Longrightarrow>
   (\<And>i. k \<le> i \<Longrightarrow> i < n \<Longrightarrow> sys i AND m = 0 \<and> clk i < d) \<Longrightarrow>
     wait_loop sys clk m d k = Some (sys n AND m \<noteq> 0, n)"
proof (induction "n - k" arbitrary: k)
  case 0
  then show ?case by (subst wait_loop.simps) auto
next
  case (Suc x)
  then have k: "sys k AND m = 0" "clk k < d" "k < n" by simp_all
  have "wait_loop sys clk m d (k + 1) = Some (sys n AND m \<noteq> 0, n)"
    using Suc.hyps(2) k(3) Suc.prems by (intro Suc.hyps(1)) auto
  with k show ?case by (subst wait_loop.simps) simp
qed

text \<open>If the clock reaches the deadline the wait returns, at the first read that shows a
  bit of the mask or after which the deadline has passed; it reports which.\<close>

lemma wait_terminates:
  assumes "clk n \<ge> now + uint timeout"
  shows "\<exists>k\<le>n. uwb_wait_for_sysstatus_lo sys clk now m timeout = Some (sys k AND m \<noteq> 0, k) \<and>
    (sys k AND m \<noteq> 0 \<or> now + uint timeout \<le> clk k) \<and>
    (\<forall>i<k. sys i AND m = 0 \<and> clk i < now + uint timeout)"
proof -
  define P where "P k \<longleftrightarrow> sys k AND m \<noteq> 0 \<or> clk k \<ge> now + uint timeout" for k
  have "P n" using assms by (simp add: P_def)
  then have k: "P (Least P)" "Least P \<le> n" "\<And>i. i < Least P \<Longrightarrow> \<not> P i"
    by (rule LeastI, rule Least_le) (rule not_less_Least)
  have "wait_loop sys clk m (now + uint timeout) 0 = Some (sys (Least P) AND m \<noteq> 0, Least P)"
  proof (rule wait_loop_hit)
    show "sys (Least P) AND m \<noteq> 0 \<or> now + uint timeout \<le> clk (Least P)"
      using k(1) unfolding P_def .
    show "sys i AND m = 0 \<and> clk i < now + uint timeout" if "i < Least P" for i
      using k(3) [OF that] unfolding P_def by linarith
  qed simp
  moreover have "\<forall>i<Least P. sys i AND m = 0 \<and> clk i < now + uint timeout"
    using k(3) unfolding P_def by (meson not_le)
  moreover have "sys (Least P) AND m \<noteq> 0 \<or> now + uint timeout \<le> clk (Least P)"
    using k(1) unfolding P_def .
  ultimately show ?thesis
    using k(2) unfolding uwb_wait_for_sysstatus_lo_def by blast
qed

lemma wait_ok_iff:
  assumes "clk n \<ge> now + uint timeout"
  shows "wait_ok sys clk now m timeout \<longleftrightarrow>
     (\<exists>k\<le>n. sys k AND m \<noteq> 0 \<and> (\<forall>i<k. clk i < now + uint timeout))"
proof -
  obtain k where k: "k \<le> n" "uwb_wait_for_sysstatus_lo sys clk now m timeout = Some (sys k AND m \<noteq> 0, k)"
    "\<forall>i<k. sys i AND m = 0 \<and> clk i < now + uint timeout" and
    ret: "sys k AND m \<noteq> 0 \<or> now + uint timeout \<le> clk k"
    using wait_terminates [of now timeout clk n sys m] assms by blast
  have "sys k AND m \<noteq> 0" if "k' \<le> n" "sys k' AND m \<noteq> 0" "\<forall>i<k'. clk i < now + uint timeout" for k'
  proof (rule ccontr)
    assume z: "\<not> (sys k AND m \<noteq> 0)"
    then have "now + uint timeout \<le> clk k" using ret by simp
    then have "\<not> k < k'" using that(3) by (meson leD)
    moreover have "k' \<noteq> k" using z that(2) by auto
    ultimately show False using k(3) that(2) by auto
  qed
  then show ?thesis using k by (auto simp: wait_ok_def)
qed

section \<open>FNV-1a\<close>

text \<open>The prime is odd, so each step is injective in the hash: two inputs that differ in
  one byte have different ids.\<close>

lemma fnv_prime_inverse: "(16777619 :: u32) * 899433627 = 1"
  by simp

lemma fnv_step_inj: "(x :: u32) * 16777619 = y * 16777619 \<longleftrightarrow> x = y"
proof
  assume "x * 16777619 = y * 16777619"
  then have "x * (16777619 * 899433627) = y * (16777619 * 899433627)"
    by (simp only: mult.assoc [symmetric])
  then show "x = y" by (simp only: fnv_prime_inverse mult_1_right)
qed simp

lemma fnv_suffix_inj:
  "foldl (\<lambda>h b. (h XOR ucast (b :: u8)) * (16777619 :: u32)) h bs =
   foldl (\<lambda>h b. (h XOR ucast b) * 16777619) h' bs \<longleftrightarrow> h = h'"
proof (induction bs arbitrary: h h')
  case (Cons b bs)
  then show ?case by (simp add: fnv_step_inj xor_cancel)
qed simp

lemma tag_id_one_byte:
  assumes "i < length e" and "b \<noteq> e ! i"
  shows "tag_id_from_eui (e[i := b]) \<noteq> tag_id_from_eui e"
proof -
  have e: "e = take i e @ e ! i # drop (Suc i) e"
    using assms(1) by (rule id_take_nth_drop)
  have "e[i := b] = take i e @ b # drop (Suc i) e"
    using assms(1) by (rule upd_conv_take_nth_drop)
  moreover have "h XOR ucast b \<noteq> h XOR ucast (e ! i)" for h :: u32
    using assms(2) by (simp add: ucast_u8_inj xor_cancel)
  ultimately show ?thesis
    by (subst (2) e) (simp add: tag_id_from_eui_def fnv_suffix_inj fnv_step_inj del: append_take_drop_id)
qed

section \<open>Properties\<close>

text \<open>The wait for a status bit always ends once the uptime has reached its deadline, and it
  reports success exactly when a bit of the mask was seen at a read before which the deadline had
  not passed: it neither hangs nor reports a bit it did not see.\<close>

theorem uwb_wait_returns:
  assumes "clk n \<ge> now + uint timeout"
  shows "\<exists>k\<le>n. uwb_wait_for_sysstatus_lo sys clk now m timeout = Some (sys k AND m \<noteq> 0, k) \<and>
      (\<forall>i<k. sys i AND m = 0 \<and> clk i < now + uint timeout) \<and>
      (sys k AND m \<noteq> 0 \<or> now + uint timeout \<le> clk k)"
  using wait_terminates [of now timeout clk n sys m] assms by blast

lemma uwb_wait_returns_witness:
  "uwb_wait_for_sysstatus_lo (\<lambda>i. if i = 7 then 0x80 else 0) int 0 0x80 18 \<noteq> None"
  using uwb_wait_returns [of 0 18 int 18 "\<lambda>i. if i = 7 then 0x80 else 0" "0x80"] by auto

text \<open>Anchors of different ids never answer one DISCOVERY broadcast in the same slot: the
  delay is 2000 microseconds plus 3500 per id, without wrap-around for any id, so two
  replies start at least 3500 microseconds apart.\<close>

theorem disc_slots_apart:
  "unat (disc_resp_delay_uus i) = 2000 + 3500 * unat i \<and>
   (i < j \<longrightarrow> unat (disc_resp_delay_uus i) + 3500 \<le> unat (disc_resp_delay_uus j))"
  using unat_disc_delay disc_stagger by blast

lemma disc_slots_apart_witness:
  "unat (disc_resp_delay_uus 1) + 3500 \<le> unat (disc_resp_delay_uus 3)"
  using disc_slots_apart [of 1 3] by simp

text \<open>Two tags whose EUIs differ in one byte never get the same 32-bit id.\<close>

theorem tag_id_separates:
  assumes "i < length e" and "b \<noteq> e ! i"
  shows "tag_id_from_eui (e[i := b]) \<noteq> tag_id_from_eui e"
  by (rule tag_id_one_byte [OF assms])

lemma tag_id_separates_witness:
  "tag_id_from_eui ([1, 2, 3, 4, 5, 6, 7, 8][7 := 9]) \<noteq> tag_id_from_eui [1, 2, 3, 4, 5, 6, 7, 8]"
  by (rule tag_id_separates) simp_all

end
