(* ===== verification/SsInitiator.thy ===== *)
theory SsInitiator
  imports RadioTime Float32
begin

text \<open>
  One SS-TWR exchange with this board as the initiator, src/ss_initiator.c: the poll, the
  two bounded waits, the checks on the response, the choice of its layout and the distance.
  The radio is an argument of each exchange (\<open>ss_env\<close>); the static frame, sequence
  counter and tallies are the state \<open>ss_state\<close>.
\<close>

section \<open>State\<close>

abbreviation (input) RX_BUF_LEN :: nat where "RX_BUF_LEN \<equiv> 64"
abbreviation (input) ALL_MSG_COMMON_LEN :: nat where "ALL_MSG_COMMON_LEN \<equiv> 10"
abbreviation (input) RESP_LEN_STOCK :: nat where "RESP_LEN_STOCK \<equiv> 18"
abbreviation (input) RESP_LEN_ANCLA :: nat where "RESP_LEN_ANCLA \<equiv> 27"
abbreviation (input) DWT_INT_RXFCG_BIT_MASK :: u32 where "DWT_INT_RXFCG_BIT_MASK \<equiv> 0x4000"
abbreviation (input) SYS_STATUS_ALL_RX_TO :: u32 where "SYS_STATUS_ALL_RX_TO \<equiv> 0x10220000"
abbreviation (input) SYS_STATUS_ALL_RX_ERR :: u32 where "SYS_STATUS_ALL_RX_ERR \<equiv> 0x34059000"
abbreviation (input) INT32_MIN :: int where "INT32_MIN \<equiv> - 2147483648"

record ss_diag =
  dg_ok :: u32
  dg_tx_start_fail :: u32
  dg_tx_done_timeout :: u32
  dg_rx_timeout_or_err :: u32
  dg_frame_len_bad :: u32
  dg_header_mismatch :: u32
  dg_layout_unknown :: u32

record ss_state =
  ss_tx_poll :: "u8 list"
  ss_poll_seq :: u8
  ss_counts :: ss_diag
  ss_logged :: bool

definition tx_poll_ref :: "u8 list" where
  "tx_poll_ref = [0x41, 0x88, 0, 0xCA, 0xDE, 0x57, 0x41, 0x56, 0x45, 0xE0, 0]"

definition rx_resp_ref :: "u8 list" where
  "rx_resp_ref = [0x41, 0x88, 0, 0xCA, 0xDE, 0x56, 0x45, 0x57, 0x41, 0xE1]"

definition ss_diag_zero :: ss_diag where
  "ss_diag_zero = \<lparr>dg_ok = 0, dg_tx_start_fail = 0, dg_tx_done_timeout = 0,
     dg_rx_timeout_or_err = 0, dg_frame_len_bad = 0, dg_header_mismatch = 0, dg_layout_unknown = 0\<rparr>"

definition ss_boot :: ss_state where
  "ss_boot = \<lparr>ss_tx_poll = tx_poll_ref, ss_poll_seq = 0, ss_counts = ss_diag_zero, ss_logged = False\<rparr>"

text \<open>Entering clears the tallies; the radio calls of \<open>ss_initiator_enter\<close> and
  \<open>ss_initiator_leave\<close> leave nothing behind but the radio's own configuration.\<close>

definition ss_initiator_enter :: "ss_state \<Rightarrow> ss_state" where
  "ss_initiator_enter s = s\<lparr>ss_logged := False, ss_counts := ss_diag_zero\<rparr>"

section \<open>The second wait\<close>

text \<open>\<open>wait_any_sysstatus_lo\<close> gives up only after the deadline has passed.\<close>

partial_function (option) wait_any_loop ::
  "(nat \<Rightarrow> u32) \<Rightarrow> (nat \<Rightarrow> int) \<Rightarrow> u32 \<Rightarrow> int \<Rightarrow> nat \<Rightarrow> u32 option" where
  "wait_any_loop sys clk lo_mask deadline k =
     (if sys k AND lo_mask \<noteq> 0 then Some (sys k AND lo_mask)
      else if clk k > deadline then Some 0
      else wait_any_loop sys clk lo_mask deadline (k + 1))"

definition wait_any_sysstatus_lo ::
  "(nat \<Rightarrow> u32) \<Rightarrow> (nat \<Rightarrow> int) \<Rightarrow> int \<Rightarrow> u32 \<Rightarrow> u32 \<Rightarrow> u32 option" where
  "wait_any_sysstatus_lo sys clk now lo_mask timeout_ms =
     wait_any_loop sys clk lo_mask (now + uint timeout_ms) 0"

definition wait_any_ok :: "(nat \<Rightarrow> u32) \<Rightarrow> (nat \<Rightarrow> int) \<Rightarrow> int \<Rightarrow> u32 \<Rightarrow> u32 \<Rightarrow> u32" where
  "wait_any_ok sys clk now lo_mask timeout_ms =
     (case wait_any_sysstatus_lo sys clk now lo_mask timeout_ms of Some w \<Rightarrow> w | None \<Rightarrow> 0)"

lemma wait_any_loop_ends:
  "k \<le> n \<Longrightarrow> clk n > d \<Longrightarrow> \<exists>w. wait_any_loop sys clk m d k = Some w \<and>
     (w = 0 \<or> (\<exists>j. w = sys j AND m))"
proof (induction "n - k" arbitrary: k)
  case 0
  then show ?case by (subst wait_any_loop.simps) auto
next
  case (Suc x)
  then show ?case by (subst wait_any_loop.simps) auto
qed

section \<open>The exchange\<close>

text \<open>What the exchange sees: the transmission, the statuses and uptimes of the wait for the
  response, the frame length, the receive buffer after \<open>dwt_readrxdata\<close> (64 bytes, those past
  the frame as the stack left them), the two timestamps and the clock offset.\<close>

record ss_env =
  ss_tx :: tx_env
  ss_rx_sys :: "nat \<Rightarrow> u32"
  ss_rx_clk :: "nat \<Rightarrow> int"
  ss_rx_now :: int
  ss_flen :: u16
  ss_rx :: "u8 list"
  ss_poll_tx_ts :: u32
  ss_resp_rx_ts :: u32
  ss_clk_off :: "16 word"

abbreviation (input) D_UNITS :: f64 where "D_UNITS \<equiv> 0x3DB135183BCE48FA"
abbreviation (input) D_LIGHT :: f64 where "D_LIGHT \<equiv> 0x41B1DD1913000000"
abbreviation (input) D_1000 :: f64 where "D_1000 \<equiv> 0x408F400000000000"
abbreviation (input) D_2_26 :: f64 where "D_2_26 \<equiv> 0x4190000000000000"
abbreviation (input) D_1 :: f64 where "D_1 \<equiv> 0x3FF0000000000000"
abbreviation (input) D_2 :: f64 where "D_2 \<equiv> 0x4000000000000000"

definition ts_from :: "u8 list \<Rightarrow> nat \<Rightarrow> u32" where
  "ts_from p o' = foldl (\<lambda>ts i. ts OR push_bit (i * 8) (ucast (p ! (o' + i)))) 0 [0..<4]"

text \<open>The distance from the two round trips and the clock offset; the round trips are the
  differences read as signed numbers.\<close>

definition ss_distance_mm :: "16 word \<Rightarrow> u32 \<Rightarrow> u32 \<Rightarrow> u32 \<Rightarrow> u32 \<Rightarrow> int option" where
  "ss_distance_mm clk poll_tx_ts resp_rx_ts poll_rx_ts resp_tx_ts =
     (let clk_off = f64_div (f64_of_int (sint clk)) D_2_26;
          rtd_init = sint (resp_rx_ts - poll_tx_ts);
          rtd_resp = sint (resp_tx_ts - poll_rx_ts);
          tof = f64_mul
            (f64_div (f64_sub (f64_of_int rtd_init) (f64_mul (f64_of_int rtd_resp) (f64_sub D_1 clk_off)))
               D_2) D_UNITS
      in f64_to_i32 (f64_mul (f64_mul tof D_LIGHT) D_1000))"

definition resp_layout :: "nat \<Rightarrow> (nat \<times> nat) option" where
  "resp_layout plen =
     (if plen = RESP_LEN_ANCLA then Some (11, 15)
      else if plen = RESP_LEN_STOCK then Some (10, 14) else None)"

definition ss_poll :: "ss_state \<Rightarrow> u8 \<Rightarrow> u8 list" where
  "ss_poll s peer = (ss_tx_poll s)[2 := ss_poll_seq s, 10 := peer]"

text \<open>What becomes of the received frame: the tally it goes to, or a distance (undefined where
  the conversion is).\<close>

datatype ss_verdict = FrameLenBad | HeaderMismatch | LayoutUnknown | Distance "int option"

definition ss_receive :: "ss_env \<Rightarrow> ss_verdict" where
  "ss_receive e =
     (let flen = unat (ss_flen e) in
      if flen \<le> FCS_LEN \<or> flen > RX_BUF_LEN then FrameLenBad
      else
        let plen = flen - FCS_LEN;
            buf = (ss_rx e)[2 := 0]
        in if take ALL_MSG_COMMON_LEN buf \<noteq> rx_resp_ref then HeaderMismatch
           else
             (case resp_layout plen of
                None \<Rightarrow> LayoutUnknown
              | Some (poll_rx_idx, resp_tx_idx) \<Rightarrow>
                  Distance (ss_distance_mm (ss_clk_off e) (ss_poll_tx_ts e) (ss_resp_rx_ts e)
                    (ts_from buf poll_rx_idx) (ts_from buf resp_tx_idx))))"

text \<open>The result \<open>None\<close> is the undefined conversion; the frame is the poll handed to the radio.\<close>

definition ss_initiator_range ::
  "ss_env \<Rightarrow> ss_state \<Rightarrow> u8 \<Rightarrow> int option \<times> ss_state \<times> tx_frame list" where
  "ss_initiator_range e s peer_wire_id =
     (let poll = ss_poll s peer_wire_id;
          s = s\<lparr>ss_tx_poll := poll, ss_poll_seq := ss_poll_seq s + 1\<rparr>;
          d = ss_counts s;
          tx = [\<lparr>tx_data = poll, tx_len = 11 + FCS_LEN, tx_when = None\<rparr>]
      in
      if \<not> tx_start_ok (ss_tx e) then
        (Some INT32_MIN, s\<lparr>ss_counts := d\<lparr>dg_tx_start_fail := dg_tx_start_fail d + 1\<rparr>\<rparr>, [])
      else if \<not> tx_completes (ss_tx e) 10 then
        (Some INT32_MIN, s\<lparr>ss_counts := d\<lparr>dg_tx_done_timeout := dg_tx_done_timeout d + 1\<rparr>\<rparr>, tx)
      else
        let rx_mask = DWT_INT_RXFCG_BIT_MASK OR SYS_STATUS_ALL_RX_TO OR SYS_STATUS_ALL_RX_ERR;
            got = wait_any_ok (ss_rx_sys e) (ss_rx_clk e) (ss_rx_now e) rx_mask 25
        in if got AND DWT_INT_RXFCG_BIT_MASK = 0 then
             (Some INT32_MIN,
              s\<lparr>ss_counts := d\<lparr>dg_rx_timeout_or_err := dg_rx_timeout_or_err d + 1\<rparr>\<rparr>, tx)
           else
             (case ss_receive e of
                FrameLenBad \<Rightarrow>
                  (Some INT32_MIN, s\<lparr>ss_counts := d\<lparr>dg_frame_len_bad := dg_frame_len_bad d + 1\<rparr>\<rparr>, tx)
              | HeaderMismatch \<Rightarrow>
                  (Some INT32_MIN, s\<lparr>ss_counts := d\<lparr>dg_header_mismatch := dg_header_mismatch d + 1\<rparr>\<rparr>, tx)
              | LayoutUnknown \<Rightarrow>
                  (Some INT32_MIN, s\<lparr>ss_counts := d\<lparr>dg_layout_unknown := dg_layout_unknown d + 1\<rparr>\<rparr>, tx)
              | Distance mm \<Rightarrow>
                  (mm, s\<lparr>ss_counts := d\<lparr>dg_ok := dg_ok d + 1\<rparr>, ss_logged := True\<rparr>, tx)))"

section \<open>Lemmas\<close>

lemma ts_from_get_u32: "ts_from p o' = get_u32 p o'"
  by (simp add: ts_from_def get_u32_def numeral_eq_Suc ac_simps)

text \<open>The poll has the reference header whatever was polled before.\<close>

definition ss_inv :: "ss_state \<Rightarrow> bool" where
  "ss_inv s \<longleftrightarrow> (\<exists>q p. ss_tx_poll s = tx_poll_ref[2 := q, 10 := p])"

lemma ss_boot_inv: "ss_inv ss_boot"
  unfolding ss_inv_def ss_boot_def
  by (rule exI [of _ 0], rule exI [of _ 0]) (simp add: tx_poll_ref_def)

lemma ss_enter_inv [simp]: "ss_inv (ss_initiator_enter s) = ss_inv s"
  by (simp add: ss_inv_def ss_initiator_enter_def)

lemma ss_poll_ref: "ss_inv s \<Longrightarrow> ss_poll s peer = tx_poll_ref[2 := ss_poll_seq s, 10 := peer]"
  by (auto simp: ss_inv_def ss_poll_def tx_poll_ref_def)

lemma range_state:
  "ss_tx_poll (fst (snd (ss_initiator_range e s p))) = ss_poll s p"
  "ss_poll_seq (fst (snd (ss_initiator_range e s p))) = ss_poll_seq s + 1"
  by (auto simp: ss_initiator_range_def Let_def split: ss_verdict.split)

lemma range_inv: "ss_inv s \<Longrightarrow> ss_inv (fst (snd (ss_initiator_range e s p)))"
  by (auto simp: ss_inv_def [of "fst _"] range_state ss_poll_ref)

lemma range_frames:
  "snd (snd (ss_initiator_range e s p)) =
     (if tx_start_ok (ss_tx e) then [\<lparr>tx_data = ss_poll s p, tx_len = 13, tx_when = None\<rparr>] else [])"
  by (auto simp: ss_initiator_range_def Let_def split: ss_verdict.split)

text \<open>Every exchange goes to exactly one tally.\<close>

definition tally :: "ss_diag \<Rightarrow> u32" where
  "tally d = dg_ok d + dg_tx_start_fail d + dg_tx_done_timeout d + dg_rx_timeout_or_err d +
     dg_frame_len_bad d + dg_header_mismatch d + dg_layout_unknown d"

lemma range_tally:
  "tally (ss_counts (fst (snd (ss_initiator_range e s p)))) = tally (ss_counts s) + 1"
  by (auto simp: ss_initiator_range_def tally_def Let_def split: ss_verdict.split)

text \<open>A result other than the failure value is the distance of a response that was received
  whole, has the reference header and one of the two layouts.\<close>

lemma range_result:
  assumes "fst (ss_initiator_range e s p) \<noteq> Some INT32_MIN"
  obtains a b where "tx_start_ok (ss_tx e)" "tx_completes (ss_tx e) 10"
    "resp_layout (unat (ss_flen e) - 2) = Some (a, b)" "unat (ss_flen e) \<in> {20, 29}"
    "take 10 ((ss_rx e)[2 := 0]) = rx_resp_ref"
    "fst (ss_initiator_range e s p) = ss_distance_mm (ss_clk_off e) (ss_poll_tx_ts e) (ss_resp_rx_ts e)
      (get_u32 ((ss_rx e)[2 := 0]) a) (get_u32 ((ss_rx e)[2 := 0]) b)"
  using assms
  by (auto simp: ss_initiator_range_def ss_receive_def ts_from_get_u32 Let_def resp_layout_def
      split: if_splits ss_verdict.splits) arith+

text \<open>A waiting exchange ends: where the clock passes the deadline both waits return.\<close>

lemma wait_any_returns:
  assumes "clk n > now + uint t"
  shows "\<exists>w. wait_any_sysstatus_lo sys clk now m t = Some w"
  using wait_any_loop_ends [of 0 n "now + uint t" clk sys m] assms
  by (auto simp: wait_any_sysstatus_lo_def)

text \<open>Out of range: a response whose two timestamps are half a turn apart makes the
  conversion undefined, whatever was measured here.\<close>

text \<open>A distance of 6.4 m computed step by step, and an input on which the conversion is
  undefined: the responder's two timestamps are half a turn of the counter apart.\<close>

lemma clk_steps:
  "f64_div (f64_of_int 1) D_2_26 = 0x3E50000000000000"
  "f64_sub D_1 0x3E50000000000000 = 0x3FEFFFFFF8000000"
  by (simp_all add: fl_eval64)

lemma sample_steps:
  "f64_of_int 131080192 = 4728569052262301696" "f64_of_int 131082917 = 4728569235133956096"
  "f64_mul 4728569052262301696 0x3FEFFFFFF8000000 = 4728569052131221504"
  "f64_sub 4728569235133956096 4728569052131221504 = 4658215048680833024"
  "f64_div 4658215048680833024 D_2 = 4653711449053462528"
  "f64_mul 4653711449053462528 D_UNITS = 4492034383816100850"
  "f64_mul 4492034383816100850 D_LIGHT = 4618886364442920199"
  "f64_mul 4618886364442920199 D_1000 = 4663753602606886121"
  "f64_to_i32 4663753602606886121 = Some 6395"
  by (simp_all add: fl_eval64)

lemma undefined_steps:
  "f64_of_int (- 2147483648) = 13970166044103278592"
  "f64_mul 13970166044103278592 0x3FEFFFFFF8000000 = 13970166043969060864"
  "f64_sub 4728569052262301696 13970166043969060864 = 4747068902268207104"
  "f64_div 4747068902268207104 D_2 = 4742565302640836608"
  "f64_mul 4742565302640836608 D_UNITS = 4580796313514117395"
  "f64_mul 4580796313514117395 D_LIGHT = 4707495699342402746"
  "f64_mul 4707495699342402746 D_1000 = 4752397218544991966"
  "f64_to_i32 4752397218544991966 = None"
  by (simp_all add: fl_eval64)

lemma distance_sample: "ss_distance_mm 1 0 131082917 0 131080192 = Some 6395"
  by (simp add: ss_distance_mm_def Let_def clk_steps sample_steps)

lemma distance_undefined: "ss_distance_mm 1 0 131080192 0 0x80000000 = None"
  by (simp add: ss_distance_mm_def Let_def clk_steps sample_steps undefined_steps)

section \<open>Properties\<close>

definition sample_exchange :: ss_env where
  "sample_exchange = \<lparr>ss_tx = \<lparr>tx_start_ok = False, tx_sys = (\<lambda>_. 0), tx_clk = int, tx_now = 0\<rparr>,
     ss_rx_sys = (\<lambda>_. 0), ss_rx_clk = int, ss_rx_now = 0, ss_flen = 0, ss_rx = [],
     ss_poll_tx_ts = 0, ss_resp_rx_ts = 0, ss_clk_off = 0\<rparr>"

text \<open>Every exchange is accounted for: exactly one tally goes up by one and the sequence number
  by one, at most one frame is handed to the radio, and it is the 11-byte poll with the
  reference header, the sequence number and the id of the peer, whatever was polled before.\<close>

theorem ss_exchange_accounted:
  assumes "ss_inv s" and "ss_initiator_range x s peer = (r, s', tx)"
  shows "ss_inv s' \<and> tally (ss_counts s') = tally (ss_counts s) + 1 \<and> ss_poll_seq s' = ss_poll_seq s + 1 \<and>
    (tx = [] \<or> tx = [\<lparr>tx_data = tx_poll_ref[2 := ss_poll_seq s, 10 := peer], tx_len = 13, tx_when = None\<rparr>])"
  using range_inv [OF assms(1), of x peer] range_tally [of x s peer] range_state(2) [of x s peer]
    range_frames [of x s peer] ss_poll_ref [OF assms(1), of peer] assms(2)
  by (simp split: if_splits)

lemma ss_exchange_accounted_witness:
  "\<exists>r s' tx. ss_initiator_range sample_exchange ss_boot 2 = (r, s', tx) \<and> tally (ss_counts s') = 1"
proof -
  obtain r s' tx where e: "ss_initiator_range sample_exchange ss_boot 2 = (r, s', tx)"
    by (metis prod_cases3)
  from ss_exchange_accounted [OF ss_boot_inv e] e show ?thesis
    by (auto simp: ss_boot_def ss_diag_zero_def tally_def)
qed


definition good_exchange :: ss_env where
  "good_exchange = sample_exchange\<lparr>ss_tx := \<lparr>tx_start_ok = True, tx_sys = (\<lambda>_. 0x80), tx_clk = int, tx_now = 0\<rparr>,
     ss_rx_sys := (\<lambda>_. 0x4000), ss_flen := 20, ss_rx := rx_resp_ref @ [0, 0, 0, 0, 0, 0x20, 0xD0, 0x07] @ replicate 46 0,
     ss_resp_rx_ts := 131082917, ss_clk_off := 1\<rparr>"

lemma good_exchange_range: "fst (ss_initiator_range good_exchange ss_boot 2) = Some 6395"
proof -
  have "tx_completes (ss_tx good_exchange) 10"
    by (simp add: good_exchange_def tx_completes_def wait_ok_def uwb_wait_for_sysstatus_lo_def wait_loop.simps)
  moreover have "wait_any_ok (\<lambda>_. 0x4000) int 0 875024384 25 AND 0x4000 \<noteq> 0"
    by (simp add: wait_any_ok_def wait_any_sysstatus_lo_def wait_any_loop.simps)
  moreover have "get_u32 ((ss_rx good_exchange)[2 := 0]) 10 = 0"
    "get_u32 ((ss_rx good_exchange)[2 := 0]) 14 = 131080192"
    by (simp_all add: good_exchange_def rx_resp_ref_def get_u32_def)
  ultimately show ?thesis
    by (simp add: ss_initiator_range_def ss_receive_def ts_from_get_u32 resp_layout_def Let_def)
      (simp add: good_exchange_def sample_exchange_def rx_resp_ref_def distance_sample)
qed


end
