(* ===== verification/BeaconGuard.thy ===== *)
theory BeaconGuard
  imports Prelude
begin

text \<open>
  Beacon-collision avoidance, src/beacon_guard.c: a predicted beacon time on the
  wrapping 32-bit clock and the test whether a transmission at a given time stays clear
  of the window around it. The roll-forward loop stops after four predicted beacons that
  were not seen; \<open>guard_spec\<close> is its closed form on unbounded integers.
\<close>

abbreviation (input) BEACON_GUARD_MAX_MISSES :: u8 where "BEACON_GUARD_MAX_MISSES \<equiv> 4"

record beacon_guard =
  next_beacon :: u32
  period :: u32
  guard :: u32
  occupancy :: u32
  misses :: u8
  locked :: bool

definition after_or_eq :: "u32 \<Rightarrow> u32 \<Rightarrow> bool" where
  "after_or_eq a b = (sint (a - b) \<ge> 0)"

definition beacon_guard_init :: "u32 \<Rightarrow> u32 \<Rightarrow> u32 \<Rightarrow> beacon_guard" where
  "beacon_guard_init p g oc =
     \<lparr>next_beacon = 0, period = p, guard = g, occupancy = oc, misses = 0, locked = False\<rparr>"

definition beacon_guard_beacon :: "beacon_guard \<Rightarrow> u32 \<Rightarrow> beacon_guard" where
  "beacon_guard_beacon g beacon_at =
     g\<lparr>next_beacon := beacon_at + period g, misses := 0, locked := True\<rparr>"

text \<open>The \<open>while\<close> loop; it leaves the guard unlocked when it gives up.\<close>

function guard_roll :: "beacon_guard \<Rightarrow> u32 \<Rightarrow> beacon_guard" where
  "guard_roll g tx_at =
     (if sint (tx_at - (next_beacon g + occupancy g + guard g)) > 0 then
        if misses g \<ge> BEACON_GUARD_MAX_MISSES then g\<lparr>locked := False\<rparr>
        else guard_roll (g\<lparr>misses := misses g + 1,
                           next_beacon := next_beacon g + period g\<rparr>) tx_at
      else g)"
  by pat_completeness auto

lemma misses_suc: "(m :: u8) < 4 \<Longrightarrow> unat (m + 1) = unat m + 1"
  by (simp add: word_less_nat_alt unat_word_ariths)

lemma misses_suc_int: "(m :: u8) < 4 \<Longrightarrow> uint (m + 1) = uint m + 1"
  by (simp add: word_less_def uint_word_ariths)

termination guard_roll
  by (relation "measure (\<lambda>(g, tx). 4 - unat (misses g))")
    (auto simp: not_le misses_suc word_less_nat_alt)

declare guard_roll.simps [simp del]

definition beacon_guard_tx_allowed :: "beacon_guard \<Rightarrow> u32 \<Rightarrow> bool \<times> beacon_guard" where
  "beacon_guard_tx_allowed g tx_at =
     (if \<not> locked g then (True, g)
      else
        let g = guard_roll g tx_at in
        if \<not> locked g then (True, g)
        else (\<not> after_or_eq tx_at (next_beacon g - guard g), g))"

definition beacon_guard_locked :: "beacon_guard \<Rightarrow> bool" where
  "beacon_guard_locked g = locked g"

definition beacon_guard_next :: "beacon_guard \<Rightarrow> u32" where
  "beacon_guard_next g = next_beacon g"

definition beacon_guard_misses :: "beacon_guard \<Rightarrow> u8" where
  "beacon_guard_misses g = misses g"

section \<open>The closed form\<close>

text \<open>How far \<open>tx_at\<close> is past the end of the predicted window.\<close>

definition past_window :: "beacon_guard \<Rightarrow> u32 \<Rightarrow> int" where
  "past_window g tx_at = sint (tx_at - (next_beacon g + occupancy g + guard g))"

text \<open>Windows that fit: the period and the window are under half the clock's range.\<close>

definition guard_cfg :: "beacon_guard \<Rightarrow> bool" where
  "guard_cfg g \<longleftrightarrow> 0 < uint (period g) \<and> uint (period g) < 2 ^ 31 \<and>
     uint (occupancy g) + 2 * uint (guard g) < 2 ^ 31"

definition rolls :: "int \<Rightarrow> int \<Rightarrow> int" where
  "rolls d p = (if d \<le> 0 then 0 else (d + p - 1) div p)"

lemma rolls_step: "0 < p \<Longrightarrow> 0 < d \<Longrightarrow> rolls d p = 1 + rolls (d - p) p"
proof -
  assume p: "0 < p" "0 < d"
  have "d + p - 1 = (d - p + p - 1) + p * 1" by simp
  then have "(d + p - 1) div p = (d - p + p - 1) div p + 1"
    using p by (simp add: div_add_self2 flip: diff_add_eq)
  moreover have "d \<le> p \<Longrightarrow> (d - 1) div p = 0"
    using p by (intro div_pos_pos_trivial) auto
  ultimately show ?thesis
    using p by (auto simp: rolls_def)
qed

lemma rolls_nonneg [simp]: "0 < p \<Longrightarrow> 0 \<le> rolls d p"
  by (simp add: rolls_def pos_imp_zdiv_nonneg_iff)

lemma rolls_pos: "0 < p \<Longrightarrow> 0 < d \<Longrightarrow> 1 \<le> rolls d p"
  by (simp add: rolls_step)

text \<open>After \<open>rolls\<close> steps the distance is in \<open>(-p, 0]\<close>, or was not positive at first.\<close>

lemma rolls_end:
  assumes "0 < p"
  shows "d - rolls d p * p \<le> 0" and "0 < d \<Longrightarrow> - p < d - rolls d p * p"
proof -
  let ?k = "(d + p - 1) div p"
  have m: "p * ?k + (d + p - 1) mod p = d + p - 1" by simp
  have "0 \<le> (d + p - 1) mod p" "(d + p - 1) mod p < p" using assms by simp_all
  with m have "d - p * ?k \<le> 0" "- p < d - p * ?k" by linarith+
  then show "d - rolls d p * p \<le> 0" "0 < d \<Longrightarrow> - p < d - rolls d p * p"
    by (simp_all add: rolls_def mult.commute)
qed

lemma past_window_step:
  assumes "guard_cfg g" and "0 < past_window g t"
  shows "past_window (g\<lparr>misses := m, next_beacon := next_beacon g + period g\<rparr>) t =
    past_window g t - uint (period g)"
  unfolding past_window_def
proof (rule trans [OF sint_diff_exact [of "t - (next_beacon g + occupancy g + guard g)"
        "- uint (period g)"]])
  let ?d = "sint (t - (next_beacon g + occupancy g + guard g))"
  show "- (2 ^ 31) \<le> ?d + - uint (period g)" "?d + - uint (period g) < 2 ^ 31"
    using assms sint_range32 [of "t - (next_beacon g + occupancy g + guard g)"]
    by (auto simp: guard_cfg_def past_window_def)
qed (simp_all add: algebra_simps)

lemma guard_roll_closed:
  assumes "guard_cfg g" and "uint (misses g) \<le> 4"
  shows "guard_roll g t =
    (let k = rolls (past_window g t) (uint (period g)) in
     if uint (misses g) + k \<le> 4 then
       g\<lparr>misses := misses g + of_int k, next_beacon := next_beacon g + of_int k * period g\<rparr>
     else g\<lparr>locked := False, misses := 4,
       next_beacon := next_beacon g + of_int (4 - uint (misses g)) * period g\<rparr>)"
  using assms
proof (induction g t rule: guard_roll.induct)
  case (1 g t)
  let ?g = "g\<lparr>misses := misses g + 1, next_beacon := next_beacon g + period g\<rparr>"
  have p: "0 < uint (period g)" using 1(2) by (simp add: guard_cfg_def)
  show ?case
  proof (cases "0 < past_window g t")
    case False
    then show ?thesis
      using 1(3) by (subst guard_roll.simps) (simp add: past_window_def rolls_def)
  next
    case pos: True
    show ?thesis
    proof (cases "misses g \<ge> 4")
      case True
      then have "misses g = 4" using 1(3) by (simp add: word_le_def word_uint_eq_iff)
      then show ?thesis
        using pos rolls_pos [OF p pos]
        by (subst guard_roll.simps) (simp add: past_window_def Let_def)
    next
      case False
      then have m: "uint (misses g + 1) = uint (misses g) + 1" "uint (misses g) < 4"
        by (simp_all add: not_le misses_suc_int word_less_def)
      have "guard_roll g t = guard_roll ?g t"
        using pos False by (subst guard_roll.simps) (simp add: past_window_def)
      also have "\<dots> = (let k = rolls (past_window ?g t) (uint (period ?g)) in
         if uint (misses ?g) + k \<le> 4 then
           ?g\<lparr>misses := misses ?g + of_int k, next_beacon := next_beacon ?g + of_int k * period ?g\<rparr>
         else ?g\<lparr>locked := False, misses := 4,
           next_beacon := next_beacon ?g + of_int (4 - uint (misses ?g)) * period ?g\<rparr>)"
        using pos False 1(2) m by (intro 1(1)) (auto simp: past_window_def guard_cfg_def)
      finally have r: "guard_roll g t = \<dots>" .
      have k: "rolls (past_window g t) (uint (period g)) =
          1 + rolls (past_window ?g t) (uint (period g))"
        using rolls_step [OF p pos] past_window_step [OF 1(2) pos] by simp
      show ?thesis
        using k m unfolding r by (auto simp: Let_def algebra_simps)
    qed
  qed
qed

section \<open>What the test decides\<close>

text \<open>The transmission time falls in the forbidden window of the \<open>j\<close>-th beacon after the
  predicted one, both ends included.\<close>

definition hits_beacon :: "beacon_guard \<Rightarrow> u32 \<Rightarrow> int \<Rightarrow> bool" where
  "hits_beacon g tx_at j \<longleftrightarrow>
     (let d = past_window g tx_at - j * uint (period g) in
      - (uint (occupancy g) + 2 * uint (guard g)) \<le> d \<and> d \<le> 0)"

definition clear_of_beacons :: "beacon_guard \<Rightarrow> u32 \<Rightarrow> bool" where
  "clear_of_beacons g tx_at \<longleftrightarrow> (\<forall>j\<ge>0. \<not> hits_beacon g tx_at j)"

definition guard_inv :: "beacon_guard \<Rightarrow> bool" where
  "guard_inv g \<longleftrightarrow> guard_cfg g \<and> uint (misses g) \<le> 4"

text \<open>The prediction is too old for the time asked about.\<close>

definition guard_stale :: "beacon_guard \<Rightarrow> u32 \<Rightarrow> bool" where
  "guard_stale g t \<longleftrightarrow> 4 < uint (misses g) + rolls (past_window g t) (uint (period g))"

lemma past_window_roll:
  assumes "guard_cfg g"
  shows "past_window (g\<lparr>misses := m, next_beacon := next_beacon g +
      of_int (rolls (past_window g t) (uint (period g))) * period g\<rparr>) t =
    past_window g t - rolls (past_window g t) (uint (period g)) * uint (period g)"
proof -
  let ?d = "past_window g t"
  let ?k = "rolls ?d (uint (period g))"
  have p: "0 < uint (period g)" "uint (period g) < 2 ^ 31"
    using assms by (simp_all add: guard_cfg_def)
  let ?w = "t - (next_beacon g + occupancy g + guard g)"
  have "sint (t - (next_beacon g + of_int ?k * period g + occupancy g + guard g)) =
      sint ?w + - (?k * uint (period g))"
  proof (rule sint_diff_exact)
    show "- (2 ^ 31) \<le> sint ?w + - (?k * uint (period g))"
      "sint ?w + - (?k * uint (period g)) < 2 ^ 31"
      using rolls_end [OF p(1), of ?d] p(2) sint_range32 [of ?w]
      by (cases "0 < ?d"; simp add: past_window_def rolls_def)+
  qed (simp add: algebra_simps)
  then show ?thesis by (simp add: past_window_def)
qed

text \<open>The test at the end of the loop, with the loop's result on integers.\<close>

lemma window_start:
  assumes "guard_cfg g" and "past_window g t \<le> 0"
  shows "after_or_eq t (next_beacon g - guard g) \<longleftrightarrow>
    - (uint (occupancy g) + 2 * uint (guard g)) \<le> past_window g t"
proof -
  let ?e = "uint (occupancy g) + 2 * uint (guard g)"
  have "sint (t - (next_beacon g - guard g)) = past_window g t + ?e"
    unfolding past_window_def
  proof (rule sint_diff_exact)
    show "- (2 ^ 31) \<le> sint (t - (next_beacon g + occupancy g + guard g)) + ?e"
      using sint_range32 [of "t - (next_beacon g + occupancy g + guard g)"]
      by (simp add: add_increasing2)
    show "sint (t - (next_beacon g + occupancy g + guard g)) + ?e < 2 ^ 31"
      using assms by (simp add: guard_cfg_def past_window_def)
  qed (simp add: algebra_simps)
  then show ?thesis by (auto simp: after_or_eq_def)
qed

lemma tx_allowed_closed:
  assumes "guard_inv g" and "locked g"
  shows "fst (beacon_guard_tx_allowed g t) \<longleftrightarrow>
      guard_stale g t \<or> \<not> hits_beacon g t (rolls (past_window g t) (uint (period g)))"
    and "locked (snd (beacon_guard_tx_allowed g t)) \<longleftrightarrow> \<not> guard_stale g t"
proof -
  let ?k = "rolls (past_window g t) (uint (period g))"
  let ?g = "g\<lparr>misses := misses g + of_int ?k, next_beacon := next_beacon g + of_int ?k * period g\<rparr>"
  have cfg: "guard_cfg g" "uint (misses g) \<le> 4"
    using assms(1) by (simp_all add: guard_inv_def)
  have p: "0 < uint (period g)" using cfg by (simp add: guard_cfg_def)
  have r: "guard_roll g t = (if guard_stale g t then
      g\<lparr>locked := False, misses := 4, next_beacon := next_beacon g + of_int (4 - uint (misses g)) * period g\<rparr>
      else ?g)"
    using guard_roll_closed [OF cfg, of t] by (auto simp: guard_stale_def Let_def)
  have w: "past_window ?g t = past_window g t - ?k * uint (period g)"
    by (rule past_window_roll [OF cfg(1)])
  have "after_or_eq t (next_beacon ?g - guard ?g) \<longleftrightarrow>
      - (uint (occupancy ?g) + 2 * uint (guard ?g)) \<le> past_window ?g t"
    using cfg(1) rolls_end(1) [OF p] by (intro window_start) (simp_all add: w guard_cfg_def)
  with w rolls_end(1) [OF p, of "past_window g t"]
  have "after_or_eq t (next_beacon ?g - guard ?g) \<longleftrightarrow> hits_beacon g t ?k"
    by (simp add: hits_beacon_def Let_def)
  with r assms(2) show
    "fst (beacon_guard_tx_allowed g t) \<longleftrightarrow> guard_stale g t \<or> \<not> hits_beacon g t ?k"
    "locked (snd (beacon_guard_tx_allowed g t)) \<longleftrightarrow> \<not> guard_stale g t"
    by (auto simp: beacon_guard_tx_allowed_def Let_def)
qed

text \<open>No other beacon is hit: the earlier windows have ended, the later ones start after
  the one that is tested.\<close>

lemma hits_only_rolled:
  assumes "guard_cfg g" and "0 \<le> j" and "j \<noteq> rolls (past_window g t) (uint (period g))"
    and "\<not> hits_beacon g t (rolls (past_window g t) (uint (period g)))"
  shows "\<not> hits_beacon g t j"
proof -
  let ?p = "uint (period g)" and ?d = "past_window g t"
  let ?k = "rolls ?d ?p"
  have p: "0 < ?p" using assms(1) by (simp add: guard_cfg_def)
  consider "j \<le> ?k - 1" | "?k + 1 \<le> j" using assms(3) by linarith
  then show ?thesis
  proof cases
    case 1
    then have "0 < ?k" using assms(2) by simp
    then have "0 < ?d" by (simp add: rolls_def split: if_splits)
    with rolls_end(2) [OF p] have "0 < ?d - (?k - 1) * ?p" by (simp add: algebra_simps)
    moreover have "j * ?p \<le> (?k - 1) * ?p" using 1 p by (simp add: mult_right_mono)
    ultimately show ?thesis by (simp add: hits_beacon_def Let_def)
  next
    case 2
    then have "(?k + 1) * ?p \<le> j * ?p" using p by (simp add: mult_right_mono)
    then show ?thesis
      using assms(4) rolls_end(1) [OF p, of ?d] p
      by (auto simp: hits_beacon_def Let_def algebra_simps)
  qed
qed

lemma tx_allowed_iff:
  assumes "guard_inv g" and "locked g" and "\<not> guard_stale g t"
  shows "fst (beacon_guard_tx_allowed g t) \<longleftrightarrow> clear_of_beacons g t"
proof -
  have cfg: "guard_cfg g" using assms(1) by (simp add: guard_inv_def)
  then have "0 < uint (period g)" by (simp add: guard_cfg_def)
  with assms(3) hits_only_rolled [OF cfg] show ?thesis
    unfolding tx_allowed_closed(1) [OF assms(1,2)] clear_of_beacons_def
    by (metis rolls_nonneg)
qed

lemma tx_allowed_keeps:
  assumes "guard_inv g"
  shows "guard_inv (snd (beacon_guard_tx_allowed g t))"
    and "period (snd (beacon_guard_tx_allowed g t)) = period g"
    and "guard (snd (beacon_guard_tx_allowed g t)) = guard g"
    and "occupancy (snd (beacon_guard_tx_allowed g t)) = occupancy g"
proof -
  have cfg: "guard_cfg g" "uint (misses g) \<le> 4"
    using assms by (simp_all add: guard_inv_def)
  let ?k = "rolls (past_window g t) (uint (period g))"
  have "0 \<le> ?k" using cfg by (simp add: guard_cfg_def)
  then have "uint (misses g) + ?k \<le> 4 \<Longrightarrow> uint (misses g + of_int ?k :: u8) = uint (misses g) + ?k"
    using uint_ge_0 [of "misses g"]
    by (simp add: uint_word_ariths unsigned_of_int take_bit_eq_mod mod_add_right_eq
        del: uint_ge_0)
  then show "guard_inv (snd (beacon_guard_tx_allowed g t))"
    "period (snd (beacon_guard_tx_allowed g t)) = period g"
    "guard (snd (beacon_guard_tx_allowed g t)) = guard g"
    "occupancy (snd (beacon_guard_tx_allowed g t)) = occupancy g"
    using assms guard_roll_closed [OF cfg, of t]
    by (auto simp: beacon_guard_tx_allowed_def guard_inv_def guard_cfg_def Let_def)
qed

lemma guard_beacon_inv: "guard_inv g \<Longrightarrow> guard_inv (beacon_guard_beacon g t)"
  by (simp add: guard_inv_def guard_cfg_def beacon_guard_beacon_def)

lemma tx_allowed_unlocked [simp]: "\<not> locked g \<Longrightarrow> beacon_guard_tx_allowed g t = (True, g)"
  by (simp add: beacon_guard_tx_allowed_def)

section \<open>The contract the responders rely on\<close>

locale tx_guard =
  fixes allowed :: "'g \<Rightarrow> u32 \<Rightarrow> bool \<times> 'g"
    and ginv :: "'g \<Rightarrow> bool"
    and trusted :: "'g \<Rightarrow> bool"
    and clear :: "'g \<Rightarrow> u32 \<Rightarrow> bool"
  assumes allowed_inv: "ginv g \<Longrightarrow> ginv (snd (allowed g t))"
    and untrusted_free: "\<not> trusted g \<Longrightarrow> allowed g t = (True, g)"
    and allowed_clear: "ginv g \<Longrightarrow> trusted g \<Longrightarrow> trusted (snd (allowed g t)) \<Longrightarrow>
      fst (allowed g t) \<longleftrightarrow> clear g t"
    and drop_allows: "ginv g \<Longrightarrow> trusted g \<Longrightarrow> \<not> trusted (snd (allowed g t)) \<Longrightarrow> fst (allowed g t)"
begin

text \<open>A refused transmission would have hit a beacon of a trusted prediction.\<close>

lemma refused_hits:
  assumes "ginv g" and "\<not> fst (allowed g t)"
  shows "trusted g" and "trusted (snd (allowed g t))" and "\<not> clear g t"
proof -
  show t: "trusted g"
    using assms untrusted_free [of g t] by (metis fst_conv)
  show t': "trusted (snd (allowed g t))"
    using drop_allows [OF assms(1) t] assms(2) by blast
  show "\<not> clear g t"
    using allowed_clear [OF assms(1) t t'] assms(2) by simp
qed

end

interpretation bg: tx_guard beacon_guard_tx_allowed guard_inv locked clear_of_beacons
proof (unfold_locales, goal_cases)
  case (3 g t)
  then show ?case by (metis tx_allowed_iff tx_allowed_closed(2))
next
  case (4 g t)
  then show ?case by (metis tx_allowed_closed)
qed (simp_all add: tx_allowed_keeps)

section \<open>Properties\<close>

text \<open>A locked guard for a 200 ms superframe with the windows of the firmware.\<close>

definition sample_guard :: beacon_guard where
  "sample_guard = beacon_guard_beacon (beacon_guard_init 49920000 384000 384000) 1000"

lemma sample_guard_facts:
  "guard_inv sample_guard" "locked sample_guard" "\<not> guard_stale sample_guard 2000"
  by code_simp+

text \<open>C3: while the prediction is fresh the guard is exact on the wrapping clock: a
  transmission time is allowed if and only if it is outside the padded window of every
  predicted beacon, this one and all the later ones.\<close>

theorem guard_exact:
  assumes "guard_inv g" and "locked g" and "\<not> guard_stale g t"
  shows "fst (beacon_guard_tx_allowed g t) \<longleftrightarrow> clear_of_beacons g t"
  by (rule tx_allowed_iff [OF assms])

lemma guard_exact_witness:
  "fst (beacon_guard_tx_allowed sample_guard 2000) \<longleftrightarrow> clear_of_beacons sample_guard 2000"
  by (rule guard_exact [OF sample_guard_facts])

text \<open>Silence needs a reason: a refused transmission would have hit a beacon of a prediction
  that is trusted before and after the query; the query keeps the guard's invariant and never
  changes its configuration, and a stale prediction is dropped instead of refusing.\<close>

theorem guard_refusal:
  assumes "guard_inv g"
  shows "(\<not> fst (beacon_guard_tx_allowed g t) \<longrightarrow>
      locked g \<and> locked (snd (beacon_guard_tx_allowed g t)) \<and> \<not> clear_of_beacons g t)
    \<and> guard_inv (snd (beacon_guard_tx_allowed g t))
    \<and> period (snd (beacon_guard_tx_allowed g t)) = period g
    \<and> (locked g \<and> guard_stale g t \<longrightarrow>
        fst (beacon_guard_tx_allowed g t) \<and> \<not> locked (snd (beacon_guard_tx_allowed g t)))"
proof (intro conjI impI)
  assume "\<not> fst (beacon_guard_tx_allowed g t)"
  from bg.refused_hits [OF assms this] show "locked g"
    "locked (snd (beacon_guard_tx_allowed g t))" "\<not> clear_of_beacons g t" .
next
  assume "locked g \<and> guard_stale g t"
  then show "fst (beacon_guard_tx_allowed g t)" "\<not> locked (snd (beacon_guard_tx_allowed g t))"
    by (simp_all only: tx_allowed_closed [OF assms], simp_all)
qed (rule tx_allowed_keeps [OF assms])+

lemma guard_refusal_witness:
  "\<not> fst (beacon_guard_tx_allowed sample_guard 49921000) \<and>
    \<not> clear_of_beacons sample_guard 49921000 \<and>
    guard_inv (snd (beacon_guard_tx_allowed sample_guard 49921000)) \<and>
    period (snd (beacon_guard_tx_allowed sample_guard 49921000)) = period sample_guard"
proof -
  have "\<not> fst (beacon_guard_tx_allowed sample_guard 49921000)" by code_simp
  then show ?thesis using guard_refusal [OF sample_guard_facts(1), of 49921000] by blast
qed

end
