(* ===== verification/DevConfig.thy ===== *)
theory DevConfig
  imports Prelude
begin

text \<open>
  Configuration records and their validating setters: src/uwb_config.c (identity, mode,
  antenna delays, position) and src/net_config.c (WiFi and broker). Every setter returns
  whether it accepted the value, with the record as it leaves it. A C string is the list of
  its characters before the NUL; a NULL pointer is \<open>None\<close>.
\<close>

section \<open>Anchor configuration\<close>

abbreviation (input) UWB_MAX_ANCHORS :: u8 where "UWB_MAX_ANCHORS \<equiv> 4"
abbreviation (input) UWB_ANT_DELAY_DEFAULT :: u16 where "UWB_ANT_DELAY_DEFAULT \<equiv> 16385"
abbreviation (input) UWB_ANCHOR_ADDR_BASE :: u16 where "UWB_ANCHOR_ADDR_BASE \<equiv> 1"
abbreviation (input) UWB_MODE_SLAVE :: u8 where "UWB_MODE_SLAVE \<equiv> 0"
abbreviation (input) UWB_MODE_GATEWAY :: u8 where "UWB_MODE_GATEWAY \<equiv> 1"
abbreviation (input) UWB_MODE_COUNT :: u8 where "UWB_MODE_COUNT \<equiv> 2"

record uwb_config =
  cfg_mode :: u8
  cfg_anchor_id :: u8
  cfg_ant_delay_tx :: u16
  cfg_ant_delay_rx :: u16
  cfg_x :: f32
  cfg_y :: f32
  cfg_z :: f32
  cfg_position_valid :: bool

definition mode_names :: "string list" where
  "mode_names = [''slave'', ''gateway'']"

definition uwb_config_set_defaults :: uwb_config where
  "uwb_config_set_defaults =
     \<lparr>cfg_mode = UWB_MODE_SLAVE, cfg_anchor_id = 0,
      cfg_ant_delay_tx = UWB_ANT_DELAY_DEFAULT, cfg_ant_delay_rx = UWB_ANT_DELAY_DEFAULT,
      cfg_x = 0, cfg_y = 0, cfg_z = 0, cfg_position_valid = False\<rparr>"

definition uwb_config_set_mode :: "uwb_config \<Rightarrow> u8 \<Rightarrow> bool \<times> uwb_config" where
  "uwb_config_set_mode c m =
     (if m \<ge> UWB_MODE_COUNT then (False, c) else (True, c\<lparr>cfg_mode := m\<rparr>))"

definition uwb_config_set_id :: "uwb_config \<Rightarrow> u8 \<Rightarrow> bool \<times> uwb_config" where
  "uwb_config_set_id c i =
     (if i \<ge> UWB_MAX_ANCHORS then (False, c) else (True, c\<lparr>cfg_anchor_id := i\<rparr>))"

definition uwb_config_set_ant :: "uwb_config \<Rightarrow> u32 \<Rightarrow> u32 \<Rightarrow> bool \<times> uwb_config" where
  "uwb_config_set_ant c tx rx =
     (if tx > 0xFFFF \<or> rx > 0xFFFF then (False, c)
      else (True, c\<lparr>cfg_ant_delay_tx := ucast tx, cfg_ant_delay_rx := ucast rx\<rparr>))"

definition uwb_config_set_pos :: "uwb_config \<Rightarrow> f32 \<Rightarrow> f32 \<Rightarrow> f32 \<Rightarrow> uwb_config" where
  "uwb_config_set_pos c px py pz =
     c\<lparr>cfg_x := px, cfg_y := py, cfg_z := pz, cfg_position_valid := True\<rparr>"

definition uwb_config_mode_from_name :: "string \<Rightarrow> u8 option" where
  "uwb_config_mode_from_name name =
     map_option of_nat (first_index (\<lambda>m. name = m) mode_names)"

definition uwb_config_mode_name :: "u8 \<Rightarrow> string" where
  "uwb_config_mode_name m =
     (if m \<ge> UWB_MODE_COUNT then ''unknown'' else mode_names ! unat m)"

definition uwb_config_short_addr :: "uwb_config \<Rightarrow> u16" where
  "uwb_config_short_addr c = UWB_ANCHOR_ADDR_BASE + ucast (cfg_anchor_id c)"

definition uwb_config_ok :: "uwb_config \<Rightarrow> bool" where
  "uwb_config_ok c \<longleftrightarrow> cfg_mode c < UWB_MODE_COUNT \<and> cfg_anchor_id c < UWB_MAX_ANCHORS"

section \<open>Network configuration\<close>

abbreviation (input) NET_SSID_MAX :: nat where "NET_SSID_MAX \<equiv> 32"
abbreviation (input) NET_PSK_MAX :: nat where "NET_PSK_MAX \<equiv> 63"
abbreviation (input) NET_PSK_MIN :: nat where "NET_PSK_MIN \<equiv> 8"
abbreviation (input) NET_BROKER_MAX :: nat where "NET_BROKER_MAX \<equiv> 63"
abbreviation (input) NET_MQTT_USER_MAX :: nat where "NET_MQTT_USER_MAX \<equiv> 32"
abbreviation (input) NET_MQTT_PASS_MAX :: nat where "NET_MQTT_PASS_MAX \<equiv> 63"
abbreviation (input) NET_MQTT_PORT_DEFAULT :: u16 where "NET_MQTT_PORT_DEFAULT \<equiv> 1883"

record net_config =
  net_ssid :: string
  net_psk :: string
  net_broker :: string
  net_port :: u16
  net_mqtt_user :: string
  net_mqtt_pass :: string

text \<open>The new contents of the field, or \<open>None\<close> when the source is refused.\<close>

definition set_str :: "nat \<Rightarrow> string option \<Rightarrow> nat \<Rightarrow> string option" where
  "set_str cap src min_len =
     (case src of
        None \<Rightarrow> None
      | Some s \<Rightarrow> if length s < min_len \<or> length s > cap then None else Some s)"

definition net_config_set_defaults :: net_config where
  "net_config_set_defaults =
     \<lparr>net_ssid = [], net_psk = [], net_broker = [], net_port = NET_MQTT_PORT_DEFAULT,
      net_mqtt_user = [], net_mqtt_pass = []\<rparr>"

definition net_config_set_ssid :: "net_config \<Rightarrow> string option \<Rightarrow> bool \<times> net_config" where
  "net_config_set_ssid c s =
     (case set_str NET_SSID_MAX s 1 of
        None \<Rightarrow> (False, c) | Some v \<Rightarrow> (True, c\<lparr>net_ssid := v\<rparr>))"

definition net_config_set_psk :: "net_config \<Rightarrow> string option \<Rightarrow> bool \<times> net_config" where
  "net_config_set_psk c s =
     (case set_str NET_PSK_MAX s NET_PSK_MIN of
        None \<Rightarrow> (False, c) | Some v \<Rightarrow> (True, c\<lparr>net_psk := v\<rparr>))"

definition net_config_set_broker ::
  "net_config \<Rightarrow> string option \<Rightarrow> u32 \<Rightarrow> bool \<times> net_config" where
  "net_config_set_broker c host port =
     (if port = 0 \<or> port > 65535 then (False, c)
      else
        (case set_str NET_BROKER_MAX host 1 of
           None \<Rightarrow> (False, c)
         | Some v \<Rightarrow> (True, c\<lparr>net_broker := v, net_port := ucast port\<rparr>)))"

definition net_config_set_user :: "net_config \<Rightarrow> string option \<Rightarrow> bool \<times> net_config" where
  "net_config_set_user c s =
     (case set_str NET_MQTT_USER_MAX s 0 of
        None \<Rightarrow> (False, c) | Some v \<Rightarrow> (True, c\<lparr>net_mqtt_user := v\<rparr>))"

definition net_config_set_mqtt_pass :: "net_config \<Rightarrow> string option \<Rightarrow> bool \<times> net_config" where
  "net_config_set_mqtt_pass c s =
     (case set_str NET_MQTT_PASS_MAX s 0 of
        None \<Rightarrow> (False, c) | Some v \<Rightarrow> (True, c\<lparr>net_mqtt_pass := v\<rparr>))"

definition net_config_is_provisioned :: "net_config \<Rightarrow> bool" where
  "net_config_is_provisioned c \<longleftrightarrow> net_ssid c \<noteq> [] \<and> net_broker c \<noteq> [] \<and> net_port c \<noteq> 0"

text \<open>What fits in the fields, and what the setters keep: an empty field was never set.\<close>

definition net_config_ok :: "net_config \<Rightarrow> bool" where
  "net_config_ok c \<longleftrightarrow> length (net_ssid c) \<le> NET_SSID_MAX \<and>
     (net_psk c = [] \<or> NET_PSK_MIN \<le> length (net_psk c)) \<and> length (net_psk c) \<le> NET_PSK_MAX \<and>
     length (net_broker c) \<le> NET_BROKER_MAX \<and> net_port c \<noteq> 0 \<and>
     length (net_mqtt_user c) \<le> NET_MQTT_USER_MAX \<and>
     length (net_mqtt_pass c) \<le> NET_MQTT_PASS_MAX"

section \<open>Setters are all or nothing and keep the record well formed\<close>

text \<open>The shape the two headers promise for every validating setter.\<close>

locale setter =
  fixes set_field :: "'c \<Rightarrow> 'v \<Rightarrow> bool \<times> 'c"
    and ok :: "'c \<Rightarrow> bool"
  assumes refused_same: "\<not> fst (set_field c v) \<Longrightarrow> snd (set_field c v) = c"
    and keeps_ok: "ok c \<Longrightarrow> ok (snd (set_field c v))"
    and once: "set_field (snd (set_field c v)) v = set_field c v"
begin

text \<open>Any sequence of sets ends where the accepted ones alone end.\<close>

lemma accepted_only:
  "foldl (\<lambda>c v. snd (set_field c v)) c vs =
     fst (foldl (\<lambda>(c, log) v. if fst (set_field c v) then (snd (set_field c v), log @ [v])
        else (c, log)) (c, log) vs)"
  by (induction vs arbitrary: c log) (auto simp: refused_same)

lemma sets_ok: "ok c \<Longrightarrow> ok (foldl (\<lambda>c v. snd (set_field c v)) c vs)"
  by (induction vs arbitrary: c) (simp_all add: keeps_ok)

end

lemmas uwb_setter_defs = uwb_config_set_mode_def uwb_config_set_id_def uwb_config_set_ant_def
  uwb_config_ok_def

lemmas net_setter_defs = net_config_set_ssid_def net_config_set_psk_def
  net_config_set_broker_def net_config_set_user_def net_config_set_mqtt_pass_def
  set_str_def net_config_ok_def

interpretation set_mode: setter uwb_config_set_mode uwb_config_ok
  by unfold_locales (auto simp: uwb_setter_defs)

interpretation set_id: setter uwb_config_set_id uwb_config_ok
  by unfold_locales (auto simp: uwb_setter_defs)

interpretation set_ant: setter "\<lambda>c (tx, rx). uwb_config_set_ant c tx rx" uwb_config_ok
  by unfold_locales (auto simp: uwb_setter_defs)

interpretation set_ssid: setter net_config_set_ssid net_config_ok
  by unfold_locales (auto simp: net_setter_defs split: option.splits)

interpretation set_psk: setter net_config_set_psk net_config_ok
  by unfold_locales (auto simp: net_setter_defs split: option.splits)

lemma ucast_port_nonzero:
  "(p :: u32) \<noteq> 0 \<Longrightarrow> p \<le> 65535 \<Longrightarrow> (ucast p :: u16) \<noteq> 0"
  by (simp add: word_le_nat_alt word_unat_eq_iff unsigned_ucast_eq take_bit_nat_eq_self)

interpretation set_broker: setter "\<lambda>c (h, p). net_config_set_broker c h p" net_config_ok
  by unfold_locales (auto simp: net_setter_defs ucast_port_nonzero not_less
      split: option.splits if_splits)

interpretation set_user: setter net_config_set_user net_config_ok
  by unfold_locales (auto simp: net_setter_defs split: option.splits)

interpretation set_mqtt_pass: setter net_config_set_mqtt_pass net_config_ok
  by unfold_locales (auto simp: net_setter_defs split: option.splits)

text \<open>The factory defaults are well formed and leave the uplink unprovisioned.\<close>

lemma defaults_ok [simp]:
  "uwb_config_ok uwb_config_set_defaults"
  "net_config_ok net_config_set_defaults"
  "\<not> net_config_is_provisioned net_config_set_defaults"
  by (simp_all add: uwb_config_ok_def uwb_config_set_defaults_def net_config_ok_def
      net_config_set_defaults_def net_config_is_provisioned_def)

section \<open>Names and addresses\<close>

lemma mode_lt2: "(m :: u8) < 2 \<longleftrightarrow> m = 0 \<or> m = 1"
  by (auto simp: word_less_nat_alt word_unat_eq_iff)

lemma mode_ge2: "2 \<le> (m :: u8) \<longleftrightarrow> m \<noteq> 0 \<and> m \<noteq> 1"
  using mode_lt2 [of m] by (metis not_le)

lemma mode_name_roundtrip:
  "uwb_config_mode_from_name (uwb_config_mode_name m) = (if m < UWB_MODE_COUNT then Some m else None)"
proof -
  consider "m = 0" | "m = 1" | "2 \<le> m" using mode_ge2 by blast
  then show ?thesis
    by cases (simp_all add: uwb_config_mode_from_name_def uwb_config_mode_name_def mode_names_def
        not_less word_le_nat_alt)
qed

lemma mode_from_name_iff:
  "uwb_config_mode_from_name s = Some m \<longleftrightarrow> m < UWB_MODE_COUNT \<and> s = uwb_config_mode_name m"
proof
  assume "uwb_config_mode_from_name s = Some m"
  then consider "s = ''slave''" "m = 0" | "s = ''gateway''" "m = 1"
    unfolding uwb_config_mode_from_name_def mode_names_def first_index.simps
    by (auto split: if_splits)
  then show "m < UWB_MODE_COUNT \<and> s = uwb_config_mode_name m"
    by cases (simp_all add: uwb_config_mode_name_def mode_names_def word_le_nat_alt)
next
  assume "m < UWB_MODE_COUNT \<and> s = uwb_config_mode_name m"
  then show "uwb_config_mode_from_name s = Some m"
    using mode_name_roundtrip [of m] by simp
qed

text \<open>Anchor addresses are 1 to 4: never the gateway's, broadcast or in the tag pool, and
  different for different ids.\<close>

lemma unat_short_addr:
  "uwb_config_ok c \<Longrightarrow> unat (uwb_config_short_addr c) = unat (cfg_anchor_id c) + 1"
  by (simp add: uwb_config_ok_def uwb_config_short_addr_def word_less_nat_alt unat_word_ariths
      unsigned_ucast_eq take_bit_nat_eq_self)

lemma short_addr_range:
  "uwb_config_ok c \<Longrightarrow> 1 \<le> unat (uwb_config_short_addr c) \<and> unat (uwb_config_short_addr c) \<le> 4"
  by (simp add: unat_short_addr) (simp add: uwb_config_ok_def word_less_nat_alt)

lemma short_addr_inj:
  "uwb_config_ok c \<Longrightarrow> uwb_config_ok d \<Longrightarrow>
     uwb_config_short_addr c = uwb_config_short_addr d \<longleftrightarrow> cfg_anchor_id c = cfg_anchor_id d"
  using unat_short_addr [of c] unat_short_addr [of d] by (metis Suc_inject Suc_eq_plus1 word_unat_eq_iff)

section \<open>Properties\<close>

text \<open>The configuration stays valid: any sequence of accepted and refused \<open>mode\<close>, \<open>id\<close>,
  antenna-delay and position changes on the defaults leaves a valid mode and anchor id, and
  anchors with different ids have different short addresses, all of 1 to 4.\<close>

theorem uwb_config_addresses:
  assumes "uwb_config_ok c" and "uwb_config_ok d"
  shows "uwb_config_ok (snd (uwb_config_set_mode c m)) \<and> uwb_config_ok (snd (uwb_config_set_id c k)) \<and>
    uwb_config_ok (snd (uwb_config_set_ant c tx rx)) \<and> uwb_config_ok (uwb_config_set_pos c x y z) \<and>
    1 \<le> unat (uwb_config_short_addr c) \<and> unat (uwb_config_short_addr c) \<le> 4 \<and>
    (uwb_config_short_addr c = uwb_config_short_addr d \<longleftrightarrow> cfg_anchor_id c = cfg_anchor_id d)"
  using assms set_mode.keeps_ok [OF assms(1), of m] set_id.keeps_ok [OF assms(1), of k]
    set_ant.keeps_ok [OF assms(1), of "(tx, rx)"] short_addr_range [OF assms(1)] short_addr_inj [OF assms]
  by (simp add: uwb_config_set_pos_def uwb_config_ok_def)

lemma uwb_config_addresses_witness:
  "uwb_config_ok (snd (uwb_config_set_id uwb_config_set_defaults 3)) \<and>
   unat (uwb_config_short_addr uwb_config_set_defaults) \<le> 4"
  using uwb_config_addresses [of uwb_config_set_defaults uwb_config_set_defaults 0 3] by simp

text \<open>Mode names and mode numbers are inverse: the name of a mode is read back as that mode,
  and the only strings accepted are the names of the two modes.\<close>

theorem mode_names_inverse:
  "uwb_config_mode_from_name (uwb_config_mode_name m) = (if m < UWB_MODE_COUNT then Some m else None) \<and>
   (uwb_config_mode_from_name s = Some m \<longleftrightarrow> m < UWB_MODE_COUNT \<and> s = uwb_config_mode_name m)"
  using mode_name_roundtrip mode_from_name_iff by blast

end
