(* ===== verification/AnchorRespond.thy ===== *)
theory AnchorRespond
  imports SsInitiator UwbFrame BeaconGuard DevConfig
begin

text \<open>
  The two responders of an anchor, src/anchor_respond.c: the legacy WAVE poll answered with a
  VEWA response, and the DISCOVERY broadcast answered in the slot of the anchor's id. Both
  schedule one delayed transmission, unless the beacon guard refuses its time. The statics of
  the file, the sequence counter and the guard are the state; the radio is \<open>tx_env\<close>.
\<close>

section \<open>State\<close>

abbreviation (input) POLL_RX_TO_RESP_TX_DLY_UUS :: u32 where "POLL_RX_TO_RESP_TX_DLY_UUS \<equiv> 2000"
abbreviation (input) UNPOSITIONED_LOG_GAP_MS :: int where "UNPOSITIONED_LOG_GAP_MS \<equiv> 10000"
abbreviation (input) TX_COMPLETE_TIMEOUT_MS :: u32 where "TX_COMPLETE_TIMEOUT_MS \<equiv> 18"

record responder =
  tx_resp_msg :: "u8 list"
  last_ms :: int
  suppressed :: u32
  rsp_seq :: u8
  rsp_guard :: "beacon_guard option"

definition rx_poll_ref :: "u8 list" where
  "rx_poll_ref = [0x41, 0x88, 0, 0xCA, 0xDE, 0x57, 0x41, 0x56, 0x45, 0xE0]"

definition tx_resp_boot :: "u8 list" where
  "tx_resp_boot = [0x41, 0x88, 0, 0xCA, 0xDE, 0x56, 0x45, 0x57, 0x41, 0xE1] @ replicate 19 0"

datatype tx_verdict = TX_SENT | TX_MISSED_SLOT | TX_NO_TXFRS

text \<open>What a responder did with a frame; \<open>Unpositioned\<close> carries the log line, if one was
  written, with the refusals it folds.\<close>

datatype response = Ignored | Unpositioned "u32 option" | BuildFailed errno | Withheld
  | Tried tx_verdict tx_frame

section \<open>Transmission\<close>

definition tx_delayed :: "tx_env \<Rightarrow> u8 list \<Rightarrow> nat \<Rightarrow> u32 \<Rightarrow> bool \<Rightarrow> tx_verdict \<times> tx_frame" where
  "tx_delayed e buf payload_len tx_time ranging =
     (let f = \<lparr>tx_data = take payload_len buf,
               tx_len = payload_len + (if ranging then 0 else FCS_LEN), tx_when = Some tx_time\<rparr> in
      if \<not> tx_start_ok e then (TX_MISSED_SLOT, f)
      else if \<not> tx_completes e TX_COMPLETE_TIMEOUT_MS then (TX_NO_TXFRS, f)
      else (TX_SENT, f))"

definition guard_allows :: "beacon_guard option \<Rightarrow> u32 \<Rightarrow> bool \<times> beacon_guard option" where
  "guard_allows bg t =
     (case bg of
        None \<Rightarrow> (True, None)
      | Some g \<Rightarrow> let (ok, g) = beacon_guard_tx_allowed g t in (ok, Some g))"

text \<open>The scheduled time of a reply \<open>delay\<close> after a reception, on the 32-bit clock.\<close>

definition reply_time :: "u64 \<Rightarrow> u32 \<Rightarrow> u32" where
  "reply_time rx_ts delay_uus = ucast (drop_bit 8 (rx_ts + ucast delay_uus * 65536))"

section \<open>WAVE\<close>

definition wire_id :: "uwb_config \<Rightarrow> u8" where
  "wire_id cfg = ucast (uwb_config_short_addr cfg AND 0xFF)"

definition wave_for_us :: "uwb_config \<Rightarrow> u8 list \<Rightarrow> nat \<Rightarrow> bool" where
  "wave_for_us cfg buf len =
     (if len < 11 then False
      else if take 2 buf \<noteq> take 2 rx_poll_ref then False
      else if take 7 (drop 3 buf) \<noteq> take 7 (drop 3 rx_poll_ref) then False
      else buf ! 10 = wire_id cfg)"

definition log_refusal :: "int \<Rightarrow> responder \<Rightarrow> responder \<times> u32 option" where
  "log_refusal now s =
     (if last_ms s = 0 \<or> now - last_ms s \<ge> UNPOSITIONED_LOG_GAP_MS
      then (s\<lparr>last_ms := now, suppressed := 0\<rparr>, Some (suppressed s))
      else (s\<lparr>suppressed := suppressed s + 1\<rparr>, None))"

definition wave_response :: "responder \<Rightarrow> uwb_config \<Rightarrow> u64 \<Rightarrow> u64 \<Rightarrow> u8 list" where
  "wave_response s cfg poll_rx_ts resp_tx_ts =
     (let m = (tx_resp_msg s)[2 := rsp_seq s, 10 := wire_id cfg];
          m = uwb_resp_msg_set_ts m 11 poll_rx_ts;
          m = uwb_resp_msg_set_ts m 15 resp_tx_ts;
          m = put_f32 m 19 (cfg_x cfg)
      in put_f32 m 23 (cfg_y cfg))"

definition anchor_respond_wave_poll ::
  "tx_env \<Rightarrow> int \<Rightarrow> responder \<Rightarrow> u8 list \<Rightarrow> nat \<Rightarrow> u64 \<Rightarrow> uwb_config \<Rightarrow> bool
     \<Rightarrow> responder \<times> response" where
  "anchor_respond_wave_poll e now s buf len poll_rx_ts cfg allow_unpositioned =
     (if \<not> wave_for_us cfg buf len then (s, Ignored)
      else if \<not> cfg_position_valid cfg \<and> \<not> allow_unpositioned then
        let (s, line) = log_refusal now s in (s, Unpositioned line)
      else
        let resp_tx_time = reply_time poll_rx_ts POLL_RX_TO_RESP_TX_DLY_UUS;
            resp_tx_ts = push_bit 8 (ucast (resp_tx_time AND 0xFFFFFFFE)) + ucast (cfg_ant_delay_tx cfg);
            (ok, bg) = guard_allows (rsp_guard s) resp_tx_time;
            s = s\<lparr>rsp_guard := bg\<rparr>
        in if \<not> ok then (s, Withheld)
           else
             let m = wave_response s cfg poll_rx_ts resp_tx_ts;
                 (v, f) = tx_delayed e m 29 resp_tx_time True
             in (s\<lparr>tx_resp_msg := m, rsp_seq := rsp_seq s + 1\<rparr>, Tried v f))"

section \<open>DISCOVERY\<close>

text \<open>\<open>out0\<close> is the stack buffer of 20 bytes the response is built in.\<close>

definition anchor_respond_discovery ::
  "tx_env \<Rightarrow> responder \<Rightarrow> u8 list \<Rightarrow> u8 list \<Rightarrow> nat \<Rightarrow> u64 \<Rightarrow> uwb_config \<Rightarrow> u32 \<Rightarrow> u16
     \<Rightarrow> responder \<times> response" where
  "anchor_respond_discovery e s out0 buf len disc_rx_ts cfg cir_power cir_quality =
     (if \<not> uwb_frame_is_discovery (Some buf) len then (s, Ignored)
      else
        (case uwb_frame_response_build (Some out0) UWB_FRAME_LEN_RESP (uwb_config_short_addr cfg)
                (uwb_frame_get_src_addr buf) 0 cir_power cir_quality of
           (Inl rc, _) \<Rightarrow> (s, BuildFailed rc)
         | (Inr n, out) \<Rightarrow>
             let out = uwb_frame_set_seq_num (the out) (rsp_seq s);
                 s = s\<lparr>rsp_seq := rsp_seq s + 1\<rparr>;
                 resp_tx_time = reply_time disc_rx_ts (disc_resp_delay_uus (cfg_anchor_id cfg));
                 (ok, bg) = guard_allows (rsp_guard s) resp_tx_time;
                 s = s\<lparr>rsp_guard := bg\<rparr>
             in if \<not> ok then (s, Withheld)
                else let (v, f) = tx_delayed e out n resp_tx_time False in (s, Tried v f)))"

section \<open>The response frame\<close>

definition responder_inv :: "responder \<Rightarrow> bool" where
  "responder_inv s \<longleftrightarrow> length (tx_resp_msg s) = 29 \<and>
     (\<forall>i<10. i \<noteq> 2 \<longrightarrow> tx_resp_msg s ! i = tx_resp_boot ! i)"

lemma length_set_ts [simp]: "length (uwb_resp_msg_set_ts b o' ts) = length b"
proof -
  have "length (foldl (\<lambda>b i. b[o' + i := v i]) b is) = length b" for v :: "nat \<Rightarrow> u8" and "is"
    by (induction "is" arbitrary: b) simp_all
  then show ?thesis by (simp add: uwb_resp_msg_set_ts_def)
qed

lemma wave_response_fields:
  assumes "responder_inv s"
  shows "length (wave_response s cfg p r) = 29"
    and "i < 10 \<Longrightarrow> i \<noteq> 2 \<Longrightarrow> wave_response s cfg p r ! i = tx_resp_boot ! i"
    and "wave_response s cfg p r ! 2 = rsp_seq s"
    and "wave_response s cfg p r ! 10 = wire_id cfg"
    and "get_u32 (wave_response s cfg p r) 11 = ucast p"
    and "get_u32 (wave_response s cfg p r) 15 = ucast r"
    and "get_f32 (wave_response s cfg p r) 19 = cfg_x cfg"
    and "get_f32 (wave_response s cfg p r) 23 = cfg_y cfg"
  using assms
  by (auto simp: responder_inv_def wave_response_def Let_def set_ts_put_u32 byte_simps)

lemma wave_response_inv:
  "responder_inv s \<Longrightarrow> responder_inv (s\<lparr>tx_resp_msg := wave_response s cfg p r, rsp_seq := q\<rparr>)"
  using wave_response_fields(1,2) [of s] by (simp add: responder_inv_def)

lemma responder_inv_other [simp]:
  "responder_inv (s\<lparr>rsp_guard := g\<rparr>) = responder_inv s"
  "responder_inv (s\<lparr>rsp_seq := q\<rparr>) = responder_inv s"
  "responder_inv (s\<lparr>last_ms := t, suppressed := k\<rparr>) = responder_inv s"
  "responder_inv (s\<lparr>suppressed := k\<rparr>) = responder_inv s"
  "responder_inv (s\<lparr>last_ms := t\<rparr>) = responder_inv s"
  by (simp_all add: responder_inv_def)

lemma wave_poll_inv:
  "responder_inv s \<Longrightarrow> responder_inv (fst (anchor_respond_wave_poll e now s buf len ts cfg al))"
  using wave_response_inv [of "s\<lparr>rsp_guard := g\<rparr>" for g]
  by (auto simp: anchor_respond_wave_poll_def log_refusal_def Let_def split: prod.split)

lemma discovery_inv:
  "responder_inv s \<Longrightarrow> responder_inv (fst (anchor_respond_discovery e s o0 buf len ts cfg p q))"
  by (simp add: anchor_respond_discovery_def Let_def split: prod.split sum.split)

section \<open>When it answers\<close>

lemma tx_delayed_frame [simp]:
  "snd (tx_delayed e b n t r) = \<lparr>tx_data = take n b, tx_len = n + (if r then 0 else 2), tx_when = Some t\<rparr>"
  by (simp add: tx_delayed_def Let_def)

text \<open>An anchor that has no position and is in no survey never answers a poll.\<close>

lemma unpositioned_silent:
  "\<not> cfg_position_valid cfg \<Longrightarrow>
     snd (anchor_respond_wave_poll e now s buf len ts cfg False) \<in> insert Ignored (range Unpositioned)"
  by (auto simp: anchor_respond_wave_poll_def Let_def split: prod.split)

lemma wave_tried:
  assumes "snd (anchor_respond_wave_poll e now s buf len ts cfg al) = Tried v f"
  shows "wave_for_us cfg buf len" and "cfg_position_valid cfg \<or> al"
    and "fst (guard_allows (rsp_guard s) (reply_time ts 2000))"
    and "v = fst (tx_delayed e (tx_data f) 29 (reply_time ts 2000) True)"
    and "\<exists>g. f = \<lparr>tx_data = take 29 (wave_response (s\<lparr>rsp_guard := g\<rparr>) cfg ts
        (push_bit 8 (ucast (reply_time ts 2000 AND 0xFFFFFFFE)) + ucast (cfg_ant_delay_tx cfg))),
      tx_len = 29, tx_when = Some (reply_time ts 2000)\<rparr>"
  using assms
  by (auto simp: anchor_respond_wave_poll_def tx_delayed_def Let_def split: prod.splits if_splits)

lemma wave_answers:
  assumes "wave_for_us cfg buf len" and "cfg_position_valid cfg \<or> al"
    and "fst (guard_allows (rsp_guard s) (reply_time ts 2000))"
  shows "\<exists>v f. snd (anchor_respond_wave_poll e now s buf len ts cfg al) = Tried v f"
  using assms by (auto simp: anchor_respond_wave_poll_def Let_def split: prod.splits)

section \<open>Times\<close>

text \<open>The two timestamps of a response: the receive time and the time the frame will leave,
  where the scheduled time has lost its low nine bits and the antenna delay is added.\<close>

lemma ucast_add32: "(ucast (a + b :: u64) :: u32) = ucast a + ucast b"
  by (simp add: word_uint_eq_iff unsigned_ucast_eq uint_word_ariths take_bit_eq_mod mod_mod_cancel
      mod_simps)

lemma and_split9: "(x :: u32) AND 0xFFFFFE00 = x - (x AND 0x1FF)"
proof -
  have "(x AND 0x1FF) + (x AND NOT 0x1FF) = (x AND 0x1FF) OR (x AND NOT 0x1FF)"
    by (rule disjunctive_add_eq_or) (rule bit_word_eqI, auto simp: bit_simps)
  also have "\<dots> = x" by (rule bit_word_eqI) (auto simp: bit_simps)
  finally have "x = (x AND 0x1FF) + (x AND NOT 0x1FF)" by (rule sym)
  moreover have "NOT (0x1FF :: u32) = 0xFFFFFE00" by simp
  ultimately show ?thesis by (metis add_diff_cancel_left')
qed

lemma bit_even32: "bit (0xFFFFFFFE :: int) n \<longleftrightarrow> 0 < n \<and> n < 32"
proof -
  have "(0xFFFFFFFE :: int) = Bit_Operations.mask 32 AND NOT 1" by (simp add: mask_eq_exp_minus_1)
  then show ?thesis by (simp only: bit_simps) (auto simp: bit_simps)
qed

lemma bit_low9: "bit (0xFFFFFE00 :: int) n \<longleftrightarrow> 9 \<le> n \<and> n < 32"
proof -
  have "(0xFFFFFE00 :: int) = Bit_Operations.mask 32 AND NOT (Bit_Operations.mask 9)"
    by (simp add: mask_eq_exp_minus_1)
  then show ?thesis by (simp only: bit_simps) (auto simp: bit_simps)
qed

lemma scheduled_low9:
  "(ucast (push_bit 8 (ucast ((ucast (drop_bit 8 p) :: u32) AND 0xFFFFFFFE)) :: u64) :: u32) =
     ucast (p :: u64) AND 0xFFFFFE00"
  by (rule bit_word_eqI) (auto simp: bit_simps bit_even32 bit_low9)

text \<open>The reply time the initiator computes from the two fields: 2000 microseconds and the
  antenna delay, less the part of a tick the radio drops.\<close>

definition wave_turnaround :: "u64 \<Rightarrow> u16 \<Rightarrow> u32" where
  "wave_turnaround ts ant = 131072000 + ucast ant - (ucast (ts + 131072000) AND 0x1FF)"

lemma wave_reply_field:
  "(ucast (push_bit 8 (ucast (reply_time ts 2000 AND 0xFFFFFFFE)) + ucast ant :: u64) :: u32) - ucast ts
     = wave_turnaround ts ant"
proof -
  have a: "(ucast (ucast (ant :: u16) :: u64) :: u32) = ucast ant"
    by (rule bit_word_eqI) (auto simp: bit_simps)
  have b: "(ucast (ts + 131072000) :: u32) = ucast ts + 131072000" by (simp add: ucast_add32)
  have "reply_time ts 2000 = ucast (drop_bit 8 (ts + 131072000))" by (simp add: reply_time_def)
  then show ?thesis
    unfolding ucast_add32 [of "push_bit _ _"] by (simp add: scheduled_low9 and_split9 a b wave_turnaround_def)
qed

lemma wave_turnaround_bounds:
  "131072000 + unat ant - 511 \<le> unat (wave_turnaround ts ant) \<and>
     unat (wave_turnaround ts ant) \<le> 131072000 + unat ant"
proof -
  define d where "d = (ucast (ts + 131072000) :: u32) AND 0x1FF"
  have "d = take_bit 9 (ucast (ts + 131072000))"
    by (simp add: d_def take_bit_eq_mask mask_eq_exp_minus_1 and.commute)
  then have "unat d = take_bit 9 (unat (ucast (ts + 131072000) :: u32))"
    by (simp add: unsigned_take_bit_eq)
  then have d: "unat d \<le> 511" by (simp add: take_bit_eq_mod)
  have a: "unat (ant :: u16) < 65536" using unsigned_less [of ant] by simp
  have u: "unat (131072000 + ucast ant :: u32) = 131072000 + unat ant"
    using a by (simp add: unat_word_ariths unsigned_ucast_eq take_bit_nat_eq_self)
  have "d \<le> 131072000 + ucast ant" using d u by (simp add: word_le_nat_alt)
  then have "unat (131072000 + ucast ant - d) = unat (131072000 + ucast ant :: u32) - unat d"
    by (rule unat_sub)
  then show ?thesis using d u by (simp add: wave_turnaround_def d_def)
qed

section \<open>An exchange between two boards\<close>

lemma poll_for_us:
  assumes "ss_inv s" and "b = on_air \<lparr>tx_data = ss_poll s peer, tx_len = 13, tx_when = None\<rparr> @ junk"
  shows "wave_for_us cfg b 11 \<longleftrightarrow> wire_id cfg = peer"
proof -
  have "b = tx_poll_ref[2 := ss_poll_seq s, 10 := peer] @ junk"
    using assms by (simp add: on_air_def ss_poll_ref tx_poll_ref_def)
  then show ?thesis
    by (auto simp: wave_for_us_def tx_poll_ref_def rx_poll_ref_def)
qed

text \<open>The initiator that receives the response of a wave poll reads the receive time and a
  reply time that is \<open>wave_turnaround\<close>.\<close>

lemma wave_received:
  assumes "responder_inv r"
    and "snd (anchor_respond_wave_poll e now r buf len ts cfg al) = Tried v f"
    and "ss_flen x = 29" and "ss_rx x = on_air f @ rest"
  shows "ss_receive x = Distance (ss_distance_mm (ss_clk_off x) (ss_poll_tx_ts x) (ss_resp_rx_ts x)
      (ucast ts) (ucast ts + wave_turnaround ts (cfg_ant_delay_tx cfg)))"
proof -
  let ?tx = "push_bit 8 (ucast (reply_time ts 2000 AND 0xFFFFFFFE)) + ucast (cfg_ant_delay_tx cfg) :: u64"
  obtain g where f: "f = \<lparr>tx_data = take 29 (wave_response (r\<lparr>rsp_guard := g\<rparr>) cfg ts ?tx),
      tx_len = 29, tx_when = Some (reply_time ts 2000)\<rparr>"
    using wave_tried(5) [OF assms(2)] by blast
  define m where "m = wave_response (r\<lparr>rsp_guard := g\<rparr>) cfg ts ?tx"
  have "responder_inv (r\<lparr>rsp_guard := g\<rparr>)" using assms(1) by simp
  note w = wave_response_fields [OF this, where cfg = cfg and p = ts and r = ?tx, folded m_def]
  have rx: "ss_rx x = take 27 m @ rest"
    using f assms(4) by (simp add: on_air_def m_def)
  let ?b = "(ss_rx x)[2 := 0]"
  have nth: "?b ! i = (if i = 2 then 0 else m ! i)" if "i < 27" for i
    using that w(1) by (simp add: rx nth_append nth_list_update)
  have "take 10 ?b = rx_resp_ref"
  proof (rule nth_equalityI)
    show "length (take 10 ?b) = length rx_resp_ref" using w(1) by (simp add: rx rx_resp_ref_def)
    fix i assume "i < length (take 10 ?b)"
    then have i: "i < 10" by simp
    have "tx_resp_boot ! i = rx_resp_ref ! i"
      using i nth_append_left [of i rx_resp_ref "replicate 19 0"]
      by (simp add: tx_resp_boot_def rx_resp_ref_def)
    moreover have "rx_resp_ref ! 2 = 0" by (simp add: rx_resp_ref_def)
    ultimately show "take 10 ?b ! i = rx_resp_ref ! i"
      using i nth [of i] w(2) [of i] by auto
  qed
  moreover have "get_u32 ?b 11 = ucast ts" "get_u32 ?b 15 = ucast ?tx"
    using w(5,6) nth by (simp_all only: get_u32_def) simp_all
  moreover have "unat (ss_flen x) = 29" using assms(3) by simp
  ultimately show ?thesis
    using wave_reply_field [of ts "cfg_ant_delay_tx cfg"]
    by (simp add: ss_receive_def resp_layout_def ts_from_get_u32 Let_def diff_eq_eq add.commute)
qed

text \<open>What a discovery reply carries.\<close>

lemma discovery_tried:
  assumes "snd (anchor_respond_discovery e s out0 buf len ts cfg p q) = Tried v f" and "length out0 = 20"
  shows "uwb_frame_is_discovery (Some buf) len"
    and "tx_when f = Some (reply_time ts (disc_resp_delay_uus (cfg_anchor_id cfg)))"
    and "fst (guard_allows (rsp_guard s) (reply_time ts (disc_resp_delay_uus (cfg_anchor_id cfg))))"
    and "uwb_frame_parse_discovery_response (Some (on_air f @ junk)) 20 True
      = Inr (uwb_config_short_addr cfg, p, q)"
proof -
  let ?m = "(uwb_config_short_addr cfg, uwb_frame_get_src_addr buf, 0, p, q)"
  obtain o1 where o1: "uwb_frame_response_build (Some out0) 20 (uwb_config_short_addr cfg)
      (uwb_frame_get_src_addr buf) 0 p q = (Inr 20, Some o1)"
    using response.build_fits [where m = ?m and cap = 20 and b = out0] assms(2) by auto
  then show "uwb_frame_is_discovery (Some buf) len"
    "tx_when f = Some (reply_time ts (disc_resp_delay_uus (cfg_anchor_id cfg)))"
    "fst (guard_allows (rsp_guard s) (reply_time ts (disc_resp_delay_uus (cfg_anchor_id cfg))))"
    using assms(1)
    by (auto simp: anchor_respond_discovery_def tx_delayed_def Let_def split: prod.splits if_splits)
  have "on_air f = take 20 (put_u8 o1 2 (rsp_seq s))"
    using assms(1) o1
    by (auto simp: anchor_respond_discovery_def tx_delayed_def on_air_def uwb_frame_set_seq_num_def Let_def
        split: prod.splits if_splits)
  then show "uwb_frame_parse_discovery_response (Some (on_air f @ junk)) 20 True
      = Inr (uwb_config_short_addr cfg, p, q)"
    using response.received [where m = ?m and cap = 20 and b = out0 and n = 20 and f = o1
        and s = "rsp_seq s" and junk = junk] o1 assms(2) by simp
qed

section \<open>Properties\<close>

definition sample_responder :: responder where
  "sample_responder = \<lparr>tx_resp_msg = tx_resp_boot, last_ms = 0, suppressed = 0, rsp_seq = 0, rsp_guard = None\<rparr>"

definition sample_tx :: tx_env where
  "sample_tx = \<lparr>tx_start_ok = True, tx_sys = (\<lambda>_. 0x80), tx_clk = int, tx_now = 0\<rparr>"

definition sample_cfg :: uwb_config where
  "sample_cfg = uwb_config_set_pos uwb_config_set_defaults 0x3F800000 0x40000000 0"

definition sample_poll :: "u8 list" where
  "sample_poll = tx_poll_ref[2 := 0, 10 := 1]"

lemma sample_responder_inv: "responder_inv sample_responder"
  by (simp add: responder_inv_def sample_responder_def tx_resp_boot_def)

lemma sample_answered:
  "\<exists>v f. snd (anchor_respond_wave_poll sample_tx 0 sample_responder sample_poll 11 5000 sample_cfg False)
     = Tried v f"
proof (rule wave_answers)
  show "wave_for_us sample_cfg sample_poll 11"
    by (simp add: wave_for_us_def sample_poll_def tx_poll_ref_def rx_poll_ref_def wire_id_def
        sample_cfg_def uwb_config_set_pos_def uwb_config_short_addr_def uwb_config_set_defaults_def)
qed (simp_all add: sample_cfg_def uwb_config_set_pos_def guard_allows_def sample_responder_def)

text \<open>An anchor that has no surveyed position transmits no range response outside a survey,
  whatever frame it receives and whatever the guard says.\<close>

theorem unpositioned_anchor_silent:
  assumes "\<not> cfg_position_valid cfg"
  shows "snd (anchor_respond_wave_poll e now s buf len ts cfg False) \<noteq> Tried v f"
  using unpositioned_silent [OF assms, of e now s buf len ts] by auto

lemma unpositioned_anchor_silent_witness:
  "snd (anchor_respond_wave_poll sample_tx 0 sample_responder sample_poll 11 5000
     uwb_config_set_defaults False) \<noteq> Tried TX_SENT \<lparr>tx_data = [], tx_len = 0, tx_when = None\<rparr>"
  by (rule unpositioned_anchor_silent) (simp add: uwb_config_set_defaults_def)

text \<open>C4: two-way ranging is exact across the air: the response an anchor schedules to a poll, as an
  initiator receives it, yields the distance formula on the anchor's true receive timestamp and
  a reply time of 2000 microseconds plus the antenna delay, at most 511 of the radio's time
  units short.\<close>

theorem wave_exchange_exact:
  assumes "responder_inv r"
    and "snd (anchor_respond_wave_poll e now r buf len ts cfg al) = Tried v f"
    and "ss_flen x = 29" and "ss_rx x = on_air f @ rest"
  shows "ss_receive x = Distance (ss_distance_mm (ss_clk_off x) (ss_poll_tx_ts x) (ss_resp_rx_ts x)
      (ucast ts) (ucast ts + wave_turnaround ts (cfg_ant_delay_tx cfg))) \<and>
    131072000 + unat (cfg_ant_delay_tx cfg) - 511 \<le> unat (wave_turnaround ts (cfg_ant_delay_tx cfg)) \<and>
    unat (wave_turnaround ts (cfg_ant_delay_tx cfg)) \<le> 131072000 + unat (cfg_ant_delay_tx cfg)"
  using wave_received [OF assms] wave_turnaround_bounds by blast

lemma wave_exchange_exact_witness:
  "\<exists>f. ss_receive (sample_exchange\<lparr>ss_flen := 29, ss_rx := on_air f @ [0, 0]\<rparr>) =
     Distance (ss_distance_mm 0 0 0 5000 (5000 + wave_turnaround 5000 16385))"
proof -
  obtain v f where a: "snd (anchor_respond_wave_poll sample_tx 0 sample_responder sample_poll 11 5000
      sample_cfg False) = Tried v f"
    using sample_answered by blast
  have "cfg_ant_delay_tx sample_cfg = 16385"
    by (simp add: sample_cfg_def uwb_config_set_pos_def uwb_config_set_defaults_def)
  then show ?thesis
    using wave_exchange_exact [OF sample_responder_inv a, of
        "sample_exchange\<lparr>ss_flen := 29, ss_rx := on_air f @ [0, 0]\<rparr>" "[0, 0]"]
    by (auto simp: sample_exchange_def)
qed

text \<open>A DISCOVERY is answered in the slot of the anchor's id, only if the guard allows that time,
  and the tag reads from the reply the anchor's short address and signal metrics.\<close>

theorem discovery_reply:
  assumes "snd (anchor_respond_discovery e s out0 buf len ts cfg p q) = Tried v f" and "length out0 = 20"
  shows "uwb_frame_is_discovery (Some buf) len \<and>
    tx_when f = Some (reply_time ts (disc_resp_delay_uus (cfg_anchor_id cfg))) \<and>
    fst (guard_allows (rsp_guard s) (reply_time ts (disc_resp_delay_uus (cfg_anchor_id cfg)))) \<and>
    uwb_frame_parse_discovery_response (Some (on_air f @ junk)) 20 True
      = Inr (uwb_config_short_addr cfg, p, q)"
  using discovery_tried [OF assms] by blast

lemma discovery_reply_witness:
  "\<exists>f. uwb_frame_parse_discovery_response (Some (on_air f @ [1, 2])) 20 True = Inr (1, 100, 7)"
proof -
  obtain d where d: "uwb_frame_is_discovery (Some d) 14"
    using discovery_build_valid [of 14 "replicate 14 0" 300 0] by auto
  have "\<exists>v f. snd (anchor_respond_discovery sample_tx sample_responder (replicate 20 0) d 14 5000
      sample_cfg 100 7) = Tried v f"
    using d by (simp add: anchor_respond_discovery_def guard_allows_def sample_responder_def
        uwb_frame_response_build_def write_hdr_def Let_def split_def)
  then obtain v f where "snd (anchor_respond_discovery sample_tx sample_responder (replicate 20 0) d 14 5000
      sample_cfg 100 7) = Tried v f" by blast
  from discovery_reply [OF this, of "[1, 2]"] show ?thesis
    by (auto simp: sample_cfg_def uwb_config_set_pos_def uwb_config_set_defaults_def uwb_config_short_addr_def)
qed

end
