(* ===== verification/Settings.thy ===== *)
theory Settings
  imports ByteFields
begin

text \<open>
  The interface of the three stores to Zephyr's settings subsystem, which is not part of the
  repository. Flash is a map from keys to byte strings; \<open>settings_save_one\<close> and the
  read callback are parameters. The store handlers are called once for every stored key of
  their subtree, in an order the subsystem does not promise. The locale \<open>stored_field\<close> states
  what a handler owes one field of its record, and proves once what a whole load then leaves
  in that field.
\<close>

section \<open>The backend\<close>

type_synonym flash = "string \<Rightarrow> u8 list option"

text \<open>\<open>settings_save_one(key, val, len)\<close>: an error or success, and the flash afterwards.\<close>

type_synonym saver = "string \<Rightarrow> u8 list \<Rightarrow> flash \<Rightarrow> errno option \<times> flash"

text \<open>What the stores rely on: a key reads back what was last saved under it without an error,
  and a failed save leaves every key as it was.\<close>

definition settings_backend :: "saver \<Rightarrow> bool" where
  "settings_backend sv \<longleftrightarrow> (\<forall>k v f. case sv k v f of
     (None, f') \<Rightarrow> f' = f(k \<mapsto> v)
   | (Some _, f') \<Rightarrow> f' = f)"

lemma backend_cases:
  assumes "settings_backend sv"
  shows "sv k v f = (None, f(k \<mapsto> v)) \<or> (\<exists>e. sv k v f = (Some e, f))"
  using assms [unfolded settings_backend_def, THEN spec, of k, THEN spec, of v, THEN spec, of f]
  by (cases "sv k v f") (auto split: option.splits)

lemma backend_ok:
  "settings_backend sv \<Longrightarrow> fst (sv k v f) = None \<Longrightarrow> snd (sv k v f) = f(k \<mapsto> v)"
  using backend_cases [of sv k v f] by auto

lemma backend_failed:
  "settings_backend sv \<Longrightarrow> fst (sv k v f) \<noteq> None \<Longrightarrow> snd (sv k v f) = f"
  using backend_cases [of sv k v f] by auto

text \<open>A backend that writes everything, for examples.\<close>

definition reliable :: saver where
  "reliable k v f = (None, f(k \<mapsto> v))"

lemma reliable_backend [simp]: "settings_backend reliable"
  by (simp add: settings_backend_def reliable_def)

text \<open>The read callback: given the number of bytes wanted, the bytes copied, or \<open>None\<close> for a
  negative result. The one of a stored value copies as much of it as fits.\<close>

type_synonym reader = "nat \<Rightarrow> u8 list option"

definition flash_reader :: "u8 list \<Rightarrow> reader" where
  "flash_reader v n = Some (take n v)"

text \<open>\<open>read_val\<close> of uwb_store.c and apos_store.c: the error, and the destination afterwards.\<close>

definition read_val :: "reader \<Rightarrow> nat \<Rightarrow> u8 list \<Rightarrow> errno option \<times> u8 list" where
  "read_val rd len dst =
     (case rd len of
        None \<Rightarrow> (Some EINVAL, dst)
      | Some bs \<Rightarrow> (if length bs \<noteq> len then Some EINVAL else None, bs @ drop (length bs) dst))"

lemma read_val_flash:
  "length v = n \<Longrightarrow> length dst = n \<Longrightarrow> read_val (flash_reader v) n dst = (None, v)"
  by (simp add: read_val_def flash_reader_def)

section \<open>Loading a subtree\<close>

type_synonym 'c handler = "'c \<Rightarrow> string \<Rightarrow> nat \<Rightarrow> reader \<Rightarrow> errno option \<times> 'c"

text \<open>The key below its subtree's name and the slash.\<close>

definition below :: "string \<Rightarrow> string \<Rightarrow> string option" where
  "below t k =
     (if take (length t + 1) k = t @ ''/'' then Some (drop (length t + 1) k) else None)"

definition load_one :: "string \<Rightarrow> 'c handler \<Rightarrow> string \<Rightarrow> u8 list \<Rightarrow> 'c \<Rightarrow> 'c" where
  "load_one t h k v c =
     (case below t k of
        None \<Rightarrow> c
      | Some n \<Rightarrow> snd (h c n (length v) (flash_reader v)))"

definition settings_load :: "string \<Rightarrow> 'c handler \<Rightarrow> (string \<times> u8 list) list \<Rightarrow> 'c \<Rightarrow> 'c" where
  "settings_load t h ents c = foldl (\<lambda>c (k, v). load_one t h k v c) c ents"

text \<open>The entries a load delivers: every stored key once, in some order.\<close>

definition delivers :: "flash \<Rightarrow> (string \<times> u8 list) list \<Rightarrow> bool" where
  "delivers f ents \<longleftrightarrow> distinct (map fst ents) \<and> map_of ents = f"

lemma below_append [simp]: "below t (t @ CHR ''/'' # n) = Some n"
  by (simp add: below_def)

lemma below_iff: "below t k = Some n \<longleftrightarrow> k = t @ CHR ''/'' # n"
proof
  assume "below t k = Some n"
  then have "take (length t + 1) k = t @ ''/''" "n = drop (length t + 1) k"
    by (simp_all add: below_def split: if_splits)
  then show "k = t @ CHR ''/'' # n"
    by (metis append.assoc append_Cons append_Nil append_take_drop_id)
qed simp

text \<open>A handler owes one field: only the field's key changes it, to a value that depends on the
  stored bytes and the old value, as long as the record is well formed.\<close>

locale stored_field =
  fixes t :: string
    and h :: "'c handler"
    and ok :: "'c \<Rightarrow> bool"
    and fld :: "'c \<Rightarrow> 'f"
    and key :: string
    and upd :: "u8 list \<Rightarrow> 'f \<Rightarrow> 'f"
  assumes keeps: "ok c \<Longrightarrow> ok (snd (h c k (length v) (flash_reader v)))"
    and field: "ok c \<Longrightarrow> fld (snd (h c k (length v) (flash_reader v))) =
      (if k = key then upd v (fld c) else fld c)"
begin

lemma one_keeps: "ok c \<Longrightarrow> ok (load_one t h k v c)"
  by (simp add: load_one_def keeps split: option.split)

lemma load_keeps: "ok c \<Longrightarrow> ok (settings_load t h ents c)"
  unfolding settings_load_def
  by (induction ents arbitrary: c) (auto simp: one_keeps split: prod.split)

lemma one_field:
  "ok c \<Longrightarrow> fld (load_one t h k v c) = (if k = t @ CHR ''/'' # key then upd v (fld c) else fld c)"
  by (auto simp: load_one_def field below_iff split: option.split)

lemma load_field:
  "ok c \<Longrightarrow> distinct (map fst ents) \<Longrightarrow>
    fld (settings_load t h ents c) =
      (case map_of ents (t @ CHR ''/'' # key) of None \<Rightarrow> fld c | Some v \<Rightarrow> upd v (fld c))"
proof (induction ents arbitrary: c)
  case (Cons e ents)
  obtain k v where e: "e = (k, v)" by (cases e)
  have "map_of ents k = None"
    using Cons.prems(2) by (simp add: e map_of_eq_None_iff)
  moreover have "fld (settings_load t h (e # ents) c) =
      fld (settings_load t h ents (load_one t h k v c))"
    by (simp add: settings_load_def e)
  ultimately show ?case
    using Cons.IH [OF one_keeps [OF Cons.prems(1)], of k v] Cons.prems
    by (simp add: e one_field split: option.split)
qed (simp add: settings_load_def)

text \<open>What a load leaves does not depend on the order.\<close>

lemma load_delivered:
  "ok c \<Longrightarrow> delivers f ents \<Longrightarrow>
    fld (settings_load t h ents c) =
      (case f (t @ CHR ''/'' # key) of None \<Rightarrow> fld c | Some v \<Rightarrow> upd v (fld c))"
  by (simp add: delivers_def load_field)

end

section \<open>Little-endian structures\<close>

definition le16 :: "u16 \<Rightarrow> u8 list" where
  "le16 v = put_u16 (replicate 2 0) 0 v"

definition le32 :: "u32 \<Rightarrow> u8 list" where
  "le32 v = put_u32 (replicate 4 0) 0 v"

definition le64 :: "u64 \<Rightarrow> u8 list" where
  "le64 v = le32 (ucast v) @ le32 (ucast (drop_bit 32 v))"

definition get_u64 :: "u8 list \<Rightarrow> nat \<Rightarrow> u64" where
  "get_u64 p o' = ucast (get_u32 p o') OR push_bit 32 (ucast (get_u32 p (o' + 4)))"

lemma length_le [simp]: "length (le16 a) = 2" "length (le32 b) = 4" "length (le64 c) = 8"
  by (simp_all add: le16_def le32_def le64_def)

lemma get_u16_append [byte_simps]:
  "get_u16 (xs @ ys) o' = (if o' + 1 < length xs then get_u16 xs o'
     else if length xs \<le> o' then get_u16 ys (o' - length xs) else get_u16 (xs @ ys) o')"
  by (auto simp: get_u16_def nth_append Suc_diff_le)

lemma get_u32_append [byte_simps]:
  "get_u32 (xs @ ys) o' = (if o' + 3 < length xs then get_u32 xs o'
     else if length xs \<le> o' then get_u32 ys (o' - length xs) else get_u32 (xs @ ys) o')"
  by (auto simp: get_u32_def nth_append Suc_diff_le)

lemma get_le [byte_simps]: "get_u16 (le16 a) 0 = a" "get_u32 (le32 b) 0 = b"
  by (simp_all add: le16_def le32_def get_put_u16 get_put_u32)

lemma get_le64 [byte_simps]: "get_u64 (le64 c) 0 = c"
proof -
  have "get_u32 (le64 c) 0 = ucast c" "get_u32 (le64 c) 4 = ucast (drop_bit 32 c)"
    by (simp_all add: le64_def get_u32_append get_le)
  then have "get_u64 (le64 c) 0 = ucast (ucast c :: u32) OR push_bit 32 (ucast (ucast (drop_bit 32 c) :: u32))"
    by (simp add: get_u64_def)
  also have "\<dots> = c" by (rule bit_word_eqI) (auto simp: bit_simps)
  finally show ?thesis .
qed

lemma get_u16_left: "o' + 1 < length xs \<Longrightarrow> get_u16 (xs @ ys) o' = get_u16 xs o'"
  and get_u32_left: "o' + 3 < length xs \<Longrightarrow> get_u32 (xs @ ys) o' = get_u32 xs o'"
  and get_u16_right: "length xs = n \<Longrightarrow> get_u16 (xs @ ys) n = get_u16 ys 0"
  and get_u32_right: "length xs = n \<Longrightarrow> get_u32 (xs @ ys) n = get_u32 ys 0"
  by (auto simp: byte_simps)

end
