(* ===== verification/UwbStore.thy ===== *)
theory UwbStore
  imports Settings DevConfig
begin

text \<open>
  Persistence of the anchor configuration, src/uwb_store.c: one settings key per field under
  ''anchor''. \<open>anchor_settings_set\<close> is the load handler, the \<open>uwb_store_save\<close> functions write
  the active configuration. Each field is an instance of \<open>stored_field\<close>, which gives what a
  boot leaves of it.
\<close>

section \<open>The handler\<close>

text \<open>\<open>struct stored_pos\<close>: three floats, the flag and three bytes of padding.\<close>

definition stored_pos :: "f32 \<Rightarrow> f32 \<Rightarrow> f32 \<Rightarrow> u8 \<Rightarrow> u8 list \<Rightarrow> u8 list" where
  "stored_pos x y z valid pad = le32 x @ le32 y @ le32 z @ [valid] @ pad"

definition anchor_settings_set :: "uwb_config handler" where
  "anchor_settings_set cfg key len rd =
     (if key = ''mode'' then
        if len \<noteq> 1 then (Some EINVAL, cfg)
        else
          (case read_val rd 1 [0] of
             (Some _, _) \<Rightarrow> (Some EINVAL, cfg)
           | (None, v) \<Rightarrow> (None, snd (uwb_config_set_mode cfg (v ! 0))))
      else if key = ''id'' then
        if len \<noteq> 1 then (Some EINVAL, cfg)
        else
          (case read_val rd 1 [0] of
             (Some _, _) \<Rightarrow> (Some EINVAL, cfg)
           | (None, v) \<Rightarrow> (None, snd (uwb_config_set_id cfg (v ! 0))))
      else if key = ''ant_tx'' then
        if len \<noteq> 2 then (Some EINVAL, cfg)
        else let (rc, d) = read_val rd 2 (le16 (cfg_ant_delay_tx cfg))
             in (rc, cfg\<lparr>cfg_ant_delay_tx := get_u16 d 0\<rparr>)
      else if key = ''ant_rx'' then
        if len \<noteq> 2 then (Some EINVAL, cfg)
        else let (rc, d) = read_val rd 2 (le16 (cfg_ant_delay_rx cfg))
             in (rc, cfg\<lparr>cfg_ant_delay_rx := get_u16 d 0\<rparr>)
      else if key = ''pos'' then
        if len \<noteq> 16 then (Some EINVAL, cfg)
        else
          (case read_val rd 16 (replicate 16 0) of
             (Some _, _) \<Rightarrow> (Some EINVAL, cfg)
           | (None, p) \<Rightarrow>
               (None, if p ! 12 \<noteq> 0
                      then uwb_config_set_pos cfg (get_f32 p 0) (get_f32 p 4) (get_f32 p 8)
                      else cfg))
      else (None, cfg))"

text \<open>\<open>uwb_store_init\<close>: the results of \<open>settings_subsys_init\<close> and \<open>settings_load\<close> and the
  entries that were delivered are the subsystem's.\<close>

definition uwb_store_init ::
  "errno option \<Rightarrow> errno option \<Rightarrow> (string \<times> u8 list) list \<Rightarrow> uwb_config \<Rightarrow> errno option \<times> uwb_config" where
  "uwb_store_init subsys_rc load_rc ents cfg =
     (if subsys_rc \<noteq> None then (subsys_rc, cfg)
      else (load_rc, settings_load ''anchor'' anchor_settings_set ents cfg))"

section \<open>Saving\<close>

definition uwb_store_save_mode :: "saver \<Rightarrow> uwb_config \<Rightarrow> flash \<Rightarrow> errno option \<times> flash" where
  "uwb_store_save_mode sv cfg f = sv ''anchor/mode'' [cfg_mode cfg] f"

definition uwb_store_save_id :: "saver \<Rightarrow> uwb_config \<Rightarrow> flash \<Rightarrow> errno option \<times> flash" where
  "uwb_store_save_id sv cfg f = sv ''anchor/id'' [cfg_anchor_id cfg] f"

text \<open>Both keys are always attempted.\<close>

definition uwb_store_save_ant :: "saver \<Rightarrow> uwb_config \<Rightarrow> flash \<Rightarrow> errno option \<times> flash" where
  "uwb_store_save_ant sv cfg f =
     (let (ret_tx, f) = sv ''anchor/ant_tx'' (le16 (cfg_ant_delay_tx cfg)) f;
          (ret_rx, f) = sv ''anchor/ant_rx'' (le16 (cfg_ant_delay_rx cfg)) f
      in (if ret_tx \<noteq> None then ret_tx else ret_rx, f))"

definition uwb_store_save_pos :: "saver \<Rightarrow> u8 list \<Rightarrow> uwb_config \<Rightarrow> flash \<Rightarrow> errno option \<times> flash" where
  "uwb_store_save_pos sv pad cfg f =
     sv ''anchor/pos'' (stored_pos (cfg_x cfg) (cfg_y cfg) (cfg_z cfg)
       (if cfg_position_valid cfg then 1 else 0) pad) f"

section \<open>The fields\<close>

text \<open>What the stored bytes of each key make of the field.\<close>

definition mode_upd :: "u8 list \<Rightarrow> u8 \<Rightarrow> u8" where
  "mode_upd v old = (if length v = 1 \<and> v ! 0 < UWB_MODE_COUNT then v ! 0 else old)"

definition id_upd :: "u8 list \<Rightarrow> u8 \<Rightarrow> u8" where
  "id_upd v old = (if length v = 1 \<and> v ! 0 < UWB_MAX_ANCHORS then v ! 0 else old)"

definition ant_upd :: "u8 list \<Rightarrow> u16 \<Rightarrow> u16" where
  "ant_upd v old = (if length v = 2 then get_u16 v 0 else old)"

definition cfg_pos :: "uwb_config \<Rightarrow> f32 \<times> f32 \<times> f32 \<times> bool" where
  "cfg_pos c = (cfg_x c, cfg_y c, cfg_z c, cfg_position_valid c)"

definition pos_upd :: "u8 list \<Rightarrow> f32 \<times> f32 \<times> f32 \<times> bool \<Rightarrow> f32 \<times> f32 \<times> f32 \<times> bool" where
  "pos_upd v old =
     (if length v = 16 \<and> v ! 12 \<noteq> 0 then (get_f32 v 0, get_f32 v 4, get_f32 v 8, True) else old)"

lemmas anchor_field_defs = anchor_settings_set_def read_val_flash mode_upd_def id_upd_def ant_upd_def
  cfg_pos_def pos_upd_def uwb_config_set_mode_def uwb_config_set_id_def uwb_config_set_pos_def

lemma anchor_set_keeps:
  "uwb_config_ok c \<Longrightarrow> uwb_config_ok (snd (anchor_settings_set c k (length v) (flash_reader v)))"
  by (simp add: anchor_field_defs uwb_config_ok_def not_le split: if_splits)

interpretation anchor_mode: stored_field "''anchor''" anchor_settings_set uwb_config_ok cfg_mode
    "''mode''" mode_upd
  by unfold_locales (erule anchor_set_keeps, simp add: anchor_field_defs linorder_not_le [symmetric])

interpretation anchor_id: stored_field "''anchor''" anchor_settings_set uwb_config_ok cfg_anchor_id
    "''id''" id_upd
  by unfold_locales (erule anchor_set_keeps, simp add: anchor_field_defs linorder_not_le [symmetric])

interpretation anchor_ant_tx: stored_field "''anchor''" anchor_settings_set uwb_config_ok
    cfg_ant_delay_tx "''ant_tx''" ant_upd
  by unfold_locales (erule anchor_set_keeps, simp add: anchor_field_defs)

interpretation anchor_ant_rx: stored_field "''anchor''" anchor_settings_set uwb_config_ok
    cfg_ant_delay_rx "''ant_rx''" ant_upd
  by unfold_locales (erule anchor_set_keeps, simp add: anchor_field_defs)

interpretation anchor_pos: stored_field "''anchor''" anchor_settings_set uwb_config_ok cfg_pos
    "''pos''" pos_upd
  by unfold_locales (erule anchor_set_keeps, simp add: anchor_field_defs)

lemma stored_pos_parts:
  assumes "length pad = 3"
  shows "length (stored_pos x y z w pad) = 16" "stored_pos x y z w pad ! 12 = w"
    "get_f32 (stored_pos x y z w pad) 0 = x" "get_f32 (stored_pos x y z w pad) 4 = y"
    "get_f32 (stored_pos x y z w pad) 8 = z"
  using assms by (simp_all add: stored_pos_def get_f32_def byte_simps nth_append)

text \<open>The whole configuration a boot starts with, as a function of what is on flash.\<close>

lemma anchor_load:
  assumes "uwb_config_ok c" and "delivers f ents"
  shows "settings_load ''anchor'' anchor_settings_set ents c =
    (let (x, y, z, p) = (case f ''anchor/pos'' of None \<Rightarrow> cfg_pos c | Some v \<Rightarrow> pos_upd v (cfg_pos c)) in
     \<lparr>cfg_mode = (case f ''anchor/mode'' of None \<Rightarrow> cfg_mode c | Some v \<Rightarrow> mode_upd v (cfg_mode c)),
      cfg_anchor_id = (case f ''anchor/id'' of None \<Rightarrow> cfg_anchor_id c | Some v \<Rightarrow> id_upd v (cfg_anchor_id c)),
      cfg_ant_delay_tx = (case f ''anchor/ant_tx'' of None \<Rightarrow> cfg_ant_delay_tx c
        | Some v \<Rightarrow> ant_upd v (cfg_ant_delay_tx c)),
      cfg_ant_delay_rx = (case f ''anchor/ant_rx'' of None \<Rightarrow> cfg_ant_delay_rx c
        | Some v \<Rightarrow> ant_upd v (cfg_ant_delay_rx c)),
      cfg_x = x, cfg_y = y, cfg_z = z, cfg_position_valid = p\<rparr>)"
    (is "?l = _")
proof -
  have "cfg_pos ?l = (case f ''anchor/pos'' of None \<Rightarrow> cfg_pos c | Some v \<Rightarrow> pos_upd v (cfg_pos c))"
    using anchor_pos.load_delivered [OF assms] by simp
  then show ?thesis
    using anchor_mode.load_delivered [OF assms] anchor_id.load_delivered [OF assms]
      anchor_ant_tx.load_delivered [OF assms] anchor_ant_rx.load_delivered [OF assms]
    by (cases ?l) (auto simp: cfg_pos_def Let_def dest: sym split: prod.split)
qed

section \<open>Properties\<close>

text \<open>A saved configuration is the one the next boot starts with: after the four save functions
  have reported success, on any earlier contents of the flash and whatever the order in which the
  settings subsystem delivers the keys, loading onto the defaults gives the saved record back, with
  the coordinates only where the position is valid.\<close>

theorem uwb_store_roundtrip:
  assumes "settings_backend sv" and "uwb_config_ok cfg" and "length pad = 3"
    and "uwb_store_save_mode sv cfg f = (None, f1)" and "uwb_store_save_id sv cfg f1 = (None, f2)"
    and "uwb_store_save_ant sv cfg f2 = (None, f3)" and "uwb_store_save_pos sv pad cfg f3 = (None, f4)"
    and "delivers f4 ents"
  shows "uwb_store_init None None ents uwb_config_set_defaults =
     (None, if cfg_position_valid cfg then cfg else cfg\<lparr>cfg_x := 0, cfg_y := 0, cfg_z := 0\<rparr>)"
proof -
  have f1: "f1 = f(''anchor/mode'' \<mapsto> [cfg_mode cfg])"
    and f2: "f2 = f1(''anchor/id'' \<mapsto> [cfg_anchor_id cfg])"
    and f4: "f4 = f3(''anchor/pos'' \<mapsto> stored_pos (cfg_x cfg) (cfg_y cfg) (cfg_z cfg)
        (if cfg_position_valid cfg then 1 else 0) pad)"
    using backend_ok [OF assms(1)] assms(4,5,7)
    by (auto simp: uwb_store_save_mode_def uwb_store_save_id_def uwb_store_save_pos_def dest!: spec)
       (metis fst_conv snd_conv)+
  have f3: "f3 = f2(''anchor/ant_tx'' \<mapsto> le16 (cfg_ant_delay_tx cfg),
      ''anchor/ant_rx'' \<mapsto> le16 (cfg_ant_delay_rx cfg))"
    using assms(6) backend_cases [OF assms(1), of "''anchor/ant_tx''" "le16 (cfg_ant_delay_tx cfg)" f2]
      backend_cases [OF assms(1), of "''anchor/ant_rx''" "le16 (cfg_ant_delay_rx cfg)"
        "f2(''anchor/ant_tx'' \<mapsto> le16 (cfg_ant_delay_tx cfg))"]
    by (auto simp: uwb_store_save_ant_def split: prod.splits)
  have "uwb_config_ok uwb_config_set_defaults"
    by (simp add: uwb_config_ok_def uwb_config_set_defaults_def)
  from anchor_load [OF this assms(8)] show ?thesis
    using assms(2)
    by (simp add: uwb_store_init_def f1 f2 f3 f4 mode_upd_def id_upd_def ant_upd_def pos_upd_def cfg_pos_def
        stored_pos_parts [OF assms(3)] get_le uwb_config_ok_def uwb_config_set_defaults_def)
qed

definition sample_stored :: "uwb_config" where
  "sample_stored = \<lparr>cfg_mode = 1, cfg_anchor_id = 2, cfg_ant_delay_tx = 16390, cfg_ant_delay_rx = 16400,
     cfg_x = 0x3F800000, cfg_y = 0x40000000, cfg_z = 0, cfg_position_valid = True\<rparr>"

lemma uwb_store_roundtrip_witness:
  "uwb_store_init None None
     [(''anchor/pos'', stored_pos 0x3F800000 0x40000000 0 1 [7, 7, 7]), (''anchor/mode'', [1]),
      (''anchor/ant_rx'', le16 16400), (''anchor/id'', [2]), (''anchor/ant_tx'', le16 16390)]
     uwb_config_set_defaults = (None, sample_stored)"
proof -
  let ?e = "[(''anchor/pos'', stored_pos 0x3F800000 0x40000000 0 1 [7, 7, 7]), (''anchor/mode'', [1]),
      (''anchor/ant_rx'', le16 16400), (''anchor/id'', [2]), (''anchor/ant_tx'', le16 16390)]"
  have "delivers (Map.empty(''anchor/mode'' \<mapsto> [1], ''anchor/id'' \<mapsto> [2], ''anchor/ant_tx'' \<mapsto> le16 16390,
      ''anchor/ant_rx'' \<mapsto> le16 16400, ''anchor/pos'' \<mapsto> stored_pos 0x3F800000 0x40000000 0 1 [7, 7, 7])) ?e"
    by (simp add: delivers_def fun_eq_iff)
  from uwb_store_roundtrip [OF reliable_backend _ _ _ _ _ _ this, where cfg = sample_stored
      and pad = "[7, 7, 7]" and f = Map.empty] show ?thesis
    by (simp add: uwb_config_ok_def sample_stored_def uwb_store_save_mode_def uwb_store_save_id_def
        uwb_store_save_ant_def uwb_store_save_pos_def reliable_def)
qed

end
