(* ===== verification/AposNode.thy ===== *)
theory AposNode
  imports AnchorRespond AposFrame UwbStore CalMath
begin

text \<open>
  The anchor's side of the survey, src/apos_node.c: the window a SURVEY_BEGIN opens, the
  enumeration reply and its stagger, SETPOS, the ranging batch and the dispatch of received
  frames. \<open>apos_node\<close> is the module's statics; \<open>node_ctx\<close> adds what its handlers change
  elsewhere: the loop's configuration snapshot, the singleton, the sequence counter, the beacon
  guard, the initiator's statics and the flash. Uptimes, the radio and the settings subsystem are
  the arguments \<open>node_env\<close>; what a handler does is the list of its sleeps, polls and frames.
\<close>

section \<open>State\<close>

abbreviation (input) APOS_ENUM_SLOTS :: u32 where "APOS_ENUM_SLOTS \<equiv> 8"
abbreviation (input) APOS_ENUM_SLOT_MS :: nat where "APOS_ENUM_SLOT_MS \<equiv> 30"
abbreviation (input) APOS_NODE_REFRESH_S :: int where "APOS_NODE_REFRESH_S \<equiv> 60"
abbreviation (input) APOS_MAX_EXCHANGES :: nat where "APOS_MAX_EXCHANGES \<equiv> 64"
abbreviation (input) APOS_RANGE_BATCH_DEADLINE_MS :: int where "APOS_RANGE_BATCH_DEADLINE_MS \<equiv> 700"
abbreviation (input) TX_GUARD_LOOKAHEAD_UUS :: u32 where "TX_GUARD_LOOKAHEAD_UUS \<equiv> 500"
abbreviation (input) UWB_ADDR_GATEWAY_RESERVED :: u16 where "UWB_ADDR_GATEWAY_RESERVED \<equiv> 0"
abbreviation (input) APOS_LEN_MAX :: nat where "APOS_LEN_MAX \<equiv> 34"

record apos_node =
  an_deadline_ms :: int
  an_session :: u16
  an_begin_seen :: u8
  an_eui :: "u8 list"
  an_eui_ready :: bool
  an_tx_buf :: "u8 list"

record node_ctx =
  nc_node :: apos_node
  nc_cfg :: uwb_config
  nc_active :: uwb_config
  nc_seq :: u8
  nc_guard :: "beacon_guard option"
  nc_ss :: ss_state
  nc_flash :: flash

text \<open>The uptime of the window test, of an opening or refresh, of the start of a batch and before
  each exchange of it; the exchanges; clock and radio of the transmission attempts; the settings
  subsystem and the padding bytes of the stored position.\<close>

record node_env =
  ne_check :: int
  ne_now :: int
  ne_batch :: int
  ne_clk :: "nat \<Rightarrow> int"
  ne_xchg :: "nat \<Rightarrow> ss_env"
  ne_hi :: "nat \<Rightarrow> u32"
  ne_tx :: "nat \<Rightarrow> tx_env"
  ne_saver :: saver
  ne_pad :: "u8 list"

datatype node_act = ActSleep nat | ActPoll tx_frame | ActTx tx_frame

section \<open>The window\<close>

text \<open>\<open>hwinfo_get_device_id\<close> gives \<open>None\<close> for a result that is not positive, or the bytes.\<close>

definition apos_node_init :: "u8 list option \<Rightarrow> apos_node \<Rightarrow> apos_node" where
  "apos_node_init dev s =
     (let s = s\<lparr>an_deadline_ms := 0, an_session := 0, an_begin_seen := 0, an_eui := replicate 8 0\<rparr> in
      case dev of
        None \<Rightarrow> s\<lparr>an_eui_ready := False\<rparr>
      | Some bs \<Rightarrow> s\<lparr>an_eui := take 8 (bs @ replicate 8 0), an_eui_ready := True\<rparr>)"

definition apos_node_window_open :: "int \<Rightarrow> apos_node \<Rightarrow> bool \<times> apos_node" where
  "apos_node_window_open now s =
     (if an_session s = 0 then (False, s)
      else if now > an_deadline_ms s then (False, s\<lparr>an_session := 0\<rparr>)
      else (True, s))"

definition window_open :: "int \<Rightarrow> u16 \<Rightarrow> u16 \<Rightarrow> apos_node \<Rightarrow> apos_node" where
  "window_open now session window_s s =
     s\<lparr>an_session := session, an_deadline_ms := now + uint window_s * 1000\<rparr>"

definition window_refresh :: "int \<Rightarrow> apos_node \<Rightarrow> apos_node" where
  "window_refresh now s =
     (if an_session s \<noteq> 0 then s\<lparr>an_deadline_ms := now + 1000 * APOS_NODE_REFRESH_S\<rparr> else s)"

section \<open>Immediate transmission\<close>

definition tx_now ::
  "u32 \<Rightarrow> tx_env \<Rightarrow> u8 list \<Rightarrow> nat \<Rightarrow> beacon_guard option \<Rightarrow> bool \<times> beacon_guard option \<times> node_act list" where
  "tx_now now e buf len bg =
     (let (ok, bg) = guard_allows bg (now + UUS_TO_HI32 TX_GUARD_LOOKAHEAD_UUS) in
      if \<not> ok then (False, bg, [])
      else if \<not> tx_start_ok e then (False, bg, [])
      else (tx_completes e 8, bg,
            [ActTx \<lparr>tx_data = take len buf, tx_len = len + FCS_LEN, tx_when = None\<rparr>]))"

text \<open>One numbered transmission of the frame in \<open>tx_buf\<close>, and the one with a retry that ends both
  \<open>handle_survey_begin\<close> and \<open>handle_range_cmd\<close>.\<close>

definition send_once :: "node_env \<Rightarrow> nat \<Rightarrow> nat \<Rightarrow> node_ctx \<Rightarrow> bool \<times> node_ctx \<times> node_act list" where
  "send_once e k n c =
     (let b = apos_frame_set_seq (an_tx_buf (nc_node c)) (nc_seq c);
          (ok, bg, acts) = tx_now (ne_hi e k) (ne_tx e k) b n (nc_guard c)
      in (ok, c\<lparr>nc_node := (nc_node c)\<lparr>an_tx_buf := b\<rparr>, nc_seq := nc_seq c + 1, nc_guard := bg\<rparr>, acts))"

definition send_with_retry :: "node_env \<Rightarrow> nat \<Rightarrow> node_ctx \<Rightarrow> node_ctx \<times> node_act list" where
  "send_with_retry e n c =
     (let (ok, c, acts) = send_once e 0 n c in
      if ok then (c, acts)
      else let (_, c, acts') = send_once e 1 n c in (c, acts @ ActSleep 5 # acts'))"

section \<open>Enumeration\<close>

definition enum_slot :: "u8 list \<Rightarrow> u16 \<Rightarrow> u8 \<Rightarrow> u32" where
  "enum_slot eui sess round' =
     (let salt = [round', ucast sess, ucast (drop_bit 8 sess)];
          h = foldl (\<lambda>h b. (h XOR ucast b) * 16777619) 2166136261 salt;
          h = foldl (\<lambda>h b. (h XOR ucast b) * 16777619) h eui
      in h mod APOS_ENUM_SLOTS)"

definition handle_survey_begin :: "node_env \<Rightarrow> node_ctx \<Rightarrow> u8 list \<Rightarrow> nat \<Rightarrow> node_ctx \<times> node_act list" where
  "handle_survey_begin e c buf plen =
     (case apos_frame_parse_survey_begin (Some buf) plen True of
        Inl _ \<Rightarrow> (c, [])
      | Inr (session, window_s) \<Rightarrow>
          let s = nc_node c; cfg = nc_cfg c in
          if session = 0 \<or> \<not> an_eui_ready s then (c, [])
          else
            let seen = (if session \<noteq> an_session s then 0 else an_begin_seen s);
                s = s\<lparr>an_begin_seen := (if seen < 255 then seen + 1 else seen)\<rparr>;
                s = window_open (ne_now e) session window_s s;
                wait = ActSleep (unat (enum_slot (an_eui s) session seen) * APOS_ENUM_SLOT_MS)
            in
            (case apos_frame_enum_rsp_build (Some (an_tx_buf s)) APOS_LEN_MAX (uwb_config_short_addr cfg)
                    UWB_ADDR_GATEWAY_RESERVED session (Some (an_eui s)) (cfg_position_valid cfg)
                    (cfg_x cfg) (cfg_y cfg) (cfg_z cfg) of
               (Inl _, _) \<Rightarrow> (c\<lparr>nc_node := s\<rparr>, [wait])
             | (Inr n, out) \<Rightarrow>
                 let (c, acts) = send_with_retry e n (c\<lparr>nc_node := s\<lparr>an_tx_buf := the out\<rparr>\<rparr>)
                 in (c, wait # acts)))"

section \<open>SETPOS and SURVEY_END\<close>

definition handle_setpos :: "node_env \<Rightarrow> node_ctx \<Rightarrow> u8 list \<Rightarrow> nat \<Rightarrow> node_ctx \<times> node_act list" where
  "handle_setpos e c buf plen =
     (case apos_frame_parse_setpos (Some buf) plen True of
        Inl _ \<Rightarrow> (c, [])
      | Inr (session, x, y, z) \<Rightarrow>
          if session \<noteq> an_session (nc_node c) then (c, [])
          else
            let s = window_refresh (ne_now e) (nc_node c);
                cfg = uwb_config_set_pos (nc_cfg c) x y z;
                active = uwb_config_set_pos (nc_active c) x y z;
                (rc, f) = uwb_store_save_pos (ne_saver e) (ne_pad e) active (nc_flash c);
                c = c\<lparr>nc_node := s, nc_cfg := cfg, nc_active := active, nc_flash := f\<rparr>
            in
            (case apos_frame_setpos_ack_build (Some (an_tx_buf s)) APOS_LEN_MAX (uwb_config_short_addr cfg)
                    UWB_ADDR_GATEWAY_RESERVED session (cfg_x cfg) (cfg_y cfg) (cfg_z cfg) (rc = None) of
               (Inl _, _) \<Rightarrow> (c, [])
             | (Inr n, out) \<Rightarrow> snd (send_once e 0 n (c\<lparr>nc_node := s\<lparr>an_tx_buf := the out\<rparr>\<rparr>))))"

definition handle_survey_end :: "node_ctx \<Rightarrow> u8 list \<Rightarrow> nat \<Rightarrow> node_ctx" where
  "handle_survey_end c buf plen =
     (case apos_frame_parse_survey_end (Some buf) plen True of
        Inl _ \<Rightarrow> c
      | Inr session \<Rightarrow>
          if session \<noteq> an_session (nc_node c) then c
          else c\<lparr>nc_node := (nc_node c)\<lparr>an_session := 0, an_begin_seen := 0\<rparr>\<rparr>)"

section \<open>The ranging batch\<close>

text \<open>The integer square root counts up from 0.\<close>

function isqrt_loop :: "int \<Rightarrow> nat \<Rightarrow> nat" where
  "isqrt_loop v sd = (if int (sd + 1) * int (sd + 1) \<le> v then isqrt_loop v (sd + 1) else sd)"
  by pat_completeness auto

lemma isqrt_step:
  assumes "int (sd + 1) * int (sd + 1) \<le> v" shows "int sd < v"
proof -
  have "1 * int (sd + 1) \<le> int (sd + 1) * int (sd + 1)" by (rule mult_right_mono) simp_all
  then have "int (sd + 1) \<le> v" using assms by (simp only: mult_1)
  then show ?thesis by simp
qed

termination isqrt_loop
  by (relation "measure (\<lambda>(v, sd). nat (v - int sd))") (use isqrt_step in \<open>auto simp: nat_mono_iff\<close>)

declare isqrt_loop.simps [simp del]

text \<open>The sum of squared deviations of the kept samples; the test repeats the one of the sum.\<close>

fun square_devs :: "int list \<Rightarrow> int \<Rightarrow> int \<Rightarrow> int \<Rightarrow> int option" where
  "square_devs [] median mean var = Some var"
| "square_devs (s # ss) median mean var = do {
     dev \<leftarrow> abs_dev s median;
     if dev \<le> 300 then square_devs ss median mean (var + (s - mean) * (s - mean))
     else square_devs ss median mean var }"

text \<open>Mean, deviation and the number kept; \<open>None\<close> where a 32-bit difference overflows.\<close>

definition batch_stats :: "int list \<Rightarrow> (int \<times> u16 \<times> u8) option" where
  "batch_stats s =
     (if length s = 0 then Some (0, 0, 0)
      else do {
        let median = median_sorted (sort_i32 s);
        r \<leftarrow> keep_near s median 300 0 0;
        let kept = snd r;
        if kept = 0 then Some (median, 0, 0)
        else do {
          let mean = cdiv (fst r) (int kept);
          var \<leftarrow> square_devs s median mean 0;
          let sd = (if kept > 1 then isqrt_loop (cdiv var (int kept)) 0 else 0);
          Some (mean, if sd > 65535 then 65535 else of_nat sd, of_nat kept) } })"

fun range_loop ::
  "node_env \<Rightarrow> u8 \<Rightarrow> int \<Rightarrow> nat \<Rightarrow> nat \<Rightarrow> ss_state \<Rightarrow> int list \<Rightarrow> node_act list
     \<Rightarrow> (ss_state \<times> int list \<times> node_act list) option" where
  "range_loop e peer deadline i 0 ss batch acts = Some (ss, batch, acts)"
| "range_loop e peer deadline i (Suc k) ss batch acts =
     (if ne_clk e i \<ge> deadline then Some (ss, batch, acts)
      else
        (case ss_initiator_range (ne_xchg e i) ss peer of
           (None, _, _) \<Rightarrow> None
         | (Some mm, ss, polls) \<Rightarrow>
             range_loop e peer deadline (i + 1) k ss (if mm \<noteq> INT32_MIN then batch @ [mm] else batch)
               (acts @ map ActPoll polls @ [ActSleep 2])))"

definition peer_refused :: "uwb_config \<Rightarrow> u16 \<Rightarrow> bool" where
  "peer_refused cfg peer_addr \<longleftrightarrow>
     peer_addr = UWB_ADDR_GATEWAY_RESERVED \<or> peer_addr = uwb_config_short_addr cfg \<or>
     peer_addr < UWB_ANCHOR_ADDR_BASE \<or> peer_addr \<ge> UWB_ANCHOR_ADDR_BASE + ucast UWB_MAX_ANCHORS"

text \<open>The report of a finished batch.\<close>

definition range_report ::
  "node_env \<Rightarrow> node_ctx \<Rightarrow> u16 \<Rightarrow> u16 \<Rightarrow> int \<times> u16 \<times> u8 \<Rightarrow> node_ctx \<times> node_act list" where
  "range_report e c session peer_addr st =
     (let (mean, sd, kept) = st; s = nc_node c in
      case apos_frame_range_rsp_build (Some (an_tx_buf s)) APOS_LEN_MAX (uwb_config_short_addr (nc_cfg c))
             UWB_ADDR_GATEWAY_RESERVED session peer_addr mean sd kept of
        (Inl _, _) \<Rightarrow> (c, [])
      | (Inr n, out) \<Rightarrow> send_with_retry e n (c\<lparr>nc_node := s\<lparr>an_tx_buf := the out\<rparr>\<rparr>))"

definition handle_range_cmd ::
  "node_env \<Rightarrow> node_ctx \<Rightarrow> u8 list \<Rightarrow> nat \<Rightarrow> (node_ctx \<times> node_act list) option" where
  "handle_range_cmd e c buf plen =
     (case apos_frame_parse_range_cmd (Some buf) plen True of
        Inl _ \<Rightarrow> Some (c, [])
      | Inr (session, peer_addr, n_exchanges) \<Rightarrow>
          let (isopen, s) = apos_node_window_open (ne_check e) (nc_node c);
              c = c\<lparr>nc_node := s\<rparr>
          in
          if \<not> isopen \<or> session \<noteq> an_session s then Some (c, [])
          else
            let s = window_refresh (ne_now e) s;
                c = c\<lparr>nc_node := s\<rparr>;
                cfg = nc_cfg c
            in
            if peer_refused cfg peer_addr then Some (c, [])
            else do {
              let want = min (unat n_exchanges) APOS_MAX_EXCHANGES;
              let deadline = ne_batch e + APOS_RANGE_BATCH_DEADLINE_MS;
              (ss, batch, acts) \<leftarrow> range_loop e (ucast (peer_addr AND 0xFF)) deadline 0 want
                 (ss_initiator_enter (nc_ss c)) [] [];
              st \<leftarrow> batch_stats batch;
              let (c, acts') = range_report e (c\<lparr>nc_ss := ss\<rparr>) session peer_addr st;
              Some (c, acts @ acts') })"

section \<open>Dispatch\<close>

text \<open>Whether the frame was one of the survey's, and what was done; \<open>None\<close> is the undefined
  arithmetic of a batch.\<close>

definition apos_node_on_rx ::
  "node_env \<Rightarrow> node_ctx \<Rightarrow> u8 list \<Rightarrow> nat \<Rightarrow> (bool \<times> node_ctx \<times> node_act list) option" where
  "apos_node_on_rx e c buf plen =
     (if \<not> apos_frame_is_apos (Some buf) plen then Some (False, c, [])
      else if apos_frame_src buf \<noteq> UWB_ADDR_GATEWAY_RESERVED then Some (True, c, [])
      else if apos_frame_dest buf \<noteq> APOS_ADDR_BCAST \<and>
              apos_frame_dest buf \<noteq> uwb_config_short_addr (nc_cfg c) then Some (True, c, [])
      else if apos_frame_subtype buf = APOS_SUB_SURVEY_BEGIN then
        Some (True, handle_survey_begin e c buf plen)
      else if apos_frame_subtype buf = APOS_SUB_SETPOS then Some (True, handle_setpos e c buf plen)
      else if apos_frame_subtype buf = APOS_SUB_SURVEY_END then
        Some (True, handle_survey_end c buf plen, [])
      else if apos_frame_subtype buf = APOS_SUB_RANGE_CMD then
        map_option (\<lambda>r. (True, r)) (handle_range_cmd e c buf plen)
      else Some (True, c, []))"

section \<open>What transmits\<close>

fun is_poll :: "node_act \<Rightarrow> bool" where
  "is_poll (ActPoll _) = True"
| "is_poll _ = False"

fun on_channel :: "node_act \<Rightarrow> bool" where
  "on_channel (ActSleep _) = False"
| "on_channel _ = True"

lemma tx_now_no_poll: "tx_now h e b n bg = (ok, bg', acts) \<Longrightarrow> filter is_poll acts = [] \<and> length (filter on_channel acts) \<le> 1"
  by (auto simp: tx_now_def Let_def split: prod.splits if_splits)

lemma send_once_no_poll:
  "send_once e k n c = (ok, c', acts) \<Longrightarrow> filter is_poll acts = [] \<and> length (filter on_channel acts) \<le> 1"
  by (auto simp: send_once_def Let_def dest!: tx_now_no_poll split: prod.splits)

lemma send_with_retry_no_poll:
  "send_with_retry e n c = (c', acts) \<Longrightarrow> filter is_poll acts = [] \<and> length (filter on_channel acts) \<le> 2"
  using send_once_no_poll [of e 0 n c] send_once_no_poll [of e 1 n]
  by (fastforce simp: send_with_retry_def split: prod.splits if_splits)

lemma survey_begin_no_poll: "filter is_poll (snd (handle_survey_begin e c buf n)) = []"
  by (auto simp: handle_survey_begin_def Let_def dest!: send_with_retry_no_poll
      split: sum.splits prod.splits)

lemma send_once_acts: "filter is_poll (snd (snd (send_once e k n c))) = []"
  by (cases "send_once e k n c") (auto dest: send_once_no_poll)

lemma setpos_no_poll: "filter is_poll (snd (handle_setpos e c buf n)) = []"
  by (auto simp: handle_setpos_def Let_def send_once_acts split: sum.splits prod.splits)

lemma exchange_polls: "length (snd (snd (ss_initiator_range x ss p))) \<le> 1"
  by (auto simp: ss_initiator_range_def Let_def split: ss_verdict.splits)

text \<open>The batch: at most one poll per exchange, each begun before the deadline, and every distance
  kept is one an exchange returned.\<close>

lemma range_loop_bounds:
  assumes "range_loop e peer dl i k ss batch acts = Some (ss', batch', acts')"
  shows "length batch' \<le> length batch + k \<and>
    length (filter is_poll acts') \<le> length (filter is_poll acts) + k \<and>
    length (filter on_channel acts') - length (filter on_channel acts) \<le> k \<and>
    (\<exists>m\<le>k. (\<forall>j. i \<le> j \<and> j < i + m \<longrightarrow> ne_clk e j < dl) \<and> length (filter is_poll acts') \<le> length (filter is_poll acts) + m)"
  using assms
proof (induction k arbitrary: i ss batch acts)
  case (Suc k)
  show ?case
  proof (cases "ne_clk e i \<ge> dl")
    case True
    then show ?thesis using Suc.prems by (auto intro: exI [of _ 0])
  next
    case False
    obtain mm ss1 polls where x: "ss_initiator_range (ne_xchg e i) ss peer = (Some mm, ss1, polls)"
      using Suc.prems False
      by (cases "ss_initiator_range (ne_xchg e i) ss peer") (auto split: option.splits)
    have p: "length polls \<le> 1" using exchange_polls [of "ne_xchg e i" ss peer] x by simp
    have f: "filter is_poll (map ActPoll polls) = map ActPoll polls"
      "filter on_channel (map ActPoll polls) = map ActPoll polls"
      by (simp_all add: filter_map o_def)
    from Suc.prems False x have r: "range_loop e peer dl (i + 1) k ss1 (if mm \<noteq> INT32_MIN then batch @ [mm] else batch)
       (acts @ map ActPoll polls @ [ActSleep 2]) = Some (ss', batch', acts')" by simp
    note IH = Suc.IH [OF r]
    then obtain m where m: "m \<le> k" "\<forall>j. i + 1 \<le> j \<and> j < i + 1 + m \<longrightarrow> ne_clk e j < dl"
      "length (filter is_poll acts') \<le> length (filter is_poll (acts @ map ActPoll polls @ [ActSleep 2])) + m"
      by blast
    have "\<forall>j. i \<le> j \<and> j < i + Suc m \<longrightarrow> ne_clk e j < dl"
      using m(2) False by (metis Suc_eq_plus1 add_Suc_shift le_less_Suc_eq le_neq_implies_less not_le
          not_less_eq_eq)
    then show ?thesis
      using IH m p f by (intro conjI exI [of _ "Suc m"]) (auto split: if_splits)
  qed
qed (auto intro: exI [of _ 0])

section \<open>The frames that are sent\<close>

lemma set_seq_again: "apos_frame_set_seq (apos_frame_set_seq b q) r = apos_frame_set_seq b r"
  by (simp add: apos_frame_set_seq_def put_u8_def)

lemma tx_now_frame:
  "tx_now h e b n bg = (ok, bg', acts) \<Longrightarrow> ActTx f \<in> set acts \<Longrightarrow> on_air f = take n b"
  by (auto simp: tx_now_def on_air_def Let_def split: prod.splits if_splits)

lemma send_once_frame:
  assumes "send_once e k n c = (ok, c', acts)"
  shows "ActTx f \<in> set acts \<Longrightarrow> on_air f = take n (apos_frame_set_seq (an_tx_buf (nc_node c)) (nc_seq c))"
    and "an_tx_buf (nc_node c') = apos_frame_set_seq (an_tx_buf (nc_node c)) (nc_seq c)"
    and "nc_seq c' = nc_seq c + 1"
    and "nc_node c'\<lparr>an_tx_buf := b\<rparr> = nc_node c\<lparr>an_tx_buf := b\<rparr>"
    and "c'\<lparr>nc_node := s, nc_seq := q, nc_guard := g\<rparr> = c\<lparr>nc_node := s, nc_seq := q, nc_guard := g\<rparr>"
  using assms by (auto simp: send_once_def Let_def dest: tx_now_frame split: prod.splits)

lemma send_with_retry_frame:
  assumes "send_with_retry e n c = (c', acts)"
  shows "ActTx f \<in> set acts \<Longrightarrow> \<exists>q. on_air f = take n (apos_frame_set_seq (an_tx_buf (nc_node c)) q)"
    and "nc_node c'\<lparr>an_tx_buf := b\<rparr> = nc_node c\<lparr>an_tx_buf := b\<rparr>"
    and "c'\<lparr>nc_node := s, nc_seq := q, nc_guard := g\<rparr> = c\<lparr>nc_node := s, nc_seq := q, nc_guard := g\<rparr>"
proof -
  obtain ok c1 a1 where 1: "send_once e 0 n c = (ok, c1, a1)" by (cases "send_once e 0 n c") auto
  obtain ok2 c2 a2 where 2: "send_once e 1 n c1 = (ok2, c2, a2)" by (cases "send_once e 1 n c1") auto
  note d = assms [unfolded send_with_retry_def 1 2 Let_def prod.case]
  show "ActTx f \<in> set acts \<Longrightarrow> \<exists>q. on_air f = take n (apos_frame_set_seq (an_tx_buf (nc_node c)) q)"
    using d send_once_frame(1,2) [OF 1] send_once_frame(1) [OF 2]
    by (auto simp: 2 set_seq_again split: if_splits) blast+
  show "nc_node c'\<lparr>an_tx_buf := b\<rparr> = nc_node c\<lparr>an_tx_buf := b\<rparr>"
    using d send_once_frame(4) [OF 1] send_once_frame(4) [OF 2] by (auto simp: 2 split: if_splits)
  show "c'\<lparr>nc_node := s, nc_seq := q, nc_guard := g\<rparr> = c\<lparr>nc_node := s, nc_seq := q, nc_guard := g\<rparr>"
    using d send_once_frame(5) [OF 1] send_once_frame(5) [OF 2] by (auto simp: 2 split: if_splits)
qed

text \<open>The buffer of 34 bytes takes every frame, so no build fails.\<close>

definition node_ok :: "apos_node \<Rightarrow> bool" where
  "node_ok s \<longleftrightarrow> length (an_tx_buf s) = 34 \<and> length (an_eui s) = 8"

lemma on_air_parsed:
  assumes "ActTx f \<in> set acts" and "send_with_retry e n c = (c', acts)"
    and "\<And>q. P (take n (apos_frame_set_seq (an_tx_buf (nc_node c)) q))"
  shows "P (on_air f)"
  using send_with_retry_frame(1) [OF assms(2,1)] assms(3) by auto

lemma send_with_retry_sends:
  assumes "nc_guard c = None" and "tx_start_ok (ne_tx e 0) \<or> tx_start_ok (ne_tx e 1)"
  shows "\<exists>f. ActTx f \<in> set (snd (send_with_retry e n c))"
  using assms by (auto simp: send_with_retry_def send_once_def tx_now_def guard_allows_def Let_def
      split: prod.splits)

text \<open>The handler of SURVEY_BEGIN, for a session and a board that can take part.\<close>

lemma survey_begin_effect:
  assumes "apos_frame_parse_survey_begin (Some buf) n True = Inr (session, w)" and "session \<noteq> 0"
    and "an_eui_ready (nc_node c)" and "node_ok (nc_node c)"
    and "handle_survey_begin e c buf n = (c', acts)"
  shows "an_session (nc_node c') = session \<and> an_deadline_ms (nc_node c') = ne_now e + uint w * 1000 \<and>
    (\<exists>k acts'. acts = ActSleep (30 * k) # acts' \<and> k < 8) \<and>
    (\<forall>f junk. ActTx f \<in> set acts \<longrightarrow>
      apos_frame_parse_enum_rsp (Some (on_air f @ junk)) 34 True =
        Inr (session, an_eui (nc_node c), cfg_position_valid (nc_cfg c), cfg_x (nc_cfg c),
             cfg_y (nc_cfg c), cfg_z (nc_cfg c))) \<and>
    (nc_guard c = None \<and> (tx_start_ok (ne_tx e 0) \<or> tx_start_ok (ne_tx e 1)) \<longrightarrow> (\<exists>f. ActTx f \<in> set acts))"
proof -
  let ?s = "nc_node c"
  define seen where "seen = (if session \<noteq> an_session ?s then 0 else an_begin_seen ?s)"
  define s1 where "s1 = window_open (ne_now e) session w (?s\<lparr>an_begin_seen := (if seen < 255 then seen + 1 else seen)\<rparr>)"
  define k where "k = unat (enum_slot (an_eui ?s) session seen)"
  let ?m = "(uwb_config_short_addr (nc_cfg c), 0 :: u16, session, an_eui ?s, cfg_position_valid (nc_cfg c),
    cfg_x (nc_cfg c), cfg_y (nc_cfg c), cfg_z (nc_cfg c))"
  have s1: "an_eui s1 = an_eui ?s" "an_tx_buf s1 = an_tx_buf ?s" "an_session s1 = session"
    "an_deadline_ms s1 = ne_now e + uint w * 1000"
    by (simp_all add: s1_def window_open_def)
  have ok: "length (an_eui ?s) = 8" "34 \<le> length (an_tx_buf ?s)"
    using assms(4) by (simp_all add: node_ok_def)
  obtain g where g: "apos_frame_enum_rsp_build (Some (an_tx_buf ?s)) 34 (uwb_config_short_addr (nc_cfg c)) 0 session
      (Some (an_eui ?s)) (cfg_position_valid (nc_cfg c)) (cfg_x (nc_cfg c)) (cfg_y (nc_cfg c)) (cfg_z (nc_cfg c))
      = (Inr 34, Some g)"
    using enum_rsp.build_fits [of ?m 34 "an_tx_buf ?s"] ok by auto
  obtain c1 a1 where r: "send_with_retry e 34 (c\<lparr>nc_node := s1\<lparr>an_tx_buf := g\<rparr>\<rparr>) = (c1, a1)"
    by (cases "send_with_retry e 34 (c\<lparr>nc_node := s1\<lparr>an_tx_buf := g\<rparr>\<rparr>)")
  have "handle_survey_begin e c buf n = (c1, ActSleep (k * 30) # a1)"
    using assms(1-3) g r s1(1,2)
    by (simp add: handle_survey_begin_def Let_def seen_def [symmetric] s1_def [symmetric] k_def)
  then have c': "c' = c1" "acts = ActSleep (k * 30) # a1" using assms(5) by auto
  have "k < 8"
    by (simp add: k_def enum_slot_def Let_def unat_mod flip: word_less_nat_alt)
  moreover have "nc_node c1\<lparr>an_tx_buf := g\<rparr> = s1\<lparr>an_tx_buf := g\<rparr>"
    using send_with_retry_frame(2) [OF r, of g] by simp
  then have "an_session (nc_node c1) = session" "an_deadline_ms (nc_node c1) = ne_now e + uint w * 1000"
    using s1(3,4) by (metis apos_node.surjective apos_node.update_convs(6) apos_node.select_convs)+
  moreover have "apos_frame_parse_enum_rsp (Some (on_air f @ junk)) 34 True =
        Inr (session, an_eui ?s, cfg_position_valid (nc_cfg c), cfg_x (nc_cfg c), cfg_y (nc_cfg c), cfg_z (nc_cfg c))"
    if "ActTx f \<in> set a1" for f junk
  proof (rule on_air_parsed [OF that r])
    show "apos_frame_parse_enum_rsp (Some (take 34 (apos_frame_set_seq (an_tx_buf (nc_node
        (c\<lparr>nc_node := s1\<lparr>an_tx_buf := g\<rparr>\<rparr>))) q) @ junk)) 34 True = Inr (session, an_eui ?s,
        cfg_position_valid (nc_cfg c), cfg_x (nc_cfg c), cfg_y (nc_cfg c), cfg_z (nc_cfg c))" for q
      using enum_rsp.received [of ?m 34 "an_tx_buf ?s" 34 g q junk] ok g
      by (simp add: apos_frame_set_seq_def)
  qed
  moreover have "\<exists>f. ActTx f \<in> set a1"
    if "nc_guard c = None \<and> (tx_start_ok (ne_tx e 0) \<or> tx_start_ok (ne_tx e 1))"
    using send_with_retry_sends [of "c\<lparr>nc_node := s1\<lparr>an_tx_buf := g\<rparr>\<rparr>" e 34] that r by simp
  ultimately show ?thesis
    unfolding c' by (auto simp: mult.commute)
qed

section \<open>The statistics of a batch\<close>

lemma batch_sqrt_bounds: "int sd * int sd \<le> v \<Longrightarrow>
    int (isqrt_loop v sd) * int (isqrt_loop v sd) \<le> v \<and>
    v < (int (isqrt_loop v sd) + 1) * (int (isqrt_loop v sd) + 1)"
proof (induction v sd rule: isqrt_loop.induct)
  case (1 v sd)
  show ?case
  proof (cases "int (sd + 1) * int (sd + 1) \<le> v")
    case True
    then show ?thesis using 1 by (subst (1 2 3 4) isqrt_loop.simps) simp
  next
    case False
    then show ?thesis using 1 by (subst (1 2 3 4) isqrt_loop.simps) (simp add: add.commute)
  qed
qed

lemma square_devs_small:
  "(\<And>x. x \<in> set ss \<Longrightarrow> \<bar>x - med\<bar> < 2147483648) \<Longrightarrow>
    square_devs ss med mean var =
      Some (var + sum_list (map (\<lambda>x. (x - mean) * (x - mean)) (filter (\<lambda>x. \<bar>x - med\<bar> \<le> 300) ss)))"
  by (induction ss arbitrary: var) (simp_all add: abs_dev_small)

lemma sum_list_le: "(\<And>x. x \<in> set xs \<Longrightarrow> g x \<le> (b :: int)) \<Longrightarrow> sum_list (map g xs) \<le> int (length xs) * b"
  by (induction xs) (auto simp: distrib_right intro!: add_mono)

lemma cdiv_pos: "0 \<le> a \<Longrightarrow> 0 < b \<Longrightarrow> cdiv a b = a div b"
  by (simp add: cdiv_def sgn_if)

lemma spread_variance:
  assumes "l \<noteq> []" and "\<forall>x\<in>set l. \<bar>x - med\<bar> \<le> (300 :: int)" and "med - 300 \<le> mean" and "mean \<le> med + 300"
  shows "0 \<le> sum_list (map (\<lambda>x. (x - mean) * (x - mean)) l)"
    and "sum_list (map (\<lambda>x. (x - mean) * (x - mean)) l) div int (length l) \<le> 360000"
proof -
  let ?var = "sum_list (map (\<lambda>x. (x - mean) * (x - mean)) l)"
  have "(x - mean) * (x - mean) \<le> 600 * 600" if "x \<in> set l" for x
  proof -
    have "\<bar>x - mean\<bar> \<le> 600" using that assms(2-4) by (auto simp: abs_le_iff)
    then have "\<bar>x - mean\<bar> * \<bar>x - mean\<bar> \<le> 600 * 600" by (intro mult_mono) simp_all
    then show ?thesis by (simp add: abs_mult_self_eq)
  qed
  then have "?var \<le> int (length l) * (600 * 600)" by (rule sum_list_le)
  then have "?var div int (length l) \<le> int (length l) * (600 * 600) div int (length l)"
    using assms(1) by (intro zdiv_mono1) simp_all
  then show "?var div int (length l) \<le> 360000" using assms(1) by simp
  show "0 \<le> ?var" by (rule sum_list_nonneg) auto
qed

lemma variance_root:
  fixes v :: int and n :: nat
  assumes "0 \<le> v" and "v \<le> 360000"
  defines "r \<equiv> if 1 < n then isqrt_loop v 0 else 0"
  shows "int r * int r \<le> v" and "1 < n \<longrightarrow> v < (int r + 1) * (int r + 1)"
    and "uint (if r > 65535 then 65535 else of_nat r :: u16) = int r"
proof -
  show q: "int r * int r \<le> v" "1 < n \<longrightarrow> v < (int r + 1) * (int r + 1)"
    using batch_sqrt_bounds [of 0 v] assms(1) by (auto simp: r_def)
  have "r \<le> 65535"
  proof (rule ccontr)
    assume "\<not> r \<le> 65535"
    then have "65536 * 65536 \<le> int r * int r" by (intro mult_mono) simp_all
    then show False using q(1) assms(2) by linarith
  qed
  then show "uint (if r > 65535 then 65535 else of_nat r :: u16) = int r" by (simp add: uint_nat unat_of_nat)
qed

text \<open>C35: what a batch reports describes the samples it kept: with 1 to 64 distances whose spread
  fits 32 bits the samples within 300 mm of the median are kept, at least one of them, the mean
  lies within 300 mm of the median and within the range of the samples, and the deviation is the
  integer square root of the variance of the kept samples about that mean.\<close>

theorem batch_stats_sound:
  fixes s :: "int list"
  defines "near \<equiv> filter (\<lambda>x. \<bar>x - median_sorted (sort_i32 s)\<bar> \<le> 300) s"
  assumes "s \<noteq> []" and "length s \<le> 64" and "\<forall>x\<in>set s. lo \<le> x \<and> x \<le> hi" and "hi - lo < 2147483648"
  shows "\<exists>mean sd kept. batch_stats s = Some (mean, sd, kept) \<and> unat kept = length near \<and> 0 < kept \<and>
    mean = cdiv (sum_list near) (int (length near)) \<and> lo \<le> mean \<and> mean \<le> hi \<and>
    \<bar>mean - median_sorted (sort_i32 s)\<bar> \<le> 300 \<and>
    uint sd * uint sd \<le> sum_list (map (\<lambda>x. (x - mean) * (x - mean)) near) div int (length near) \<and>
    (1 < kept \<longrightarrow> sum_list (map (\<lambda>x. (x - mean) * (x - mean)) near) div int (length near)
       < (uint sd + 1) * (uint sd + 1))"
proof -
  let ?med = "median_sorted (sort_i32 s)"
  define n where "n = length near"
  define mean where "mean = cdiv (sum_list near) (int n)"
  define var where "var = sum_list (map (\<lambda>x. (x - mean) * (x - mean)) near)"
  have med: "?med \<in> set s" by (rule median_mem [OF assms(2)])
  have dev: "\<bar>x - ?med\<bar> < 2147483648" if "x \<in> set s" for x
  proof -
    have "lo \<le> x" "x \<le> hi" "lo \<le> ?med" "?med \<le> hi" using assms(4) that med by auto
    then show ?thesis using assms(5) by linarith
  qed
  have "?med \<in> set near" using med by (simp add: near_def)
  then have ne: "near \<noteq> []" by auto
  then have n: "0 < n" "n \<le> 64"
    using order.trans [OF length_filter_le assms(3)] by (simp_all add: n_def near_def)
  have keep: "keep_near s ?med 300 0 0 = Some (sum_list near, n)"
    using keep_near_small [of s ?med 300 0 0] dev by (simp add: near_def n_def)
  have sq: "square_devs s ?med mean 0 = Some var"
    using square_devs_small [of s ?med mean 0] dev by (simp add: var_def near_def)
  have m: "lo \<le> mean" "mean \<le> hi" "?med - 300 \<le> mean" "mean \<le> ?med + 300"
    using cdiv_mean [OF ne, of lo hi] cdiv_mean [OF ne, of "?med - 300" "?med + 300"] assms(4)
    by (auto simp: mean_def n_def near_def abs_le_iff)
  have "\<forall>x\<in>set near. \<bar>x - ?med\<bar> \<le> 300" by (simp add: near_def)
  from spread_variance [OF ne this m(3,4)] have v: "0 \<le> var" "var div int n \<le> 360000" by (simp_all add: var_def n_def)
  define r where "r = (if n > 1 then isqrt_loop (var div int n) 0 else 0)"
  have "0 \<le> var div int n" using v(1) n(1) by (simp add: pos_imp_zdiv_nonneg_iff)
  note q = variance_root [OF this v(2), of n, folded r_def] and rw = variance_root(3) [OF this v(2), of n, folded r_def]
  have k: "unat (of_nat n :: u8) = n" using n by (intro unat_of_nat_u8) simp
  have b: "batch_stats s = Some (mean, if r > 65535 then 65535 else of_nat r, of_nat n)"
    using assms(2) keep sq n(1) v(1)
    by (simp add: batch_stats_def Let_def mean_def [symmetric] r_def cdiv_pos)
  show ?thesis
    using k n m q
    by (intro exI [of _ mean] exI [of _ "if r > 65535 then 65535 else of_nat r"] exI [of _ "of_nat n"])
      (simp add: b rw n_def [symmetric] mean_def [symmetric] var_def [symmetric] abs_le_iff
        word_less_nat_alt unat_gt_0)
qed

lemma batch_stats_sound_witness:
  "\<exists>mean sd kept. batch_stats [1000, 1010, 990, 5000] = Some (mean, sd, kept) \<and> unat kept = 3 \<and> mean = 1000"
proof -
  have near: "filter (\<lambda>x. \<bar>x - median_sorted (sort_i32 [1000, 1010, 990, 5000])\<bar> \<le> 300) [1000, 1010, 990, 5000]
      = [1000, 1010, 990 :: int]" by code_simp
  have "cdiv (sum_list [1000, 1010, 990]) (int (length [1000, 1010, 990 :: int])) = 1000"
    by (simp add: cdiv_def)
  then show ?thesis
    using batch_stats_sound [of "[1000, 1010, 990, 5000]" 990 5000, unfolded near] by auto
qed

text \<open>A RANGE_CMD that is obeyed runs one batch and reports it.\<close>

lemma range_cmd_batch:
  assumes "handle_range_cmd e c buf n = Some (c', acts)"
    and "apos_frame_parse_range_cmd (Some buf) n True = Inr (session, peer, nx)"
    and "fst (apos_node_window_open (ne_check e) (nc_node c))" and "session = an_session (nc_node c)"
    and "\<not> peer_refused (nc_cfg c) peer"
  obtains ss batch st a1 a2 where
    "range_loop e (ucast (peer AND 0xFF)) (ne_batch e + 700) 0 (min (unat nx) 64)
      (ss_initiator_enter (nc_ss c)) [] [] = Some (ss, batch, a1)"
    "batch_stats batch = Some st"
    "range_report e (c\<lparr>nc_node := window_refresh (ne_now e) (nc_node c), nc_ss := ss\<rparr>) session peer st = (c', a2)"
    "acts = a1 @ a2"
proof -
  have "apos_node_window_open (ne_check e) (nc_node c) = (True, nc_node c)"
    using assms(3) by (auto simp: apos_node_window_open_def split: if_splits)
  then obtain ss batch a1 st where l: "range_loop e (ucast (peer AND 0xFF)) (ne_batch e + 700) 0
      (min (unat nx) 64) (ss_initiator_enter (nc_ss c)) [] [] = Some (ss, batch, a1)" "batch_stats batch = Some st"
    and r: "(case range_report e (c\<lparr>nc_node := window_refresh (ne_now e) (nc_node c), nc_ss := ss\<rparr>) session peer st of
      (c, a2) \<Rightarrow> Some (c, a1 @ a2)) = Some (c', acts)"
    using assms(1,2,4,5)
    by (auto simp: handle_range_cmd_def Let_def bind_eq_Some_conv)
  from r obtain a2 where "range_report e (c\<lparr>nc_node := window_refresh (ne_now e) (nc_node c), nc_ss := ss\<rparr>)
      session peer st = (c', a2)" "acts = a1 @ a2"
    by (auto split: prod.splits)
  with l show thesis by (rule that)
qed

section \<open>Properties of the node\<close>

text \<open>C34: a production anchor polls only inside a survey: if handling a frame sends a single poll, the
  frame is a RANGE_CMD from the gateway, addressed to this board or to all, for the open session
  and before its deadline, and names another anchor's address; there are at most as many polls as
  the command asks for, never more than 64, and each belongs to an exchange begun within 700 ms of
  the start of the batch.\<close>

theorem node_polls_only_in_window:
  assumes "apos_node_on_rx e c buf n = Some (r, c', acts)" and "filter is_poll acts \<noteq> []"
  shows "r \<and> apos_frame_src buf = 0 \<and> apos_frame_dest buf \<in> {0xFFFF, uwb_config_short_addr (nc_cfg c)} \<and>
    an_session (nc_node c) \<noteq> 0 \<and> ne_check e \<le> an_deadline_ms (nc_node c) \<and>
    (\<exists>peer nx m. apos_frame_parse_range_cmd (Some buf) n True = Inr (an_session (nc_node c), peer, nx) \<and>
      1 \<le> peer \<and> peer \<le> 4 \<and> peer \<noteq> uwb_config_short_addr (nc_cfg c) \<and>
      length (filter is_poll acts) \<le> m \<and> m \<le> min (unat nx) 64 \<and> (\<forall>j<m. ne_clk e j < ne_batch e + 700))"
proof -
  have np: "filter is_poll (snd (handle_survey_begin e c buf n)) = []"
    "filter is_poll (snd (handle_setpos e c buf n)) = []"
    by (rule survey_begin_no_poll setpos_no_poll)+
  from assms np have h: "r" "apos_frame_src buf = 0" "apos_frame_dest buf \<in> {0xFFFF, uwb_config_short_addr (nc_cfg c)}"
    "handle_range_cmd e c buf n = Some (c', acts)"
    by (auto simp: apos_node_on_rx_def split: if_splits)
  from h(4) assms(2) obtain peer nx where p: "apos_frame_parse_range_cmd (Some buf) n True = Inr (an_session (nc_node c), peer, nx)"
    "an_session (nc_node c) \<noteq> 0" "ne_check e \<le> an_deadline_ms (nc_node c)" "\<not> peer_refused (nc_cfg c) peer"
    by (auto simp: handle_range_cmd_def apos_node_window_open_def Let_def split: sum.splits if_splits)
  have peer: "1 \<le> peer" "peer \<le> 4" "peer \<noteq> uwb_config_short_addr (nc_cfg c)"
    using p(4) by (auto simp: peer_refused_def word_le_nat_alt word_less_nat_alt)
  have "fst (apos_node_window_open (ne_check e) (nc_node c))"
    using p(2,3) by (simp add: apos_node_window_open_def)
  from range_cmd_batch [OF h(4) p(1) this refl p(4)] obtain ss batch st a1 c2 a2 where
    loop: "range_loop e (ucast (peer AND 0xFF)) (ne_batch e + 700) 0 (min (unat nx) 64)
      (ss_initiator_enter (nc_ss c)) [] [] = Some (ss, batch, a1)"
    and rep: "range_report e c2 (an_session (nc_node c)) peer st = (c', a2)" and a: "acts = a1 @ a2"
    by metis
  have a2: "filter is_poll a2 = []"
    using rep by (auto simp: range_report_def Let_def dest: send_with_retry_no_poll split: prod.splits sum.splits)
  show ?thesis
    using range_loop_bounds [OF loop] h(1-3) p(1-3) peer a a2 by auto
qed

definition sample_lost :: ss_env where
  "sample_lost = \<lparr>ss_tx = \<lparr>tx_start_ok = True, tx_sys = (\<lambda>_. 0), tx_clk = (\<lambda>_. 100), tx_now = 0\<rparr>,
     ss_rx_sys = (\<lambda>_. 0), ss_rx_clk = (\<lambda>_. 0), ss_rx_now = 0, ss_flen = 0, ss_rx = [],
     ss_poll_tx_ts = 0, ss_resp_rx_ts = 0, ss_clk_off = 0\<rparr>"

lemma sample_lost_range:
  "ss_initiator_range sample_lost ss p =
     (Some INT32_MIN,
      ss\<lparr>ss_tx_poll := ss_poll ss p, ss_poll_seq := ss_poll_seq ss + 1,
         ss_counts := (ss_counts ss)\<lparr>dg_tx_done_timeout := dg_tx_done_timeout (ss_counts ss) + 1\<rparr>\<rparr>,
      [\<lparr>tx_data = ss_poll ss p, tx_len = 13, tx_when = None\<rparr>])"
  by (simp add: ss_initiator_range_def sample_lost_def tx_completes_def wait_ok_def
      uwb_wait_for_sysstatus_lo_def wait_loop.simps Let_def)

definition sample_node_env :: node_env where
  "sample_node_env = \<lparr>ne_check = 500, ne_now = 500, ne_batch = 501, ne_clk = (\<lambda>i. 502 + int i), ne_xchg = (\<lambda>_. sample_lost),
     ne_hi = (\<lambda>_. 0), ne_tx = (\<lambda>_. \<lparr>tx_start_ok = True, tx_sys = (\<lambda>_. 0x80), tx_clk = (\<lambda>_. 0), tx_now = 0\<rparr>),
     ne_saver = reliable, ne_pad = [0, 0, 0]\<rparr>"

definition sample_node_ctx :: node_ctx where
  "sample_node_ctx = \<lparr>nc_node = \<lparr>an_deadline_ms = 1000, an_session = 7, an_begin_seen = 1, an_eui = [1, 2, 3, 4, 5, 6, 7, 8],
       an_eui_ready = True, an_tx_buf = replicate 34 0\<rparr>,
     nc_cfg = uwb_config_set_defaults, nc_active = uwb_config_set_defaults, nc_seq = 9, nc_guard = None,
     nc_ss = ss_boot, nc_flash = Map.empty\<rparr>"

lemma node_polls_only_in_window_witness:
  "\<exists>c' acts. apos_node_on_rx sample_node_env sample_node_ctx
      [0x41, 0x88, 0, 0xCA, 0xDE, 1, 0, 0, 0, 0xEB, 3, 7, 0, 2, 0, 1] 16 = Some (True, c', acts) \<and>
    length (filter is_poll acts) = 1 \<and> ne_check sample_node_env \<le> an_deadline_ms (nc_node sample_node_ctx)"
proof -
  let ?buf = "[0x41, 0x88, 0, 0xCA, 0xDE, 1, 0, 0, 0, 0xEB, 3, 7, 0, 2, 0, 1] :: u8 list"
  have apos: "apos_frame_is_apos (Some ?buf) 16" by code_simp
  have parse: "apos_frame_parse_range_cmd (Some ?buf) 16 True = Inr (7, 2, 1)" by code_simp
  have hdr: "apos_frame_src ?buf = 0" "apos_frame_dest ?buf = uwb_config_short_addr (nc_cfg sample_node_ctx)"
    "apos_frame_subtype ?buf = 3" "\<not> peer_refused (nc_cfg sample_node_ctx) 2"
    by (code_simp)+
  have "min (unat (1 :: u8)) 64 = Suc 0" by simp
  then obtain c' a where h: "handle_range_cmd sample_node_env sample_node_ctx ?buf 16 = Some (c', a)"
    and a: "\<exists>p a'. a = ActPoll p # ActSleep 2 # a'"
    using hdr(4) by (auto simp: handle_range_cmd_def parse apos_node_window_open_def sample_lost_range
        batch_stats_def sample_node_env_def sample_node_ctx_def case_prod_beta Let_def)
  have "apos_node_on_rx sample_node_env sample_node_ctx ?buf 16 = Some (True, c', a)"
    using apos hdr h by (simp add: apos_node_on_rx_def)
  moreover from a have "filter is_poll a \<noteq> []" by auto
  ultimately show ?thesis
    using node_polls_only_in_window [OF \<open>apos_node_on_rx _ _ _ _ = _\<close>] parse
    by (auto simp: sample_node_ctx_def Suc_le_eq le_Suc_eq)
qed

lemma received_survey_begin:
  assumes "apos_frame_survey_begin_build (Some b) cap src s w = (Inr n, Some g)" and "cap \<le> length b"
  shows "apos_hdr_is (take n (apos_frame_set_seq g sq) @ junk) n APOS_ADDR_BCAST src APOS_SUB_SURVEY_BEGIN"
    and "apos_frame_parse_survey_begin (Some (take n (apos_frame_set_seq g sq) @ junk)) n True = Inr (s, w)"
proof -
  have n: "n = 15" "length g = length b" "n \<le> cap"
    using survey_begin.build_result [of "(src, s, w)" cap b n g] assms by simp_all
  then have "take n (apos_frame_set_seq g sq) = take n (take n (apos_frame_set_seq g sq) @ junk)"
    using assms(2) by (simp add: apos_frame_set_seq_def)
  then show "apos_hdr_is (take n (apos_frame_set_seq g sq) @ junk) n APOS_ADDR_BCAST src APOS_SUB_SURVEY_BEGIN"
    by (rule apos_hdr_agree) (simp add: survey_begin_hdr [OF assms])
  show "apos_frame_parse_survey_begin (Some (take n (apos_frame_set_seq g sq) @ junk)) n True = Inr (s, w)"
    using survey_begin.received [where m = "(src, s, w)" and cap = cap and b = b and n = n and f = g
        and s = sq and junk = junk] assms by (simp add: apos_frame_set_seq_def)
qed

text \<open>Enumeration end to end: the SURVEY_BEGIN the gateway builds for a session other than 0, sent
  and received with anything behind it, opens the window of a board that has an identity for
  exactly the advertised seconds; after a wait of 30 ms times a slot below 8 the board answers, and
  whatever it sends, first attempt or retry, the gateway parses to the session, this board's EUI
  and its position. If the radio starts either attempt and no beacon is tracked, it does send.\<close>

theorem enumeration_answered:
  assumes "apos_frame_survey_begin_build (Some b) cap 0 session w = (Inr n, Some g)" and "cap \<le> length b"
    and "session \<noteq> 0" and "an_eui_ready (nc_node c)" and "node_ok (nc_node c)"
  shows "\<exists>c' k acts. apos_node_on_rx e c (take n (apos_frame_set_seq g sq) @ junk) n =
      Some (True, c', ActSleep (30 * k) # acts) \<and> k < 8 \<and>
    (\<forall>t. fst (apos_node_window_open t (nc_node c')) \<longleftrightarrow> t \<le> ne_now e + 1000 * uint w) \<and>
    (\<forall>f junk'. ActTx f \<in> set acts \<longrightarrow> apos_frame_parse_enum_rsp (Some (on_air f @ junk')) 34 True =
        Inr (session, an_eui (nc_node c), cfg_position_valid (nc_cfg c), cfg_x (nc_cfg c),
             cfg_y (nc_cfg c), cfg_z (nc_cfg c))) \<and>
    (nc_guard c = None \<and> (tx_start_ok (ne_tx e 0) \<or> tx_start_ok (ne_tx e 1)) \<longrightarrow> (\<exists>f. ActTx f \<in> set acts))"
proof -
  let ?buf = "take n (apos_frame_set_seq g sq) @ junk"
  note r = received_survey_begin [OF assms(1,2), of sq junk]
  obtain c' acts where h: "handle_survey_begin e c ?buf n = (c', acts)"
    by (cases "handle_survey_begin e c ?buf n")
  note fx = survey_begin_effect [OF r(2) assms(3-5) h]
  then obtain k acts' where a: "acts = ActSleep (30 * k) # acts'" "k < 8" by blast
  have "apos_node_on_rx e c ?buf n = Some (True, c', acts)"
    using r(1) h by (simp add: apos_node_on_rx_def apos_hdr_is_def)
  moreover have "\<forall>t. fst (apos_node_window_open t (nc_node c')) \<longleftrightarrow> t \<le> ne_now e + 1000 * uint w"
    using fx assms(3) by (auto simp: apos_node_window_open_def)
  ultimately show ?thesis using fx a by auto
qed

text \<open>The acknowledgement of a SETPOS that belongs to the session.\<close>

lemma received_setpos:
  assumes "apos_frame_setpos_build (Some b) cap src dest s x y z = (Inr n, Some g)" and "cap \<le> length b"
  shows "apos_hdr_is (take n (apos_frame_set_seq g sq) @ junk) n dest src APOS_SUB_SETPOS"
    and "apos_frame_parse_setpos (Some (take n (apos_frame_set_seq g sq) @ junk)) n True = Inr (s, x, y, z)"
proof -
  have n: "n = 25" "length g = length b" "n \<le> cap"
    using setpos.build_result [of "(src, dest, s, x, y, z)" cap b n g] assms by simp_all
  then have "take n (apos_frame_set_seq g sq) = take n (take n (apos_frame_set_seq g sq) @ junk)"
    using assms(2) by (simp add: apos_frame_set_seq_def)
  then show "apos_hdr_is (take n (apos_frame_set_seq g sq) @ junk) n dest src APOS_SUB_SETPOS"
    by (rule apos_hdr_agree) (simp add: setpos_hdr [OF assms])
  show "apos_frame_parse_setpos (Some (take n (apos_frame_set_seq g sq) @ junk)) n True = Inr (s, x, y, z)"
    using setpos.received [where m = "(src, dest, s, x, y, z)" and cap = cap and b = b and n = n and f = g
        and s = sq and junk = junk] assms by (simp add: apos_frame_set_seq_def)
qed

lemma setpos_effect:
  assumes "apos_frame_parse_setpos (Some buf) n True = Inr (an_session (nc_node c), x, y, z)"
    and "node_ok (nc_node c)" and "settings_backend (ne_saver e)"
  shows "\<exists>c' acts ok. handle_setpos e c buf n = (c', acts) \<and>
    cfg_pos (nc_cfg c') = (x, y, z, True) \<and> cfg_pos (nc_active c') = (x, y, z, True) \<and>
    nc_flash c' = (if ok then (nc_flash c)(''anchor/pos'' \<mapsto> stored_pos x y z 1 (ne_pad e)) else nc_flash c) \<and>
    (\<forall>f junk. ActTx f \<in> set acts \<longrightarrow>
       apos_frame_parse_setpos_ack (Some (on_air f @ junk)) 26 True = Inr (an_session (nc_node c), (x, y, z), ok) \<and>
       apos_hdr_is (on_air f @ junk) 26 UWB_ADDR_GATEWAY_RESERVED (uwb_config_short_addr (nc_cfg c)) APOS_SUB_SETPOS_ACK)"
proof -
  let ?ss = "an_session (nc_node c)"
  define cfg where "cfg = uwb_config_set_pos (nc_cfg c) x y z"
  define act where "act = uwb_config_set_pos (nc_active c) x y z"
  define s where "s = window_refresh (ne_now e) (nc_node c)"
  obtain rc f where sv: "uwb_store_save_pos (ne_saver e) (ne_pad e) act (nc_flash c) = (rc, f)"
    by (cases "uwb_store_save_pos (ne_saver e) (ne_pad e) act (nc_flash c)")
  have fl: "f = (if rc = None then (nc_flash c)(''anchor/pos'' \<mapsto> stored_pos x y z 1 (ne_pad e)) else nc_flash c)"
    using sv backend_cases [OF assms(3), of "''anchor/pos''" "stored_pos x y z 1 (ne_pad e)" "nc_flash c"]
    by (auto simp: uwb_store_save_pos_def act_def uwb_config_set_pos_def)
  have sb: "an_tx_buf s = an_tx_buf (nc_node c)" by (simp add: s_def window_refresh_def)
  have len: "34 \<le> length (an_tx_buf s)" using assms(2) by (simp add: node_ok_def sb)
  have adr: "uwb_config_short_addr cfg = uwb_config_short_addr (nc_cfg c)"
    by (simp add: cfg_def uwb_config_set_pos_def uwb_config_short_addr_def)
  let ?m = "(uwb_config_short_addr cfg, 0 :: u16, ?ss, cfg_x cfg, cfg_y cfg, cfg_z cfg, rc = None)"
  obtain a where a: "apos_frame_setpos_ack_build (Some (an_tx_buf s)) 34 (uwb_config_short_addr cfg) 0 ?ss
      (cfg_x cfg) (cfg_y cfg) (cfg_z cfg) (rc = None) = (Inr 26, Some a)" "length a = length (an_tx_buf s)"
    using setpos_ack.build_fits [of ?m 34 "an_tx_buf s"] len by auto
  define c1 where "c1 = c\<lparr>nc_cfg := cfg, nc_active := act, nc_flash := f, nc_node := s\<lparr>an_tx_buf := a\<rparr>\<rparr>"
  obtain ok c2 acts where o: "send_once e 0 26 c1 = (ok, c2, acts)" by (cases "send_once e 0 26 c1") auto
  have h: "handle_setpos e c buf n = (c2, acts)"
    unfolding handle_setpos_def assms(1) Let_def
    using a(1) o sv
    by (simp add: cfg_def [symmetric] act_def [symmetric] s_def [symmetric] c1_def [symmetric])
  have "c2\<lparr>nc_node := s, nc_seq := 0, nc_guard := None\<rparr> = c1\<lparr>nc_node := s, nc_seq := 0, nc_guard := None\<rparr>"
    by (rule send_once_frame(5) [OF o])
  then have "nc_cfg c2 = nc_cfg c1" "nc_active c2 = nc_active c1" "nc_flash c2 = nc_flash c1"
    by (metis node_ctx.ext_inject node_ctx.surjective node_ctx.update_convs(1,4,5))+
  then have eff: "nc_cfg c2 = cfg" "nc_active c2 = act" "nc_flash c2 = f" by (simp_all add: c1_def)
  have air: "apos_frame_parse_setpos_ack (Some (on_air h @ junk)) 26 True = Inr (?ss, (x, y, z), rc = None) \<and>
      apos_hdr_is (on_air h @ junk) 26 UWB_ADDR_GATEWAY_RESERVED (uwb_config_short_addr (nc_cfg c)) APOS_SUB_SETPOS_ACK"
    if "ActTx h \<in> set acts" for h junk
  proof -
    let ?b = "put_u8 a 2 (nc_seq c1)"
    have o: "on_air h = take 26 ?b"
      using send_once_frame(1) [OF o that] by (simp add: c1_def apos_frame_set_seq_def)
    have "take 26 ?b = take 26 (take 26 ?b @ junk)" using len a(2) by simp
    moreover have "apos_hdr_is ?b 26 0 (uwb_config_short_addr (nc_cfg c)) APOS_SUB_SETPOS_ACK"
      using setpos_ack_hdr [OF a(1) len] apos_hdr_seq [of a "nc_seq c1"] by (simp add: adr apos_frame_set_seq_def)
    ultimately have "apos_hdr_is (on_air h @ junk) 26 0 (uwb_config_short_addr (nc_cfg c)) APOS_SUB_SETPOS_ACK"
      unfolding o by (rule apos_hdr_agree)
    moreover have "apos_frame_parse_setpos_ack (Some (on_air h @ junk)) 26 True = Inr (?ss, (x, y, z), rc = None)"
      using setpos_ack.received [of ?m 34 "an_tx_buf s" 26 a "nc_seq c1" junk] len a o
      by (simp add: cfg_def uwb_config_set_pos_def)
    ultimately show ?thesis by simp
  qed
  show ?thesis
    using h eff fl air by (intro exI [of _ c2] exI [of _ acts] exI [of _ "rc = None"])
      (simp add: cfg_pos_def cfg_def act_def uwb_config_set_pos_def)
qed

text \<open>A SETPOS is applied and acknowledged truthfully: built by the gateway for this anchor and its
  session, sent and received, it sets the position in the loop's snapshot and in the singleton, and
  every acknowledgement sent is parsed to those coordinates and to whether the flash took them:
  if it says yes the flash holds them, if it says no the flash is as it was. A SETPOS of another
  session changes nothing and is not answered.\<close>

theorem setpos_acknowledged:
  assumes "apos_frame_setpos_build (Some b) cap 0 (uwb_config_short_addr (nc_cfg c)) session x y z = (Inr n, Some g)"
    and "cap \<le> length b" and "node_ok (nc_node c)" and "settings_backend (ne_saver e)"
  shows "\<exists>c' acts ok. apos_node_on_rx e c (take n (apos_frame_set_seq g sq) @ junk) n = Some (True, c', acts) \<and>
    (if session = an_session (nc_node c) then
       cfg_pos (nc_cfg c') = (x, y, z, True) \<and> cfg_pos (nc_active c') = (x, y, z, True) \<and>
       nc_flash c' = (if ok then (nc_flash c)(''anchor/pos'' \<mapsto> stored_pos x y z 1 (ne_pad e)) else nc_flash c) \<and>
       (\<forall>f junk'. ActTx f \<in> set acts \<longrightarrow>
          apos_frame_parse_setpos_ack (Some (on_air f @ junk')) 26 True = Inr (session, (x, y, z), ok))
     else c' = c \<and> acts = [])"
proof -
  let ?buf = "take n (apos_frame_set_seq g sq) @ junk"
  note r = received_setpos [OF assms(1,2), of sq junk]
  have rx: "apos_node_on_rx e c ?buf n = Some (True, handle_setpos e c ?buf n)"
    using r(1) by (simp add: apos_node_on_rx_def apos_hdr_is_def)
  show ?thesis
  proof (cases "session = an_session (nc_node c)")
    case False
    then show ?thesis using rx r(2) by (simp add: handle_setpos_def)
  next
    case True
    with r(2) have "apos_frame_parse_setpos (Some ?buf) n True = Inr (an_session (nc_node c), x, y, z)" by simp
    from setpos_effect [OF this assms(3,4)] rx True show ?thesis by (auto simp del: fun_upd_apply)
  qed
qed

lemma sample_node_ok: "node_ok (nc_node sample_node_ctx)" "an_eui_ready (nc_node sample_node_ctx)"
  by (simp_all add: sample_node_ctx_def node_ok_def)

lemma enumeration_answered_witness:
  "\<exists>c' k acts. apos_node_on_rx sample_node_env sample_node_ctx
      (take 15 (apos_frame_set_seq (the (snd (apos_frame_survey_begin_build (Some (replicate 34 0)) 34 0 12 30))) 4) @ [5]) 15 =
        Some (True, c', ActSleep (30 * k) # acts) \<and> k < 8 \<and> (\<exists>f. ActTx f \<in> set acts)"
proof -
  have b: "apos_frame_survey_begin_build (Some (replicate 34 0)) 34 0 12 30 =
      (Inr 15, Some (the (snd (apos_frame_survey_begin_build (Some (replicate 34 0)) 34 0 12 30))))"
    by (simp add: apos_frame_survey_begin_build_def apos_write_hdr_def Let_def)
  have "nc_guard sample_node_ctx = None" "tx_start_ok (ne_tx sample_node_env 0)"
    by (simp_all add: sample_node_ctx_def sample_node_env_def)
  with enumeration_answered [OF b _ _ sample_node_ok(2,1), of sample_node_env 4 "[5]"] show ?thesis
    by auto
qed

lemma setpos_acknowledged_witness:
  "\<exists>c' acts ok. apos_node_on_rx sample_node_env sample_node_ctx
      (take 25 (apos_frame_set_seq (the (snd (apos_frame_setpos_build (Some (replicate 34 0)) 34 0 1 7 1 2 3))) 4) @ [5]) 25 =
        Some (True, c', acts) \<and> cfg_pos (nc_cfg c') = (1, 2, 3, True)"
proof -
  have b: "apos_frame_setpos_build (Some (replicate 34 0)) 34 0 (uwb_config_short_addr (nc_cfg sample_node_ctx)) 7 1 2 3 =
      (Inr 25, Some (the (snd (apos_frame_setpos_build (Some (replicate 34 0)) 34 0 1 7 1 2 3))))"
    by (simp add: apos_frame_setpos_build_def apos_write_hdr_def sample_node_ctx_def uwb_config_set_defaults_def
        uwb_config_short_addr_def Let_def)
  have "an_session (nc_node sample_node_ctx) = 7" "settings_backend (ne_saver sample_node_env)"
    by (simp_all add: sample_node_ctx_def sample_node_env_def)
  with setpos_acknowledged [OF b _ sample_node_ok(1), of sample_node_env 4 "[5]"] show ?thesis
    by auto
qed

text \<open>The one gap in the window: a SETPOS that carries session 0 matches the "no session" of a closed
  window, so a board outside any survey stores the coordinates and answers.\<close>

lemma setpos_without_window:
  assumes "apos_frame_parse_setpos (Some buf) n True = Inr (0, x, y, z)" and "an_session (nc_node c) = 0"
  shows "\<not> fst (apos_node_window_open t (nc_node c)) \<and> cfg_pos (nc_cfg (fst (handle_setpos e c buf n))) = (x, y, z, True)"
proof -
  have k: "nc_cfg (fst (snd (send_once e k n c))) = nc_cfg c" for k n c
    by (simp add: send_once_def Let_def case_prod_beta)
  show ?thesis
    using assms by (auto simp: apos_node_window_open_def handle_setpos_def Let_def k cfg_pos_def
        uwb_config_set_pos_def split: prod.splits sum.splits)
qed

end
