(* ===== verification/UwbSlave.thy ===== *)
theory UwbSlave
  imports AposNode
begin

text \<open>
  SLAVE mode, src/uwb_slave.c. First the hand-over of receive events from the radio callbacks
  (system workqueue) to the main thread, as an interleaving of their memory accesses; then what
  the loop does with one received frame: the survey node first, and only if the frame is not its
  own the two responders and the beacon observer.
\<close>

section \<open>The hand-over\<close>

text \<open>The shared variables and the semaphore of limit 1.\<close>

record rx_shared =
  rx_status :: u32
  rx_len :: u16
  rx_pending :: bool
  rx_sem :: bool

definition cb_rx_ok :: "u32 \<Rightarrow> u16 \<Rightarrow> rx_shared \<Rightarrow> rx_shared" where
  "cb_rx_ok status datalength s =
     (if rx_pending s then s
      else s\<lparr>rx_status := status, rx_len := datalength, rx_pending := True, rx_sem := True\<rparr>)"

definition cb_rx_fail :: "u32 \<Rightarrow> rx_shared \<Rightarrow> rx_shared" where
  "cb_rx_fail status s =
     (if rx_pending s then s
      else s\<lparr>rx_status := status, rx_len := 0, rx_pending := True, rx_sem := True\<rparr>)"

text \<open>Where the main thread is in the loop's head: before the take, and after each of the accesses
  that follow it.\<close>

datatype rx_pc = AtTake | Taken | GotStatus u32 | GotLen u32 u16

text \<open>\<open>rx_taken\<close> and \<open>rx_read\<close> record the events a callback stored and those the main thread has
  read; they are not state of the program.\<close>

record rx_world =
  rx_mem :: rx_shared
  rx_main :: rx_pc
  rx_taken :: "(u32 \<times> u16) list"
  rx_read :: "(u32 \<times> u16) list"

definition rx_boot :: rx_world where
  "rx_boot = \<lparr>rx_mem = \<lparr>rx_status = 0, rx_len = 0, rx_pending = False, rx_sem = False\<rparr>,
     rx_main = AtTake, rx_taken = [], rx_read = []\<rparr>"

inductive rx_step :: "rx_world \<Rightarrow> rx_world \<Rightarrow> bool" where
  rx_cb_ok: "rx_step w (w\<lparr>rx_mem := cb_rx_ok st l (rx_mem w),
      rx_taken := rx_taken w @ (if rx_pending (rx_mem w) then [] else [(st, l)])\<rparr>)"
| rx_cb_fail: "rx_step w (w\<lparr>rx_mem := cb_rx_fail st (rx_mem w),
      rx_taken := rx_taken w @ (if rx_pending (rx_mem w) then [] else [(st, 0)])\<rparr>)"
| rx_take: "rx_main w = AtTake \<Longrightarrow> rx_sem (rx_mem w) \<Longrightarrow>
    rx_step w (w\<lparr>rx_main := Taken, rx_mem := (rx_mem w)\<lparr>rx_sem := False\<rparr>\<rparr>)"
| rx_get_status: "rx_main w = Taken \<Longrightarrow> rx_step w (w\<lparr>rx_main := GotStatus (rx_status (rx_mem w))\<rparr>)"
| rx_get_len: "rx_main w = GotStatus st \<Longrightarrow> rx_step w (w\<lparr>rx_main := GotLen st (rx_len (rx_mem w))\<rparr>)"
| rx_clear: "rx_main w = GotLen st l \<Longrightarrow>
    rx_step w (w\<lparr>rx_main := AtTake, rx_mem := (rx_mem w)\<lparr>rx_pending := False\<rparr>, rx_read := rx_read w @ [(st, l)]\<rparr>)"

inductive_cases rx_step_cases: "rx_step w w'"

inductive rx_reachable :: "rx_world \<Rightarrow> bool" where
  rx_start: "rx_reachable rx_boot"
| rx_next: "rx_reachable w \<Longrightarrow> rx_step w w' \<Longrightarrow> rx_reachable w'"

definition rx_ok :: "rx_world \<Rightarrow> bool" where
  "rx_ok w \<longleftrightarrow>
     (let m = rx_mem w in
      (rx_sem m \<longleftrightarrow> rx_pending m \<and> rx_main w = AtTake) \<and>
      (rx_main w \<noteq> AtTake \<longrightarrow> rx_pending m) \<and>
      (\<forall>st. rx_main w = GotStatus st \<longrightarrow> st = rx_status m) \<and>
      (\<forall>st l. rx_main w = GotLen st l \<longrightarrow> st = rx_status m \<and> l = rx_len m) \<and>
      rx_taken w = rx_read w @ (if rx_pending m then [(rx_status m, rx_len m)] else []))"

lemma rx_ok_step:
  assumes "rx_step w w'" and "rx_ok w" shows "rx_ok w'"
  using assms(1)
proof (rule rx_step_cases)
  fix st l
  assume "w' = w\<lparr>rx_mem := cb_rx_ok st l (rx_mem w),
      rx_taken := rx_taken w @ (if rx_pending (rx_mem w) then [] else [(st, l)])\<rparr>"
  then show ?thesis using assms(2) by (auto simp: rx_ok_def cb_rx_ok_def Let_def)
next
  fix st
  assume "w' = w\<lparr>rx_mem := cb_rx_fail st (rx_mem w),
      rx_taken := rx_taken w @ (if rx_pending (rx_mem w) then [] else [(st, 0)])\<rparr>"
  then show ?thesis using assms(2) by (auto simp: rx_ok_def cb_rx_fail_def Let_def)
qed (use assms(2) in \<open>auto simp: rx_ok_def Let_def\<close>)

lemma rx_reachable_ok: "rx_reachable w \<Longrightarrow> rx_ok w"
  by (induction rule: rx_reachable.induct) (simp add: rx_ok_def rx_boot_def, rule rx_ok_step)

section \<open>One received frame\<close>

abbreviation (input) DWT_INT_CIADONE_BIT_MASK :: u32 where "DWT_INT_CIADONE_BIT_MASK \<equiv> 0x400"

text \<open>The diagnostics the driver would return are arguments.\<close>

definition read_cir :: "u32 \<Rightarrow> u32 \<Rightarrow> u16 \<Rightarrow> u32 \<times> u16" where
  "read_cir status ipatov_power ipatov_accum =
     (if status AND DWT_INT_CIADONE_BIT_MASK = 0 then (0, 0) else (ipatov_power, ipatov_accum))"

text \<open>The result is the guard; the slot is only logged.\<close>

definition observe_beacon :: "u8 list \<Rightarrow> nat \<Rightarrow> u64 \<Rightarrow> beacon_guard \<Rightarrow> beacon_guard" where
  "observe_beacon buf len rx_ts g =
     (if \<not> uwb_frame_is_beacon (Some buf) len then g
      else
        (case uwb_frame_parse_beacon (Some buf) len of
           Inl _ \<Rightarrow> g
         | Inr (ver, ctr, slot_map, n_slots) \<Rightarrow>
             if n_slots > 11 then g
             else beacon_guard_beacon g (ucast (drop_bit 8 rx_ts))))"

record dbg_counts =
  db_rx_ok :: u32
  db_wave :: u32
  db_disc :: u32
  db_beacon :: u32
  db_apos :: u32
  db_other :: u32

definition dbg_count :: "u8 list \<Rightarrow> nat \<Rightarrow> dbg_counts \<Rightarrow> dbg_counts" where
  "dbg_count buf plen d =
     (let d = d\<lparr>db_rx_ok := db_rx_ok d + 1\<rparr> in
      if plen \<le> 9 then d\<lparr>db_other := db_other d + 1\<rparr>
      else if buf ! 9 = 0xE0 then d\<lparr>db_wave := db_wave d + 1\<rparr>
      else if buf ! 9 = 0xE2 then d\<lparr>db_disc := db_disc d + 1\<rparr>
      else if buf ! 9 = 0xE5 then d\<lparr>db_beacon := db_beacon d + 1\<rparr>
      else if buf ! 9 = 0xEB then d\<lparr>db_apos := db_apos d + 1\<rparr>
      else d\<lparr>db_other := db_other d + 1\<rparr>)"

text \<open>The loop's state: the configuration snapshot, sequence counter and guard are those of the
  node's context; the responders' statics are kept beside it.\<close>

record slave =
  sl_ctx :: node_ctx
  sl_resp :: responder
  sl_bguard :: beacon_guard

text \<open>What a pass of the loop sees: the frame's bytes in \<open>rx_buf\<close> and its timestamp, the
  diagnostics, the environment of the node, the uptime at which the window is asked about and the
  one of a refusal, and the radio at the two replies.\<close>

record slave_env =
  se_rx :: "u8 list"
  se_rx_ts :: u64
  se_power :: u32
  se_accum :: u16
  se_node :: node_env
  se_window :: int
  se_uptime :: int
  se_wave_tx :: tx_env
  se_disc_tx :: tx_env
  se_out :: "u8 list"

datatype slave_act = SlNode node_act | SlWave response | SlDisc response

definition uwb_slave_boot :: "u8 list option \<Rightarrow> uwb_config \<Rightarrow> slave \<Rightarrow> slave" where
  "uwb_slave_boot dev cfg s =
     s\<lparr>sl_ctx := (sl_ctx s)\<lparr>nc_node := apos_node_init dev (nc_node (sl_ctx s)), nc_cfg := cfg\<rparr>,
       sl_bguard := beacon_guard_init (UUS_TO_HI32 195000) (UUS_TO_HI32 1500) (UUS_TO_HI32 1500)\<rparr>"

text \<open>One pass after the take; \<open>None\<close> is the undefined arithmetic of a ranging batch.\<close>

definition slave_on_frame :: "slave_env \<Rightarrow> u32 \<Rightarrow> u16 \<Rightarrow> slave \<Rightarrow> (slave \<times> slave_act list) option" where
  "slave_on_frame e status rlen s =
     (let flen = unat rlen in
      if flen \<le> FCS_LEN \<or> flen > RX_BUF_LEN then Some (s, [])
      else
        let (cir_power, cir_quality) = read_cir status (se_power e) (se_accum e);
            buf = se_rx e;
            plen = flen - FCS_LEN
        in
        (case apos_node_on_rx (se_node e) ((sl_ctx s)\<lparr>nc_guard := Some (sl_bguard s)\<rparr>) buf plen of
           None \<Rightarrow> None
         | Some (True, c, acts) \<Rightarrow>
             Some (s\<lparr>sl_ctx := c, sl_bguard := the (nc_guard c)\<rparr>, map SlNode acts)
         | Some (False, c, acts) \<Rightarrow>
             let cfg = nc_cfg c;
                 (isopen, node) = apos_node_window_open (se_window e) (nc_node c);
                 r = (sl_resp s)\<lparr>rsp_seq := nc_seq c, rsp_guard := Some (sl_bguard s)\<rparr>;
                 (r, wave) = anchor_respond_wave_poll (se_wave_tx e) (se_uptime e) r buf plen (se_rx_ts e) cfg isopen;
                 (r, disc) = anchor_respond_discovery (se_disc_tx e) r (se_out e) buf plen (se_rx_ts e) cfg
                   cir_power cir_quality;
                 g = observe_beacon buf plen (se_rx_ts e) (the (rsp_guard r))
             in Some (s\<lparr>sl_ctx := c\<lparr>nc_node := node, nc_seq := rsp_seq r\<rparr>, sl_resp := r, sl_bguard := g\<rparr>,
                      [SlWave wave, SlDisc disc])))"

section \<open>Who answers\<close>

lemma wave_type: "wave_for_us cfg buf n \<Longrightarrow> n \<le> length buf \<Longrightarrow> buf ! 9 = 0xE0"
proof -
  assume "wave_for_us cfg buf n" "n \<le> length buf"
  then have "take 7 (drop 3 buf) = take 7 (drop 3 rx_poll_ref)" "11 \<le> length buf"
    by (auto simp: wave_for_us_def split: if_splits)
  moreover have "take 7 (drop 3 rx_poll_ref) ! 6 = 0xE0" by (simp add: rx_poll_ref_def)
  moreover have "take 7 (drop 3 buf) ! 6 = buf ! 9" using \<open>11 \<le> length buf\<close> by simp
  ultimately show "buf ! 9 = 0xE0" by metis
qed

lemma disc_type: "uwb_frame_is_discovery (Some buf) n \<Longrightarrow> buf ! 9 = 0xE2"
  by (simp add: uwb_frame_is_discovery_def)

lemma beacon_type: "uwb_frame_is_beacon (Some buf) n \<Longrightarrow> buf ! 9 = 0xE5"
  by (simp add: uwb_frame_is_beacon_def)

lemma not_for_us: "\<not> wave_for_us cfg buf n \<Longrightarrow> anchor_respond_wave_poll e now r buf n ts cfg al = (r, Ignored)"
  by (simp add: anchor_respond_wave_poll_def)

lemma not_discovery: "\<not> uwb_frame_is_discovery (Some buf) n \<Longrightarrow>
    anchor_respond_discovery e r o0 buf n ts cfg p q = (r, Ignored)"
  by (simp add: anchor_respond_discovery_def)

lemma not_beacon: "\<not> uwb_frame_is_beacon (Some buf) n \<Longrightarrow> observe_beacon buf n ts g = g"
  by (simp add: observe_beacon_def)

lemma apos_false: "apos_node_on_rx e c buf n = Some (False, c', acts) \<Longrightarrow> c' = c \<and> acts = [] \<and> \<not> apos_frame_is_apos (Some buf) n"
  by (auto simp: apos_node_on_rx_def split: if_splits)

text \<open>A pass of the loop, by what the frame was.\<close>

lemma slave_on_frame_cases:
  assumes "slave_on_frame e st l s = Some (s', acts)"
  obtains (empty) "acts = []" "s' = s"
  | (node) c a where "apos_node_on_rx (se_node e) ((sl_ctx s)\<lparr>nc_guard := Some (sl_bguard s)\<rparr>) (se_rx e) (unat l - 2) = Some (True, c, a)"
      "acts = map SlNode a" "s' = s\<lparr>sl_ctx := c, sl_bguard := the (nc_guard c)\<rparr>" "unat l \<le> 64"
  | (others) r0 r1 wave r2 disc al where "\<not> apos_frame_is_apos (Some (se_rx e)) (unat l - 2)" "2 < unat l" "unat l \<le> 64"
      "r0 = (sl_resp s)\<lparr>rsp_seq := nc_seq (sl_ctx s), rsp_guard := Some (sl_bguard s)\<rparr>"
      "anchor_respond_wave_poll (se_wave_tx e) (se_uptime e) r0 (se_rx e) (unat l - 2) (se_rx_ts e)
         (nc_cfg (sl_ctx s)) al = (r1, wave)"
      "anchor_respond_discovery (se_disc_tx e) r1 (se_out e) (se_rx e) (unat l - 2) (se_rx_ts e)
         (nc_cfg (sl_ctx s)) (fst (read_cir st (se_power e) (se_accum e))) (snd (read_cir st (se_power e) (se_accum e))) = (r2, disc)"
      "acts = [SlWave wave, SlDisc disc]"
      "sl_bguard s' = observe_beacon (se_rx e) (unat l - 2) (se_rx_ts e) (the (rsp_guard r2))"
      "al = fst (apos_node_window_open (se_window e) (nc_node (sl_ctx s)))"
proof (cases "unat l \<le> 2 \<or> unat l > 64")
  case True
  then show thesis using assms empty by (auto simp: slave_on_frame_def)
next
  case False
  then obtain b c a where x: "apos_node_on_rx (se_node e) ((sl_ctx s)\<lparr>nc_guard := Some (sl_bguard s)\<rparr>) (se_rx e)
      (unat l - 2) = Some (b, c, a)"
    using assms by (auto simp: slave_on_frame_def Let_def case_prod_beta split: option.splits)
  show thesis
  proof (cases b)
    case True
    then show thesis using assms False x node by (auto simp: slave_on_frame_def Let_def case_prod_beta)
  next
    case b: False
    from x b have "apos_node_on_rx (se_node e) ((sl_ctx s)\<lparr>nc_guard := Some (sl_bguard s)\<rparr>) (se_rx e)
      (unat l - 2) = Some (False, c, a)" by simp
    note af = apos_false [OF this]
    show thesis
      using assms False x b af
      by (intro others [OF _ _ _ refl prod.collapse [symmetric] prod.collapse [symmetric]])
        (auto simp: slave_on_frame_def Let_def case_prod_beta)
  qed
qed

lemma wave_guard:
  assumes "anchor_respond_wave_poll e now r buf n ts cfg al = (r', wave)"
  shows "wave = Ignored \<Longrightarrow> r' = r"
    and "wave = Tried v f \<Longrightarrow> \<exists>t. tx_when f = Some t \<and> fst (guard_allows (rsp_guard r) t)"
  using assms wave_tried(3,5) [of e now r buf n ts cfg al v f]
  by (auto simp: anchor_respond_wave_poll_def log_refusal_def Let_def split: prod.splits if_splits)

lemma disc_guard:
  assumes "anchor_respond_discovery e r o0 buf n ts cfg p q = (r', disc)"
  shows "disc = Ignored \<Longrightarrow> r' = r"
    and "disc = Tried v f \<Longrightarrow> \<exists>t. tx_when f = Some t \<and> fst (guard_allows (rsp_guard r) t)"
  using assms
  by (auto simp: anchor_respond_discovery_def tx_delayed_def Let_def split: prod.splits sum.splits if_splits)

text \<open>A frame is answered by at most one of the responders, and a beacon by none.\<close>

lemma slave_exclusive:
  assumes "wave_for_us cfg buf n \<longrightarrow> n \<le> length buf"
  shows "wave_for_us cfg buf n \<Longrightarrow> \<not> uwb_frame_is_discovery (Some buf) n \<and> \<not> uwb_frame_is_beacon (Some buf) n"
    and "uwb_frame_is_discovery (Some buf) n \<Longrightarrow> \<not> uwb_frame_is_beacon (Some buf) n"
  using assms wave_type [of cfg buf n] disc_type [of buf n] beacon_type [of buf n] by auto

lemma beacon_observed:
  assumes "uwb_frame_parse_beacon (Some buf) n = Inr m"
  shows "observe_beacon buf n ts g = beacon_guard_beacon g (ucast (drop_bit 8 ts))"
    and "\<not> apos_frame_is_apos (Some buf) n" and "\<not> uwb_frame_is_discovery (Some buf) n"
    and "uwb_frame_is_beacon (Some buf) n"
proof -
  have b: "uwb_frame_is_beacon (Some buf) n" "n \<le> 37"
    using assms by (auto simp: uwb_frame_parse_beacon_def uwb_frame_is_beacon_def dest: is_valid_bounds split: if_splits)
  then have "(n - 15) div 2 \<le> 11" by simp
  then have "(of_nat ((n - 15) div 2) :: u8) \<le> 11"
    by (simp add: word_le_nat_alt unat_of_nat)
  then show "observe_beacon buf n ts g = beacon_guard_beacon g (ucast (drop_bit 8 ts))"
    using assms b by (auto simp: observe_beacon_def uwb_frame_parse_beacon_def Let_def split: if_splits)
  show "\<not> apos_frame_is_apos (Some buf) n" "\<not> uwb_frame_is_discovery (Some buf) n" "uwb_frame_is_beacon (Some buf) n"
    using b beacon_type [OF b(1)] disc_type [of buf n] by (auto simp: apos_frame_is_apos_def split: if_splits)
qed

lemma slave_beacon:
  assumes "slave_on_frame e st l s = Some (s', acts)" and "2 < unat l" and "unat l \<le> length (se_rx e)"
    and "unat l \<le> 64" and "uwb_frame_parse_beacon (Some (se_rx e)) (unat l - 2) = Inr m"
  shows "sl_bguard s' = beacon_guard_beacon (sl_bguard s) (ucast (drop_bit 8 (se_rx_ts e)))"
  using assms(1)
proof (cases rule: slave_on_frame_cases)
  case empty
  then show ?thesis using assms(1,2,4,5) beacon_observed(2) [OF assms(5)]
    by (auto simp: slave_on_frame_def Let_def case_prod_beta apos_node_on_rx_def)
next
  case (node c a)
  then show ?thesis using beacon_observed(2) [OF assms(5)] by (simp add: apos_node_on_rx_def)
next
  case (others r0 r1 wave r2 disc al)
  have "\<not> wave_for_us (nc_cfg (sl_ctx s)) (se_rx e) (unat l - 2)"
    using slave_exclusive(1) beacon_observed(4) [OF assms(5)] assms(3) by (metis diff_le_self order.trans)
  then have "r1 = r0" using others(5) not_for_us by simp
  moreover have "r2 = r1" using others(6) not_discovery [OF beacon_observed(3) [OF assms(5)]] by simp
  ultimately show ?thesis using others(4,8) beacon_observed(1) [OF assms(5)] by simp
qed

text \<open>A delayed reply was allowed by the guard the frame found.\<close>

lemma slave_reply_allowed:
  assumes "slave_on_frame e st l s = Some (s', acts)" and "unat l \<le> length (se_rx e)"
    and "SlWave (Tried v f) \<in> set acts \<or> SlDisc (Tried v f) \<in> set acts"
  shows "\<exists>t. tx_when f = Some t \<and> fst (beacon_guard_tx_allowed (sl_bguard s) t)"
  using assms(1)
proof (cases rule: slave_on_frame_cases)
  case (others r0 r1 wave r2 disc al)
  have ga: "fst (guard_allows (rsp_guard r0) t) = fst (beacon_guard_tx_allowed (sl_bguard s) t)" for t
    using others(4) by (simp add: guard_allows_def case_prod_beta Let_def)
  show ?thesis
  proof (cases "wave = Tried v f")
    case True
    then show ?thesis using wave_guard(2) [OF others(5)] ga by auto
  next
    case False
    then have d: "disc = Tried v f" using assms(3) others(7) by auto
    then have "uwb_frame_is_discovery (Some (se_rx e)) (unat l - 2)"
      using others(6) not_discovery by fastforce
    then have "\<not> wave_for_us (nc_cfg (sl_ctx s)) (se_rx e) (unat l - 2)"
      using slave_exclusive(1) assms(2) by (metis diff_le_self order.trans)
    then have "r1 = r0" using others(5) not_for_us by simp
    then show ?thesis using disc_guard(2) [OF others(6) d] ga by auto
  qed
qed (use assms(3) in auto)

section \<open>Properties\<close>




definition sample_slave :: slave where
  "sample_slave = \<lparr>sl_ctx = sample_node_ctx\<lparr>nc_cfg := uwb_config_set_pos uwb_config_set_defaults 1 2 0\<rparr>,
     sl_resp = \<lparr>tx_resp_msg = tx_resp_boot, last_ms = 0, suppressed = 0, rsp_seq = 0, rsp_guard = None\<rparr>,
     sl_bguard = beacon_guard_init 49920000 384000 384000\<rparr>"

definition sample_rx :: "u8 list \<Rightarrow> u64 \<Rightarrow> slave_env" where
  "sample_rx buf ts = \<lparr>se_rx = buf, se_rx_ts = ts, se_power = 0, se_accum = 0, se_node = sample_node_env,
     se_window = 0, se_uptime = 0, se_wave_tx = sample_tx, se_disc_tx = sample_tx, se_out = replicate 20 0\<rparr>"

definition beacon_bytes :: "u8 list" where
  "beacon_bytes = [0x41, 0x88, 0, 0xCA, 0xDE, 0xFF, 0xFF, 0, 0, 0xE5, 1, 5, 0, 0, 0, 0, 0]"

definition poll_bytes :: "u8 list" where
  "poll_bytes = [0x41, 0x88, 0, 0xCA, 0xDE, 0x57, 0x41, 0x56, 0x45, 0xE0, 1, 0, 0]"

lemma sample_pass:
  "\<not> apos_frame_is_apos (Some buf) (unat l - 2) \<Longrightarrow> 2 < unat l \<Longrightarrow> unat l \<le> 64 \<Longrightarrow>
    \<not> wave_for_us (nc_cfg (sl_ctx s)) buf (unat l - 2) \<Longrightarrow> \<not> uwb_frame_is_discovery (Some buf) (unat l - 2) \<Longrightarrow>
    \<exists>s'. slave_on_frame (sample_rx buf ts) st l s = Some (s', [SlWave Ignored, SlDisc Ignored]) \<and>
      nc_cfg (sl_ctx s') = nc_cfg (sl_ctx s)"
  by (simp add: slave_on_frame_def apos_node_on_rx_def sample_rx_def not_for_us not_discovery
      case_prod_beta Let_def)

lemma wave_reply_when:
  "snd (anchor_respond_wave_poll e now r buf n ts cfg al) = Tried v f \<Longrightarrow> tx_when f = Some (reply_time ts 2000)"
  using wave_tried(5) [of e now r buf n ts cfg al v f] by auto

lemma sample_reply:
  assumes "\<not> apos_frame_is_apos (Some buf) (unat l - 2)" and "2 < unat l" and "unat l \<le> 64"
    and "wave_for_us (nc_cfg (sl_ctx s)) buf (unat l - 2)" and "cfg_position_valid (nc_cfg (sl_ctx s))"
    and "fst (beacon_guard_tx_allowed (sl_bguard s) (reply_time ts 2000))"
  shows "\<exists>s' v f d. slave_on_frame (sample_rx buf ts) st l s = Some (s', [SlWave (Tried v f), SlDisc d]) \<and>
    tx_when f = Some (reply_time ts 2000)"
proof -
  let ?r = "(sl_resp s)\<lparr>rsp_seq := nc_seq (sl_ctx s), rsp_guard := Some (sl_bguard s)\<rparr>"
  have "fst (guard_allows (rsp_guard ?r) (reply_time ts 2000))"
    using assms(6) by (simp add: guard_allows_def case_prod_beta Let_def)
  then have "\<exists>v f. snd (anchor_respond_wave_poll sample_tx 0 ?r buf (unat l - 2) ts (nc_cfg (sl_ctx s)) al) = Tried v f \<and>
      tx_when f = Some (reply_time ts 2000)" for al
    using wave_answers [of "nc_cfg (sl_ctx s)" buf "unat l - 2" al ?r ts sample_tx 0] assms(4,5) wave_reply_when
    by blast
  then show ?thesis
    using assms(1-3) by (simp add: slave_on_frame_def apos_node_on_rx_def sample_rx_def case_prod_beta Let_def)
qed


end
