(* ===== verification/NetStore.thy ===== *)
theory NetStore
  imports Settings DevConfig
begin

text \<open>
  Persistence of the network configuration, src/net_store.c: strings stored with their NUL under
  ''net'', and the port. \<open>load_str\<close> puts every string through the validating setter. Each field
  is an instance of \<open>stored_field\<close>.
\<close>

section \<open>C strings in memory\<close>

definition byte_of :: "char \<Rightarrow> u8" where
  "byte_of c = of_nat (of_char c)"

definition char_of_byte :: "u8 \<Rightarrow> char" where
  "char_of_byte b = char_of (unat b)"

text \<open>The bytes of a string with its terminator, and the string that starts at a buffer.\<close>

definition c_bytes :: "string \<Rightarrow> u8 list" where
  "c_bytes s = map byte_of s @ [0]"

definition c_str :: "u8 list \<Rightarrow> string" where
  "c_str bs = map char_of_byte (takeWhile (\<lambda>b. b \<noteq> 0) bs)"

definition c_string :: "string \<Rightarrow> bool" where
  "c_string s \<longleftrightarrow> list_all (\<lambda>c. of_char c \<noteq> (0 :: nat)) s"

lemma of_char_256: "(of_char c :: nat) < 256"
  by (metis mod_less_divisor of_char_mod_256 zero_less_numeral)

lemma char_byte [simp]: "char_of_byte (byte_of c) = c"
  using of_char_256 [of c] by (simp add: char_of_byte_def byte_of_def)

lemma byte_of_0: "byte_of c = 0 \<longleftrightarrow> of_char c = (0 :: nat)"
  using of_char_256 [of c] by (simp add: byte_of_def)

lemma c_str_bytes: "c_string s \<Longrightarrow> c_str (c_bytes s) = s"
  by (induction s) (simp_all add: c_str_def c_bytes_def c_string_def byte_of_0)

lemma length_c_bytes [simp]: "length (c_bytes s) = length s + 1"
  by (simp add: c_bytes_def)

section \<open>Loading\<close>

text \<open>\<open>scratch[NET_PSK_MAX + 2]\<close>; its last byte read is overwritten by the terminator.\<close>

definition load_str ::
  "(net_config \<Rightarrow> string option \<Rightarrow> bool \<times> net_config) \<Rightarrow> net_config \<Rightarrow> nat \<Rightarrow> reader
     \<Rightarrow> errno option \<times> net_config" where
  "load_str apply' c len rd =
     (if len = 0 \<or> len > NET_PSK_MAX + 2 then (Some EINVAL, c)
      else
        (case rd len of
           None \<Rightarrow> (Some EINVAL, c)
         | Some bs \<Rightarrow>
             if length bs \<noteq> len then (Some EINVAL, c)
             else let scratch = bs[len - 1 := 0]
                  in (None, snd (apply' c (Some (c_str scratch))))))"

definition apply_broker_host :: "net_config \<Rightarrow> string option \<Rightarrow> bool \<times> net_config" where
  "apply_broker_host c host = net_config_set_broker c host (ucast (net_port c))"

definition net_settings_set :: "net_config handler" where
  "net_settings_set cfg key len rd =
     (if key = ''ssid'' then load_str net_config_set_ssid cfg len rd
      else if key = ''psk'' then load_str net_config_set_psk cfg len rd
      else if key = ''broker'' then load_str apply_broker_host cfg len rd
      else if key = ''user'' then load_str net_config_set_user cfg len rd
      else if key = ''mqttpass'' then load_str net_config_set_mqtt_pass cfg len rd
      else if key = ''port'' then
        if len \<noteq> 2 then (Some EINVAL, cfg)
        else
          (case rd 2 of
             None \<Rightarrow> (Some EINVAL, cfg)
           | Some bs \<Rightarrow>
               if length bs \<noteq> 2 then (Some EINVAL, cfg)
               else if get_u16 bs 0 = 0 then (None, cfg)
               else (None, cfg\<lparr>net_port := get_u16 bs 0\<rparr>))
      else (None, cfg))"

section \<open>Saving\<close>

definition net_store_save_ssid :: "saver \<Rightarrow> net_config \<Rightarrow> flash \<Rightarrow> errno option \<times> flash" where
  "net_store_save_ssid sv c f = sv ''net/ssid'' (c_bytes (net_ssid c)) f"

definition net_store_save_psk :: "saver \<Rightarrow> net_config \<Rightarrow> flash \<Rightarrow> errno option \<times> flash" where
  "net_store_save_psk sv c f = sv ''net/psk'' (c_bytes (net_psk c)) f"

definition net_store_save_broker :: "saver \<Rightarrow> net_config \<Rightarrow> flash \<Rightarrow> errno option \<times> flash" where
  "net_store_save_broker sv c f =
     (let (first, f) = sv ''net/broker'' (c_bytes (net_broker c)) f;
          (ret, f) = sv ''net/port'' (le16 (net_port c)) f
      in (if first \<noteq> None then first else ret, f))"

definition net_store_save_user :: "saver \<Rightarrow> net_config \<Rightarrow> flash \<Rightarrow> errno option \<times> flash" where
  "net_store_save_user sv c f = sv ''net/user'' (c_bytes (net_mqtt_user c)) f"

definition net_store_save_mqtt_pass :: "saver \<Rightarrow> net_config \<Rightarrow> flash \<Rightarrow> errno option \<times> flash" where
  "net_store_save_mqtt_pass sv c f = sv ''net/mqttpass'' (c_bytes (net_mqtt_pass c)) f"

text \<open>All five are attempted; the first failure is reported.\<close>

definition net_store_save_all :: "saver \<Rightarrow> net_config \<Rightarrow> flash \<Rightarrow> errno option \<times> flash" where
  "net_store_save_all sv c f =
     (let (ret, f) = net_store_save_ssid sv c f;
          first = ret;
          (ret, f) = net_store_save_psk sv c f;
          first = (if ret \<noteq> None \<and> first = None then ret else first);
          (ret, f) = net_store_save_broker sv c f;
          first = (if ret \<noteq> None \<and> first = None then ret else first);
          (ret, f) = net_store_save_user sv c f;
          first = (if ret \<noteq> None \<and> first = None then ret else first);
          (ret, f) = net_store_save_mqtt_pass sv c f;
          first = (if ret \<noteq> None \<and> first = None then ret else first)
      in (first, f))"

section \<open>The fields\<close>

text \<open>A stored string is taken if it was readable and fits the field.\<close>

definition str_upd :: "nat \<Rightarrow> nat \<Rightarrow> u8 list \<Rightarrow> string \<Rightarrow> string" where
  "str_upd min_len cap v old =
     (let s = c_str (v[length v - 1 := 0]) in
      if v \<noteq> [] \<and> length v \<le> 65 \<and> min_len \<le> length s \<and> length s \<le> cap then s else old)"

definition port_upd :: "u8 list \<Rightarrow> u16 \<Rightarrow> u16" where
  "port_upd v old = (if length v = 2 \<and> get_u16 v 0 \<noteq> 0 then get_u16 v 0 else old)"

lemma load_str_flash:
  "load_str apply' c (length v) (flash_reader v) =
     (if v = [] \<or> length v > 65 then (Some EINVAL, c)
      else (None, snd (apply' c (Some (c_str (v[length v - 1 := 0]))))))"
  by (auto simp: load_str_def flash_reader_def)

lemma port_ucast: "net_port c \<noteq> 0 \<Longrightarrow> apply_broker_host c h =
    (case set_str NET_BROKER_MAX h 1 of None \<Rightarrow> (False, c) | Some v \<Rightarrow> (True, c\<lparr>net_broker := v\<rparr>))"
proof -
  assume "net_port c \<noteq> 0"
  moreover have "unat (net_port c) < 65536" using unsigned_less [of "net_port c"] by simp
  ultimately have "(ucast (net_port c) :: u32) \<noteq> 0" "\<not> (65535 :: u32) < ucast (net_port c)"
    by (simp_all add: word_less_nat_alt unsigned_ucast_eq take_bit_nat_eq_self flip: unat_eq_0)
  moreover have "(ucast (ucast (net_port c) :: u32) :: u16) = net_port c"
    by (rule bit_word_eqI) (auto simp: bit_simps)
  ultimately show ?thesis
    by (simp add: apply_broker_host_def net_config_set_broker_def split: option.split)
qed

lemma net_ok_port: "net_config_ok c \<Longrightarrow> net_port c \<noteq> 0"
  by (simp add: net_config_ok_def)

lemmas net_field_defs = net_settings_set_def load_str_flash str_upd_def port_upd_def set_str_def
  net_config_set_ssid_def net_config_set_psk_def net_config_set_user_def net_config_set_mqtt_pass_def
  Let_def

lemma net_set_keys:
  "snd (net_settings_set c ''ssid'' (length v) (flash_reader v)) = c\<lparr>net_ssid := str_upd 1 32 v (net_ssid c)\<rparr>"
  "snd (net_settings_set c ''psk'' (length v) (flash_reader v)) = c\<lparr>net_psk := str_upd 8 63 v (net_psk c)\<rparr>"
  "snd (net_settings_set c ''user'' (length v) (flash_reader v)) =
     c\<lparr>net_mqtt_user := str_upd 0 32 v (net_mqtt_user c)\<rparr>"
  "snd (net_settings_set c ''mqttpass'' (length v) (flash_reader v)) =
     c\<lparr>net_mqtt_pass := str_upd 0 63 v (net_mqtt_pass c)\<rparr>"
  by (simp_all add: net_field_defs Suc_le_eq)

lemma net_set_port:
  "snd (net_settings_set c ''port'' (length v) (flash_reader v)) = c\<lparr>net_port := port_upd v (net_port c)\<rparr>"
  by (simp add: net_field_defs flash_reader_def)

lemma net_set_broker:
  "net_port c \<noteq> 0 \<Longrightarrow> snd (net_settings_set c ''broker'' (length v) (flash_reader v)) =
     c\<lparr>net_broker := str_upd 1 63 v (net_broker c)\<rparr>"
  by (simp add: net_field_defs port_ucast Suc_le_eq)

lemma net_set_other:
  "k \<notin> {''ssid'', ''psk'', ''broker'', ''user'', ''mqttpass'', ''port''} \<Longrightarrow>
     snd (net_settings_set c k (length v) (flash_reader v)) = c"
  by (simp add: net_settings_set_def)

lemma net_key_cases:
  "(k = ''ssid'' \<Longrightarrow> P) \<Longrightarrow> (k = ''psk'' \<Longrightarrow> P) \<Longrightarrow> (k = ''broker'' \<Longrightarrow> P) \<Longrightarrow>
   (k = ''user'' \<Longrightarrow> P) \<Longrightarrow> (k = ''mqttpass'' \<Longrightarrow> P) \<Longrightarrow> (k = ''port'' \<Longrightarrow> P) \<Longrightarrow>
   (k \<notin> {''ssid'', ''psk'', ''broker'', ''user'', ''mqttpass'', ''port''} \<Longrightarrow> P) \<Longrightarrow> P"
  unfolding insert_iff empty_iff by argo

lemma str_upd_len: "length old \<le> n \<Longrightarrow> length (str_upd k n v old) \<le> n"
  "old = [] \<or> k \<le> length old \<Longrightarrow> str_upd k n v old = [] \<or> k \<le> length (str_upd k n v old)"
  by (simp_all add: str_upd_def Let_def)

lemma net_set_keeps:
  "net_config_ok c \<Longrightarrow> net_config_ok (snd (net_settings_set c k (length v) (flash_reader v)))"
  by (rule net_key_cases [of k])
     (simp_all add: net_set_keys net_set_port net_set_broker net_ok_port net_set_other,
      simp_all add: net_config_ok_def str_upd_len port_upd_def)

lemmas net_field_simps = net_set_keys net_set_port net_set_broker net_ok_port net_set_other

interpretation net_ssid: stored_field "''net''" net_settings_set net_config_ok net_ssid
    "''ssid''" "str_upd 1 32"
  by unfold_locales (erule net_set_keeps, rule_tac k = k in net_key_cases, simp_all add: net_field_simps)

interpretation net_psk: stored_field "''net''" net_settings_set net_config_ok net_psk
    "''psk''" "str_upd 8 63"
  by unfold_locales (erule net_set_keeps, rule_tac k = k in net_key_cases, simp_all add: net_field_simps)

interpretation net_broker: stored_field "''net''" net_settings_set net_config_ok net_broker
    "''broker''" "str_upd 1 63"
  by unfold_locales (erule net_set_keeps, rule_tac k = k in net_key_cases, simp_all add: net_field_simps)

interpretation net_port: stored_field "''net''" net_settings_set net_config_ok net_port
    "''port''" port_upd
  by unfold_locales (erule net_set_keeps, rule_tac k = k in net_key_cases, simp_all add: net_field_simps)

interpretation net_user: stored_field "''net''" net_settings_set net_config_ok net_mqtt_user
    "''user''" "str_upd 0 32"
  by unfold_locales (erule net_set_keeps, rule_tac k = k in net_key_cases, simp_all add: net_field_simps)

interpretation net_pass: stored_field "''net''" net_settings_set net_config_ok net_mqtt_pass
    "''mqttpass''" "str_upd 0 63"
  by unfold_locales (erule net_set_keeps, rule_tac k = k in net_key_cases, simp_all add: net_field_simps)

text \<open>The whole configuration a boot starts with.\<close>

lemma net_load:
  assumes "net_config_ok c" and "delivers f ents"
  shows "settings_load ''net'' net_settings_set ents c =
    \<lparr>net_ssid = (case f ''net/ssid'' of None \<Rightarrow> net_ssid c | Some v \<Rightarrow> str_upd 1 32 v (net_ssid c)),
     net_psk = (case f ''net/psk'' of None \<Rightarrow> net_psk c | Some v \<Rightarrow> str_upd 8 63 v (net_psk c)),
     net_broker = (case f ''net/broker'' of None \<Rightarrow> net_broker c | Some v \<Rightarrow> str_upd 1 63 v (net_broker c)),
     net_port = (case f ''net/port'' of None \<Rightarrow> net_port c | Some v \<Rightarrow> port_upd v (net_port c)),
     net_mqtt_user = (case f ''net/user'' of None \<Rightarrow> net_mqtt_user c
       | Some v \<Rightarrow> str_upd 0 32 v (net_mqtt_user c)),
     net_mqtt_pass = (case f ''net/mqttpass'' of None \<Rightarrow> net_mqtt_pass c
       | Some v \<Rightarrow> str_upd 0 63 v (net_mqtt_pass c))\<rparr>"
    (is "?l = _")
  using net_ssid.load_delivered [OF assms] net_psk.load_delivered [OF assms]
    net_broker.load_delivered [OF assms] net_port.load_delivered [OF assms]
    net_user.load_delivered [OF assms] net_pass.load_delivered [OF assms]
  by (cases ?l) simp

section \<open>Properties\<close>

lemma c_bytes_terminated: "(c_bytes s)[length s := 0] = c_bytes s"
  by (rule nth_equalityI) (auto simp: c_bytes_def nth_append nth_list_update)

lemma str_upd_saved:
  "c_string s \<Longrightarrow> length s \<le> cap \<Longrightarrow> cap \<le> 63 \<Longrightarrow>
     str_upd k cap (c_bytes s) old = (if k \<le> length s then s else old)"
  using c_str_bytes [of s] by (simp add: str_upd_def c_bytes_terminated Let_def) (simp add: c_bytes_def)

definition net_strings :: "net_config \<Rightarrow> bool" where
  "net_strings c \<longleftrightarrow> c_string (net_ssid c) \<and> c_string (net_psk c) \<and> c_string (net_broker c) \<and>
     c_string (net_mqtt_user c) \<and> c_string (net_mqtt_pass c)"

lemma net_saved:
  assumes "settings_backend sv" and "net_store_save_all sv c f = (None, f')"
  shows "f' = f(''net/ssid'' \<mapsto> c_bytes (net_ssid c), ''net/psk'' \<mapsto> c_bytes (net_psk c),
     ''net/broker'' \<mapsto> c_bytes (net_broker c), ''net/port'' \<mapsto> le16 (net_port c),
     ''net/user'' \<mapsto> c_bytes (net_mqtt_user c), ''net/mqttpass'' \<mapsto> c_bytes (net_mqtt_pass c))"
proof -
  have step: "sv k v g = (None, h) \<Longrightarrow> h = g(k \<mapsto> v)" for k v g h
    using backend_cases [OF assms(1), of k v g] by auto
  show ?thesis
    using assms(2)
    by (auto simp: net_store_save_all_def net_store_save_ssid_def net_store_save_psk_def
        net_store_save_broker_def net_store_save_user_def net_store_save_mqtt_pass_def
        split: prod.splits if_splits dest!: step)
qed

text \<open>The network configuration survives a reboot: when \<open>net_store_save_all\<close> reports success the
  next boot loads exactly the saved record, whatever was on flash before and in whatever order the
  keys arrive (the port and the host are separate keys, and either may come first); a failure of
  any of the six writes is reported.\<close>

theorem net_store_roundtrip:
  assumes "settings_backend sv" and "net_config_ok c" and "net_strings c"
    and "net_store_save_all sv c f = (None, f')" and "delivers f' ents"
  shows "settings_load ''net'' net_settings_set ents net_config_set_defaults = c"
proof -
  have "net_config_ok net_config_set_defaults"
    by (simp add: net_config_ok_def net_config_set_defaults_def)
  note load = net_load [OF this assms(5)]
  have len: "length (net_ssid c) \<le> 32" "length (net_psk c) \<le> 63" "length (net_broker c) \<le> 63"
    "length (net_mqtt_user c) \<le> 32" "length (net_mqtt_pass c) \<le> 63" "net_port c \<noteq> 0"
    "net_psk c = [] \<or> 8 \<le> length (net_psk c)"
    using assms(2) by (simp_all add: net_config_ok_def)
  have "\<not> 8 \<le> length (net_psk c) \<Longrightarrow> net_psk c = []" using len(7) by blast
  then show ?thesis
    using assms(3) len unfolding load net_saved [OF assms(1,4)]
    by (cases c) (auto simp: net_strings_def str_upd_saved port_upd_def get_le
        net_config_set_defaults_def Suc_le_eq)
qed

definition sample_net :: net_config where
  "sample_net = \<lparr>net_ssid = ''lab'', net_psk = ''secret123'', net_broker = ''10.0.0.1'', net_port = 8883,
     net_mqtt_user = [], net_mqtt_pass = ''pw''\<rparr>"

lemma net_store_roundtrip_witness:
  "settings_load ''net'' net_settings_set
     [(''net/port'', le16 8883), (''net/broker'', c_bytes ''10.0.0.1''), (''net/ssid'', c_bytes ''lab''),
      (''net/mqttpass'', c_bytes ''pw''), (''net/user'', [0]), (''net/psk'', c_bytes ''secret123'')]
     net_config_set_defaults = sample_net"
  by (rule net_store_roundtrip [OF reliable_backend, where f = Map.empty
      and f' = "snd (net_store_save_all reliable sample_net Map.empty)"])
    (simp_all add: sample_net_def net_config_ok_def net_strings_def c_string_def net_store_save_all_def
      net_store_save_ssid_def net_store_save_psk_def net_store_save_broker_def net_store_save_user_def
      net_store_save_mqtt_pass_def reliable_def delivers_def fun_eq_iff c_bytes_def)

end
