(* ===== verification/AposStore.thy ===== *)
theory AposStore
  imports Settings
begin

text \<open>
  The gateway's record of the last survey, src/apos_store.c: the cache \<open>g_survey\<close> and two blobs
  under ''apos'', the survey and the geographic reference. The enumeration \<open>dim\<close> is kept as the
  byte it is stored as (0 is 3D, 1 is 2D). Padding inside the stored survey is written as zero
  and never read.
\<close>

section \<open>State\<close>

abbreviation (input) SURVEY_MAX_NODES :: nat where "SURVEY_MAX_NODES \<equiv> 8"

record apos_survey_node =
  sn_eui :: "u8 list"
  sn_short_addr :: u16
  sn_x :: f32
  sn_y :: f32
  sn_z :: f32

record apos_survey =
  sv_node :: "apos_survey_node list"
  sv_n_nodes :: u8
  sv_valid :: bool
  sv_dim :: u8
  sv_ref_lat :: f64
  sv_ref_lon :: f64
  sv_ref_valid :: bool

definition zero_survey_node :: apos_survey_node where
  "zero_survey_node = \<lparr>sn_eui = replicate 8 0, sn_short_addr = 0, sn_x = 0, sn_y = 0, sn_z = 0\<rparr>"

definition survey_boot :: apos_survey where
  "survey_boot = \<lparr>sv_node = replicate 8 zero_survey_node, sv_n_nodes = 0, sv_valid = False, sv_dim = 0,
     sv_ref_lat = 0, sv_ref_lon = 0, sv_ref_valid = False\<rparr>"

section \<open>The stored structures\<close>

definition survey_node_bytes :: "apos_survey_node \<Rightarrow> u8 list" where
  "survey_node_bytes n = sn_eui n @ le16 (sn_short_addr n) @ [0, 0] @ le32 (sn_x n) @ le32 (sn_y n) @ le32 (sn_z n)"

definition get_survey_node :: "u8 list \<Rightarrow> apos_survey_node" where
  "get_survey_node p = \<lparr>sn_eui = take 8 p, sn_short_addr = get_u16 p 8,
     sn_x = get_f32 p 12, sn_y = get_f32 p 16, sn_z = get_f32 p 20\<rparr>"

definition stored_survey :: "apos_survey_node list \<Rightarrow> u8 \<Rightarrow> bool \<Rightarrow> u8 \<Rightarrow> u8 list" where
  "stored_survey ns n valid d =
     concat (map survey_node_bytes ns) @ [n, if valid then 1 else 0, d, 0]"

definition get_survey_nodes :: "u8 list \<Rightarrow> apos_survey_node list" where
  "get_survey_nodes p = map (\<lambda>i. get_survey_node (take 24 (drop (24 * i) p))) [0..<SURVEY_MAX_NODES]"

definition stored_ref :: "f64 \<Rightarrow> f64 \<Rightarrow> u8 list \<Rightarrow> u8 list" where
  "stored_ref lat lon pad = le64 lat @ le64 lon @ [1] @ pad"

section \<open>Operations\<close>

definition apos_settings_set :: "apos_survey handler" where
  "apos_settings_set g key len rd =
     (if key = ''survey'' then
        if len \<noteq> 196 then (Some EINVAL, g)
        else
          (case read_val rd 196 (replicate 196 0) of
             (Some _, _) \<Rightarrow> (Some EINVAL, g)
           | (None, s) \<Rightarrow>
               if unat (s ! 192) > SURVEY_MAX_NODES then (Some EINVAL, g)
               else (None, g\<lparr>sv_node := get_survey_nodes s, sv_n_nodes := s ! 192,
                              sv_valid := s ! 193 \<noteq> 0, sv_dim := s ! 194\<rparr>))
      else if key = ''ref'' then
        if len \<noteq> 24 then (Some EINVAL, g)
        else
          (case read_val rd 24 (replicate 24 0) of
             (Some _, _) \<Rightarrow> (Some EINVAL, g)
           | (None, r) \<Rightarrow>
               (None, g\<lparr>sv_ref_lat := get_u64 r 0, sv_ref_lon := get_u64 r 8,
                         sv_ref_valid := r ! 16 \<noteq> 0\<rparr>))
      else (None, g))"

definition apos_store_save ::
  "saver \<Rightarrow> apos_survey option \<Rightarrow> apos_survey \<Rightarrow> flash \<Rightarrow> errno option \<times> apos_survey \<times> flash" where
  "apos_store_save sv sp g f =
     (case sp of
        None \<Rightarrow> (Some EINVAL, g, f)
      | Some s \<Rightarrow>
          if unat (sv_n_nodes s) > SURVEY_MAX_NODES then (Some EINVAL, g, f)
          else
            (case sv ''apos/survey'' (stored_survey (sv_node s) (sv_n_nodes s) (sv_valid s) (sv_dim s)) f of
               (Some ret, f) \<Rightarrow> (Some ret, g, f)
             | (None, f) \<Rightarrow>
                 (None, g\<lparr>sv_node := sv_node s, sv_n_nodes := sv_n_nodes s, sv_valid := sv_valid s,
                          sv_dim := sv_dim s\<rparr>, f)))"

definition apos_store_set_ref ::
  "saver \<Rightarrow> u8 list \<Rightarrow> f64 \<Rightarrow> f64 \<Rightarrow> apos_survey \<Rightarrow> flash \<Rightarrow> errno option \<times> apos_survey \<times> flash" where
  "apos_store_set_ref sv pad lat lon g f =
     (case sv ''apos/ref'' (stored_ref lat lon pad) f of
        (Some ret, f) \<Rightarrow> (Some ret, g, f)
      | (None, f) \<Rightarrow> (None, g\<lparr>sv_ref_lat := lat, sv_ref_lon := lon, sv_ref_valid := True\<rparr>, f))"

definition apos_store_clear ::
  "saver \<Rightarrow> apos_survey \<Rightarrow> flash \<Rightarrow> errno option \<times> apos_survey \<times> flash" where
  "apos_store_clear sv g f =
     (case sv ''apos/survey'' (replicate 196 0) f of
        (Some ret, f) \<Rightarrow> (Some ret, g, f)
      | (None, f) \<Rightarrow>
          (None, g\<lparr>sv_node := replicate 8 zero_survey_node, sv_n_nodes := 0, sv_valid := False\<rparr>, f))"

section \<open>Reading back\<close>

definition survey_node_ok :: "apos_survey_node \<Rightarrow> bool" where
  "survey_node_ok n \<longleftrightarrow> length (sn_eui n) = 8"

definition survey_ok :: "apos_survey \<Rightarrow> bool" where
  "survey_ok s \<longleftrightarrow> length (sv_node s) = 8 \<and> list_all survey_node_ok (sv_node s) \<and> unat (sv_n_nodes s) \<le> 8"

lemma zero_nodes_ok [simp]: "survey_node_ok zero_survey_node" "list_all survey_node_ok (replicate n zero_survey_node)"
  by (simp_all add: survey_node_ok_def zero_survey_node_def list_all_iff)

lemma length_node_bytes [simp]: "survey_node_ok n \<Longrightarrow> length (survey_node_bytes n) = 24"
  by (simp add: survey_node_bytes_def survey_node_ok_def)

lemma get_u32_Cons: "0 < o' \<Longrightarrow> get_u32 (x # xs) o' = get_u32 xs (o' - 1)"
  by (cases o') (simp_all add: get_u32_def add.commute)

lemma get_node_bytes: "survey_node_ok n \<Longrightarrow> get_survey_node (survey_node_bytes n) = n"
  by (cases n) (simp add: survey_node_ok_def get_survey_node_def survey_node_bytes_def get_f32_def byte_simps
      get_u32_Cons)

lemma chunk:
  assumes "\<forall>x\<in>set xs. length (f x) = 24" and "i < length xs"
  shows "take 24 (drop (24 * i) (concat (map f xs) @ r)) = f (xs ! i)"
  using assms
proof (induction xs arbitrary: i)
  case (Cons x xs)
  show ?case
  proof (cases i)
    case (Suc k)
    have "24 + 24 * k = 24 * i" using Suc by simp
    moreover have "drop (24 + 24 * k) (f x @ concat (map f xs) @ r) = drop (24 * k) (concat (map f xs) @ r)"
      using Cons.prems(1) by simp
    ultimately show ?thesis using Cons Suc by (simp del: drop_append)
  qed (use Cons.prems in simp)
qed simp

lemma length_chunks: "\<forall>x\<in>set xs. length (f x) = 24 \<Longrightarrow> length (concat (map f xs)) = 24 * length xs"
  by (induction xs) simp_all

lemma survey_parts:
  assumes "length ns = 8" and "list_all survey_node_ok ns"
  shows "length (stored_survey ns n v d) = 196" "get_survey_nodes (stored_survey ns n v d) = ns"
    "stored_survey ns n v d ! 192 = n" "stored_survey ns n v d ! 193 \<noteq> 0 \<longleftrightarrow> v"
    "stored_survey ns n v d ! 194 = d"
proof -
  have l: "\<forall>x\<in>set ns. length (survey_node_bytes x) = 24"
    using assms(2) by (simp add: list_all_iff)
  note c = length_chunks [OF l, unfolded assms(1)]
  show "length (stored_survey ns n v d) = 196" "stored_survey ns n v d ! 192 = n"
    "stored_survey ns n v d ! 193 \<noteq> 0 \<longleftrightarrow> v" "stored_survey ns n v d ! 194 = d"
    by (simp_all add: stored_survey_def c nth_append)
  show "get_survey_nodes (stored_survey ns n v d) = ns"
  proof (rule nth_equalityI)
    fix i assume "i < length (get_survey_nodes (stored_survey ns n v d))"
    then have i: "i < 8" by (simp add: get_survey_nodes_def)
    then have "survey_node_ok (ns ! i)" using assms by (simp add: list_all_length)
    moreover have "get_survey_nodes (stored_survey ns n v d) ! i = get_survey_node (survey_node_bytes (ns ! i))"
      using i chunk [OF l, of i "[n, if v then 1 else 0, d, 0]"] assms(1)
      by (simp add: get_survey_nodes_def stored_survey_def)
    ultimately show "get_survey_nodes (stored_survey ns n v d) ! i = ns ! i"
      by (simp add: get_node_bytes)
  qed (simp add: get_survey_nodes_def assms(1))
qed

lemma ref_parts:
  assumes "length pad = 7"
  shows "length (stored_ref a b pad) = 24" "get_u64 (stored_ref a b pad) 0 = a"
    "get_u64 (stored_ref a b pad) 8 = b" "stored_ref a b pad ! 16 = 1"
  using assms get_le64 [of a] get_le64 [of b]
  by (simp_all add: stored_ref_def get_u64_def get_u32_append nth_append)

lemma zero_node_bytes: "survey_node_bytes zero_survey_node = replicate 24 0"
  by (simp add: survey_node_bytes_def zero_survey_node_def le16_def le32_def put_u16_def put_u32_def
      numeral_eq_Suc)

lemma zero_survey: "replicate 196 0 = stored_survey (replicate 8 zero_survey_node) 0 False 0"
  by (simp add: stored_survey_def zero_node_bytes numeral_eq_Suc)

section \<open>The two fields\<close>

definition survey_part :: "apos_survey \<Rightarrow> apos_survey_node list \<times> u8 \<times> bool \<times> u8" where
  "survey_part g = (sv_node g, sv_n_nodes g, sv_valid g, sv_dim g)"

definition ref_part :: "apos_survey \<Rightarrow> f64 \<times> f64 \<times> bool" where
  "ref_part g = (sv_ref_lat g, sv_ref_lon g, sv_ref_valid g)"

definition survey_upd ::
  "u8 list \<Rightarrow> apos_survey_node list \<times> u8 \<times> bool \<times> u8 \<Rightarrow> apos_survey_node list \<times> u8 \<times> bool \<times> u8" where
  "survey_upd v old = (if length v = 196 \<and> unat (v ! 192) \<le> SURVEY_MAX_NODES
     then (get_survey_nodes v, v ! 192, v ! 193 \<noteq> 0, v ! 194) else old)"

definition ref_upd :: "u8 list \<Rightarrow> f64 \<times> f64 \<times> bool \<Rightarrow> f64 \<times> f64 \<times> bool" where
  "ref_upd v old = (if length v = 24 then (get_u64 v 0, get_u64 v 8, v ! 16 \<noteq> 0) else old)"

lemma got_nodes_ok:
  "length v = 196 \<Longrightarrow> length (get_survey_nodes v) = 8 \<and> list_all survey_node_ok (get_survey_nodes v)"
  by (auto simp: get_survey_nodes_def list_all_iff survey_node_ok_def get_survey_node_def)

lemma apos_set_cases:
  "snd (apos_settings_set g k (length v) (flash_reader v)) =
     (if k = ''survey'' then
        if length v = 196 \<and> unat (v ! 192) \<le> SURVEY_MAX_NODES
        then g\<lparr>sv_node := get_survey_nodes v, sv_n_nodes := v ! 192, sv_valid := v ! 193 \<noteq> 0, sv_dim := v ! 194\<rparr>
        else g
      else if k = ''ref'' then
        if length v = 24 then g\<lparr>sv_ref_lat := get_u64 v 0, sv_ref_lon := get_u64 v 8, sv_ref_valid := v ! 16 \<noteq> 0\<rparr>
        else g
      else g)"
  by (auto simp: apos_settings_set_def read_val_flash)

lemma apos_set_keeps:
  "survey_ok g \<Longrightarrow> survey_ok (snd (apos_settings_set g k (length v) (flash_reader v)))"
  using got_nodes_ok [of v] by (auto simp: apos_set_cases survey_ok_def)

interpretation apos_survey_blob: stored_field "''apos''" apos_settings_set survey_ok survey_part
    "''survey''" survey_upd
  by unfold_locales (erule apos_set_keeps, simp add: apos_set_cases survey_part_def survey_upd_def)

interpretation apos_ref_blob: stored_field "''apos''" apos_settings_set survey_ok ref_part
    "''ref''" ref_upd
  by unfold_locales (erule apos_set_keeps, simp add: apos_set_cases ref_part_def ref_upd_def)

section \<open>The cache and the flash\<close>

text \<open>One call of the module, with the backend it meets.\<close>

datatype store_call = SaveSurvey "apos_survey option" | SetRef f64 f64 | ClearSurvey

fun store_call_ok :: "store_call \<Rightarrow> bool" where
  "store_call_ok (SaveSurvey (Some s)) = (length (sv_node s) = 8 \<and> list_all survey_node_ok (sv_node s))"
| "store_call_ok _ = True"

fun store_step :: "saver \<times> store_call \<Rightarrow> apos_survey \<times> flash \<Rightarrow> apos_survey \<times> flash" where
  "store_step (sv, SaveSurvey sp) (g, f) = snd (apos_store_save sv sp g f)"
| "store_step (sv, SetRef a b) (g, f) = snd (apos_store_set_ref sv (replicate 7 0) a b g f)"
| "store_step (sv, ClearSurvey) (g, f) = snd (apos_store_clear sv g f)"

text \<open>What a boot finds: the survey and the reference as a function of the flash.\<close>

definition on_flash :: "flash \<Rightarrow> (apos_survey_node list \<times> u8 \<times> bool \<times> u8) \<times> (f64 \<times> f64 \<times> bool)" where
  "on_flash f =
     ((case f ''apos/survey'' of None \<Rightarrow> survey_part survey_boot | Some v \<Rightarrow> survey_upd v (survey_part survey_boot)),
      (case f ''apos/ref'' of None \<Rightarrow> ref_part survey_boot | Some v \<Rightarrow> ref_upd v (ref_part survey_boot)))"

lemma survey_boot_ok [simp]: "survey_ok survey_boot"
  by (simp add: survey_ok_def survey_boot_def)

lemma apos_load:
  assumes "delivers f ents"
  shows "survey_part (settings_load ''apos'' apos_settings_set ents survey_boot) = fst (on_flash f)"
    and "ref_part (settings_load ''apos'' apos_settings_set ents survey_boot) = snd (on_flash f)"
  using apos_survey_blob.load_delivered [OF survey_boot_ok assms]
    apos_ref_blob.load_delivered [OF survey_boot_ok assms]
  by (simp_all add: on_flash_def)

text \<open>Equal up to the dimension of a survey that is not valid.\<close>

definition same_survey :: "apos_survey \<Rightarrow> apos_survey \<Rightarrow> bool" where
  "same_survey a b \<longleftrightarrow> a\<lparr>sv_dim := sv_dim b\<rparr> = b \<and> (sv_valid b \<longrightarrow> sv_dim a = sv_dim b)"

definition synced :: "apos_survey \<times> flash \<Rightarrow> bool" where
  "synced gf \<longleftrightarrow> survey_ok (fst gf) \<and>
     (\<exists>d. fst (on_flash (snd gf)) = survey_part ((fst gf)\<lparr>sv_dim := d\<rparr>) \<and>
       (sv_valid (fst gf) \<longrightarrow> d = sv_dim (fst gf))) \<and>
     snd (on_flash (snd gf)) = ref_part (fst gf)"

lemma synced_reload:
  assumes "synced (g, f)" and "delivers f ents"
  shows "same_survey (settings_load ''apos'' apos_settings_set ents survey_boot) g"
  using assms(1) apos_load [OF assms(2)]
  by (auto simp: synced_def same_survey_def survey_part_def ref_part_def intro!: apos_survey.equality)

lemma on_flash_survey:
  assumes "length ns = 8" and "list_all survey_node_ok ns" and "unat n \<le> 8"
  shows "on_flash (f(''apos/survey'' \<mapsto> stored_survey ns n v d)) = ((ns, n, v, d), snd (on_flash f))"
  using assms survey_parts [OF assms(1,2)] by (simp add: on_flash_def survey_upd_def)

lemma on_flash_ref:
  "length pad = 7 \<Longrightarrow>
     on_flash (f(''apos/ref'' \<mapsto> stored_ref a b pad)) = (fst (on_flash f), (a, b, True))"
  using ref_parts [of pad a b] by (simp add: on_flash_def ref_upd_def)

lemma save_synced:
  assumes "settings_backend sv" and "store_call_ok (SaveSurvey sp)" and "synced (g, f)"
  shows "synced (snd (apos_store_save sv sp g f))"
proof (cases sp)
  case (Some s)
  show ?thesis
    using assms backend_cases [OF assms(1), of "''apos/survey''"
        "stored_survey (sv_node s) (sv_n_nodes s) (sv_valid s) (sv_dim s)" f]
    by (auto simp: Some apos_store_save_def synced_def on_flash_survey survey_part_def ref_part_def survey_ok_def)
qed (use assms(3) in \<open>simp add: apos_store_save_def\<close>)

lemma ref_synced:
  assumes "settings_backend sv" and "length pad = 7" and "synced (g, f)"
  shows "synced (snd (apos_store_set_ref sv pad a b g f))"
  using assms backend_cases [OF assms(1), of "''apos/ref''" "stored_ref a b pad" f]
  by (auto simp: apos_store_set_ref_def synced_def on_flash_ref survey_part_def ref_part_def survey_ok_def)

lemma clear_synced:
  assumes "settings_backend sv" and "synced (g, f)"
  shows "synced (snd (apos_store_clear sv g f))"
proof -
  have "on_flash (f(''apos/survey'' \<mapsto> replicate 196 0)) =
      ((replicate 8 zero_survey_node, 0, False, 0), snd (on_flash f))"
    unfolding zero_survey by (rule on_flash_survey) simp_all
  then show ?thesis
    using assms(2) backend_cases [OF assms(1), of "''apos/survey''" "replicate 196 0" f]
    by (auto simp: apos_store_clear_def synced_def survey_part_def ref_part_def survey_ok_def)
qed

lemma call_synced:
  assumes "settings_backend (fst c)" and "store_call_ok (snd c)" and "synced gf"
  shows "synced (store_step c gf)"
  using assms
  by (cases c; cases gf; cases "snd c") (auto simp: save_synced ref_synced clear_synced)

lemma boot_synced:
  assumes "delivers f ents"
  shows "synced (settings_load ''apos'' apos_settings_set ents survey_boot, f)"
proof -
  have "survey_ok (settings_load ''apos'' apos_settings_set ents survey_boot)"
    by (rule apos_survey_blob.load_keeps) simp
  then show ?thesis
    using apos_load [OF assms] unfolding synced_def
    by (auto intro!: exI [of _ "sv_dim (settings_load ''apos'' apos_settings_set ents survey_boot)"])
qed

section \<open>Properties\<close>

text \<open>C36: the cached survey is always the one on flash: from any boot, after any sequence of saves,
  reference changes and clears, each of which may meet a settings subsystem that fails, a reboot
  would load the survey the cache reports (up to the dimension of a survey that is not valid), and
  that survey never claims more than eight nodes.\<close>

theorem apos_cache_is_flash:
  assumes "delivers f0 ents0" and "list_all (\<lambda>c. settings_backend (fst c) \<and> store_call_ok (snd c)) cs"
    and "foldl (\<lambda>gf c. store_step c gf) (settings_load ''apos'' apos_settings_set ents0 survey_boot, f0) cs = (g, f)"
    and "delivers f ents"
  shows "same_survey (settings_load ''apos'' apos_settings_set ents survey_boot) g \<and> unat (sv_n_nodes g) \<le> 8"
proof -
  have "synced gf \<Longrightarrow> synced (foldl (\<lambda>gf c. store_step c gf) gf cs)" for gf
    using assms(2) by (induction cs arbitrary: gf) (auto simp: call_synced)
  from this [OF boot_synced [OF assms(1)]] have s: "synced (g, f)"
    using assms(3) by simp
  then show ?thesis
    using synced_reload [OF s assms(4)] by (simp add: synced_def survey_ok_def)
qed

definition sample_survey :: apos_survey where
  "sample_survey = survey_boot\<lparr>sv_n_nodes := 3, sv_valid := True, sv_dim := 1\<rparr>"

lemma failing_backend: "settings_backend (\<lambda>k v f. (Some EIO, f))"
  by (simp add: settings_backend_def)

lemma apos_cache_is_flash_witness:
  "same_survey (settings_load ''apos'' apos_settings_set
     [(''apos/survey'', stored_survey (replicate 8 zero_survey_node) 3 True 1)] survey_boot) sample_survey"
proof -
  let ?v = "stored_survey (replicate 8 zero_survey_node) 3 True 1"
  let ?cs = "[(reliable, SaveSurvey (Some sample_survey)), (\<lambda>k v f. (Some EIO, f), ClearSurvey)]"
  have run: "foldl (\<lambda>gf c. store_step c gf) (settings_load ''apos'' apos_settings_set [] survey_boot, Map.empty) ?cs =
      (sample_survey, Map.empty(''apos/survey'' \<mapsto> ?v))"
    by (simp add: settings_load_def apos_store_save_def apos_store_clear_def reliable_def
        sample_survey_def survey_boot_def)
  have ok: "list_all (\<lambda>c. settings_backend (fst c) \<and> store_call_ok (snd c)) ?cs"
    by (simp add: failing_backend sample_survey_def survey_boot_def)
  have "delivers (Map.empty(''apos/survey'' \<mapsto> ?v)) [(''apos/survey'', ?v)]" "delivers Map.empty []"
    by (simp_all add: delivers_def fun_eq_iff)
  then show ?thesis using apos_cache_is_flash [OF _ ok run] by blast
qed

end
