(* ===== verification/AposGw.thy ===== *)
theory AposGw
  imports AposGeomProps AposStore AnchorRespond AposFrame "HOL-Library.Sublist" "HOL-Library.Monad_Syntax"
begin

text \<open>
  The gateway's side of the survey, src/apos_gw.c: a step machine that enumerates the anchors,
  commands every ordered pair to range, solves the geometry and pushes the result back. \<open>apos_gw\<close> is
  the module's statics, with what its operations change elsewhere at the end: the frame sequence
  counter the loop passes by pointer, the survey cache of apos_store.c and the flash. The uptime,
  the radio, the maths library and the settings subsystem of one call are the argument \<open>gw_env\<close>; a
  step also returns the frames it put on the air. Counters the code keeps in 8 or 16 bits are
  naturals; the invariant below bounds them. Only constants of the enumeration are ever assigned to
  \<open>phase\<close>, so the arm of \<open>apos_gw_step\<close> for other values is not a case here.
\<close>

section \<open>State\<close>

abbreviation (input) APOS_GW_WINDOW_S :: u16 where "APOS_GW_WINDOW_S \<equiv> 120"
abbreviation (input) APOS_GW_ENUM_ROUNDS :: nat where "APOS_GW_ENUM_ROUNDS \<equiv> 3"
abbreviation (input) APOS_GW_ENUM_GAP_MS :: int where "APOS_GW_ENUM_GAP_MS \<equiv> 400"
abbreviation (input) APOS_GW_STEP_BUDGET_UUS :: nat where "APOS_GW_STEP_BUDGET_UUS \<equiv> 10000"
abbreviation (input) APOS_GW_SOLVE_BUDGET_UUS :: nat where "APOS_GW_SOLVE_BUDGET_UUS \<equiv> 150000"
abbreviation (input) APOS_GW_N_EXCHANGES :: u8 where "APOS_GW_N_EXCHANGES \<equiv> 40"
abbreviation (input) APOS_GW_RANGE_TIMEOUT_MS :: int where "APOS_GW_RANGE_TIMEOUT_MS \<equiv> 3000"
abbreviation (input) APOS_GW_RANGE_RETRIES :: nat where "APOS_GW_RANGE_RETRIES \<equiv> 1"
abbreviation (input) APOS_GW_TX_FAIL_LIMIT :: nat where "APOS_GW_TX_FAIL_LIMIT \<equiv> 10"
abbreviation (input) APOS_GW_APPLY_TIMEOUT_MS :: int where "APOS_GW_APPLY_TIMEOUT_MS \<equiv> 1500"
abbreviation (input) APOS_GW_APPLY_SETTLE_MS :: int where "APOS_GW_APPLY_SETTLE_MS \<equiv> 400"
abbreviation (input) APOS_GW_APPLY_RETRIES :: nat where "APOS_GW_APPLY_RETRIES \<equiv> 3"
abbreviation (input) APOS_MIN_N_OK :: u8 where "APOS_MIN_N_OK \<equiv> 10"
abbreviation (input) GATEWAY :: u16 where "GATEWAY \<equiv> 0"
abbreviation (input) TX_BUF_LEN :: nat where "TX_BUF_LEN \<equiv> 34"
abbreviation (input) F1000 :: f32 where "F1000 \<equiv> 0x447A0000"
abbreviation (input) F50 :: f32 where "F50 \<equiv> 0x42480000"

datatype apos_gw_phase = APOS_GW_IDLE | APOS_GW_ENUM | APOS_GW_RANGE | APOS_GW_APPLY

record apos_gw =
  gw_tbl :: apos_table
  gw_res :: apos_result
  gw_have_result :: bool
  gw_phase :: apos_gw_phase
  gw_session :: u16
  gauge_addr :: "int list"
  zoff_m :: f32
  enum_round :: nat
  next_action_ms :: int
  is_run :: bool
  pair_idx :: nat
  pair_total :: nat
  pair_retries :: nat
  tx_fails :: nat
  awaiting_rsp :: bool
  await_from_addr :: u16
  await_peer_addr :: u16
  apply_idx :: nat
  apply_retries :: nat
  applied_ok :: nat
  applied_fail :: nat
  applied_skip :: nat
  apply_ending :: bool
  apply_persisted :: bool
  apply_reopen :: bool
  gw_accepted :: bool
  solve_redundancy :: int
  solve_n_edges :: nat
  solve_unverified :: bool
  max_recip_mm :: int
  max_sd_mm :: u16
  gw_tx_buf :: "u8 list"
  gw_seq :: u8
  gw_store :: apos_survey
  gw_flash :: flash

record gw_env =
  ge_now :: int
  ge_tx :: tx_env
  ge_libm :: libm
  ge_saver :: saver

definition apos_gw_init :: "apos_gw \<Rightarrow> apos_gw" where
  "apos_gw_init s = s\<lparr>gw_tbl := apos_table_init, gw_res := empty_result APOS_GEOM_3D 0,
     gauge_addr := [0, 0, 0, -1], gw_have_result := False, gw_phase := APOS_GW_IDLE, gw_session := 0,
     zoff_m := F0, is_run := False, pair_idx := 0, pair_total := 0, pair_retries := 0, tx_fails := 0,
     awaiting_rsp := False, gw_accepted := False, solve_redundancy := 0, solve_n_edges := 0,
     solve_unverified := False, apply_idx := 0, apply_retries := 0, applied_ok := 0, applied_fail := 0,
     applied_skip := 0, apply_ending := False, apply_persisted := False, apply_reopen := False,
     max_recip_mm := 0, max_sd_mm := 0\<rparr>"

definition apos_gw_busy :: "apos_gw \<Rightarrow> bool" where
  "apos_gw_busy s \<longleftrightarrow> gw_phase s \<noteq> APOS_GW_IDLE"

definition apos_gw_gauge_set :: "apos_gw \<Rightarrow> bool" where
  "apos_gw_gauge_set s \<longleftrightarrow> gauge_addr s ! 0 \<noteq> 0 \<and> gauge_addr s ! 1 \<noteq> 0 \<and> gauge_addr s ! 2 \<noteq> 0"

record apos_gw_status =
  st_phase :: apos_gw_phase
  st_session :: u16
  st_n_peers :: nat
  st_meas_done :: nat
  st_meas_total :: nat
  st_applied_ok :: nat
  st_applied_fail :: nat
  st_have_result :: bool

definition apos_gw_get_status :: "apos_gw \<Rightarrow> apos_gw_status" where
  "apos_gw_get_status s =
     \<lparr>st_phase = gw_phase s, st_session = gw_session s, st_n_peers = length (peer (gw_tbl s)),
      st_meas_done = pair_idx s, st_meas_total = pair_total s, st_applied_ok = applied_ok s,
      st_applied_fail = applied_fail s, st_have_result = gw_have_result s\<rparr>"

text \<open>The three checks of an address: not 0 (which is also the gateway's), and distinct from the
  later ones.\<close>

fun gauge_args_ok :: "int list \<Rightarrow> bool" where
  "gauge_args_ok [] \<longleftrightarrow> True"
| "gauge_args_ok (a # as) \<longleftrightarrow> a \<noteq> 0 \<and> a \<noteq> uint GATEWAY \<and> list_all (\<lambda>b. a \<noteq> b) as \<and> gauge_args_ok as"

definition apos_gw_set_gauge ::
  "u16 \<Rightarrow> u16 \<Rightarrow> u16 \<Rightarrow> int \<Rightarrow> apos_gw \<Rightarrow> errno option \<times> apos_gw" where
  "apos_gw_set_gauge origin xaxis plane up s =
     (if apos_gw_busy s then (Some EBUSY, s)
      else
        let a = [uint origin, uint xaxis, uint plane] in
        if \<not> gauge_args_ok a then (Some EINVAL, s)
        else if up \<noteq> -1 \<and> (up = 0 \<or> up = uint GATEWAY \<or> list_ex (\<lambda>b. up = b) a) then (Some EINVAL, s)
        else (None, s\<lparr>gauge_addr := a @ [up]\<rparr>))"

definition apos_gw_gauge_dim :: "apos_gw \<Rightarrow> apos_geom_dim" where
  "apos_gw_gauge_dim s = (if gauge_addr s ! 3 = -1 then APOS_GEOM_2D else APOS_GEOM_3D)"

definition apos_gw_set_zoff :: "f32 \<Rightarrow> apos_gw \<Rightarrow> apos_gw" where
  "apos_gw_set_zoff dz s = s\<lparr>zoff_m := dz\<rparr>"

section \<open>Transmitting\<close>

definition gw_tx_now :: "gw_env \<Rightarrow> nat \<Rightarrow> apos_gw \<Rightarrow> bool \<times> apos_gw \<times> tx_frame list" where
  "gw_tx_now e n s =
     (let b = apos_frame_set_seq (gw_tx_buf s) (gw_seq s);
          s = s\<lparr>gw_tx_buf := b, gw_seq := gw_seq s + 1\<rparr>
      in if \<not> tx_start_ok (ge_tx e) then (False, s, [])
         else (tx_completes (ge_tx e) 8, s, [\<lparr>tx_data = take n b, tx_len = n + FCS_LEN, tx_when = None\<rparr>]))"

text \<open>The random numbers the kernel returns are a stream; the loop ends at the first whose low
  half is not zero.\<close>

partial_function (option) new_session :: "(nat \<Rightarrow> u32) \<Rightarrow> nat \<Rightarrow> u16 option" where
  "new_session rnd k =
     (let s = (ucast (rnd k) :: u16) in if s = 0 then new_session rnd (k + 1) else Some s)"

definition send_survey_begin :: "gw_env \<Rightarrow> apos_gw \<Rightarrow> apos_gw \<times> tx_frame list" where
  "send_survey_begin e s =
     (case apos_frame_survey_begin_build (Some (gw_tx_buf s)) TX_BUF_LEN GATEWAY (gw_session s)
             APOS_GW_WINDOW_S of
        (Inl _, _) \<Rightarrow> (s, [])
      | (Inr n, out) \<Rightarrow> snd (gw_tx_now e n (s\<lparr>gw_tx_buf := the out\<rparr>)))"

section \<open>Starting\<close>

text \<open>\<open>None\<close> where no random number ends the search for a session.\<close>

definition apos_gw_start_enum :: "(nat \<Rightarrow> u32) \<Rightarrow> apos_gw \<Rightarrow> (errno option \<times> apos_gw) option" where
  "apos_gw_start_enum rnd s =
     (if apos_gw_busy s then Some (Some EBUSY, s)
      else do {
        session \<leftarrow> new_session rnd 0;
        Some (None, s\<lparr>gw_tbl := apos_table_init, gw_have_result := False, gw_session := session,
          enum_round := 0, next_action_ms := 0, is_run := False, pair_idx := 0, pair_total := 0,
          pair_retries := 0, tx_fails := 0, awaiting_rsp := False, gw_accepted := False,
          solve_unverified := False, solve_redundancy := 0, solve_n_edges := 0,
          gw_phase := APOS_GW_ENUM\<rparr>) })"

definition apos_gw_start_run :: "(nat \<Rightarrow> u32) \<Rightarrow> apos_gw \<Rightarrow> (errno option \<times> apos_gw) option" where
  "apos_gw_start_run rnd s =
     (if apos_gw_busy s then Some (Some EBUSY, s)
      else if \<not> apos_gw_gauge_set s then Some (Some EINVAL, s)
      else do {
        session \<leftarrow> new_session rnd 0;
        Some (None, s\<lparr>gw_tbl := apos_table_init, gw_res := empty_result APOS_GEOM_3D 0,
          gw_have_result := False, gw_accepted := False, solve_unverified := False,
          solve_redundancy := 0, solve_n_edges := 0, gw_session := session, enum_round := 0,
          next_action_ms := 0, pair_idx := 0, pair_total := 0, pair_retries := 0, tx_fails := 0,
          awaiting_rsp := False, is_run := True, gw_phase := APOS_GW_ENUM\<rparr>) })"

definition apos_gw_start_apply :: "bool \<Rightarrow> apos_gw \<Rightarrow> errno option \<times> apos_gw" where
  "apos_gw_start_apply force s =
     (if apos_gw_busy s then (Some EBUSY, s)
      else if \<not> gw_have_result s then (Some ENODATA, s)
      else if \<not> gw_accepted s \<and> \<not> force then (Some EPERM, s)
      else (None, s\<lparr>apply_idx := 0, apply_retries := 0, applied_ok := 0, applied_fail := 0,
        applied_skip := 0, apply_ending := False, apply_persisted := False, apply_reopen := True,
        awaiting_rsp := False, tx_fails := 0, next_action_ms := 0, gw_phase := APOS_GW_APPLY\<rparr>))"

text \<open>The trigger document: the bounded copy ends at its first NUL, as \<open>strstr\<close> sees it.\<close>

definition apos_gw_trigger_from_mqtt ::
  "(nat \<Rightarrow> u32) \<Rightarrow> string option \<Rightarrow> nat \<Rightarrow> apos_gw \<Rightarrow> (errno option \<times> apos_gw) option" where
  "apos_gw_trigger_from_mqtt rnd payload len s =
     (case payload of
        None \<Rightarrow> Some (Some EINVAL, s)
      | Some p \<Rightarrow>
          if len = 0 then Some (Some EINVAL, s)
          else if len \<ge> 64 then Some (Some EINVAL, s)
          else
            let tmp = takeWhile (\<lambda>c. c \<noteq> CHR 0x00) (take len p) in
            if sublist [CHR 0x22, CHR ''r'', CHR ''u'', CHR ''n'', CHR 0x22] tmp
            then apos_gw_start_run rnd s
            else if sublist [CHR 0x22, CHR ''a'', CHR ''p'', CHR ''p'', CHR ''l'', CHR ''y'', CHR 0x22] tmp
            then Some (apos_gw_start_apply False s)
            else Some (Some EINVAL, s))"

section \<open>Receiving\<close>

definition on_enum_rsp :: "u8 list \<Rightarrow> nat \<Rightarrow> apos_gw \<Rightarrow> apos_gw" where
  "on_enum_rsp buf plen s =
     (case apos_frame_parse_enum_rsp (Some buf) plen True of
        Inl _ \<Rightarrow> s
      | Inr (sess, eui, pv, x, y, z) \<Rightarrow>
          if sess \<noteq> gw_session s then s
          else if gw_phase s \<noteq> APOS_GW_ENUM then s
          else
            let addr = apos_frame_src buf in
            if addr = GATEWAY then s
            else
              (case apos_table_add_peer (Some (gw_tbl s)) (Some eui) addr pv x y z of
                 (Inl rc, _) \<Rightarrow> if rc = EADDRINUSE then s\<lparr>gw_phase := APOS_GW_IDLE\<rparr> else s
               | (Inr idx, t) \<Rightarrow> s\<lparr>gw_tbl := the t\<rparr>))"

text \<open>The ordered pair at a cursor, row by row without the diagonal.\<close>

definition pair_of :: "nat \<Rightarrow> nat \<Rightarrow> nat \<times> nat" where
  "pair_of idx n =
     (let per_row = n - 1; from = idx div per_row; col = idx mod per_row
      in (from, if col \<ge> from then col + 1 else col))"

definition on_range_rsp :: "u8 list \<Rightarrow> nat \<Rightarrow> apos_gw \<Rightarrow> apos_gw" where
  "on_range_rsp buf plen s =
     (case apos_frame_parse_range_rsp (Some buf) plen True of
        Inl _ \<Rightarrow> s
      | Inr (sess, pr, mean, sd, n_ok) \<Rightarrow>
          if sess \<noteq> gw_session s \<or> \<not> awaiting_rsp s then s
          else if gw_phase s \<noteq> APOS_GW_RANGE then s
          else if apos_frame_src buf \<noteq> await_from_addr s \<or> pr \<noteq> await_peer_addr s then s
          else
            let from = apos_table_find_addr (Some (gw_tbl s)) (await_from_addr s);
                to = apos_table_find_addr (Some (gw_tbl s)) (await_peer_addr s);
                t = (if n_ok < APOS_MIN_N_OK then gw_tbl s
                     else if mean \<le> 0 then gw_tbl s
                     else
                       (case (from, to) of
                          (Inr f, Inr t) \<Rightarrow> the (snd (apos_table_add_meas (Some (gw_tbl s)) f t mean sd n_ok))
                        | _ \<Rightarrow> gw_tbl s))
            in s\<lparr>gw_tbl := t, awaiting_rsp := False, pair_retries := 0, tx_fails := 0,
                 pair_idx := pair_idx s + 1, next_action_ms := 0\<rparr>)"

definition on_setpos_ack :: "u8 list \<Rightarrow> nat \<Rightarrow> apos_gw \<Rightarrow> apos_gw" where
  "on_setpos_ack buf plen s =
     (case apos_frame_parse_setpos_ack (Some buf) plen True of
        Inl _ \<Rightarrow> s
      | Inr (sess, xyz, ok) \<Rightarrow>
          if sess \<noteq> gw_session s \<or> \<not> awaiting_rsp s then s
          else if gw_phase s \<noteq> APOS_GW_APPLY then s
          else if apos_frame_src buf \<noteq> await_from_addr s then s
          else
            let s = (if ok then s\<lparr>applied_ok := applied_ok s + 1\<rparr>
                     else s\<lparr>applied_fail := applied_fail s + 1\<rparr>)
            in s\<lparr>awaiting_rsp := False, apply_retries := 0, tx_fails := 0,
                 apply_idx := apply_idx s + 1, next_action_ms := 0\<rparr>)"

definition apos_gw_on_rx :: "u8 list \<Rightarrow> nat \<Rightarrow> apos_gw \<Rightarrow> apos_gw" where
  "apos_gw_on_rx buf plen s =
     (if \<not> apos_frame_is_apos (Some buf) plen then s
      else if gw_phase s = APOS_GW_IDLE then s
      else if apos_frame_dest buf \<noteq> GATEWAY then s
      else if apos_frame_subtype buf = APOS_SUB_ENUM_RSP then on_enum_rsp buf plen s
      else if apos_frame_subtype buf = APOS_SUB_RANGE_RSP then on_range_rsp buf plen s
      else if apos_frame_subtype buf = APOS_SUB_SETPOS_ACK then on_setpos_ack buf plen s
      else s)"

section \<open>Solving\<close>

text \<open>The stored gauge addresses are cast to 16 bits where they are looked up.\<close>

definition resolve_gauge :: "apos_gw \<Rightarrow> errno + apos_gauge" where
  "resolve_gauge s =
     (let idx = (\<lambda>k. apos_table_find_addr (Some (gw_tbl s)) (word_of_int (gauge_addr s ! k))) in
      case (idx 0, idx 1, idx 2) of
        (Inr o', Inr x, Inr p) \<Rightarrow>
          if gauge_addr s ! 3 = -1
          then Inr \<lparr>g_origin = o', g_xaxis = x, g_plane = p, g_up = o', g_dim = APOS_GEOM_2D\<rparr>
          else
            (case idx 3 of
               Inl _ \<Rightarrow> Inl ENOENT
             | Inr u \<Rightarrow> Inr \<lparr>g_origin = o', g_xaxis = x, g_plane = p, g_up = u, g_dim = APOS_GEOM_3D\<rparr>)
      | _ \<Rightarrow> Inl ENOENT)"

text \<open>What is left of \<open>judge_result\<close> without its log.\<close>

definition judge_result :: "apos_result \<Rightarrow> bool" where
  "judge_result r \<longleftrightarrow>
     r_n_placed r = r_n_nodes r \<and> r_n_ambiguous r = 0 \<and>
     f32_lt (f32_mul (r_rms_m r) F1000) F50 \<and>
     f32_le (r_worst_edge_m r) (f32_add (f32_mul F3 (r_rms_m r)) (f32_div F50 F1000))"

definition do_solve :: "libm \<Rightarrow> apos_gw \<Rightarrow> apos_gw" where
  "do_solve lm s =
     (case resolve_gauge s of
        Inl _ \<Rightarrow> s\<lparr>gw_phase := APOS_GW_IDLE\<rparr>
      | Inr g \<Rightarrow>
          let t = Some (gw_tbl s);
              edges = apos_table_symmetrise t True APOS_MAX_EDGES APOS_MIN_N_OK;
              (recip, sd) = apos_table_quality t APOS_MIN_N_OK;
              s = s\<lparr>max_recip_mm := recip, max_sd_mm := sd\<rparr>;
              (rc, r) = apos_geom_solve lm True edges (length (peer (gw_tbl s))) (Some g) (gw_res s);
              s = s\<lparr>gw_res := r\<rparr>
          in
          if rc \<noteq> None then s\<lparr>gw_phase := APOS_GW_IDLE\<rparr>
          else
            let r = (if \<not> f32_eq (zoff_m s) F0 then the (apos_geom_zoff (Some r) (zoff_m s)) else r);
                spare = int (length edges) - apos_geom_free_params (r_dim r) (r_n_placed r)
            in s\<lparr>gw_res := r, solve_n_edges := length edges, solve_redundancy := spare,
                 solve_unverified := spare \<le> 0, gw_have_result := True, gw_accepted := judge_result r,
                 gw_phase := APOS_GW_IDLE\<rparr>)"

section \<open>The steps\<close>

definition retire_pair :: "apos_gw \<Rightarrow> apos_gw" where
  "retire_pair s = s\<lparr>awaiting_rsp := False, pair_retries := 0, tx_fails := 0, pair_idx := pair_idx s + 1\<rparr>"

definition step_enum :: "gw_env \<Rightarrow> apos_gw \<Rightarrow> apos_gw \<times> tx_frame list" where
  "step_enum e s =
     (if ge_now e < next_action_ms s then (s, [])
      else if enum_round s \<ge> APOS_GW_ENUM_ROUNDS then
        if \<not> is_run s then (s\<lparr>gw_phase := APOS_GW_IDLE\<rparr>, [])
        else
          let min_nodes = (if apos_gw_gauge_dim s = APOS_GEOM_2D then APOS_MIN_NODES_2D else APOS_MIN_NODES_3D);
              n = length (peer (gw_tbl s))
          in
          if n < min_nodes then (s\<lparr>gw_phase := APOS_GW_IDLE\<rparr>, [])
          else
            (s\<lparr>pair_total := n * (n - 1), pair_idx := 0, pair_retries := 0, tx_fails := 0,
               awaiting_rsp := False, next_action_ms := 0, gw_phase := APOS_GW_RANGE\<rparr>, [])
      else
        let (s, fs) = send_survey_begin e s
        in (s\<lparr>enum_round := enum_round s + 1, next_action_ms := ge_now e + APOS_GW_ENUM_GAP_MS\<rparr>, fs))"

definition step_range :: "gw_env \<Rightarrow> nat \<Rightarrow> apos_gw \<Rightarrow> apos_gw \<times> tx_frame list" where
  "step_range e avail_uus s =
     (if awaiting_rsp s then
        if ge_now e < next_action_ms s then (s, [])
        else if pair_retries s < APOS_GW_RANGE_RETRIES
        then (s\<lparr>pair_retries := pair_retries s + 1, awaiting_rsp := False\<rparr>, [])
        else (retire_pair s, [])
      else if pair_idx s \<ge> pair_total s then
        if avail_uus < APOS_GW_SOLVE_BUDGET_UUS then (s, []) else (do_solve (ge_libm e) s, [])
      else
        let (from, to) = pair_of (pair_idx s) (length (peer (gw_tbl s)));
            s = s\<lparr>await_from_addr := p_short_addr (peer (gw_tbl s) ! from),
                  await_peer_addr := p_short_addr (peer (gw_tbl s) ! to)\<rparr>
        in
        (case apos_frame_range_cmd_build (Some (gw_tx_buf s)) TX_BUF_LEN GATEWAY (await_from_addr s)
                (gw_session s) (await_peer_addr s) APOS_GW_N_EXCHANGES of
           (Inl _, _) \<Rightarrow> (s\<lparr>gw_phase := APOS_GW_IDLE\<rparr>, [])
         | (Inr n, out) \<Rightarrow>
             let (ok, s, fs) = gw_tx_now e n (s\<lparr>gw_tx_buf := the out\<rparr>) in
             if \<not> ok then
               let s = s\<lparr>tx_fails := tx_fails s + 1\<rparr> in
               (if tx_fails s \<ge> APOS_GW_TX_FAIL_LIMIT then retire_pair s else s, fs)
             else
               (s\<lparr>tx_fails := 0, awaiting_rsp := True,
                  next_action_ms := ge_now e + APOS_GW_RANGE_TIMEOUT_MS\<rparr>, fs)))"

text \<open>The survey as it is written: two passes over the nodes, the origin's and the others'.\<close>

definition survey_row :: "apos_gw \<Rightarrow> nat \<Rightarrow> apos_survey_node" where
  "survey_row s k =
     (let p = peer (gw_tbl s) ! k; v = r_node (gw_res s) ! k in
      \<lparr>sn_eui = p_eui p, sn_short_addr = p_short_addr p, sn_x = n_x v, sn_y = n_y v, sn_z = n_z v\<rparr>)"

fun survey_pass :: "apos_gw \<Rightarrow> (nat \<Rightarrow> bool) \<Rightarrow> nat list \<Rightarrow> apos_survey_node list \<Rightarrow> apos_survey_node list" where
  "survey_pass s wanted [] w = w"
| "survey_pass s wanted (k # ks) w =
     (if length w \<ge> APOS_MAX_NODES then w
      else if \<not> wanted k \<or> \<not> placed (gw_res s) k then survey_pass s wanted ks w
      else survey_pass s wanted ks (w @ [survey_row s k]))"

definition dim_byte :: "apos_geom_dim \<Rightarrow> u8" where
  "dim_byte d = (case d of APOS_GEOM_3D \<Rightarrow> 0 | APOS_GEOM_2D \<Rightarrow> 1)"

definition persist_survey :: "gw_env \<Rightarrow> apos_gw \<Rightarrow> bool \<times> apos_gw" where
  "persist_survey e s =
     (case resolve_gauge s of
        Inl _ \<Rightarrow> (False, s)
      | Inr g \<Rightarrow>
          if \<not> placed (gw_res s) (g_origin g) then (False, s)
          else
            let ks = [0..<r_n_nodes (gw_res s)];
                w = survey_pass s (\<lambda>k. k = g_origin g) ks [];
                w = survey_pass s (\<lambda>k. k \<noteq> g_origin g) ks w;
                sv = survey_boot\<lparr>sv_node := w @ replicate (APOS_MAX_NODES - length w) zero_survey_node,
                       sv_n_nodes := of_nat (length w), sv_dim := dim_byte (r_dim (gw_res s)),
                       sv_valid := w \<noteq> []\<rparr>;
                (rc, st, fl) = apos_store_save (ge_saver e) (Some sv) (gw_store s) (gw_flash s)
            in (rc = None, s\<lparr>gw_store := st, gw_flash := fl\<rparr>))"

function skip_unplaced :: "apos_gw \<Rightarrow> apos_gw" where
  "skip_unplaced s =
     (if apply_idx s < r_n_nodes (gw_res s) \<and> \<not> placed (gw_res s) (apply_idx s)
      then skip_unplaced (s\<lparr>applied_skip := applied_skip s + 1, apply_idx := apply_idx s + 1\<rparr>)
      else s)"
  by pat_completeness auto

termination skip_unplaced
  by (relation "measure (\<lambda>s. r_n_nodes (gw_res s) - apply_idx s)") auto

declare skip_unplaced.simps [simp del]

definition step_apply :: "gw_env \<Rightarrow> nat \<Rightarrow> apos_gw \<Rightarrow> apos_gw \<times> tx_frame list" where
  "step_apply e avail_uus s =
     (if awaiting_rsp s then
        if ge_now e < next_action_ms s then (s, [])
        else if apply_retries s < APOS_GW_APPLY_RETRIES
        then (s\<lparr>apply_retries := apply_retries s + 1, awaiting_rsp := False\<rparr>, [])
        else
          (s\<lparr>applied_fail := applied_fail s + 1, awaiting_rsp := False, apply_retries := 0, tx_fails := 0,
             apply_idx := apply_idx s + 1\<rparr>, [])
      else if apply_reopen s then
        let (s, fs) = send_survey_begin e (s\<lparr>apply_reopen := False\<rparr>)
        in (s\<lparr>next_action_ms := ge_now e + APOS_GW_APPLY_SETTLE_MS\<rparr>, fs)
      else if ge_now e < next_action_ms s then (s, [])
      else if apply_ending s then
        let (s, fs) =
          (case apos_frame_survey_end_build (Some (gw_tx_buf s)) TX_BUF_LEN GATEWAY (gw_session s) of
             (Inl _, _) \<Rightarrow> (s, [])
           | (Inr n, out) \<Rightarrow> snd (gw_tx_now e n (s\<lparr>gw_tx_buf := the out\<rparr>)))
        in (s\<lparr>apply_ending := False, gw_phase := APOS_GW_IDLE\<rparr>, fs)
      else
        let s = skip_unplaced s in
        if apply_idx s \<ge> r_n_nodes (gw_res s) then
          if avail_uus < APOS_GW_SOLVE_BUDGET_UUS then (s, [])
          else
            let (ok, s) = persist_survey e s
            in (s\<lparr>apply_persisted := ok, apply_ending := True\<rparr>, [])
        else
          let v = r_node (gw_res s) ! apply_idx s;
              s = s\<lparr>await_from_addr := p_short_addr (peer (gw_tbl s) ! apply_idx s)\<rparr>
          in
          (case apos_frame_setpos_build (Some (gw_tx_buf s)) TX_BUF_LEN GATEWAY (await_from_addr s)
                  (gw_session s) (n_x v) (n_y v) (n_z v) of
             (Inl _, _) \<Rightarrow> (s\<lparr>gw_phase := APOS_GW_IDLE\<rparr>, [])
           | (Inr n, out) \<Rightarrow>
               let (ok, s, fs) = gw_tx_now e n (s\<lparr>gw_tx_buf := the out\<rparr>) in
               if \<not> ok then
                 let s = s\<lparr>tx_fails := tx_fails s + 1\<rparr> in
                 (if tx_fails s \<ge> APOS_GW_TX_FAIL_LIMIT
                  then s\<lparr>applied_fail := applied_fail s + 1, tx_fails := 0, apply_retries := 0,
                         apply_idx := apply_idx s + 1\<rparr>
                  else s, fs)
               else
                 (s\<lparr>tx_fails := 0, awaiting_rsp := True,
                    next_action_ms := ge_now e + APOS_GW_APPLY_TIMEOUT_MS\<rparr>, fs)))"

definition apos_gw_step :: "gw_env \<Rightarrow> nat \<Rightarrow> apos_gw \<Rightarrow> apos_gw \<times> tx_frame list" where
  "apos_gw_step e avail_uus s =
     (if gw_phase s = APOS_GW_IDLE then (s, [])
      else if avail_uus < APOS_GW_STEP_BUDGET_UUS then (s, [])
      else
        (case gw_phase s of
           APOS_GW_ENUM \<Rightarrow> step_enum e s
         | APOS_GW_RANGE \<Rightarrow> step_range e avail_uus s
         | APOS_GW_APPLY \<Rightarrow> step_apply e avail_uus s
         | APOS_GW_IDLE \<Rightarrow> (s, [])))"

section \<open>The parts of a step\<close>

lemma gw_tx_now_cases:
  obtains (failed) "gw_tx_now e n s = (False, s\<lparr>gw_tx_buf := apos_frame_set_seq (gw_tx_buf s) (gw_seq s), gw_seq := gw_seq s + 1\<rparr>, [])"
  | (sent) ok f where "gw_tx_now e n s = (ok, s\<lparr>gw_tx_buf := apos_frame_set_seq (gw_tx_buf s) (gw_seq s), gw_seq := gw_seq s + 1\<rparr>, [f])"
      "tx_data f = take n (apos_frame_set_seq (gw_tx_buf s) (gw_seq s))" "tx_len f = n + 2"
  by (cases "tx_start_ok (ge_tx e)") (simp_all add: gw_tx_now_def Let_def)

text \<open>A transmission changes the buffer and the counter; what is on the air is the buffer's
  first bytes with the counter in them.\<close>

definition after_tx :: "apos_gw \<Rightarrow> u8 list \<Rightarrow> apos_gw" where
  "after_tx s b = s\<lparr>gw_tx_buf := apos_frame_set_seq b (gw_seq s), gw_seq := gw_seq s + 1\<rparr>"

definition sent_of :: "tx_frame list \<Rightarrow> apos_gw \<Rightarrow> nat \<Rightarrow> u8 list \<Rightarrow> bool" where
  "sent_of fs s n b \<longleftrightarrow> (\<forall>f\<in>set fs. tx_data f = take n (apos_frame_set_seq b (gw_seq s)) \<and> tx_len f = n + 2) \<and>
     length fs \<le> 1"

lemma sent_of_Nil [simp]: "sent_of [] s n b"
  by (simp add: sent_of_def)

lemma gw_tx_now_after:
  obtains ok fs where "gw_tx_now e n (s\<lparr>gw_tx_buf := b\<rparr>) = (ok, after_tx s b, fs)" "sent_of fs s n b"
    "ok \<longrightarrow> fs \<noteq> []"
  by (cases "tx_start_ok (ge_tx e)") (simp_all add: gw_tx_now_def after_tx_def sent_of_def Let_def)

lemma after_tx_simps [simp]:
  "gw_tbl (after_tx s b) = gw_tbl s" "gw_res (after_tx s b) = gw_res s" "gw_phase (after_tx s b) = gw_phase s"
  "gw_have_result (after_tx s b) = gw_have_result s" "gw_session (after_tx s b) = gw_session s"
  "gauge_addr (after_tx s b) = gauge_addr s" "pair_idx (after_tx s b) = pair_idx s"
  "pair_total (after_tx s b) = pair_total s" "pair_retries (after_tx s b) = pair_retries s"
  "tx_fails (after_tx s b) = tx_fails s" "awaiting_rsp (after_tx s b) = awaiting_rsp s"
  "await_from_addr (after_tx s b) = await_from_addr s" "await_peer_addr (after_tx s b) = await_peer_addr s"
  "apply_idx (after_tx s b) = apply_idx s" "apply_retries (after_tx s b) = apply_retries s"
  "applied_ok (after_tx s b) = applied_ok s" "applied_fail (after_tx s b) = applied_fail s"
  "applied_skip (after_tx s b) = applied_skip s" "apply_ending (after_tx s b) = apply_ending s"
  "apply_persisted (after_tx s b) = apply_persisted s" "apply_reopen (after_tx s b) = apply_reopen s"
  "enum_round (after_tx s b) = enum_round s" "is_run (after_tx s b) = is_run s"
  "next_action_ms (after_tx s b) = next_action_ms s" "zoff_m (after_tx s b) = zoff_m s"
  "gw_store (after_tx s b) = gw_store s" "gw_flash (after_tx s b) = gw_flash s"
  "length (gw_tx_buf (after_tx s b)) = length b"
  by (simp_all add: after_tx_def apos_frame_set_seq_def put_u8_def)

text \<open>The four messages of the gateway fit its buffer and are parsed back.\<close>

definition gw_ready :: "apos_gw \<Rightarrow> bool" where
  "gw_ready s \<longleftrightarrow> length (gw_tx_buf s) = TX_BUF_LEN"

lemma begin_built:
  assumes "gw_ready s"
  obtains b where "apos_frame_survey_begin_build (Some (gw_tx_buf s)) TX_BUF_LEN GATEWAY ss w = (Inr 15, Some b)"
    "length b = 34" "apos_hdr_is b 15 APOS_ADDR_BCAST GATEWAY APOS_SUB_SURVEY_BEGIN"
    "apos_frame_parse_survey_begin (Some b) 15 True = Inr (ss, w)"
proof -
  obtain b where "apos_frame_survey_begin_build (Some (gw_tx_buf s)) TX_BUF_LEN GATEWAY ss w = (Inr 15, Some b)"
    "length b = 34" "apos_frame_parse_survey_begin (Some b) 15 True = Inr (ss, w)"
    using survey_begin.build_fits [of "(GATEWAY, ss, w)" 34 "gw_tx_buf s"] assms by (auto simp: gw_ready_def)
  with survey_begin_hdr [OF this(1)] assms that show thesis by (simp add: gw_ready_def)
qed

lemma cmd_built:
  assumes "gw_ready s"
  obtains b where "apos_frame_range_cmd_build (Some (gw_tx_buf s)) TX_BUF_LEN GATEWAY d ss p k = (Inr 16, Some b)"
    "length b = 34" "apos_hdr_is b 16 d GATEWAY APOS_SUB_RANGE_CMD"
    "apos_frame_parse_range_cmd (Some b) 16 True = Inr (ss, p, k)"
proof -
  obtain b where "apos_frame_range_cmd_build (Some (gw_tx_buf s)) TX_BUF_LEN GATEWAY d ss p k = (Inr 16, Some b)"
    "length b = 34" "apos_frame_parse_range_cmd (Some b) 16 True = Inr (ss, p, k)"
    using range_cmd.build_fits [of "(GATEWAY, d, ss, p, k)" 34 "gw_tx_buf s"] assms by (auto simp: gw_ready_def)
  with range_cmd_hdr [OF this(1)] assms that show thesis by (simp add: gw_ready_def)
qed

lemma setpos_built:
  assumes "gw_ready s"
  obtains b where "apos_frame_setpos_build (Some (gw_tx_buf s)) TX_BUF_LEN GATEWAY d ss x y z = (Inr 25, Some b)"
    "length b = 34" "apos_hdr_is b 25 d GATEWAY APOS_SUB_SETPOS"
    "apos_frame_parse_setpos (Some b) 25 True = Inr (ss, x, y, z)"
proof -
  obtain b where "apos_frame_setpos_build (Some (gw_tx_buf s)) TX_BUF_LEN GATEWAY d ss x y z = (Inr 25, Some b)"
    "length b = 34" "apos_frame_parse_setpos (Some b) 25 True = Inr (ss, x, y, z)"
    using setpos.build_fits [of "(GATEWAY, d, ss, x, y, z)" 34 "gw_tx_buf s"] assms by (auto simp: gw_ready_def)
  with setpos_hdr [OF this(1)] assms that show thesis by (simp add: gw_ready_def)
qed

lemma end_built:
  assumes "gw_ready s"
  obtains b where "apos_frame_survey_end_build (Some (gw_tx_buf s)) TX_BUF_LEN GATEWAY ss = (Inr 13, Some b)"
    "length b = 34" "apos_hdr_is b 13 APOS_ADDR_BCAST GATEWAY APOS_SUB_SURVEY_END"
    "apos_frame_parse_survey_end (Some b) 13 True = Inr ss"
proof -
  obtain b where "apos_frame_survey_end_build (Some (gw_tx_buf s)) TX_BUF_LEN GATEWAY ss = (Inr 13, Some b)"
    "length b = 34" "apos_frame_parse_survey_end (Some b) 13 True = Inr ss"
    using survey_end.build_fits [of "(GATEWAY, ss)" 34 "gw_tx_buf s"] assms by (auto simp: gw_ready_def)
  with survey_end_hdr [OF this(1)] assms that show thesis by (simp add: gw_ready_def)
qed

text \<open>The outcomes of the three step functions, as a case rule for the proofs below.\<close>

lemma step_enum_cases:
  assumes "gw_ready s"
  obtains (wait) "ge_now e < next_action_ms s" "step_enum e s = (s, [])"
  | (stop) "next_action_ms s \<le> ge_now e" "3 \<le> enum_round s" "step_enum e s = (s\<lparr>gw_phase := APOS_GW_IDLE\<rparr>, [])"
  | (range) "next_action_ms s \<le> ge_now e" "3 \<le> enum_round s" "is_run s" "3 \<le> length (peer (gw_tbl s))"
      "apos_gw_gauge_dim s = APOS_GEOM_3D \<longrightarrow> 4 \<le> length (peer (gw_tbl s))"
      "step_enum e s = (s\<lparr>pair_total := length (peer (gw_tbl s)) * (length (peer (gw_tbl s)) - 1), pair_idx := 0,
        pair_retries := 0, tx_fails := 0, awaiting_rsp := False, next_action_ms := 0, gw_phase := APOS_GW_RANGE\<rparr>, [])"
  | (send) b fs where "next_action_ms s \<le> ge_now e" "enum_round s < 3" "length b = 34"
      "apos_hdr_is b 15 APOS_ADDR_BCAST GATEWAY APOS_SUB_SURVEY_BEGIN"
      "apos_frame_parse_survey_begin (Some b) 15 True = Inr (gw_session s, 120)" "sent_of fs s 15 b"
      "step_enum e s = ((after_tx s b)\<lparr>enum_round := enum_round s + 1, next_action_ms := ge_now e + 400\<rparr>, fs)"
proof -
  obtain b where b: "apos_frame_survey_begin_build (Some (gw_tx_buf s)) TX_BUF_LEN GATEWAY (gw_session s) 120 = (Inr 15, Some b)"
    "length b = 34" "apos_hdr_is b 15 APOS_ADDR_BCAST GATEWAY APOS_SUB_SURVEY_BEGIN"
    "apos_frame_parse_survey_begin (Some b) 15 True = Inr (gw_session s, 120)"
    by (rule begin_built [OF assms])
  obtain ok fs where t: "gw_tx_now e 15 (s\<lparr>gw_tx_buf := b\<rparr>) = (ok, after_tx s b, fs)" "sent_of fs s 15 b"
    by (rule gw_tx_now_after)
  have sb: "send_survey_begin e s = (after_tx s b, fs)" using b(1) t(1) by (simp add: send_survey_begin_def)
  consider "ge_now e < next_action_ms s" | "next_action_ms s \<le> ge_now e" "enum_round s < 3"
    | "next_action_ms s \<le> ge_now e" "3 \<le> enum_round s" "\<not> is_run s"
    | "next_action_ms s \<le> ge_now e" "3 \<le> enum_round s" "is_run s" by linarith
  then show thesis
  proof cases
    case 2
    then show thesis using send [OF 2 b(2-4) t(2)] sb by (simp add: step_enum_def)
  next
    case 4
    show thesis
    proof (cases "length (peer (gw_tbl s)) < (if apos_gw_gauge_dim s = APOS_GEOM_2D then 3 else 4)")
      case True
      then show thesis using 4 stop by (simp add: step_enum_def Let_def)
    next
      case False
      then show thesis using 4 range by (auto simp: step_enum_def Let_def split: if_splits)
    qed
  qed (use wait stop in \<open>auto simp: step_enum_def\<close>)
qed

lemma step_range_cases:
  assumes "gw_ready s"
  obtains (wait) "step_range e av s = (s, [])"
      "awaiting_rsp s \<and> ge_now e < next_action_ms s \<or> \<not> awaiting_rsp s \<and> pair_total s \<le> pair_idx s \<and> av < 150000"
  | (retry) "awaiting_rsp s" "next_action_ms s \<le> ge_now e" "pair_retries s < 1"
      "step_range e av s = (s\<lparr>pair_retries := pair_retries s + 1, awaiting_rsp := False\<rparr>, [])"
  | (lost) "awaiting_rsp s" "next_action_ms s \<le> ge_now e" "1 \<le> pair_retries s" "step_range e av s = (retire_pair s, [])"
  | (solve) "\<not> awaiting_rsp s" "pair_total s \<le> pair_idx s" "150000 \<le> av" "step_range e av s = (do_solve (ge_libm e) s, [])"
  | (command) s1 b fs i j where "\<not> awaiting_rsp s" "pair_idx s < pair_total s"
      "(i, j) = pair_of (pair_idx s) (length (peer (gw_tbl s)))"
      "s1 = s\<lparr>await_from_addr := p_short_addr (peer (gw_tbl s) ! i), await_peer_addr := p_short_addr (peer (gw_tbl s) ! j)\<rparr>"
      "length b = 34" "apos_hdr_is b 16 (p_short_addr (peer (gw_tbl s) ! i)) GATEWAY APOS_SUB_RANGE_CMD"
      "apos_frame_parse_range_cmd (Some b) 16 True = Inr (gw_session s, p_short_addr (peer (gw_tbl s) ! j), 40)"
      "sent_of fs s 16 b"
      "step_range e av s \<in> {((after_tx s1 b)\<lparr>tx_fails := 0, awaiting_rsp := True, next_action_ms := ge_now e + 3000\<rparr>, fs),
         (retire_pair ((after_tx s1 b)\<lparr>tx_fails := tx_fails s + 1\<rparr>), fs)} \<or>
       tx_fails s + 1 < 10 \<and> step_range e av s = ((after_tx s1 b)\<lparr>tx_fails := tx_fails s + 1\<rparr>, fs)"
proof -
  consider "awaiting_rsp s" | "\<not> awaiting_rsp s" "pair_total s \<le> pair_idx s" | "\<not> awaiting_rsp s" "pair_idx s < pair_total s"
    by linarith
  then show thesis
  proof cases
    case 3
    obtain i j where ij: "(i, j) = pair_of (pair_idx s) (length (peer (gw_tbl s)))" by (metis surj_pair)
    define s1 where "s1 = s\<lparr>await_from_addr := p_short_addr (peer (gw_tbl s) ! i), await_peer_addr := p_short_addr (peer (gw_tbl s) ! j)\<rparr>"
    have "gw_ready s1" using assms by (simp add: gw_ready_def s1_def)
    then obtain b where b: "apos_frame_range_cmd_build (Some (gw_tx_buf s1)) TX_BUF_LEN GATEWAY (p_short_addr (peer (gw_tbl s) ! i))
        (gw_session s) (p_short_addr (peer (gw_tbl s) ! j)) 40 = (Inr 16, Some b)"
      "length b = 34" "apos_hdr_is b 16 (p_short_addr (peer (gw_tbl s) ! i)) GATEWAY APOS_SUB_RANGE_CMD"
      "apos_frame_parse_range_cmd (Some b) 16 True = Inr (gw_session s, p_short_addr (peer (gw_tbl s) ! j), 40)"
      by (rule cmd_built)
    obtain ok fs where t: "gw_tx_now e 16 (s1\<lparr>gw_tx_buf := b\<rparr>) = (ok, after_tx s1 b, fs)" "sent_of fs s1 16 b"
      by (rule gw_tx_now_after)
    have sf: "sent_of fs s 16 b" using t(2) by (simp add: sent_of_def s1_def)
    have f: "await_from_addr s1 = p_short_addr (peer (gw_tbl s) ! i)" "await_peer_addr s1 = p_short_addr (peer (gw_tbl s) ! j)"
      "gw_session s1 = gw_session s" "gw_tx_buf s1 = gw_tx_buf s" "tx_fails s1 = tx_fails s"
      by (simp_all add: s1_def)
    have "step_range e av s = (if \<not> ok then
        (if tx_fails s + 1 \<ge> 10 then retire_pair ((after_tx s1 b)\<lparr>tx_fails := tx_fails s + 1\<rparr>)
         else (after_tx s1 b)\<lparr>tx_fails := tx_fails s + 1\<rparr>, fs)
       else ((after_tx s1 b)\<lparr>tx_fails := 0, awaiting_rsp := True, next_action_ms := ge_now e + 3000\<rparr>, fs))"
      using 3 b(1) t(1) by (simp add: step_range_def ij [symmetric] s1_def [symmetric] f Let_def)
    then show thesis
      by (intro command [OF 3 ij s1_def b(2-4) sf]) (auto simp: not_le)
  next
    case 1
    consider "ge_now e < next_action_ms s" | "next_action_ms s \<le> ge_now e" "pair_retries s < 1"
      | "next_action_ms s \<le> ge_now e" "1 \<le> pair_retries s" by linarith
    then show thesis
    proof cases
      case 1
      then show thesis using \<open>awaiting_rsp s\<close> by (intro wait) (simp_all add: step_range_def)
    next
      case 2
      then show thesis using \<open>awaiting_rsp s\<close> by (intro retry) (simp_all add: step_range_def)
    next
      case 3
      then show thesis using \<open>awaiting_rsp s\<close> by (intro lost) (simp_all add: step_range_def)
    qed
  next
    case 2
    show thesis
    proof (cases "av < 150000")
      case True
      then show thesis using 2 by (intro wait) (simp_all add: step_range_def)
    next
      case False
      then show thesis using 2 by (intro solve) (simp_all add: step_range_def)
    qed
  qed
qed

text \<open>What the skip leaves: the cursor on a placed node or past the last one, every node skipped
  counted.\<close>

lemma skip_unplaced_spec:
  "\<exists>k. skip_unplaced s = s\<lparr>applied_skip := applied_skip s + k, apply_idx := apply_idx s + k\<rparr> \<and>
     (\<forall>i. apply_idx s \<le> i \<and> i < apply_idx s + k \<longrightarrow> i < r_n_nodes (gw_res s) \<and> \<not> placed (gw_res s) i) \<and>
     (apply_idx s + k < r_n_nodes (gw_res s) \<longrightarrow> placed (gw_res s) (apply_idx s + k))"
proof (induction s rule: skip_unplaced.induct)
  case (1 s)
  show ?case
  proof (cases "apply_idx s < r_n_nodes (gw_res s) \<and> \<not> placed (gw_res s) (apply_idx s)")
    case True
    let ?s = "s\<lparr>applied_skip := applied_skip s + 1, apply_idx := apply_idx s + 1\<rparr>"
    from 1 [OF True] obtain k where k: "skip_unplaced ?s = ?s\<lparr>applied_skip := applied_skip ?s + k, apply_idx := apply_idx ?s + k\<rparr>"
      "\<forall>i. apply_idx ?s \<le> i \<and> i < apply_idx ?s + k \<longrightarrow> i < r_n_nodes (gw_res s) \<and> \<not> placed (gw_res s) i"
      "apply_idx ?s + k < r_n_nodes (gw_res s) \<longrightarrow> placed (gw_res s) (apply_idx ?s + k)" by auto
    have "skip_unplaced s = s\<lparr>applied_skip := applied_skip s + Suc k, apply_idx := apply_idx s + Suc k\<rparr>"
      using k(1) True by (simp add: skip_unplaced.simps [of s])
    moreover have "i < r_n_nodes (gw_res s) \<and> \<not> placed (gw_res s) i" if "apply_idx s \<le> i \<and> i < apply_idx s + Suc k" for i
      using k(2) True that by (cases "i = apply_idx s") auto
    moreover have "apply_idx s + Suc k < r_n_nodes (gw_res s) \<longrightarrow> placed (gw_res s) (apply_idx s + Suc k)"
      using k(3) by simp
    ultimately show ?thesis by blast
  next
    case False
    then show ?thesis by (intro exI [of _ 0]) (auto simp: skip_unplaced.simps [of s])
  qed
qed

lemma persist_survey_frame:
  "\<exists>st fl. snd (persist_survey e s) = s\<lparr>gw_store := st, gw_flash := fl\<rparr>"
proof (cases "resolve_gauge s")
  case (Inl x)
  then show ?thesis by (intro exI [of _ "gw_store s"] exI [of _ "gw_flash s"]) (simp add: persist_survey_def)
next
  case (Inr g)
  show ?thesis
  proof (cases "placed (gw_res s) (g_origin g)")
    case True
    then show ?thesis using Inr by (simp add: persist_survey_def Let_def case_prod_beta) blast
  next
    case False
    then show ?thesis using Inr
      by (intro exI [of _ "gw_store s"] exI [of _ "gw_flash s"]) (simp add: persist_survey_def)
  qed
qed

lemma step_apply_cases:
  assumes "gw_ready s"
  obtains (wait) "step_apply e av s = (s, [])" "ge_now e < next_action_ms s"
  | (retry) "awaiting_rsp s" "next_action_ms s \<le> ge_now e" "apply_retries s < 3"
      "step_apply e av s = (s\<lparr>apply_retries := apply_retries s + 1, awaiting_rsp := False\<rparr>, [])"
  | (lost) "awaiting_rsp s" "next_action_ms s \<le> ge_now e" "3 \<le> apply_retries s"
      "step_apply e av s = (s\<lparr>applied_fail := applied_fail s + 1, awaiting_rsp := False, apply_retries := 0,
         tx_fails := 0, apply_idx := apply_idx s + 1\<rparr>, [])"
  | (reopen) b fs where "\<not> awaiting_rsp s" "apply_reopen s" "length b = 34"
      "apos_hdr_is b 15 APOS_ADDR_BCAST GATEWAY APOS_SUB_SURVEY_BEGIN"
      "apos_frame_parse_survey_begin (Some b) 15 True = Inr (gw_session s, 120)" "sent_of fs s 15 b"
      "step_apply e av s = ((after_tx (s\<lparr>apply_reopen := False\<rparr>) b)\<lparr>next_action_ms := ge_now e + 400\<rparr>, fs)"
  | (finish) b fs where "\<not> awaiting_rsp s" "\<not> apply_reopen s" "next_action_ms s \<le> ge_now e" "apply_ending s" "length b = 34"
      "apos_hdr_is b 13 APOS_ADDR_BCAST GATEWAY APOS_SUB_SURVEY_END"
      "apos_frame_parse_survey_end (Some b) 13 True = Inr (gw_session s)" "sent_of fs s 13 b"
      "step_apply e av s = ((after_tx s b)\<lparr>apply_ending := False, gw_phase := APOS_GW_IDLE\<rparr>, fs)"
  | (covered) s1 where "\<not> awaiting_rsp s" "\<not> apply_reopen s" "next_action_ms s \<le> ge_now e" "\<not> apply_ending s"
      "s1 = skip_unplaced s" "r_n_nodes (gw_res s) \<le> apply_idx s1" "av < 150000" "step_apply e av s = (s1, [])"
  | (persist) s1 where "\<not> awaiting_rsp s" "\<not> apply_reopen s" "next_action_ms s \<le> ge_now e" "\<not> apply_ending s"
      "s1 = skip_unplaced s" "r_n_nodes (gw_res s) \<le> apply_idx s1" "150000 \<le> av"
      "step_apply e av s = ((snd (persist_survey e s1))\<lparr>apply_persisted := fst (persist_survey e s1), apply_ending := True\<rparr>, [])"
  | (push) s1 s2 b fs where "\<not> awaiting_rsp s" "\<not> apply_reopen s" "next_action_ms s \<le> ge_now e" "\<not> apply_ending s"
      "s1 = skip_unplaced s" "apply_idx s1 < r_n_nodes (gw_res s)" "placed (gw_res s) (apply_idx s1)"
      "s2 = s1\<lparr>await_from_addr := p_short_addr (peer (gw_tbl s) ! apply_idx s1)\<rparr>"
      "length b = 34" "apos_hdr_is b 25 (p_short_addr (peer (gw_tbl s) ! apply_idx s1)) GATEWAY APOS_SUB_SETPOS"
      "apos_frame_parse_setpos (Some b) 25 True = Inr (gw_session s, node_xyz (gw_res s) (apply_idx s1))"
      "sent_of fs s 25 b"
      "step_apply e av s \<in> {((after_tx s2 b)\<lparr>tx_fails := 0, awaiting_rsp := True, next_action_ms := ge_now e + 1500\<rparr>, fs),
         ((after_tx s2 b)\<lparr>applied_fail := applied_fail s + 1, tx_fails := 0, apply_retries := 0, apply_idx := apply_idx s1 + 1\<rparr>, fs)} \<or>
       tx_fails s + 1 < 10 \<and> step_apply e av s = ((after_tx s2 b)\<lparr>tx_fails := tx_fails s + 1\<rparr>, fs)"
proof -
  define s1 where "s1 = skip_unplaced s"
  obtain k where k: "s1 = s\<lparr>applied_skip := applied_skip s + k, apply_idx := apply_idx s + k\<rparr>"
    "apply_idx s + k < r_n_nodes (gw_res s) \<longrightarrow> placed (gw_res s) (apply_idx s + k)"
    using skip_unplaced_spec [of s] unfolding s1_def by blast
  have s1: "gw_res s1 = gw_res s" "gw_tbl s1 = gw_tbl s" "gw_session s1 = gw_session s" "gw_tx_buf s1 = gw_tx_buf s"
    "tx_fails s1 = tx_fails s" "applied_fail s1 = applied_fail s" "gw_seq s1 = gw_seq s"
    using k(1) by simp_all
  consider (a) "awaiting_rsp s" | (r) "\<not> awaiting_rsp s" "apply_reopen s"
    | (w) "\<not> awaiting_rsp s" "\<not> apply_reopen s" "ge_now e < next_action_ms s"
    | (e) "\<not> awaiting_rsp s" "\<not> apply_reopen s" "next_action_ms s \<le> ge_now e" "apply_ending s"
    | (d) "\<not> awaiting_rsp s" "\<not> apply_reopen s" "next_action_ms s \<le> ge_now e" "\<not> apply_ending s" "r_n_nodes (gw_res s) \<le> apply_idx s1"
    | (p) "\<not> awaiting_rsp s" "\<not> apply_reopen s" "next_action_ms s \<le> ge_now e" "\<not> apply_ending s" "apply_idx s1 < r_n_nodes (gw_res s)"
    by linarith
  then show thesis
  proof cases
    case a
    consider "ge_now e < next_action_ms s" | "next_action_ms s \<le> ge_now e" "apply_retries s < 3"
      | "next_action_ms s \<le> ge_now e" "3 \<le> apply_retries s" by linarith
    then show thesis
    proof cases
      case 1
      then show thesis using a by (intro wait) (simp_all add: step_apply_def)
    next
      case 2
      then show thesis using a by (intro retry) (simp_all add: step_apply_def)
    next
      case 3
      then show thesis using a by (intro lost) (simp_all add: step_apply_def)
    qed
  next
    case r
    let ?s = "s\<lparr>apply_reopen := False\<rparr>"
    have "gw_ready ?s" using assms by (simp add: gw_ready_def)
    then obtain b where b: "apos_frame_survey_begin_build (Some (gw_tx_buf ?s)) TX_BUF_LEN GATEWAY (gw_session s) 120 = (Inr 15, Some b)"
      "length b = 34" "apos_hdr_is b 15 APOS_ADDR_BCAST GATEWAY APOS_SUB_SURVEY_BEGIN"
      "apos_frame_parse_survey_begin (Some b) 15 True = Inr (gw_session s, 120)" by (rule begin_built)
    obtain ok fs where t: "gw_tx_now e 15 (?s\<lparr>gw_tx_buf := b\<rparr>) = (ok, after_tx ?s b, fs)" "sent_of fs ?s 15 b"
      by (rule gw_tx_now_after)
    have "sent_of fs s 15 b" using t(2) by (simp add: sent_of_def)
    then show thesis using r b t(1) by (intro reopen [OF r b(2-4)]) (simp_all add: step_apply_def send_survey_begin_def)
  next
    case w
    then show thesis by (intro wait) (simp_all add: step_apply_def)
  next
    case e
    obtain b where b: "apos_frame_survey_end_build (Some (gw_tx_buf s)) TX_BUF_LEN GATEWAY (gw_session s) = (Inr 13, Some b)"
      "length b = 34" "apos_hdr_is b 13 APOS_ADDR_BCAST GATEWAY APOS_SUB_SURVEY_END"
      "apos_frame_parse_survey_end (Some b) 13 True = Inr (gw_session s)" by (rule end_built [OF assms])
    obtain ok fs where t: "gw_tx_now e 13 (s\<lparr>gw_tx_buf := b\<rparr>) = (ok, after_tx s b, fs)" "sent_of fs s 13 b"
      by (rule gw_tx_now_after)
    show thesis using e b(1) t(1) by (intro finish [OF e b(2-4) t(2)]) (simp add: step_apply_def)
  next
    case d
    show thesis
    proof (cases "av < 150000")
      case True
      then show thesis using d by (intro covered [OF d(1-4) s1_def d(5)]) (simp_all add: step_apply_def s1_def [symmetric] s1)
    next
      case False
      then show thesis using d
        by (intro persist [OF d(1-4) s1_def d(5)]) (simp_all add: step_apply_def s1_def [symmetric] s1 case_prod_beta)
    qed
  next
    case p
    define s2 where "s2 = s1\<lparr>await_from_addr := p_short_addr (peer (gw_tbl s) ! apply_idx s1)\<rparr>"
    let ?v = "r_node (gw_res s) ! apply_idx s1"
    have "gw_ready s2" using assms s1 by (simp add: gw_ready_def s2_def)
    then obtain b where b: "apos_frame_setpos_build (Some (gw_tx_buf s2)) TX_BUF_LEN GATEWAY (p_short_addr (peer (gw_tbl s) ! apply_idx s1))
        (gw_session s) (n_x ?v) (n_y ?v) (n_z ?v) = (Inr 25, Some b)" "length b = 34"
      "apos_hdr_is b 25 (p_short_addr (peer (gw_tbl s) ! apply_idx s1)) GATEWAY APOS_SUB_SETPOS"
      "apos_frame_parse_setpos (Some b) 25 True = Inr (gw_session s, n_x ?v, n_y ?v, n_z ?v)"
      by (rule setpos_built)
    obtain ok fs where t: "gw_tx_now e 25 (s2\<lparr>gw_tx_buf := b\<rparr>) = (ok, after_tx s2 b, fs)" "sent_of fs s2 25 b"
      by (rule gw_tx_now_after)
    have sf: "sent_of fs s 25 b" using t(2) s1 by (simp add: sent_of_def s2_def)
    have f: "await_from_addr s2 = p_short_addr (peer (gw_tbl s) ! apply_idx s1)" "gw_session s2 = gw_session s"
      "gw_tx_buf s2 = gw_tx_buf s" "tx_fails s2 = tx_fails s" "applied_fail s2 = applied_fail s" "apply_idx s2 = apply_idx s1"
      "gw_tbl s2 = gw_tbl s" "gw_res s2 = gw_res s"
      by (simp_all add: s2_def s1)
    have "step_apply e av s = (if \<not> ok then
        (if tx_fails s + 1 \<ge> 10 then (after_tx s2 b)\<lparr>applied_fail := applied_fail s + 1, tx_fails := 0, apply_retries := 0, apply_idx := apply_idx s1 + 1\<rparr>
         else (after_tx s2 b)\<lparr>tx_fails := tx_fails s + 1\<rparr>, fs)
       else ((after_tx s2 b)\<lparr>tx_fails := 0, awaiting_rsp := True, next_action_ms := ge_now e + 1500\<rparr>, fs))"
      using p b(1) t(1) by (simp add: step_apply_def s1_def [symmetric] s1 s2_def [symmetric] f Let_def)
    moreover have "placed (gw_res s) (apply_idx s1)" using k p(5) by simp
    ultimately show thesis
      using b(4) by (intro push [OF p(1-4) s1_def p(5) _ s2_def b(2-3) _ sf]) (auto simp: not_le node_xyz_def Let_def)
  qed
qed

section \<open>What a solve leaves\<close>

lemma resolve_gauge_in:
  assumes "resolve_gauge s = Inr g"
  shows "g_origin g < length (peer (gw_tbl s))" "g_xaxis g < length (peer (gw_tbl s))"
    "g_plane g < length (peer (gw_tbl s))" "g_dim g = apos_gw_gauge_dim s"
    "p_short_addr (peer (gw_tbl s) ! g_origin g) = word_of_int (gauge_addr s ! 0)"
  using assms
  by (auto simp: resolve_gauge_def apos_gw_gauge_dim_def Let_def dest!: find_addr_SomeD split: sum.splits if_splits)

text \<open>A fit that succeeds has the caller's node count and its origin node at (0, 0, 0).\<close>

lemma solve_ok:
  assumes "apos_geom_solve lm ptrs es n (Some g) out = (None, r)"
  shows "length (r_node r) = 8" "r_n_nodes r = n" "n \<le> 8" "placed r (g_origin g)"
    "node_xyz r (g_origin g) = (F0, F0, F0)"
proof -
  obtain io where io: "apos_geom_seed lm ptrs es n (Some g) out = (None, io)"
    and r: "apos_geom_refine lm ptrs es (Some g) io = (None, r)"
    using assms by (auto simp: apos_geom_solve_def split: prod.splits option.splits)
  from seed_ok_spec [OF io] have s: "result_wf io" "r_n_nodes io = n" "r_dim io = g_dim g"
    "placed io (g_origin g)" "node_xyz io (g_origin g) = (F0, F0, F0)"
    by (auto simp: gauge_placed_def)
  have "io\<lparr>r_dim := g_dim g\<rparr> = io" using s(3) by simp
  then have k: "gauge_kept g io (r\<lparr>r_dim := g_dim g\<rparr>)"
    using refine_kept [of io "Some g" g lm ptrs es] s(1) r by (simp add: result_wf_def)
  have v: "apos_geom_gauge_valid (Some g) n"
    using io by (auto simp: apos_geom_seed_def split: if_splits)
  then have o: "g_origin g < n" "n \<le> 8"
    by (auto simp: apos_geom_gauge_valid_def numeral_eq_Suc Let_def split: if_splits)
  show "length (r_node r) = 8" "r_n_nodes r = n"
    using k s(1,2) by (simp_all add: gauge_kept_def same_frame_def result_wf_def)
  show "n \<le> 8" by (fact o(2))
  have "g_origin g < length (r_node io)" using o s(1) by (simp add: result_wf_def)
  then have "n_state (r_node r ! g_origin g) = n_state (r_node io ! g_origin g)"
    "node_xyz r (g_origin g) = node_xyz io (g_origin g)"
    using k by (auto simp: gauge_kept_def node_xyz_def Let_def)
  then show "placed r (g_origin g)" "node_xyz r (g_origin g) = (F0, F0, F0)"
    using s(4,5) by (simp_all add: placed_def)
qed

lemma do_solve_cases:
  obtains (failed) r mr ms where "do_solve lm s = s\<lparr>max_recip_mm := mr, max_sd_mm := ms, gw_res := r, gw_phase := APOS_GW_IDLE\<rparr>"
  | (solved) g r0 r mr ms where "resolve_gauge s = Inr g"
      "apos_geom_solve lm True (apos_table_symmetrise (Some (gw_tbl s)) True 28 10) (length (peer (gw_tbl s))) (Some g)
         (gw_res s) = (None, r0)"
      "r = (if \<not> f32_eq (zoff_m s) F0 then the (apos_geom_zoff (Some r0) (zoff_m s)) else r0)"
      "(mr, ms) = apos_table_quality (Some (gw_tbl s)) 10"
      "do_solve lm s = s\<lparr>max_recip_mm := mr, max_sd_mm := ms, gw_res := r,
         solve_n_edges := length (apos_table_symmetrise (Some (gw_tbl s)) True 28 10),
         solve_redundancy := int (length (apos_table_symmetrise (Some (gw_tbl s)) True 28 10)) - apos_geom_free_params (r_dim r) (r_n_placed r),
         solve_unverified := int (length (apos_table_symmetrise (Some (gw_tbl s)) True 28 10)) - apos_geom_free_params (r_dim r) (r_n_placed r) \<le> 0,
         gw_have_result := True, gw_accepted := judge_result r, gw_phase := APOS_GW_IDLE\<rparr>"
proof (cases "resolve_gauge s")
  case (Inl x)
  then show thesis by (intro failed [of "gw_res s" "max_sd_mm s" "max_recip_mm s"]) (simp add: do_solve_def)
next
  case (Inr g)
  obtain mr ms where q: "(mr, ms) = apos_table_quality (Some (gw_tbl s)) 10" by (metis surj_pair)
  obtain rc r0 where r0: "apos_geom_solve lm True (apos_table_symmetrise (Some (gw_tbl s)) True 28 10)
      (length (peer (gw_tbl s))) (Some g) (gw_res s) = (rc, r0)" by (metis surj_pair)
  show thesis
  proof (cases rc)
    case None
    show thesis by (rule solved [OF Inr r0 [unfolded None] refl q]) (simp add: do_solve_def Inr q [symmetric] r0 None Let_def)
  next
    case (Some e)
    show thesis by (rule failed [of r0 ms mr]) (simp add: do_solve_def Inr q [symmetric] r0 Some Let_def)
  qed
qed

lemma zoff_keeps:
  assumes "r' = the (apos_geom_zoff (Some r) dz)"
  shows "length (r_node r') = length (r_node r)" "r_n_nodes r' = r_n_nodes r" "r_dim r' = r_dim r"
    "n < length (r_node r) \<Longrightarrow> placed r' n = placed r n"
    "n < length (r_node r) \<Longrightarrow> n < r_n_nodes r \<Longrightarrow> placed r n \<Longrightarrow>
       node_xyz r' n = (n_x (r_node r ! n), n_y (r_node r ! n), f32_add (n_z (r_node r ! n)) dz)"
  using assms by (auto simp: apos_geom_zoff_def placed_def node_xyz_def Let_def)

section \<open>The cursor over the ordered pairs\<close>

definition ordered_pairs :: "nat \<Rightarrow> (nat \<times> nat) set" where
  "ordered_pairs n = {(a, b). a < n \<and> b < n \<and> a \<noteq> b}"

lemma pair_of_in:
  assumes "k < n * (n - 1)"
  shows "pair_of k n \<in> ordered_pairs n"
proof -
  have n: "1 < n" using assms by (cases n; cases "n - 1") auto
  have "k div (n - 1) < n" using assms n by (simp add: less_mult_imp_div_less)
  moreover have "k mod (n - 1) < n - 1" using n by simp
  ultimately show ?thesis by (auto simp: pair_of_def ordered_pairs_def Let_def)
qed

lemma pair_of_inj:
  assumes "pair_of j n = pair_of k n" and "1 < n"
  shows "j = k"
proof -
  have "j div (n - 1) = k div (n - 1)" "j mod (n - 1) = k mod (n - 1)"
    using assms(1) by (auto simp: pair_of_def Let_def split: if_splits)
  then show ?thesis by (metis div_mult_mod_eq)
qed

lemma card_ordered_pairs: "card (ordered_pairs n) = n * (n - 1)"
proof -
  have "ordered_pairs n = (SIGMA a:{..<n}. {..<n} - {a})" by (auto simp: ordered_pairs_def)
  then show ?thesis by (simp add: card_Diff_singleton_if)
qed

lemma pair_of_onto: "(\<lambda>k. pair_of k n) ` {..<n * (n - 1)} = ordered_pairs n"
proof (cases "1 < n")
  case True
  have fin: "finite (ordered_pairs n)"
    by (rule finite_subset [of _ "{..<n} \<times> {..<n}"]) (auto simp: ordered_pairs_def)
  have "inj_on (\<lambda>k. pair_of k n) {..<n * (n - 1)}"
    using pair_of_inj True by (intro inj_onI) blast
  then have "card ((\<lambda>k. pair_of k n) ` {..<n * (n - 1)}) = card (ordered_pairs n)"
    by (simp add: card_image card_ordered_pairs)
  moreover have "(\<lambda>k. pair_of k n) ` {..<n * (n - 1)} \<subseteq> ordered_pairs n" using pair_of_in by auto
  ultimately show ?thesis by (intro card_subset_eq [OF fin])
next
  case False
  then have "n = 0 \<or> n = 1" by auto
  then show ?thesis by (auto simp: ordered_pairs_def)
qed

section \<open>The invariant\<close>

definition peer_ok :: "apos_peer \<Rightarrow> bool" where
  "peer_ok p \<longleftrightarrow> length (p_eui p) = 8 \<and> p_short_addr p \<noteq> GATEWAY"

definition table_ok :: "apos_table \<Rightarrow> bool" where
  "table_ok t \<longleftrightarrow> tab_inv t \<and> list_all peer_ok (peer t)"

definition result_ok :: "apos_gw \<Rightarrow> bool" where
  "result_ok s \<longleftrightarrow> gw_have_result s \<longrightarrow>
     r_n_nodes (gw_res s) = length (peer (gw_tbl s)) \<and> length (r_node (gw_res s)) = 8"

definition range_ok :: "apos_gw \<Rightarrow> bool" where
  "range_ok s \<longleftrightarrow>
     (let n = length (peer (gw_tbl s)); (i, j) = pair_of (pair_idx s) n in
      3 \<le> n \<and> pair_total s = n * (n - 1) \<and> pair_idx s \<le> pair_total s \<and> pair_retries s \<le> 1 \<and>
      tx_fails s < 10 \<and> (awaiting_rsp s \<longrightarrow> tx_fails s = 0) \<and>
      (awaiting_rsp s \<longrightarrow> pair_idx s < pair_total s \<and> await_from_addr s = p_short_addr (peer (gw_tbl s) ! i) \<and>
         await_peer_addr s = p_short_addr (peer (gw_tbl s) ! j)))"

definition apply_ok :: "apos_gw \<Rightarrow> bool" where
  "apply_ok s \<longleftrightarrow> gw_have_result s \<and> apply_idx s \<le> r_n_nodes (gw_res s) \<and> apply_retries s \<le> 3 \<and>
     tx_fails s < 10 \<and> (awaiting_rsp s \<longrightarrow> tx_fails s = 0) \<and>
     applied_ok s + applied_fail s + applied_skip s = apply_idx s \<and>
     (apply_reopen s \<longrightarrow> \<not> awaiting_rsp s) \<and>
     (apply_ending s \<longrightarrow> apply_idx s = r_n_nodes (gw_res s) \<and> \<not> awaiting_rsp s \<and> \<not> apply_reopen s) \<and>
     (awaiting_rsp s \<longrightarrow> apply_idx s < r_n_nodes (gw_res s) \<and> placed (gw_res s) (apply_idx s) \<and>
        await_from_addr s = p_short_addr (peer (gw_tbl s) ! apply_idx s))"

definition phase_ok :: "apos_gw \<Rightarrow> bool" where
  "phase_ok s \<longleftrightarrow>
     (case gw_phase s of
        APOS_GW_IDLE \<Rightarrow> True
      | APOS_GW_ENUM \<Rightarrow> \<not> gw_have_result s \<and> enum_round s \<le> 3
      | APOS_GW_RANGE \<Rightarrow> \<not> gw_have_result s \<and> range_ok s
      | APOS_GW_APPLY \<Rightarrow> apply_ok s)"

definition apos_gw_inv :: "apos_gw \<Rightarrow> bool" where
  "apos_gw_inv s \<longleftrightarrow> gw_ready s \<and> table_ok (gw_tbl s) \<and> length (gauge_addr s) = 4 \<and>
     (apos_gw_busy s \<longrightarrow> gw_session s \<noteq> 0) \<and> (gw_have_result s \<longrightarrow> gw_session s \<noteq> 0) \<and> result_ok s \<and> phase_ok s"

lemma peer_eui_len: "length (get_bytes b k m) = m"
  by (simp add: get_bytes_def)

lemma add_peer_table_ok:
  assumes "table_ok t" and "length e = 8" and "a \<noteq> GATEWAY"
    and "apos_table_add_peer (Some t) (Some e) a v x y z = (Inr k, Some t')"
  shows "table_ok t'"
proof -
  have i: "tab_inv t'" using add_peer_inv [of t e a v x y z] assms by (simp add: table_ok_def)
  have t: "tab_inv t" "list_all peer_ok (peer t)" using assms(1) by (simp_all add: table_ok_def)
  have "list_all peer_ok (peer t')"
    by (rule add_peer_cases [OF t(1), of a e v x y z])
      (use assms t in \<open>auto simp: list_all_iff peer_ok_def dest!: subsetD [OF set_update_subset_insert]\<close>)
  with i show ?thesis by (simp add: table_ok_def)
qed

lemma add_meas_table_ok:
  assumes "table_ok t" and "a \<noteq> b" and "a < length (peer t)" and "b < length (peer t)"
  obtains t' where "apos_table_add_meas (Some t) a b m s n = (None, Some t')" "table_ok t'" "peer t' = peer t"
  using add_meas_cases [of t a b m s n] assms by (auto simp: table_ok_def)

text \<open>A range report is taken only as the answer to the pair at the cursor.\<close>

lemma on_range_rsp_cases:
  assumes "apos_gw_inv s"
  obtains (ignored) "on_range_rsp buf n s = s"
  | (taken) i j mean sd k t where "gw_phase s = APOS_GW_RANGE" "awaiting_rsp s"
      "(i, j) = pair_of (pair_idx s) (length (peer (gw_tbl s)))" "pair_idx s < pair_total s"
      "i < length (peer (gw_tbl s))" "j < length (peer (gw_tbl s))" "i \<noteq> j"
      "apos_frame_src buf = p_short_addr (peer (gw_tbl s) ! i)"
      "apos_frame_parse_range_rsp (Some buf) n True = Inr (gw_session s, p_short_addr (peer (gw_tbl s) ! j), mean, sd, k)"
      "if k < 10 \<or> mean \<le> 0 then t = gw_tbl s
       else apos_table_add_meas (Some (gw_tbl s)) i j mean sd k = (None, Some t)"
      "table_ok t" "peer t = peer (gw_tbl s)"
      "on_range_rsp buf n s = s\<lparr>gw_tbl := t, awaiting_rsp := False, pair_retries := 0, tx_fails := 0,
         pair_idx := pair_idx s + 1, next_action_ms := 0\<rparr>"
proof (cases "apos_frame_parse_range_rsp (Some buf) n True")
  case (Inl x)
  then show thesis by (intro ignored) (simp add: on_range_rsp_def)
next
  case (Inr p)
  obtain ss pr mean sd k where p: "p = (ss, pr, mean, sd, k)" by (metis surj_pair)
  show thesis
  proof (cases "ss = gw_session s \<and> awaiting_rsp s \<and> gw_phase s = APOS_GW_RANGE \<and>
      apos_frame_src buf = await_from_addr s \<and> pr = await_peer_addr s")
    case False
    then show thesis using Inr p by (intro ignored) (auto simp: on_range_rsp_def)
  next
    case True
    let ?t = "gw_tbl s"
    obtain i j where ij: "(i, j) = pair_of (pair_idx s) (length (peer ?t))" by (metis surj_pair)
    have r: "range_ok s" and tb: "table_ok ?t"
      using assms True by (simp_all add: apos_gw_inv_def phase_ok_def)
    then have w: "pair_idx s < pair_total s" "pair_total s = length (peer ?t) * (length (peer ?t) - 1)"
      "await_from_addr s = p_short_addr (peer ?t ! i)" "await_peer_addr s = p_short_addr (peer ?t ! j)"
      using True by (auto simp: range_ok_def ij [symmetric] Let_def)
    have b: "i < length (peer ?t)" "j < length (peer ?t)" "i \<noteq> j"
      using pair_of_in [of "pair_idx s" "length (peer ?t)"] w(1,2) ij by (auto simp: ordered_pairs_def)
    have f: "apos_table_find_addr (Some ?t) (await_from_addr s) = Inr i"
      "apos_table_find_addr (Some ?t) (await_peer_addr s) = Inr j"
      using find_addr_nth [of ?t] tb b w(3,4) by (simp_all add: table_ok_def)
    obtain t' where t': "apos_table_add_meas (Some ?t) i j mean sd k = (None, Some t')" "table_ok t'" "peer t' = peer ?t"
      by (rule add_meas_table_ok [OF tb b(3,1,2)])
    define t where "t = (if k < 10 \<or> mean \<le> 0 then ?t else t')"
    have ts: "if k < 10 \<or> mean \<le> 0 then t = ?t else apos_table_add_meas (Some ?t) i j mean sd k = (None, Some t)"
      "table_ok t" "peer t = peer ?t" using t' tb by (simp_all add: t_def)
    show thesis
      using Inr p True f t' w by (intro taken [OF _ _ ij w(1) b _ _ ts]) (auto simp: on_range_rsp_def t_def)
  qed
qed

lemma on_setpos_ack_cases:
  obtains (ignored) "on_setpos_ack buf n s = s"
  | (taken) xyz ok where "gw_phase s = APOS_GW_APPLY" "awaiting_rsp s" "apos_frame_src buf = await_from_addr s"
      "apos_frame_parse_setpos_ack (Some buf) n True = Inr (gw_session s, xyz, ok)"
      "on_setpos_ack buf n s = s\<lparr>applied_ok := applied_ok s + of_bool ok, applied_fail := applied_fail s + of_bool (\<not> ok),
         awaiting_rsp := False, apply_retries := 0, tx_fails := 0, apply_idx := apply_idx s + 1, next_action_ms := 0\<rparr>"
proof (cases "apos_frame_parse_setpos_ack (Some buf) n True")
  case (Inl x)
  then show thesis by (intro ignored) (simp add: on_setpos_ack_def)
next
  case (Inr p)
  obtain ss xyz ok where p: "p = (ss, xyz, ok)" by (metis surj_pair)
  show thesis
  proof (cases "ss = gw_session s \<and> awaiting_rsp s \<and> gw_phase s = APOS_GW_APPLY \<and> apos_frame_src buf = await_from_addr s")
    case False
    then show thesis using Inr p by (intro ignored) (auto simp: on_setpos_ack_def)
  next
    case True
    then show thesis using Inr p by (intro taken [of xyz ok]) (auto simp: on_setpos_ack_def)
  qed
qed

lemma on_enum_rsp_cases:
  obtains (ignored) "on_enum_rsp buf n s = s"
  | (clash) "gw_phase s = APOS_GW_ENUM" "on_enum_rsp buf n s = s\<lparr>gw_phase := APOS_GW_IDLE\<rparr>"
  | (known) eui pv x y z k t where "gw_phase s = APOS_GW_ENUM" "apos_frame_src buf \<noteq> GATEWAY" "length eui = 8"
      "apos_frame_parse_enum_rsp (Some buf) n True = Inr (gw_session s, eui, pv, x, y, z)"
      "apos_table_add_peer (Some (gw_tbl s)) (Some eui) (apos_frame_src buf) pv x y z = (Inr k, Some t)"
      "on_enum_rsp buf n s = s\<lparr>gw_tbl := t\<rparr>"
proof (cases "apos_frame_parse_enum_rsp (Some buf) n True")
  case (Inl x)
  then show thesis by (intro ignored) (simp add: on_enum_rsp_def)
next
  case (Inr p)
  obtain ss eui pv x y z where p: "p = (ss, eui, pv, x, y, z)" by (metis surj_pair)
  have e: "length eui = 8"
    using Inr p by (auto simp: apos_frame_parse_enum_rsp_def peer_eui_len Let_def split: option.splits)
  show thesis
  proof (cases "ss = gw_session s \<and> gw_phase s = APOS_GW_ENUM \<and> apos_frame_src buf \<noteq> GATEWAY")
    case False
    then show thesis using Inr p by (intro ignored) (auto simp: on_enum_rsp_def)
  next
    case True
    obtain rc tt where a: "apos_table_add_peer (Some (gw_tbl s)) (Some eui) (apos_frame_src buf) pv x y z = (rc, tt)"
      by (metis surj_pair)
    show thesis
    proof (cases rc)
      case (Inl er)
      show thesis
      proof (cases "er = EADDRINUSE")
        case True
        with Inl a Inr p \<open>ss = _ \<and> _\<close> show thesis by (intro clash) (simp_all add: on_enum_rsp_def)
      next
        case False
        with Inl a Inr p \<open>ss = _ \<and> _\<close> show thesis by (intro ignored) (simp add: on_enum_rsp_def)
      qed
    next
      case (Inr k)
      obtain t where "tt = Some t"
        using a Inr by (auto simp: apos_table_add_peer_def Let_def split: sum.splits if_splits)
      then show thesis
        using True Inr a \<open>apos_frame_parse_enum_rsp _ _ _ = _\<close> p e
        by (intro known [of eui pv x y z k t]) (simp_all add: on_enum_rsp_def)
    qed
  qed
qed

section \<open>Work left\<close>

text \<open>A bound on the steps a survey still takes: an ordered pair takes at most 23 (two attempts, each of
  up to ten failed transmissions or one transmission and one time-out), a node of the apply at most 47.\<close>

definition effort :: "nat \<Rightarrow> nat \<Rightarrow> bool \<Rightarrow> nat \<Rightarrow> nat" where
  "effort limit retries awaiting fails = (limit - retries) * 12 + (if awaiting then 1 else 11 - fails)"

definition gw_work :: "apos_gw \<Rightarrow> nat" where
  "gw_work s =
     (case gw_phase s of
        APOS_GW_IDLE \<Rightarrow> 0
      | APOS_GW_ENUM \<Rightarrow> 1372 - enum_round s
      | APOS_GW_RANGE \<Rightarrow> (pair_total s - pair_idx s) * 24 + effort 1 (pair_retries s) (awaiting_rsp s) (tx_fails s)
      | APOS_GW_APPLY \<Rightarrow> (r_n_nodes (gw_res s) - apply_idx s) * 60 + effort 3 (apply_retries s) (awaiting_rsp s) (tx_fails s) +
          of_bool (apply_reopen s) + of_bool (\<not> apply_ending s))"

lemma effort_sent: "f < 10 \<Longrightarrow> effort l r True 0 < effort l r False f"
  and effort_failed: "f + 1 < 10 \<Longrightarrow> effort l r False (f + 1) < effort l r False f"
  and effort_retry: "r < l \<Longrightarrow> effort l (r + 1) False f < effort l r True f'"
  and effort_le: "effort l r a f \<le> l * 12 + 11"
  and effort_pos: "f < 10 \<Longrightarrow> 0 < effort l r a f"
proof -
  show "effort l (r + 1) False f < effort l r True f'" if "r < l"
  proof -
    have "l - r = Suc (l - (r + 1))" using that by simp
    then show ?thesis by (simp add: effort_def)
  qed
qed (auto simp: effort_def)

lemma gw_ready_after [simp]: "gw_ready (after_tx s b) \<longleftrightarrow> length b = 34"
  by (simp add: gw_ready_def)

lemma pairs_le: "table_ok t \<Longrightarrow> length (peer t) * (length (peer t) - 1) \<le> 56"
proof -
  assume "table_ok t"
  then have "length (peer t) \<le> 8" by (simp add: table_ok_def tab_inv_def)
  then have "length (peer t) * (length (peer t) - 1) \<le> 8 * 7" by (intro mult_le_mono) auto
  then show ?thesis by simp
qed

text \<open>What a step keeps and how far it gets; \<open>due\<close>: its time has come.\<close>

definition step_ok :: "int \<Rightarrow> bool \<Rightarrow> apos_gw \<Rightarrow> apos_gw \<Rightarrow> bool" where
  "step_ok now due s s' \<longleftrightarrow> apos_gw_inv s' \<and> gw_work s' \<le> gw_work s \<and> (due \<longrightarrow> gw_work s' < gw_work s) \<and>
     next_action_ms s' \<le> max (next_action_ms s) (now + 3000)"

lemma ready_setters [simp]:
  "gw_ready (s\<lparr>gw_phase := p\<rparr>) = gw_ready s" "gw_ready (s\<lparr>gw_tbl := t\<rparr>) = gw_ready s"
  by (simp_all add: gw_ready_def)

lemma to_idle: "apos_gw_inv s \<Longrightarrow> apos_gw_inv (s\<lparr>gw_phase := APOS_GW_IDLE\<rparr>)"
  by (simp add: apos_gw_inv_def phase_ok_def result_ok_def apos_gw_busy_def)

lemma step_enum_ok:
  assumes "apos_gw_inv s" and "gw_phase s = APOS_GW_ENUM" and "0 \<le> ge_now e"
  shows "step_ok (ge_now e) (next_action_ms s \<le> ge_now e) s (fst (step_enum e s))"
proof -
  have i: "gw_ready s" "table_ok (gw_tbl s)" "length (gauge_addr s) = 4" "gw_session s \<noteq> 0" "\<not> gw_have_result s" "enum_round s \<le> 3"
    using assms by (simp_all add: apos_gw_inv_def phase_ok_def apos_gw_busy_def)
  from i(1) show ?thesis
  proof (cases rule: step_enum_cases [where e = e])
    case wait
    then show ?thesis using assms(1) by (simp add: step_ok_def)
  next
    case stop
    then show ?thesis using to_idle [OF assms(1)] assms(2) i(6) by (simp add: step_ok_def gw_work_def)
  next
    case range
    have "gw_ready (fst (step_enum e s))" using i(1) range(6) by (simp add: gw_ready_def)
    moreover have "range_ok (fst (step_enum e s))"
      using range(4,6) by (simp add: range_ok_def case_prod_beta Let_def)
    ultimately show ?thesis
      using i range pairs_le [OF i(2)] assms(2,3)
      by (simp add: step_ok_def apos_gw_inv_def phase_ok_def apos_gw_busy_def result_ok_def gw_work_def effort_def)
  next
    case (send b fs)
    then show ?thesis
      using i assms(2)
      by (auto simp: step_ok_def apos_gw_inv_def phase_ok_def apos_gw_busy_def result_ok_def gw_work_def
          gw_ready_def)
  qed
qed

lemma do_solve_ok:
  assumes "apos_gw_inv s" and "\<not> gw_have_result s" and "gw_session s \<noteq> 0"
  shows "apos_gw_inv (do_solve lm s) \<and> gw_phase (do_solve lm s) = APOS_GW_IDLE \<and>
    next_action_ms (do_solve lm s) = next_action_ms s"
proof (cases rule: do_solve_cases [of lm s])
  case (failed r mr ms)
  then show ?thesis
    using assms by (simp add: apos_gw_inv_def phase_ok_def result_ok_def apos_gw_busy_def gw_ready_def)
next
  case (solved g r0 r mr ms)
  have "length (r_node r) = 8" "r_n_nodes r = length (peer (gw_tbl s))"
    using solve_ok(1,2) [OF solved(2)] solved(3) zoff_keeps(1,2) [OF refl, of r0 "zoff_m s"] by (auto split: if_splits)
  then show ?thesis
    using assms solved(5) by (simp add: apos_gw_inv_def phase_ok_def result_ok_def apos_gw_busy_def gw_ready_def)
qed

lemma step_range_ok:
  assumes "apos_gw_inv s" and "gw_phase s = APOS_GW_RANGE" and "0 \<le> ge_now e"
  shows "step_ok (ge_now e) (next_action_ms s \<le> ge_now e \<and> 150000 \<le> av) s (fst (step_range e av s))"
proof -
  let ?n = "length (peer (gw_tbl s))"
  have i: "gw_ready s" "table_ok (gw_tbl s)" "length (gauge_addr s) = 4" "gw_session s \<noteq> 0" "\<not> gw_have_result s" "range_ok s"
    using assms by (simp_all add: apos_gw_inv_def phase_ok_def apos_gw_busy_def)
  have w: "3 \<le> ?n" "pair_total s = ?n * (?n - 1)" "pair_idx s \<le> pair_total s" "pair_retries s \<le> 1" "tx_fails s < 10"
    "awaiting_rsp s \<longrightarrow> tx_fails s = 0" "awaiting_rsp s \<longrightarrow> pair_idx s < pair_total s"
    using i(6) by (auto simp: range_ok_def Let_def split: prod.splits)
  have inv: "apos_gw_inv s'" if "gw_ready s'" "gw_tbl s' = gw_tbl s" "gauge_addr s' = gauge_addr s"
    "gw_session s' = gw_session s" "gw_have_result s' = gw_have_result s" "gw_phase s' = gw_phase s" "range_ok s'" for s'
    using that i assms(1,2) by (simp add: apos_gw_inv_def phase_ok_def apos_gw_busy_def result_ok_def)
  from i(1) show ?thesis
  proof (cases rule: step_range_cases [where e = e and av = av])
    case wait
    then show ?thesis using assms(1) by (auto simp: step_ok_def)
  next
    case retry
    have "range_ok (fst (step_range e av s))" using retry w by (simp add: range_ok_def case_prod_beta Let_def)
    then show ?thesis
      using retry i assms(2) inv [of "fst (step_range e av s)"] effort_retry [OF retry(3), of "tx_fails s" "tx_fails s"]
      by (simp add: step_ok_def gw_work_def gw_ready_def)
  next
    case lost
    have "range_ok (fst (step_range e av s))"
      using lost w by (simp add: range_ok_def case_prod_beta Let_def retire_pair_def)
    moreover have "(pair_total s - pair_idx s) * 24 = (pair_total s - (pair_idx s + 1)) * 24 + 24"
      using lost w(7) by simp
    ultimately show ?thesis
      using lost i assms(2) inv [of "fst (step_range e av s)"] effort_le [of 1 0 False 0]
      by (simp add: step_ok_def gw_work_def gw_ready_def retire_pair_def)
  next
    case solve
    have "gw_work s > 0" using assms(2) effort_pos [OF w(5)] by (simp add: gw_work_def)
    then show ?thesis
      using solve do_solve_ok [OF assms(1) i(5,4), of "ge_libm e"] by (simp add: step_ok_def gw_work_def)
  next
    case (command s1 b fs i' j')
    have f: "gw_tbl s1 = gw_tbl s" "gauge_addr s1 = gauge_addr s" "gw_session s1 = gw_session s"
      "gw_have_result s1 = gw_have_result s" "gw_phase s1 = gw_phase s" "pair_idx s1 = pair_idx s"
      "pair_total s1 = pair_total s" "pair_retries s1 = pair_retries s" "next_action_ms s1 = next_action_ms s"
      "awaiting_rsp s1 = awaiting_rsp s" "await_from_addr s1 = p_short_addr (peer (gw_tbl s) ! i')"
      "await_peer_addr s1 = p_short_addr (peer (gw_tbl s) ! j')"
      by (simp_all add: command(4))
    have d: "(pair_total s - pair_idx s) * 24 = (pair_total s - (pair_idx s + 1)) * 24 + 24"
      using command(2) by simp
    let ?a = "(after_tx s1 b)\<lparr>tx_fails := 0, awaiting_rsp := True, next_action_ms := ge_now e + 3000\<rparr>"
    let ?b = "retire_pair ((after_tx s1 b)\<lparr>tx_fails := tx_fails s + 1\<rparr>)"
    let ?c = "(after_tx s1 b)\<lparr>tx_fails := tx_fails s + 1\<rparr>"
    have "range_ok ?a" using w command(2) by (simp add: range_ok_def f command(3) [symmetric] Let_def)
    then have a: "step_ok (ge_now e) True s ?a"
      using inv [of ?a] command(1,5) effort_sent [OF w(5), of 1 "pair_retries s"] assms(2)
      by (simp add: step_ok_def f gw_work_def gw_ready_def)
    have "range_ok ?b" using w command(2) by (simp add: range_ok_def f case_prod_beta Let_def retire_pair_def)
    then have b: "step_ok (ge_now e) True s ?b"
      using inv [of ?b] command(1,5) effort_le [of 1 0 False 0] assms(2) d
      by (simp add: step_ok_def f gw_work_def gw_ready_def retire_pair_def)
    have c: "step_ok (ge_now e) True s ?c" if "tx_fails s + 1 < 10"
    proof -
      have "range_ok ?c" using w command(1,2) that by (simp add: range_ok_def f case_prod_beta Let_def)
      then show ?thesis
        using inv [of ?c] command(1,5) effort_failed [OF that, of 1 "pair_retries s"] assms(2)
        by (simp add: step_ok_def f gw_work_def gw_ready_def)
    qed
    have "fst (step_range e av s) \<in> {?a, ?b} \<or> tx_fails s + 1 < 10 \<and> fst (step_range e av s) = ?c"
      using command(9) by (auto simp del: after_tx_simps)
    then have "step_ok (ge_now e) True s (fst (step_range e av s))" using a b c by auto
    then show ?thesis by (simp add: step_ok_def)
  qed
qed

lemma step_apply_ok:
  assumes "apos_gw_inv s" and "gw_phase s = APOS_GW_APPLY" and "0 \<le> ge_now e"
  shows "step_ok (ge_now e) (next_action_ms s \<le> ge_now e \<and> 150000 \<le> av) s (fst (step_apply e av s))"
proof -
  let ?n = "r_n_nodes (gw_res s)"
  have i: "gw_ready s" "table_ok (gw_tbl s)" "length (gauge_addr s) = 4" "gw_session s \<noteq> 0" "gw_have_result s"
    "result_ok s" "apply_ok s"
    using assms by (auto simp: apos_gw_inv_def phase_ok_def apos_gw_busy_def apply_ok_def)
  have w: "apply_idx s \<le> ?n" "apply_retries s \<le> 3" "tx_fails s < 10" "awaiting_rsp s \<longrightarrow> tx_fails s = 0"
    "applied_ok s + applied_fail s + applied_skip s = apply_idx s" "apply_reopen s \<longrightarrow> \<not> awaiting_rsp s"
    "apply_ending s \<longrightarrow> apply_idx s = ?n \<and> \<not> awaiting_rsp s \<and> \<not> apply_reopen s" "awaiting_rsp s \<longrightarrow> apply_idx s < ?n"
    using i(7) by (simp_all add: apply_ok_def)
  have inv: "apos_gw_inv s'" if "gw_ready s'" "gw_tbl s' = gw_tbl s" "gauge_addr s' = gauge_addr s" "gw_res s' = gw_res s"
    "gw_session s' = gw_session s" "gw_have_result s' = gw_have_result s" "gw_phase s' = gw_phase s" "apply_ok s'" for s'
    using that i assms(1,2) by (simp add: apos_gw_inv_def phase_ok_def apos_gw_busy_def result_ok_def)
  obtain k where k: "skip_unplaced s = s\<lparr>applied_skip := applied_skip s + k, apply_idx := apply_idx s + k\<rparr>"
    "\<forall>i. apply_idx s \<le> i \<and> i < apply_idx s + k \<longrightarrow> i < ?n \<and> \<not> placed (gw_res s) i"
    using skip_unplaced_spec [of s] by blast
  have kn: "apply_idx s + k \<le> ?n"
    using k(2) [THEN spec, of "apply_idx s + k - 1"] w(1) by (cases k) auto
  have dec: "(?n - (apply_idx s + k)) * 60 \<le> (?n - apply_idx s) * 60" by simp
  from i(1) show ?thesis
  proof (cases rule: step_apply_cases [where e = e and av = av])
    case wait
    then show ?thesis using assms(1) by (auto simp: step_ok_def)
  next
    case retry
    have "apply_ok (fst (step_apply e av s))" using retry w i(5) by (auto simp: apply_ok_def)
    then show ?thesis
      using retry i assms(2) inv [of "fst (step_apply e av s)"] effort_retry [OF retry(3), of "tx_fails s" "tx_fails s"]
      by (simp add: step_ok_def gw_work_def gw_ready_def)
  next
    case lost
    have "apply_ok (fst (step_apply e av s))" using lost w i(5) by (auto simp: apply_ok_def)
    moreover have "(?n - apply_idx s) * 60 = (?n - (apply_idx s + 1)) * 60 + 60"
      using lost w(8) by simp
    ultimately show ?thesis
      using lost i assms(2) inv [of "fst (step_apply e av s)"] effort_le [of 3 0 False 0]
      by (simp add: step_ok_def gw_work_def gw_ready_def)
  next
    case (reopen b fs)
    have "apply_ok (fst (step_apply e av s))" using reopen w i(5) by (simp add: apply_ok_def)
    then show ?thesis
      using reopen i assms(2) inv [of "fst (step_apply e av s)"] by (simp add: step_ok_def gw_work_def gw_ready_def)
  next
    case (finish b fs)
    have "apos_gw_inv (fst (step_apply e av s))"
      using finish i by (simp add: apos_gw_inv_def phase_ok_def apos_gw_busy_def result_ok_def gw_ready_def)
    then show ?thesis
      using finish effort_pos [OF w(3)] assms(2) by (simp add: step_ok_def gw_work_def)
  next
    case (covered s1)
    have "apply_ok s1" using covered w i(5) kn k(1) by (simp add: apply_ok_def)
    then show ?thesis
      using covered i assms(2) inv [of s1] k(1) dec by (simp add: step_ok_def gw_work_def gw_ready_def)
  next
    case (persist s1)
    obtain st fl where p: "snd (persist_survey e s1) = s1\<lparr>gw_store := st, gw_flash := fl\<rparr>"
      using persist_survey_frame [of e s1] by blast
    define ok where "ok = fst (persist_survey e s1)"
    have x: "fst (step_apply e av s) = s\<lparr>applied_skip := applied_skip s + k, apply_idx := apply_idx s + k,
        gw_store := st, gw_flash := fl, apply_persisted := ok, apply_ending := True\<rparr>"
      using persist(8) p k(1) persist(5) by (simp add: ok_def)
    have n: "?n \<le> apply_idx s + k" using persist(5,6) k(1) by simp
    have "apply_ok (fst (step_apply e av s))" using persist(1-4) n w i(5) kn by (simp add: apply_ok_def x)
    then show ?thesis
      using persist(1-4) i assms(2) inv [of "fst (step_apply e av s)"] dec
      by (simp add: step_ok_def gw_work_def gw_ready_def x)
  next
    case (push s1 s2 b fs)
    have f: "gw_tbl s2 = gw_tbl s" "gauge_addr s2 = gauge_addr s" "gw_session s2 = gw_session s" "gw_res s2 = gw_res s"
      "gw_have_result s2 = gw_have_result s" "gw_phase s2 = gw_phase s" "apply_idx s2 = apply_idx s + k"
      "apply_retries s2 = apply_retries s" "next_action_ms s2 = next_action_ms s" "awaiting_rsp s2 = awaiting_rsp s"
      "await_from_addr s2 = p_short_addr (peer (gw_tbl s) ! (apply_idx s + k))" "applied_ok s2 = applied_ok s"
      "applied_fail s2 = applied_fail s" "applied_skip s2 = applied_skip s + k" "apply_reopen s2 = apply_reopen s"
      "apply_ending s2 = apply_ending s" "apply_idx s1 = apply_idx s + k"
      by (simp_all add: push(5,8) k(1))
    have d: "(?n - (apply_idx s + k)) * 60 = (?n - (apply_idx s + k + 1)) * 60 + 60"
      using push(6) by (simp add: f)
    have pl: "apply_idx s + k < ?n" "placed (gw_res s) (apply_idx s + k)"
      using push(6,7) by (simp_all add: f)
    let ?a = "(after_tx s2 b)\<lparr>tx_fails := 0, awaiting_rsp := True, next_action_ms := ge_now e + 1500\<rparr>"
    let ?b = "(after_tx s2 b)\<lparr>applied_fail := applied_fail s + 1, tx_fails := 0, apply_retries := 0, apply_idx := apply_idx s1 + 1\<rparr>"
    let ?c = "(after_tx s2 b)\<lparr>tx_fails := tx_fails s + 1\<rparr>"
    have "apply_ok ?a" using w i(5) push(1-4) pl by (simp add: apply_ok_def f)
    then have a: "step_ok (ge_now e) True s ?a"
      using inv [of ?a] push(1-4,9) effort_sent [OF w(3), of 3 "apply_retries s"] assms(2) dec
      by (simp add: step_ok_def f gw_work_def gw_ready_def)
    have "apply_ok ?b" using w i(5) push(1-4) pl by (simp add: apply_ok_def f)
    then have b: "step_ok (ge_now e) True s ?b"
      using inv [of ?b] push(1-4,9) effort_le [of 3 0 False 0] assms(2) d dec effort_pos [OF w(3), of 3 "apply_retries s" False]
      by (simp add: step_ok_def f gw_work_def gw_ready_def)
    have c: "step_ok (ge_now e) True s ?c" if "tx_fails s + 1 < 10"
    proof -
      have "apply_ok ?c" using w i(5) push(1-4) pl that by (simp add: apply_ok_def f)
      then show ?thesis
        using inv [of ?c] push(1-4,9) effort_failed [OF that, of 3 "apply_retries s"] assms(2) dec
        by (simp add: step_ok_def f gw_work_def gw_ready_def)
    qed
    have "fst (step_apply e av s) \<in> {?a, ?b} \<or> tx_fails s + 1 < 10 \<and> fst (step_apply e av s) = ?c"
      using push(13) by (auto simp del: after_tx_simps)
    then have "step_ok (ge_now e) True s (fst (step_apply e av s))" using a b c by auto
    then show ?thesis by (simp add: step_ok_def)
  qed
qed

lemma apos_gw_step_ok:
  assumes "apos_gw_inv s" and "0 \<le> ge_now e"
  shows "step_ok (ge_now e) (gw_phase s \<noteq> APOS_GW_IDLE \<and> next_action_ms s \<le> ge_now e \<and> 150000 \<le> av) s
    (fst (apos_gw_step e av s))"
proof (cases "gw_phase s = APOS_GW_IDLE \<or> av < 10000")
  case True
  then show ?thesis using assms(1) by (auto simp: apos_gw_step_def step_ok_def)
next
  case False
  then show ?thesis
    using step_enum_ok [OF assms(1) _ assms(2)] step_range_ok [OF assms(1) _ assms(2), of av]
      step_apply_ok [OF assms(1) _ assms(2), of av]
    by (cases "gw_phase s") (auto simp: apos_gw_step_def step_ok_def)
qed

lemma apos_gw_on_rx_ok:
  assumes "apos_gw_inv s"
  shows "apos_gw_inv (apos_gw_on_rx buf n s) \<and> gw_work (apos_gw_on_rx buf n s) \<le> gw_work s"
proof -
  have i: "gw_ready s" "table_ok (gw_tbl s)" "length (gauge_addr s) = 4" "result_ok s" "phase_ok s"
    "apos_gw_busy s \<longrightarrow> gw_session s \<noteq> 0" "gw_have_result s \<longrightarrow> gw_session s \<noteq> 0"
    using assms by (simp_all add: apos_gw_inv_def)
  have "apos_gw_inv (on_enum_rsp buf n s) \<and> gw_work (on_enum_rsp buf n s) \<le> gw_work s"
  proof (cases rule: on_enum_rsp_cases [of buf n s])
    case ignored
    then show ?thesis using assms by simp
  next
    case clash
    then show ?thesis using to_idle [OF assms] by (simp add: gw_work_def)
  next
    case (known eui pv x y z k t)
    have "table_ok t" using add_peer_table_ok [OF i(2) known(3,2,5)] .
    then show ?thesis
      using known i by (simp add: apos_gw_inv_def phase_ok_def result_ok_def apos_gw_busy_def gw_work_def)
  qed
  moreover have "apos_gw_inv (on_range_rsp buf n s) \<and> gw_work (on_range_rsp buf n s) \<le> gw_work s"
  proof (cases rule: on_range_rsp_cases [OF assms, of buf n])
    case 1
    then show ?thesis using assms by simp
  next
    case (2 i' j' mean sd k t)
    have "range_ok s" using i(5) 2(1) by (simp add: phase_ok_def)
    then have "range_ok (on_range_rsp buf n s)"
      using 2(4,12,13) by (auto simp: range_ok_def Let_def case_prod_beta)
    moreover have "(pair_total s - pair_idx s) * 24 = (pair_total s - (pair_idx s + 1)) * 24 + 24"
      using 2(4) by simp
    ultimately show ?thesis
      using 2 i effort_le [of 1 0 False 0]
      by (simp add: apos_gw_inv_def phase_ok_def result_ok_def apos_gw_busy_def gw_work_def gw_ready_def)
  qed
  moreover have "apos_gw_inv (on_setpos_ack buf n s) \<and> gw_work (on_setpos_ack buf n s) \<le> gw_work s"
  proof (cases rule: on_setpos_ack_cases [of buf n s])
    case ignored
    then show ?thesis using assms by simp
  next
    case (taken xyz ok)
    have a: "apply_ok s" using i(5) taken(1) by (simp add: phase_ok_def)
    then have "apply_ok (on_setpos_ack buf n s)"
      using taken(2,5) by (cases ok) (auto simp: apply_ok_def)
    moreover have lt: "apply_idx s < r_n_nodes (gw_res s)" using a taken(2) by (simp add: apply_ok_def)
    then have "(r_n_nodes (gw_res s) - apply_idx s) * 60 = (r_n_nodes (gw_res s) - (apply_idx s + 1)) * 60 + 60"
      by simp
    ultimately show ?thesis
      using taken i effort_le [of 3 0 False 0]
      by (simp add: apos_gw_inv_def phase_ok_def result_ok_def apos_gw_busy_def gw_work_def gw_ready_def)
  qed
  ultimately show ?thesis using assms by (simp add: apos_gw_on_rx_def)
qed

end
