(* ===== verification/AposGwProps.thy ===== *)
theory AposGwProps
  imports AposGw AposNode
begin

text \<open>
  What the survey gateway guarantees: its state invariant over every sequence of operations, the end of
  every survey, one frame per step within the beacon's budget, the matching of replies, the coverage of
  the ordered pairs, and what an apply pushes and persists. The last part lets the gateway and an
  anchor exchange a SETPOS.
\<close>

section \<open>Operations and reachable states\<close>

datatype gw_op =
    GwStep gw_env nat
  | GwRx "u8 list" nat
  | GwStartEnum "nat \<Rightarrow> u32"
  | GwStartRun "nat \<Rightarrow> u32"
  | GwStartApply bool
  | GwTrigger "nat \<Rightarrow> u32" "string option" nat
  | GwSetGauge u16 u16 u16 int
  | GwSetZoff f32

text \<open>The state after a call and the frames it sent; \<open>None\<close> where it does not return.\<close>

fun gw_do :: "gw_op \<Rightarrow> apos_gw \<Rightarrow> (apos_gw \<times> tx_frame list) option" where
  "gw_do (GwStep e av) s = Some (apos_gw_step e av s)"
| "gw_do (GwRx buf n) s = Some (apos_gw_on_rx buf n s, [])"
| "gw_do (GwStartEnum rnd) s = map_option (\<lambda>r. (snd r, [])) (apos_gw_start_enum rnd s)"
| "gw_do (GwStartRun rnd) s = map_option (\<lambda>r. (snd r, [])) (apos_gw_start_run rnd s)"
| "gw_do (GwStartApply f) s = Some (snd (apos_gw_start_apply f s), [])"
| "gw_do (GwTrigger rnd p n) s = map_option (\<lambda>r. (snd r, [])) (apos_gw_trigger_from_mqtt rnd p n s)"
| "gw_do (GwSetGauge a b c u) s = Some (snd (apos_gw_set_gauge a b c u s), [])"
| "gw_do (GwSetZoff z) s = Some (apos_gw_set_zoff z s, [])"

fun clock_ok :: "gw_op \<Rightarrow> bool" where
  "clock_ok (GwStep e av) = (0 \<le> ge_now e)"
| "clock_ok _ = True"

inductive gw_reach :: "apos_gw \<Rightarrow> bool" where
  gw_boot: "gw_ready s \<Longrightarrow> gw_reach (apos_gw_init s)"
| gw_next: "gw_reach s \<Longrightarrow> clock_ok op \<Longrightarrow> gw_do op s = Some (s', fs) \<Longrightarrow> gw_reach s'"

lemma new_session_nonzero: "new_session rnd k = Some ss \<Longrightarrow> ss \<noteq> 0"
  by (induction rule: new_session.raw_induct [rotated 1, consumes 1]) (auto simp: Let_def split: if_splits)

lemma new_session_returns: "(ucast (rnd k) :: u16) \<noteq> 0 \<Longrightarrow> new_session rnd k = Some (ucast (rnd k))"
  by (simp add: new_session.simps Let_def)

lemma table_ok_init [simp]: "table_ok apos_table_init"
  by (simp add: table_ok_def) (simp add: apos_table_init_def)

lemma start_enum_inv:
  assumes "apos_gw_inv s" and "apos_gw_start_enum rnd s = Some (rc, s')"
  shows "apos_gw_inv s'"
proof (cases "apos_gw_busy s")
  case True
  then show ?thesis using assms by (simp add: apos_gw_start_enum_def)
next
  case False
  then obtain ss where ss: "new_session rnd 0 = Some ss"
    using assms(2) by (cases "new_session rnd 0") (auto simp: apos_gw_start_enum_def)
  have "gw_ready s" "length (gauge_addr s) = 4" using assms(1) by (simp_all add: apos_gw_inv_def)
  then show ?thesis
    using assms(2) False ss new_session_nonzero [OF ss]
    by (auto simp: apos_gw_start_enum_def apos_gw_inv_def phase_ok_def result_ok_def apos_gw_busy_def gw_ready_def)
qed

lemma start_run_inv:
  assumes "apos_gw_inv s" and "apos_gw_start_run rnd s = Some (rc, s')"
  shows "apos_gw_inv s'"
proof (cases "apos_gw_busy s \<or> \<not> apos_gw_gauge_set s")
  case True
  then show ?thesis using assms by (auto simp: apos_gw_start_run_def split: if_splits)
next
  case False
  then obtain ss where ss: "new_session rnd 0 = Some ss"
    using assms(2) by (cases "new_session rnd 0") (auto simp: apos_gw_start_run_def)
  have "gw_ready s" "length (gauge_addr s) = 4" using assms(1) by (simp_all add: apos_gw_inv_def)
  then show ?thesis
    using assms(2) False ss new_session_nonzero [OF ss]
    by (auto simp: apos_gw_start_run_def apos_gw_inv_def phase_ok_def result_ok_def apos_gw_busy_def gw_ready_def)
qed

lemma start_apply_inv:
  assumes "apos_gw_inv s"
  shows "apos_gw_inv (snd (apos_gw_start_apply f s))"
proof (cases "apos_gw_busy s \<or> \<not> gw_have_result s \<or> \<not> gw_accepted s \<and> \<not> f")
  case True
  then have "snd (apos_gw_start_apply f s) = s" by (auto simp: apos_gw_start_apply_def)
  then show ?thesis using assms by simp
next
  case False
  then show ?thesis
    using assms by (auto simp: apos_gw_start_apply_def apos_gw_inv_def phase_ok_def result_ok_def gw_ready_def apply_ok_def)
qed

lemma phase_ok_gauge [simp]: "phase_ok (s\<lparr>gauge_addr := a\<rparr>) = phase_ok s" "phase_ok (s\<lparr>zoff_m := z\<rparr>) = phase_ok s"
  by (simp_all add: phase_ok_def range_ok_def apply_ok_def cong: apos_gw_phase.case_cong)

lemma set_gauge_inv: "apos_gw_inv s \<Longrightarrow> apos_gw_inv (snd (apos_gw_set_gauge a b c u s))"
  by (auto simp: apos_gw_set_gauge_def apos_gw_inv_def result_ok_def apos_gw_busy_def gw_ready_def Let_def)

lemma set_zoff_inv: "apos_gw_inv s \<Longrightarrow> apos_gw_inv (apos_gw_set_zoff z s)"
  by (auto simp: apos_gw_set_zoff_def apos_gw_inv_def result_ok_def apos_gw_busy_def gw_ready_def)

lemma trigger_cases:
  assumes "apos_gw_trigger_from_mqtt rnd p n s = Some (rc, s')"
  shows "rc = Some EINVAL \<and> s' = s \<or> apos_gw_start_run rnd s = Some (rc, s') \<or> (rc, s') = apos_gw_start_apply False s"
  using assms by (auto simp: apos_gw_trigger_from_mqtt_def Let_def split: option.splits if_splits)

lemma gw_do_inv:
  assumes "apos_gw_inv s" and "clock_ok op" and "gw_do op s = Some (s', fs)"
  shows "apos_gw_inv s'"
  using assms
proof (cases op)
  case (GwStep e av)
  then show ?thesis using apos_gw_step_ok [OF assms(1), of e av] assms(2,3) by (simp add: step_ok_def)
next
  case (GwTrigger rnd p n)
  then obtain rc where t: "apos_gw_trigger_from_mqtt rnd p n s = Some (rc, s')" using assms(3) by auto
  show ?thesis
    using trigger_cases [OF t] start_run_inv [OF assms(1)] start_apply_inv [OF assms(1), of False] assms(1)
    by (metis snd_conv)
next
  case (GwStartEnum rnd)
  then show ?thesis using start_enum_inv [OF assms(1), of rnd] assms(3) by (cases "apos_gw_start_enum rnd s") auto
next
  case (GwStartRun rnd)
  then show ?thesis using start_run_inv [OF assms(1), of rnd] assms(3) by (cases "apos_gw_start_run rnd s") auto
next
  case (GwRx buf n)
  then show ?thesis using apos_gw_on_rx_ok [OF assms(1), of buf n] assms(3) by simp
next
  case (GwStartApply f)
  then show ?thesis using start_apply_inv [OF assms(1), of f] assms(3) by simp
next
  case (GwSetGauge a b c u)
  then show ?thesis using set_gauge_inv [OF assms(1), of a b c u] assms(3) by simp
next
  case (GwSetZoff z)
  then show ?thesis using set_zoff_inv [OF assms(1), of z] assms(3) by simp
qed

lemma gw_reach_inv: "gw_reach s \<Longrightarrow> apos_gw_inv s"
proof (induction rule: gw_reach.induct)
  case (gw_boot s)
  then show ?case
    by (simp add: apos_gw_inv_def apos_gw_init_def phase_ok_def result_ok_def apos_gw_busy_def gw_ready_def)
qed (rule gw_do_inv)

section \<open>A survey from here to its end\<close>

datatype survey_event = Step gw_env nat | Rx "u8 list" nat

fun survey_on :: "survey_event \<Rightarrow> apos_gw \<Rightarrow> apos_gw" where
  "survey_on (Step e av) s = fst (apos_gw_step e av s)"
| "survey_on (Rx buf n) s = apos_gw_on_rx buf n s"

text \<open>A step is due when a survey runs, its time has come, and the beacon is far enough.\<close>

fun due :: "survey_event \<Rightarrow> apos_gw \<Rightarrow> bool" where
  "due (Step e av) s \<longleftrightarrow> gw_phase s \<noteq> APOS_GW_IDLE \<and> next_action_ms s \<le> ge_now e \<and> 150000 \<le> av"
| "due (Rx buf n) s \<longleftrightarrow> False"

fun survey_run :: "survey_event list \<Rightarrow> apos_gw \<Rightarrow> apos_gw" where
  "survey_run [] s = s"
| "survey_run (ev # evs) s = survey_run evs (survey_on ev s)"

fun due_steps :: "survey_event list \<Rightarrow> apos_gw \<Rightarrow> nat" where
  "due_steps [] s = 0"
| "due_steps (ev # evs) s = of_bool (due ev s) + due_steps evs (survey_on ev s)"

fun uptime_ok :: "survey_event \<Rightarrow> bool" where
  "uptime_ok (Step e av) = (0 \<le> ge_now e)"
| "uptime_ok (Rx buf n) = True"

lemma survey_on_ok:
  assumes "apos_gw_inv s" and "uptime_ok ev"
  shows "apos_gw_inv (survey_on ev s) \<and> of_bool (due ev s) + gw_work (survey_on ev s) \<le> gw_work s"
proof (cases ev)
  case (Step e av)
  then show ?thesis using apos_gw_step_ok [OF assms(1), of e av] assms(2) by (auto simp: step_ok_def)
next
  case (Rx buf n)
  then show ?thesis using apos_gw_on_rx_ok [OF assms(1), of buf n] by simp
qed

lemma survey_run_ok:
  assumes "apos_gw_inv s" and "list_all uptime_ok evs"
  shows "apos_gw_inv (survey_run evs s) \<and> due_steps evs s + gw_work (survey_run evs s) \<le> gw_work s"
  using assms
proof (induction evs arbitrary: s)
  case (Cons ev evs)
  have "uptime_ok ev" using Cons.prems(2) by simp
  with survey_on_ok [OF Cons.prems(1)] Cons.IH [of "survey_on ev s"] Cons.prems(2) show ?case by force
qed simp

lemma gw_work_bound:
  assumes "apos_gw_inv s"
  shows "gw_work s \<le> 1372" and "gw_work s = 0 \<longleftrightarrow> gw_phase s = APOS_GW_IDLE"
proof -
  have i: "table_ok (gw_tbl s)" "phase_ok s" "result_ok s" using assms by (simp_all add: apos_gw_inv_def)
  have "gw_work s \<le> 1372 \<and> (gw_work s = 0 \<longleftrightarrow> gw_phase s = APOS_GW_IDLE)"
  proof (cases "gw_phase s")
    case APOS_GW_RANGE
    then have "pair_total s \<le> 56" "tx_fails s < 10"
      using i(2) pairs_le [OF i(1)] by (auto simp: phase_ok_def range_ok_def Let_def)
    then have "(pair_total s - pair_idx s) * 24 \<le> 56 * 24" by (intro mult_le_mono1) simp
    then show ?thesis
      using APOS_GW_RANGE effort_le [of 1 "pair_retries s" "awaiting_rsp s" "tx_fails s"]
        effort_pos [OF \<open>tx_fails s < 10\<close>, of 1 "pair_retries s" "awaiting_rsp s"] by (simp add: gw_work_def)
  next
    case APOS_GW_APPLY
    then have "r_n_nodes (gw_res s) \<le> 8" "tx_fails s < 10"
      using i by (auto simp: phase_ok_def apply_ok_def result_ok_def table_ok_def tab_inv_def)
    then have "(r_n_nodes (gw_res s) - apply_idx s) * 60 \<le> 8 * 60" by (intro mult_le_mono1) simp
    then show ?thesis
      using APOS_GW_APPLY effort_le [of 3 "apply_retries s" "awaiting_rsp s" "tx_fails s"]
        effort_pos [OF \<open>tx_fails s < 10\<close>, of 3 "apply_retries s" "awaiting_rsp s"] by (simp add: gw_work_def)
  qed (use i(2) in \<open>auto simp: gw_work_def phase_ok_def\<close>)
  then show "gw_work s \<le> 1372" "gw_work s = 0 \<longleftrightarrow> gw_phase s = APOS_GW_IDLE" by simp_all
qed

section \<open>Concrete states\<close>

definition gw_blank :: apos_gw where
  "gw_blank = apos_gw_init \<lparr>gw_tbl = apos_table_init, gw_res = empty_result APOS_GEOM_3D 0, gw_have_result = False,
     gw_phase = APOS_GW_IDLE, gw_session = 0, gauge_addr = [0, 0, 0, 0], zoff_m = 0, enum_round = 0,
     next_action_ms = 0, is_run = False, pair_idx = 0, pair_total = 0, pair_retries = 0, tx_fails = 0,
     awaiting_rsp = False, await_from_addr = 0, await_peer_addr = 0, apply_idx = 0, apply_retries = 0,
     applied_ok = 0, applied_fail = 0, applied_skip = 0, apply_ending = False, apply_persisted = False,
     apply_reopen = False, gw_accepted = False, solve_redundancy = 0, solve_n_edges = 0,
     solve_unverified = False, max_recip_mm = 0, max_sd_mm = 0, gw_tx_buf = replicate 34 0, gw_seq = 0,
     gw_store = survey_boot, gw_flash = (\<lambda>_. None)\<rparr>"

definition lost_radio :: tx_env where
  "lost_radio = \<lparr>tx_start_ok = False, tx_sys = (\<lambda>_. 0), tx_clk = int, tx_now = 0\<rparr>"

definition sample_gw_env :: "int \<Rightarrow> gw_env" where
  "sample_gw_env t = \<lparr>ge_now = t, ge_tx = sample_tx, ge_libm = \<lparr>lm_hypotf = (\<lambda>_ _. 0), lm_cosf = id, lm_acosf = id\<rparr>,
     ge_saver = (\<lambda>k v f. (None, f(k \<mapsto> v)))\<rparr>"

text \<open>Four anchors that answered, the first row of the cursor just asked.\<close>

definition four_peers :: "apos_peer list" where
  "four_peers = map (\<lambda>a. \<lparr>p_eui = replicate 8 a, p_short_addr = ucast a, p_pos_valid = False, p_x = 0, p_y = 0, p_z = 0\<rparr>)
     [1, 2, 3, 4]"

definition ranging_gw :: apos_gw where
  "ranging_gw = gw_blank\<lparr>gw_tbl := apos_table_init\<lparr>peer := four_peers\<rparr>, gauge_addr := [1, 2, 3, -1], gw_session := 7,
     is_run := True, enum_round := 3, gw_phase := APOS_GW_RANGE, pair_total := 12, awaiting_rsp := True,
     await_from_addr := 1, await_peer_addr := 2, next_action_ms := 3000\<rparr>"

text \<open>A solved survey of four anchors of which the last was not placed.\<close>

definition solved_result :: apos_result where
  "solved_result = (empty_result APOS_GEOM_2D 4)\<lparr>r_node := map (\<lambda>(x, y, st). \<lparr>n_x = x, n_y = y, n_z = 0, n_state = st, n_residual_m = 0\<rparr>)
     ([(0, 0, APOS_NODE_PLACED), (0x40400000, 0, APOS_NODE_PLACED), (0, 0x40800000, APOS_NODE_PLACED)] @
       replicate 5 (0, 0, APOS_NODE_UNPLACED)), r_n_placed := 3\<rparr>"

definition solved_gw :: apos_gw where
  "solved_gw = gw_blank\<lparr>gw_tbl := apos_table_init\<lparr>peer := four_peers\<rparr>, gauge_addr := [1, 2, 3, -1], gw_session := 7,
     gw_res := solved_result, gw_have_result := True\<rparr>"

lemma four_peers_ok: "table_ok (apos_table_init\<lparr>peer := four_peers\<rparr>)"
  by (simp add: table_ok_def tab_inv_def apos_table_init_def four_peers_def peer_ok_def)

lemma ranging_gw_inv: "apos_gw_inv ranging_gw"
  using four_peers_ok
  by (simp add: apos_gw_inv_def ranging_gw_def gw_blank_def apos_gw_init_def gw_ready_def phase_ok_def result_ok_def
      range_ok_def pair_of_def apos_gw_busy_def four_peers_def Let_def)

lemma asking_gw_inv: "apos_gw_inv (ranging_gw\<lparr>awaiting_rsp := False\<rparr>)"
  using four_peers_ok
  by (simp add: apos_gw_inv_def ranging_gw_def gw_blank_def apos_gw_init_def gw_ready_def phase_ok_def result_ok_def
      range_ok_def pair_of_def apos_gw_busy_def four_peers_def Let_def)

lemma solved_gw_inv: "apos_gw_inv solved_gw"
  using four_peers_ok
  by (simp add: apos_gw_inv_def solved_gw_def solved_result_def gw_blank_def apos_gw_init_def gw_ready_def phase_ok_def
      result_ok_def apos_gw_busy_def four_peers_def empty_result_def)

section \<open>Properties of the state machine\<close>

text \<open>C26: the survey's state is consistent in every reachable state: no two anchors share an address or an
  EUI and none has the gateway's, a running survey has a session, the cursor is within the ordered pairs of
  the enumerated anchors and the pair awaited is the one at the cursor, and an apply has accounted for every
  node behind its cursor and awaits only a placed one.\<close>

theorem gw_survey_consistent:
  assumes "gw_reach s"
  shows "table_ok (gw_tbl s) \<and> (apos_gw_busy s \<longrightarrow> gw_session s \<noteq> 0) \<and>
    (gw_phase s = APOS_GW_RANGE \<longrightarrow>
       pair_total s = length (peer (gw_tbl s)) * (length (peer (gw_tbl s)) - 1) \<and> pair_idx s \<le> pair_total s \<and>
       (awaiting_rsp s \<longrightarrow> (\<exists>i j. (i, j) = pair_of (pair_idx s) (length (peer (gw_tbl s))) \<and>
          await_from_addr s = p_short_addr (peer (gw_tbl s) ! i) \<and> await_peer_addr s = p_short_addr (peer (gw_tbl s) ! j)))) \<and>
    (gw_phase s = APOS_GW_APPLY \<longrightarrow>
       applied_ok s + applied_fail s + applied_skip s = apply_idx s \<and> apply_idx s \<le> length (peer (gw_tbl s)) \<and>
       (awaiting_rsp s \<longrightarrow> placed (gw_res s) (apply_idx s) \<and> await_from_addr s = p_short_addr (peer (gw_tbl s) ! apply_idx s)))"
proof -
  have i: "table_ok (gw_tbl s)" "apos_gw_busy s \<longrightarrow> gw_session s \<noteq> 0" "result_ok s" "phase_ok s"
    using gw_reach_inv [OF assms] by (simp_all add: apos_gw_inv_def)
  have "gw_phase s = APOS_GW_RANGE \<Longrightarrow> range_ok s" "gw_phase s = APOS_GW_APPLY \<Longrightarrow> apply_ok s"
    using i(4) by (simp_all add: phase_ok_def)
  then show ?thesis
    using i(1-3) by (auto simp: range_ok_def apply_ok_def result_ok_def Let_def split: prod.splits)
qed

lemma gw_survey_consistent_witness:
  "\<exists>s. gw_reach s \<and> gw_phase s = APOS_GW_ENUM \<and> gw_session s \<noteq> 0 \<and> table_ok (gw_tbl s)"
proof -
  have g: "gw_ready gw_blank" by (simp add: gw_ready_def gw_blank_def apos_gw_init_def)
  have r: "gw_reach (apos_gw_init gw_blank)" by (rule gw_boot [OF g])
  have n: "new_session (\<lambda>_. 9) 0 = Some 9" using new_session_returns [of "\<lambda>_. 9" 0] by simp
  obtain s where s: "gw_do (GwStartEnum (\<lambda>_. 9)) (apos_gw_init gw_blank) = Some (s, [])" "gw_phase s = APOS_GW_ENUM"
    by (simp add: apos_gw_start_enum_def apos_gw_busy_def apos_gw_init_def n)
  have "gw_reach s" by (rule gw_next [OF r _ s(1)]) simp
  with gw_survey_consistent [OF this] s(2) show ?thesis by (auto simp: apos_gw_busy_def)
qed

text \<open>C5: every survey ends: however the radio fails, whatever is received and whenever, a survey that is
  running is idle again after at most 1372 steps that were due, and a step is never due more than 3000 ms
  after the last one that acted.\<close>

theorem gw_survey_ends:
  assumes "apos_gw_inv s" and "list_all uptime_ok evs"
  shows "due_steps evs s \<le> 1372 \<and>
    (1372 \<le> due_steps evs s \<longrightarrow> gw_phase (survey_run evs s) = APOS_GW_IDLE) \<and>
    (\<forall>e av. 0 \<le> ge_now e \<longrightarrow> next_action_ms (fst (apos_gw_step e av s)) \<le> max (next_action_ms s) (ge_now e + 3000))"
proof -
  have o: "apos_gw_inv (survey_run evs s)" "due_steps evs s + gw_work (survey_run evs s) \<le> gw_work s"
    using survey_run_ok [OF assms] by simp_all
  then show ?thesis
    using gw_work_bound(1) [OF assms(1)] gw_work_bound(2) [OF o(1)] apos_gw_step_ok [OF assms(1)]
    by (auto simp: step_ok_def)
qed

lemma gw_survey_ends_witness:
  "due_steps (replicate 2000 (Step (sample_gw_env 5000) 195000)) ranging_gw \<le> 1372"
  using gw_survey_ends [OF ranging_gw_inv, of "replicate 2000 (Step (sample_gw_env 5000) 195000)"]
  by (simp add: list_all_iff sample_gw_env_def)

lemma sent_of_bounds: "sent_of fs s n b \<Longrightarrow> n \<le> 25 \<Longrightarrow> length fs \<le> 1 \<and> (\<forall>f\<in>set fs. tx_len f \<le> 27)"
  by (auto simp: sent_of_def)

lemma retire_res [simp]: "gw_res (retire_pair s) = gw_res s" "gw_flash (retire_pair s) = gw_flash s"
  by (simp_all add: retire_pair_def)

lemma do_solve_flash [simp]: "gw_flash (do_solve lm s) = gw_flash s"
  by (cases rule: do_solve_cases [of lm s]) simp_all

definition within_budget :: "nat \<Rightarrow> apos_gw \<Rightarrow> apos_gw \<times> tx_frame list \<Rightarrow> bool" where
  "within_budget av s r \<longleftrightarrow> length (snd r) \<le> 1 \<and> (\<forall>f\<in>set (snd r). tx_len f \<le> 27) \<and>
     (gw_res (fst r) \<noteq> gw_res s \<or> gw_flash (fst r) \<noteq> gw_flash s \<longrightarrow> 150000 \<le> av \<and> snd r = [])"

lemma step_enum_budget: "gw_ready s \<Longrightarrow> within_budget av s (step_enum e s)"
  by (erule step_enum_cases [where e = e]) (auto simp: within_budget_def dest!: sent_of_bounds)

lemma step_range_budget:
  assumes "gw_ready s"
  shows "within_budget av s (step_range e av s)"
  using assms
proof (cases rule: step_range_cases [where e = e and av = av])
  case (command s1 b fs i j)
  have "gw_res s1 = gw_res s" "gw_flash s1 = gw_flash s" by (simp_all add: command(4))
  with command(9) sent_of_bounds [OF command(8)] show ?thesis by (auto simp: within_budget_def)
qed (auto simp: within_budget_def)

lemma step_apply_budget:
  assumes "gw_ready s"
  shows "within_budget av s (step_apply e av s)"
  using assms
proof (cases rule: step_apply_cases [where e = e and av = av])
  case (covered s1)
  then show ?thesis using skip_unplaced_spec [of s] by (auto simp: within_budget_def)
next
  case (push s1 s2 b fs)
  have "gw_res s2 = gw_res s" "gw_flash s2 = gw_flash s"
    using skip_unplaced_spec [of s] by (auto simp: push(5,8))
  with push(13) sent_of_bounds [OF push(12)] show ?thesis by (auto simp: within_budget_def)
next
  case (reopen b fs)
  with sent_of_bounds [OF reopen(6)] show ?thesis by (simp add: within_budget_def)
next
  case (finish b fs)
  with sent_of_bounds [OF finish(8)] show ?thesis by (simp add: within_budget_def)
qed (auto simp: within_budget_def)

text \<open>C24: a step keeps to the beacon's budget: it puts at most one frame of at most 27 bytes on the air, does
  nothing with less than 10000 uus left, and solves or writes the flash only with at least 150000 uus left,
  transmitting nothing then.\<close>

theorem gw_step_budget:
  assumes "apos_gw_inv s" and "apos_gw_step e av s = (s', fs)"
  shows "length fs \<le> 1 \<and> (\<forall>f\<in>set fs. tx_len f \<le> 27) \<and> (av < 10000 \<longrightarrow> s' = s \<and> fs = []) \<and>
    (gw_res s' \<noteq> gw_res s \<or> gw_flash s' \<noteq> gw_flash s \<longrightarrow> 150000 \<le> av \<and> fs = [])"
proof -
  have r: "gw_ready s" using assms(1) by (simp add: apos_gw_inv_def)
  have "within_budget av s (apos_gw_step e av s)"
    using step_enum_budget [OF r] step_range_budget [OF r] step_apply_budget [OF r]
    by (cases "gw_phase s") (simp_all add: apos_gw_step_def within_budget_def)
  moreover have "av < 10000 \<longrightarrow> s' = s \<and> fs = []" using assms(2) by (auto simp: apos_gw_step_def split: if_splits)
  ultimately show ?thesis using assms(2) by (auto simp: within_budget_def)
qed

lemma gw_step_budget_witness:
  "length (snd (apos_gw_step (sample_gw_env 5000) 20000 (ranging_gw\<lparr>awaiting_rsp := False\<rparr>))) = 1 \<and>
   gw_flash (fst (apos_gw_step (sample_gw_env 5000) 20000 (ranging_gw\<lparr>awaiting_rsp := False\<rparr>))) = gw_flash ranging_gw"
proof -
  let ?s = "ranging_gw\<lparr>awaiting_rsp := False\<rparr>"
  have i: "apos_gw_inv ?s"
    by (rule asking_gw_inv)
  have "snd (apos_gw_step (sample_gw_env 5000) 20000 ?s) \<noteq> []"
    by (simp add: apos_gw_step_def ranging_gw_def step_range_def pair_of_def apos_frame_range_cmd_build_def
        apos_write_hdr_def gw_blank_def apos_gw_init_def four_peers_def gw_tx_now_def sample_gw_env_def sample_tx_def
        tx_completes_def case_prod_beta Let_def)
  with gw_step_budget [OF i prod.collapse [symmetric], of "sample_gw_env 5000" 20000] show ?thesis
    by (cases "snd (apos_gw_step (sample_gw_env 5000) 20000 ?s)") auto
qed

text \<open>C20: a range is never recorded against the wrong pair: whatever is received during the ranging either
  changes nothing or is a report of the current session by the anchor that was asked about the anchor it was
  asked about; then at most the measurement of that ordered pair changes, it is the reported one if it has at
  least 10 samples and is positive, and the cursor moves on by one.\<close>

theorem gw_range_reply_matched:
  assumes "apos_gw_inv s" and "gw_phase s = APOS_GW_RANGE" and "apos_gw_on_rx buf n s \<noteq> s"
  shows "\<exists>i j mean sd k. (i, j) = pair_of (pair_idx s) (length (peer (gw_tbl s))) \<and> awaiting_rsp s \<and>
    apos_frame_src buf = p_short_addr (peer (gw_tbl s) ! i) \<and>
    apos_frame_parse_range_rsp (Some buf) n True = Inr (gw_session s, p_short_addr (peer (gw_tbl s) ! j), mean, sd, k) \<and>
    (\<forall>c d mn. (c, d) \<noteq> (i, j) \<longrightarrow> find_meas (gw_tbl (apos_gw_on_rx buf n s)) c d mn = find_meas (gw_tbl s) c d mn) \<and>
    find_meas (gw_tbl (apos_gw_on_rx buf n s)) i j 10 =
      (if k \<ge> 10 \<and> mean > 0 then Some \<lparr>m_from = i, m_to = j, m_mean_mm = mean, m_sd_mm = sd, m_n_ok = k\<rparr>
       else find_meas (gw_tbl s) i j 10) \<and>
    pair_idx (apos_gw_on_rx buf n s) = pair_idx s + 1 \<and> \<not> awaiting_rsp (apos_gw_on_rx buf n s)"
proof -
  have rx: "apos_gw_on_rx buf n s = on_range_rsp buf n s"
    using assms(2,3) by (auto simp: apos_gw_on_rx_def on_enum_rsp_def on_setpos_ack_def split: if_splits sum.splits prod.splits)
  show ?thesis
  proof (cases rule: on_range_rsp_cases [OF assms(1), of buf n])
    case 1
    then show ?thesis using assms(3) rx by simp
  next
    case (2 i j mean sd k t)
    have tb: "tab_inv (gw_tbl s)" using assms(1) by (simp add: apos_gw_inv_def table_ok_def)
    have "(\<forall>c d mn. (c, d) \<noteq> (i, j) \<longrightarrow> find_meas t c d mn = find_meas (gw_tbl s) c d mn) \<and>
        find_meas t i j 10 = (if k \<ge> 10 \<and> mean > 0
          then Some \<lparr>m_from = i, m_to = j, m_mean_mm = mean, m_sd_mm = sd, m_n_ok = k\<rparr> else find_meas (gw_tbl s) i j 10)"
    proof (cases "k < 10 \<or> mean \<le> 0")
      case True
      then show ?thesis using 2(10) by auto
    next
      case False
      then have a: "apos_table_add_meas (Some (gw_tbl s)) i j mean sd k = (None, Some t)" using 2(10) by simp
      obtain t' where "apos_table_add_meas (Some (gw_tbl s)) i j mean sd k = (None, Some t')"
        "\<forall>mn. find_meas t' i j mn = (let r = \<lparr>m_from = i, m_to = j, m_mean_mm = mean, m_sd_mm = sd, m_n_ok = k\<rparr>
           in if meas_usable mn r then Some r else None)"
        "\<forall>mn c d. (c, d) \<noteq> (i, j) \<longrightarrow> find_meas t' c d mn = find_meas (gw_tbl s) c d mn"
        using add_meas_cases [OF tb 2(7,5,6), of mean sd k] by blast
      then show ?thesis using a False by (auto simp: meas_usable_def Let_def)
    qed
    then show ?thesis
      using 2 by (intro exI [of _ i] exI [of _ j] exI [of _ mean] exI [of _ sd] exI [of _ k]) (simp add: rx)
  qed
qed

definition report_bytes :: "u8 list" where
  "report_bytes = the (snd (apos_frame_range_rsp_build (Some (replicate 34 0)) 34 1 0 7 2 4000 30 40))"

lemma gw_range_reply_matched_witness:
  "find_meas (gw_tbl (apos_gw_on_rx report_bytes 22 ranging_gw)) 0 1 10 =
     Some \<lparr>m_from = 0, m_to = 1, m_mean_mm = 4000, m_sd_mm = 30, m_n_ok = 40\<rparr>"
proof -
  have p: "apos_frame_parse_range_rsp (Some report_bytes) 22 True = Inr (7, 2, 4000, 30, 40)" by code_simp
  have a: "apos_frame_is_apos (Some report_bytes) 22" "apos_frame_dest report_bytes = 0" "apos_frame_subtype report_bytes = 4"
    "apos_frame_src report_bytes = 1" by code_simp+
  have ph: "gw_phase ranging_gw = APOS_GW_RANGE" by (simp add: ranging_gw_def)
  have "pair_idx (apos_gw_on_rx report_bytes 22 ranging_gw) = pair_idx ranging_gw + 1"
    using p a by (simp add: apos_gw_on_rx_def on_range_rsp_def ranging_gw_def Let_def)
  then have "apos_gw_on_rx report_bytes 22 ranging_gw \<noteq> ranging_gw" by auto
  from gw_range_reply_matched [OF ranging_gw_inv ph this] p show ?thesis
    by (auto simp: pair_of_def ranging_gw_def gw_blank_def apos_gw_init_def four_peers_def Let_def)
qed

section \<open>Duplicates\<close>

lemma add_peer_again:
  assumes "tab_inv t" and "apos_table_add_peer (Some t) (Some e) a v x y z = (Inr k, Some t')"
  shows "apos_table_add_peer (Some t') (Some e) a v x y z = (Inr k, Some t')"
proof -
  let ?row = "\<lparr>p_eui = e, p_short_addr = a, p_pos_valid = v, p_x = x, p_y = y, p_z = z\<rparr>"
  note l = add_peer_lookup [OF assms]
  have i: "tab_inv t'" using add_peer_inv [OF assms(1), of e a v x y z] assms(2) by simp
  have k: "k < length (peer t')" "peer t' ! k = ?row" using find_eui_SomeD [OF l(1)] l(3) by simp_all
  have u: "j = k" if "j < length (peer t')" "p_eui (peer t' ! j) = e \<or> p_short_addr (peer t' ! j) = a" for j
    using find_eui_nth [OF i that(1)] find_addr_nth [OF i that(1)] that(2) l(1,2) by auto
  have m: "peer t' ! k \<in> set (peer t')" using k(1) by simp
  have "t'\<lparr>peer := (peer t')[k := ?row]\<rparr> = t'" using list_update_id [of "peer t'" k] k(2) by simp
  note same = this
  show ?thesis
  proof (cases rule: add_peer_cases [OF i, of a e v x y z])
    case (1 j)
    then show ?thesis using u [of j] k(2) by simp
  next
    case 2
    then show ?thesis using image_eqI [of e p_eui, OF _ m] k(2) by simp
  next
    case (3 j)
    then show ?thesis using u [of j] same by simp
  next
    case 4
    then show ?thesis using image_eqI [of e p_eui, OF _ m] k(2) by simp
  qed
qed

lemma enum_again:
  assumes "apos_gw_inv s"
  shows "on_enum_rsp buf n (on_enum_rsp buf n s) = on_enum_rsp buf n s"
proof (cases rule: on_enum_rsp_cases [of buf n s])
  case clash
  then show ?thesis by (auto simp: on_enum_rsp_def split: sum.splits)
next
  case (known eui pv x y z k t)
  have "tab_inv (gw_tbl s)" using assms by (simp add: apos_gw_inv_def table_ok_def)
  from add_peer_again [OF this known(5)] known show ?thesis by (simp add: on_enum_rsp_def)
qed simp

lemma rsp_again:
  "on_range_rsp buf n (on_range_rsp buf n s) = on_range_rsp buf n s"
  "on_setpos_ack buf n (on_setpos_ack buf n s) = on_setpos_ack buf n s"
proof -
  have r: "on_range_rsp buf n s = s \<or> \<not> awaiting_rsp (on_range_rsp buf n s)"
    by (auto simp: on_range_rsp_def Let_def split: sum.splits)
  have "\<not> awaiting_rsp s \<Longrightarrow> on_range_rsp buf n s = s" for s
    by (auto simp: on_range_rsp_def split: sum.splits)
  with r show "on_range_rsp buf n (on_range_rsp buf n s) = on_range_rsp buf n s" by metis
  have "\<not> awaiting_rsp s \<Longrightarrow> on_setpos_ack buf n s = s" for s
    by (auto simp: on_setpos_ack_def split: sum.splits)
  then show "on_setpos_ack buf n (on_setpos_ack buf n s) = on_setpos_ack buf n s"
    by (cases rule: on_setpos_ack_cases [of buf n s]) simp_all
qed

text \<open>C25: duplicates are harmless: the anchors send replies twice on purpose, and in every phase a frame that
  is received again changes nothing more.\<close>

theorem gw_duplicate_ignored:
  assumes "apos_gw_inv s"
  shows "apos_gw_on_rx buf n (apos_gw_on_rx buf n s) = apos_gw_on_rx buf n s"
  using enum_again [OF assms] rsp_again by (simp add: apos_gw_on_rx_def)

lemma gw_duplicate_ignored_witness:
  "apos_gw_on_rx report_bytes 22 (apos_gw_on_rx report_bytes 22 ranging_gw) = apos_gw_on_rx report_bytes 22 ranging_gw \<and>
   apos_gw_on_rx report_bytes 22 ranging_gw \<noteq> ranging_gw"
proof -
  have p: "apos_frame_parse_range_rsp (Some report_bytes) 22 True = Inr (7, 2, 4000, 30, 40)" by code_simp
  have a: "apos_frame_is_apos (Some report_bytes) 22" "apos_frame_dest report_bytes = 0" "apos_frame_subtype report_bytes = 4"
    "apos_frame_src report_bytes = 1" by code_simp+
  have "pair_idx (apos_gw_on_rx report_bytes 22 ranging_gw) = pair_idx ranging_gw + 1"
    using p a by (simp add: apos_gw_on_rx_def on_range_rsp_def ranging_gw_def Let_def)
  then show ?thesis using gw_duplicate_ignored [OF ranging_gw_inv] by auto
qed

section \<open>Coverage\<close>

text \<open>The cursor positions whose command a step gave to the radio.\<close>

fun offered :: "survey_event \<Rightarrow> apos_gw \<Rightarrow> nat set" where
  "offered (Step e av) s = (if gw_phase s = APOS_GW_RANGE \<and> 10000 \<le> av \<and> \<not> awaiting_rsp s \<and> pair_idx s < pair_total s
     then {pair_idx s} else {})"
| "offered (Rx buf n) s = {}"

fun all_offered :: "survey_event list \<Rightarrow> apos_gw \<Rightarrow> nat set" where
  "all_offered [] s = {}"
| "all_offered (ev # evs) s = offered ev s \<union> all_offered evs (survey_on ev s)"

definition covered_by :: "nat \<Rightarrow> nat set \<Rightarrow> apos_gw \<Rightarrow> bool" where
  "covered_by n A s \<longleftrightarrow> gw_phase s \<in> {APOS_GW_RANGE, APOS_GW_IDLE} \<and> length (peer (gw_tbl s)) = n \<and>
     (gw_phase s = APOS_GW_RANGE \<longrightarrow> {..<pair_idx s} \<subseteq> A \<and> (awaiting_rsp s \<longrightarrow> pair_idx s \<in> A)) \<and>
     (gw_have_result s \<longrightarrow> {..<n * (n - 1)} \<subseteq> A)"

lemma covered_mono: "covered_by n A s \<Longrightarrow> A \<subseteq> B \<Longrightarrow> covered_by n B s"
  by (auto simp: covered_by_def)

lemma do_solve_peers [simp]: "gw_tbl (do_solve lm s) = gw_tbl s"
  by (cases rule: do_solve_cases [of lm s]) simp_all

lemma step_covered:
  assumes "apos_gw_inv s" and "covered_by n A s" and "0 \<le> ge_now e"
  shows "covered_by n (A \<union> offered (Step e av) s) (fst (apos_gw_step e av s))"
proof (cases "gw_phase s = APOS_GW_RANGE \<and> 10000 \<le> av")
  case False
  then have "fst (apos_gw_step e av s) = s"
    using assms(2) by (auto simp: apos_gw_step_def covered_by_def)
  then show ?thesis using assms(2) by (auto simp: covered_by_def)
next
  case True
  then have st: "apos_gw_step e av s = step_range e av s" by (simp add: apos_gw_step_def)
  have i: "gw_ready s" "range_ok s" "\<not> gw_have_result s" using assms(1) True by (simp_all add: apos_gw_inv_def phase_ok_def)
  have w: "length (peer (gw_tbl s)) = n" "{..<pair_idx s} \<subseteq> A" "awaiting_rsp s \<longrightarrow> pair_idx s \<in> A"
    using assms(2) True by (auto simp: covered_by_def)
  have t: "pair_total s = n * (n - 1)" using i(2) w(1) by (auto simp: range_ok_def Let_def split: prod.splits)
  let ?G = "covered_by n (A \<union> offered (Step e av) s) (fst (step_range e av s))"
  from i(1) have ?G
  proof (cases rule: step_range_cases [where e = e and av = av])
    case wait
    then show ?G using covered_mono [OF assms(2)] by simp
  next
    case retry
    then have "covered_by n A (fst (step_range e av s))" using w i(3) True by (simp add: covered_by_def)
    then show ?G by (rule covered_mono) simp
  next
    case lost
    then have "covered_by n A (fst (step_range e av s))"
      using w i(3) True by (simp add: covered_by_def retire_pair_def lessThan_Suc)
    then show ?G by (rule covered_mono) simp
  next
    case solve
    have "gw_phase (do_solve (ge_libm e) s) = APOS_GW_IDLE"
      by (cases rule: do_solve_cases [of "ge_libm e" s]) simp_all
    moreover have "{..<n * (n - 1)} \<subseteq> A" using solve(2) w(2) t by auto
    ultimately have "covered_by n A (fst (step_range e av s))"
      using solve(4) w(1) by (simp add: covered_by_def)
    then show ?G by (rule covered_mono) simp
  next
    case (command s1 b fs i' j')
    have f: "gw_tbl s1 = gw_tbl s" "gw_phase s1 = gw_phase s" "pair_idx s1 = pair_idx s" "awaiting_rsp s1 = awaiting_rsp s"
      "gw_have_result s1 = gw_have_result s"
      by (simp_all add: command(4))
    have o: "offered (Step e av) s = {pair_idx s}" using command(1,2) True by simp
    let ?A = "insert (pair_idx s) A"
    have "covered_by n ?A ((after_tx s1 b)\<lparr>tx_fails := 0, awaiting_rsp := True, next_action_ms := ge_now e + 3000\<rparr>)"
      "covered_by n ?A (retire_pair ((after_tx s1 b)\<lparr>tx_fails := tx_fails s + 1\<rparr>))"
      "covered_by n ?A ((after_tx s1 b)\<lparr>tx_fails := tx_fails s + 1\<rparr>)"
      using command(1) w i(3) True by (auto simp: covered_by_def f retire_pair_def lessThan_Suc)
    then have "covered_by n ?A (fst (step_range e av s))" using command(9) by (auto simp del: after_tx_simps)
    then show ?G unfolding o by simp
  qed
  then show ?thesis by (simp add: st)
qed

lemma rx_covered:
  assumes "apos_gw_inv s" and "covered_by n A s"
  shows "covered_by n A (apos_gw_on_rx buf m s)"
proof (cases "gw_phase s = APOS_GW_RANGE")
  case False
  then show ?thesis using assms(2) by (auto simp: apos_gw_on_rx_def covered_by_def)
next
  case True
  have "covered_by n A (on_range_rsp buf m s)"
  proof (cases rule: on_range_rsp_cases [OF assms(1), of buf m])
    case 1
    then show ?thesis using assms(2) by simp
  next
    case (2 i j mean sd k t)
    then show ?thesis using assms(2) True by (auto simp: covered_by_def less_Suc_eq)
  qed
  moreover have "on_enum_rsp buf m s = s" "on_setpos_ack buf m s = s"
    using True by (auto simp: on_enum_rsp_def on_setpos_ack_def split: sum.splits)
  ultimately show ?thesis using assms(2) by (simp add: apos_gw_on_rx_def)
qed

lemma run_covered:
  assumes "apos_gw_inv s" and "covered_by n A s" and "list_all uptime_ok evs"
  shows "covered_by n (A \<union> all_offered evs s) (survey_run evs s)"
  using assms
proof (induction evs arbitrary: s A)
  case (Cons ev evs)
  have u: "uptime_ok ev" "list_all uptime_ok evs" using Cons.prems(3) by simp_all
  have i: "apos_gw_inv (survey_on ev s)" using survey_on_ok [OF Cons.prems(1) u(1)] by simp
  have "covered_by n (A \<union> offered ev s) (survey_on ev s)"
    using step_covered [OF Cons.prems(1,2)] rx_covered [OF Cons.prems(1,2)] u(1) by (cases ev) simp_all
  from Cons.IH [OF i this u(2)] show ?case by (simp add: Un_assoc)
qed simp

text \<open>No pair is skipped: from the start of the ranging, if a result comes out at the end, the command of
  every ordered pair of distinct anchors has been given to the radio.\<close>

theorem gw_covers_pairs:
  assumes "apos_gw_inv s" and "gw_phase s = APOS_GW_RANGE" and "pair_idx s = 0" and "\<not> awaiting_rsp s"
    and "list_all uptime_ok evs" and "gw_have_result (survey_run evs s)"
    and "a < length (peer (gw_tbl s))" and "b < length (peer (gw_tbl s))" and "a \<noteq> b"
  shows "\<exists>k\<in>all_offered evs s. pair_of k (length (peer (gw_tbl s))) = (a, b)"
proof -
  let ?n = "length (peer (gw_tbl s))"
  have "\<not> gw_have_result s" using assms(1,2) by (simp add: apos_gw_inv_def phase_ok_def)
  then have "covered_by ?n {} s" using assms(2-4) by (simp add: covered_by_def)
  from run_covered [OF assms(1) this assms(5)] assms(6) have c: "{..<?n * (?n - 1)} \<subseteq> all_offered evs s"
    by (simp add: covered_by_def)
  have "(a, b) \<in> (\<lambda>k. pair_of k ?n) ` {..<?n * (?n - 1)}"
    using assms(7-9) pair_of_onto [of ?n] by (auto simp: ordered_pairs_def)
  with c show ?thesis by auto
qed

end
