(* ===== verification/AposSurvey.thy ===== *)
theory AposSurvey
  imports AposGwProps
begin

text \<open>
  What the survey promises from end to end: a result that comes out of a complete ranging, what an
  apply pushes, skips and persists, and the exchange of one SETPOS between the gateway's step machine
  and an anchor, over the air in both directions.
\<close>

section \<open>The persisted survey\<close>

lemma survey_pass_eq:
  "length w + length (filter (\<lambda>k. wanted k \<and> placed (gw_res s) k) ks) \<le> 8 \<Longrightarrow>
     survey_pass s wanted ks w = w @ map (survey_row s) (filter (\<lambda>k. wanted k \<and> placed (gw_res s) k) ks)"
proof (induction ks arbitrary: w)
  case (Cons k ks)
  show ?case
  proof (cases "wanted k \<and> placed (gw_res s) k")
    case True
    then have "length w < 8" using Cons.prems by simp
    then show ?thesis using True Cons.prems Cons.IH [of "w @ [survey_row s k]"] by simp
  next
    case False
    have "survey_pass s wanted ks w = w" if "8 \<le> length w" using that by (cases ks) auto
    then show ?thesis using False Cons.prems Cons.IH [of w] by auto
  qed
qed simp

text \<open>The rows in the order they are written: the node \<open>o'\<close>, then the other placed nodes.\<close>

definition survey_rows :: "apos_gw \<Rightarrow> nat \<Rightarrow> apos_survey_node list" where
  "survey_rows s o' = map (survey_row s)
     (o' # filter (\<lambda>k. k \<noteq> o' \<and> placed (gw_res s) k) [0..<r_n_nodes (gw_res s)])"

lemma filter_one: "k < n \<Longrightarrow> P k \<Longrightarrow> filter (\<lambda>j. j = k \<and> P j) [0..<n] = [k]"
proof (induction n)
  case (Suc n)
  then show ?case
    by (cases "k = n") (auto simp: filter_empty_conv)
qed simp

lemma survey_passes:
  assumes "o' < r_n_nodes (gw_res s)" and "placed (gw_res s) o'" and "r_n_nodes (gw_res s) \<le> 8"
  shows "survey_pass s (\<lambda>k. k \<noteq> o') [0..<r_n_nodes (gw_res s)] (survey_pass s (\<lambda>k. k = o') [0..<r_n_nodes (gw_res s)] []) =
      survey_rows s o'" and "length (survey_rows s o') \<le> 8"
proof -
  let ?n = "r_n_nodes (gw_res s)"
  let ?f = "filter (\<lambda>k. k \<noteq> o' \<and> placed (gw_res s) k) [0..<?n]"
  have "filter (\<lambda>k. k = o') [0..<?n] = [o']" using filter_one [OF assms(1), of "\<lambda>_. True"] by simp
  then have "length (filter (\<lambda>k. k \<noteq> o') [0..<?n]) + 1 = ?n"
    using sum_length_filter_compl [of "\<lambda>k. k = o'" "[0..<?n]"] by simp
  moreover have "length ?f \<le> length (filter (\<lambda>k. k \<noteq> o') [0..<?n])"
    by (metis (no_types, lifting) filter_filter length_filter_le filter_cong)
  ultimately have l: "1 + length ?f \<le> 8" using assms(3) by linarith
  then show "length (survey_rows s o') \<le> 8" by (simp add: survey_rows_def)
  have "survey_pass s (\<lambda>k. k = o') [0..<?n] [] = [survey_row s o']"
    using survey_pass_eq [of "[]" "\<lambda>k. k = o'" s "[0..<?n]"]
      filter_one [OF assms(1), of "placed (gw_res s)"] assms(2) by simp
  then show "survey_pass s (\<lambda>k. k \<noteq> o') [0..<?n] (survey_pass s (\<lambda>k. k = o') [0..<?n] []) = survey_rows s o'"
    using survey_pass_eq [of "[survey_row s o']" "\<lambda>k. k \<noteq> o'" s "[0..<?n]"] l by (simp add: survey_rows_def)
qed

definition survey_of :: "apos_gw \<Rightarrow> nat \<Rightarrow> apos_survey" where
  "survey_of s o' = survey_boot\<lparr>sv_node := survey_rows s o' @ replicate (8 - length (survey_rows s o')) zero_survey_node,
     sv_n_nodes := of_nat (length (survey_rows s o')), sv_dim := dim_byte (r_dim (gw_res s)), sv_valid := True\<rparr>"

lemma saved_cache:
  assumes "apos_store_save sv (Some x) g f = (None, g', f')"
  shows "sv_node g' = sv_node x" "sv_n_nodes g' = sv_n_nodes x" "sv_valid g' = sv_valid x"
  using assms by (auto simp: apos_store_save_def split: if_splits option.splits prod.splits)

lemma saved_flash:
  assumes "apos_store_save sv (Some x) g f = (None, g', f')" and "sv = (\<lambda>k v f. (None, f(k \<mapsto> v)))"
  shows "\<exists>v. f' = f(''apos/survey'' \<mapsto> v)"
  using assms by (auto simp: apos_store_save_def split: if_splits)

lemma persist_saves:
  assumes "apos_gw_inv s" and "gw_have_result s" and "persist_survey e s = (True, s')"
  obtains o' where "o' < length (peer (gw_tbl s))" "p_short_addr (peer (gw_tbl s) ! o') = word_of_int (gauge_addr s ! 0)"
    "placed (gw_res s) o'" "length (survey_rows s o') \<le> 8"
    "apos_store_save (ge_saver e) (Some (survey_of s o')) (gw_store s) (gw_flash s) = (None, gw_store s', gw_flash s')"
    "survey_ok (survey_of s o')"
proof -
  have i: "table_ok (gw_tbl s)" "r_n_nodes (gw_res s) = length (peer (gw_tbl s))"
    using assms(1,2) by (simp_all add: apos_gw_inv_def result_ok_def)
  have n8: "r_n_nodes (gw_res s) \<le> 8" using i by (simp add: table_ok_def tab_inv_def)
  obtain g where g: "resolve_gauge s = Inr g" "placed (gw_res s) (g_origin g)"
    using assms(3) by (auto simp: persist_survey_def split: sum.splits if_splits)
  let ?o = "g_origin g"
  note r = resolve_gauge_in [OF g(1)]
  have o: "?o < r_n_nodes (gw_res s)" using r(1) i(2) by simp
  note p = survey_passes [OF o g(2) n8]
  have ne: "survey_rows s ?o \<noteq> []" by (simp add: survey_rows_def)
  obtain rc st fl where sv: "apos_store_save (ge_saver e) (Some (survey_of s ?o)) (gw_store s) (gw_flash s) = (rc, st, fl)"
    by (metis surj_pair)
  have "persist_survey e s = (rc = None, s\<lparr>gw_store := st, gw_flash := fl\<rparr>)"
    using g ne sv by (simp add: persist_survey_def p(1) survey_of_def Let_def)
  then have "rc = None" "gw_store s' = st" "gw_flash s' = fl" using assms(3) by auto
  moreover have "survey_node_ok (survey_row s k)" if "k < length (peer (gw_tbl s))" for k
    using i(1) that by (simp add: survey_row_def survey_node_ok_def table_ok_def peer_ok_def list_all_iff Let_def)
  then have "list_all survey_node_ok (survey_rows s ?o)"
    using r(1) i(2) by (auto simp: survey_rows_def list_all_iff)
  then have "survey_ok (survey_of s ?o)"
    using p(2) by (simp add: survey_ok_def survey_of_def unat_of_nat)
  ultimately show thesis using that [OF r(1,5) g(2) p(2)] sv by simp
qed


lemma solved_synced: "synced (gw_store solved_gw, gw_flash solved_gw)"
  by (auto simp: solved_gw_def gw_blank_def apos_gw_init_def synced_def on_flash_def survey_boot_def survey_part_def
      ref_part_def survey_ok_def)

lemma solved_persists: "fst (persist_survey (sample_gw_env t) solved_gw)"
  by (simp add: persist_survey_def resolve_gauge_def solved_gw_def four_peers_def apos_table_find_addr_def
      solved_result_def placed_def empty_result_def upt_rec survey_row_def sample_gw_env_def apos_store_save_def
      apos_table_init_def Let_def split: prod.splits)


text \<open>The gauge may be set again between the solve and the apply. Then the node that is persisted first, and that
  the anchors topic reports as the geographic reference, is not the origin of the solved coordinates.\<close>

lemma gauge_moved_after_solve:
  "\<exists>s. apos_gw_set_gauge 2 1 3 (-1) solved_gw = (None, s) \<and> fst (persist_survey (sample_gw_env 0) s) \<and>
     sn_x (sv_node (gw_store (snd (persist_survey (sample_gw_env 0) s))) ! 0) = 0x40400000"
  by (simp add: apos_gw_set_gauge_def apos_gw_busy_def persist_survey_def resolve_gauge_def solved_gw_def four_peers_def
      apos_table_find_addr_def solved_result_def placed_def empty_result_def upt_rec survey_row_def sample_gw_env_def
      apos_store_save_def apos_table_init_def gw_blank_def apos_gw_init_def Let_def split: prod.splits)

section \<open>Pushing the positions\<close>

lemma on_air_take: "m \<le> length b \<Longrightarrow> take m (take m (apos_frame_set_seq b q) @ junk) = take m (apos_frame_set_seq b q)"
  by (simp add: apos_frame_set_seq_def)

lemma on_air_hdr:
  assumes "apos_hdr_is b m d s t" and "m \<le> length b"
  shows "apos_hdr_is (take m (apos_frame_set_seq b q) @ junk) m d s t"
  by (rule apos_hdr_agree [OF on_air_take [OF assms(2), symmetric]]) (simp add: assms(1))

lemma on_air_setpos:
  assumes "25 \<le> length b"
  shows "apos_frame_parse_setpos (Some (take 25 (apos_frame_set_seq b q) @ junk)) 25 True =
    apos_frame_parse_setpos (Some b) 25 True"
  using setpos.parse_agree [OF on_air_take [OF assms]] setpos.parse_seq [of b q 25] assms
  by (simp add: apos_frame_set_seq_def)

text \<open>A step of the apply that leaves the gateway waiting has sent the next placed node its coordinates.\<close>

lemma apply_pushed:
  assumes "apos_gw_inv s" and "gw_phase s = APOS_GW_APPLY" and "step_apply e av s = (s', f # fs)"
    and "awaiting_rsp s'"
  obtains k b where "k < r_n_nodes (gw_res s)" "placed (gw_res s) k" "fs = []" "length b = 34"
    "apos_hdr_is b 25 (p_short_addr (peer (gw_tbl s) ! k)) GATEWAY APOS_SUB_SETPOS"
    "apos_frame_parse_setpos (Some b) 25 True = Inr (gw_session s, node_xyz (gw_res s) k)"
    "tx_data f = take 25 (apos_frame_set_seq b (gw_seq s))" "apply_idx s' = k"
    "await_from_addr s' = p_short_addr (peer (gw_tbl s) ! k)" "gw_phase s' = APOS_GW_APPLY" "gw_session s' = gw_session s"
    "applied_ok s' = applied_ok s" "applied_fail s' = applied_fail s"
proof -
  have r: "gw_ready s" using assms(1) by (simp add: apos_gw_inv_def)
  obtain k where sk: "skip_unplaced s = s\<lparr>applied_skip := applied_skip s + k, apply_idx := apply_idx s + k\<rparr>"
    using skip_unplaced_spec [of s] by blast
  from r show thesis
  proof (cases rule: step_apply_cases [where e = e and av = av])
    case (push s1 s2 b fs')
    have f: "apply_idx s2 = apply_idx s1" "gw_phase s2 = gw_phase s" "gw_session s2 = gw_session s"
      "await_from_addr s2 = p_short_addr (peer (gw_tbl s) ! apply_idx s1)" "awaiting_rsp s2 = awaiting_rsp s"
      "applied_ok s2 = applied_ok s" "applied_fail s2 = applied_fail s"
      using push(5,8) sk by simp_all
    have st: "(s', f # fs) = ((after_tx s2 b)\<lparr>tx_fails := 0, awaiting_rsp := True, next_action_ms := ge_now e + 1500\<rparr>, fs')"
      using push(1,13) assms(3,4) f by auto
    then have "fs' = f # fs" by simp
    then have "fs = []" "tx_data f = take 25 (apos_frame_set_seq b (gw_seq s))" using push(12) by (auto simp: sent_of_def)
    then show thesis
      using st f assms(2) by (intro that [OF push(6,7) _ push(9-11)]) simp_all
  next
    case (reopen b fs')
    then show thesis using assms(3,4) by auto
  next
    case (finish b fs')
    then show thesis using assms(3,4) by auto
  qed (use assms(3) in auto)
qed

text \<open>An apply pushes the solved positions and nothing else: a frame that a step of the apply sends to one
  anchor is a SETPOS of the session with the solved coordinates of a placed node, addressed to that node; an
  unplaced node is never sent coordinates; and when the apply is over every node is counted once, as taken,
  failed or skipped.\<close>

theorem gw_apply_pushes_solution:
  assumes "apos_gw_inv s" and "gw_phase s = APOS_GW_APPLY" and "apos_gw_step e av s = (s', fs)"
  shows "(\<forall>f\<in>set fs. \<forall>junk v. apos_frame_parse_setpos (Some (tx_data f @ junk)) 25 True = Inr v \<longrightarrow>
      (\<exists>k<r_n_nodes (gw_res s). placed (gw_res s) k \<and> v = (gw_session s, node_xyz (gw_res s) k) \<and>
         apos_frame_dest (tx_data f @ junk) = p_short_addr (peer (gw_tbl s) ! k))) \<and>
    (gw_phase s' = APOS_GW_IDLE \<longrightarrow> applied_ok s' + applied_fail s' + applied_skip s' = length (peer (gw_tbl s)))"
proof (cases "av < 10000")
  case True
  then show ?thesis using assms(2,3) by (simp add: apos_gw_step_def)
next
  case False
  then have st: "step_apply e av s = (s', fs)" using assms(2,3) by (simp add: apos_gw_step_def)
  have r: "gw_ready s" and a: "apply_ok s" and n: "r_n_nodes (gw_res s) = length (peer (gw_tbl s))"
    using assms(1,2) by (auto simp: apos_gw_inv_def phase_ok_def apply_ok_def result_ok_def)
  have other: "\<not> (\<exists>v. apos_frame_parse_setpos (Some (tx_data f @ junk)) 25 True = Inr v)"
    if "sent_of fs s m b" "f \<in> set fs" "length b = 34" "apos_hdr_is b m d GATEWAY t" "t \<noteq> 5" "m \<le> 34" for fs f m b d t junk
  proof
    assume "\<exists>v. apos_frame_parse_setpos (Some (tx_data f @ junk)) 25 True = Inr v"
    then have "apos_frame_subtype (tx_data f @ junk) = 5" using apos_parse_subtype(5) by fastforce
    moreover have "apos_hdr_is (tx_data f @ junk) m d GATEWAY t"
      using that(1-4,6) on_air_hdr [OF that(4), of "gw_seq s" junk] by (simp add: sent_of_def)
    ultimately show False using that(5) by (simp add: apos_hdr_is_def)
  qed
  from r show ?thesis
  proof (cases rule: step_apply_cases [where e = e and av = av])
    case wait
    then show ?thesis using st assms(2) by simp
  next
    case retry
    then show ?thesis using st assms(2) by auto
  next
    case lost
    then show ?thesis using st assms(2) by auto
  next
    case (reopen b fs')
    then show ?thesis using st assms(2) other [OF reopen(6) _ reopen(3,4)] by auto
  next
    case (finish b fs')
    then show ?thesis using st a n other [OF finish(8) _ finish(5,6)] by (auto simp: apply_ok_def)
  next
    case (covered s1)
    then show ?thesis using st assms(2) skip_unplaced_spec [of s] by auto
  next
    case (persist s1)
    then show ?thesis using st assms(2) skip_unplaced_spec [of s] persist_survey_frame [of e s1] by auto
  next
    case (push s1 s2 b fs')
    have k: "apply_idx s1 < r_n_nodes (gw_res s)" "placed (gw_res s) (apply_idx s1)" by (fact push)+
    have "\<exists>k<r_n_nodes (gw_res s). placed (gw_res s) k \<and> v = (gw_session s, node_xyz (gw_res s) k) \<and>
         apos_frame_dest (tx_data f @ junk) = p_short_addr (peer (gw_tbl s) ! k)"
      if "f \<in> set fs'" "apos_frame_parse_setpos (Some (tx_data f @ junk)) 25 True = Inr v" for f junk v
    proof -
      have t: "tx_data f = take 25 (apos_frame_set_seq b (gw_seq s))" using push(12) that(1) by (simp add: sent_of_def)
      have "v = (gw_session s, node_xyz (gw_res s) (apply_idx s1))"
        using that(2) push(9,11) on_air_setpos [of b "gw_seq s" junk] by (simp add: t)
      moreover have "apos_frame_dest (tx_data f @ junk) = p_short_addr (peer (gw_tbl s) ! apply_idx s1)"
        using on_air_hdr [OF push(10), of "gw_seq s" junk] push(9) by (simp add: t apos_hdr_is_def)
      ultimately show ?thesis using k by blast
    qed
    moreover have "gw_phase s' = APOS_GW_APPLY" "fs = fs'"
      using push(5,8,13) st assms(2) skip_unplaced_spec [of s] by auto
    ultimately show ?thesis by simp
  qed
qed


section \<open>One SETPOS exchanged\<close>

lemma ack_received:
  assumes "apos_frame_parse_setpos_ack (Some buf) 26 True = Inr (gw_session s, xyz, ok)"
    and "apos_hdr_is buf 26 GATEWAY (await_from_addr s) APOS_SUB_SETPOS_ACK"
    and "gw_phase s = APOS_GW_APPLY" and "awaiting_rsp s"
  shows "apos_gw_on_rx buf 26 s = s\<lparr>applied_ok := applied_ok s + of_bool ok, applied_fail := applied_fail s + of_bool (\<not> ok),
    awaiting_rsp := False, apply_retries := 0, tx_fails := 0, apply_idx := apply_idx s + 1, next_action_ms := 0\<rparr>"
  using assms by (auto simp: apos_gw_on_rx_def apos_hdr_is_def on_setpos_ack_def)

text \<open>C23: The exchange of one SETPOS, over the air in both directions: the frame of a step that leaves the
  gateway waiting, received by the awaited anchor of the session, gives that anchor the solved
  coordinates of its node, in its snapshot, in the singleton and in the flash if the flash takes them;
  and any acknowledgement it sends, received by the gateway, ends the wait and moves the apply to the
  next node, counted as taken exactly if the anchor's flash holds the coordinates.\<close>

theorem setpos_exchange:
  assumes "apos_gw_inv s" and "gw_phase s = APOS_GW_APPLY" and "apos_gw_step e av s = (s', f # fs)"
    and "awaiting_rsp s'" and "uwb_config_short_addr (nc_cfg c) = await_from_addr s'"
    and "an_session (nc_node c) = gw_session s" and "node_ok (nc_node c)" and "settings_backend (ne_saver en)"
    and "node_xyz (gw_res s) (apply_idx s') = (x, y, z)"
  shows "\<exists>c' acts ok. apos_node_on_rx en c (tx_data f @ junk) 25 = Some (True, c', acts) \<and>
    placed (gw_res s) (apply_idx s') \<and> cfg_pos (nc_cfg c') = (x, y, z, True) \<and> cfg_pos (nc_active c') = (x, y, z, True) \<and>
    nc_flash c' = (if ok then (nc_flash c)(''anchor/pos'' \<mapsto> stored_pos x y z 1 (ne_pad en)) else nc_flash c) \<and>
    (\<forall>h junk'. ActTx h \<in> set acts \<longrightarrow> apos_gw_on_rx (on_air h @ junk') 26 s' =
       s'\<lparr>applied_ok := applied_ok s + of_bool ok, applied_fail := applied_fail s + of_bool (\<not> ok), awaiting_rsp := False,
          apply_retries := 0, tx_fails := 0, apply_idx := apply_idx s' + 1, next_action_ms := 0\<rparr>)"
proof -
  have "step_apply e av s = (s', f # fs)" using assms(2,3) by (auto simp: apos_gw_step_def split: if_splits)
  from assms(1,2) this assms(4) show ?thesis
  proof (rule apply_pushed)
    fix k b
    assume k: "placed (gw_res s) k" "length b = 34"
      "apos_hdr_is b 25 (p_short_addr (peer (gw_tbl s) ! k)) GATEWAY APOS_SUB_SETPOS"
      "apos_frame_parse_setpos (Some b) 25 True = Inr (gw_session s, node_xyz (gw_res s) k)"
      "tx_data f = take 25 (apos_frame_set_seq b (gw_seq s))" "apply_idx s' = k"
      "await_from_addr s' = p_short_addr (peer (gw_tbl s) ! k)" "gw_phase s' = APOS_GW_APPLY" "gw_session s' = gw_session s"
      "applied_ok s' = applied_ok s" "applied_fail s' = applied_fail s"
    let ?buf = "tx_data f @ junk"
    have "apos_hdr_is ?buf 25 (await_from_addr s') GATEWAY APOS_SUB_SETPOS"
      using on_air_hdr [OF k(3), of "gw_seq s" junk] k(2) by (simp add: k(5,7))
    then have rx: "apos_node_on_rx en c ?buf 25 = Some (True, handle_setpos en c ?buf 25)"
      using assms(5) by (simp add: apos_node_on_rx_def apos_hdr_is_def)
    have "apos_frame_parse_setpos (Some ?buf) 25 True = Inr (an_session (nc_node c), x, y, z)"
      using on_air_setpos [of b "gw_seq s" junk] k(2,4) assms(6,9) by (simp add: k(5,6))
    from setpos_effect [OF this assms(7,8)] obtain c' acts ok where h:
      "handle_setpos en c ?buf 25 = (c', acts)" "cfg_pos (nc_cfg c') = (x, y, z, True)" "cfg_pos (nc_active c') = (x, y, z, True)"
      "nc_flash c' = (if ok then (nc_flash c)(''anchor/pos'' \<mapsto> stored_pos x y z 1 (ne_pad en)) else nc_flash c)"
      and air: "\<And>h junk. ActTx h \<in> set acts \<Longrightarrow>
         apos_frame_parse_setpos_ack (Some (on_air h @ junk)) 26 True = Inr (an_session (nc_node c), (x, y, z), ok) \<and>
         apos_hdr_is (on_air h @ junk) 26 UWB_ADDR_GATEWAY_RESERVED (uwb_config_short_addr (nc_cfg c)) APOS_SUB_SETPOS_ACK"
      by blast
    have "apos_gw_on_rx (on_air h @ junk') 26 s' =
       s'\<lparr>applied_ok := applied_ok s + of_bool ok, applied_fail := applied_fail s + of_bool (\<not> ok), awaiting_rsp := False,
          apply_retries := 0, tx_fails := 0, apply_idx := apply_idx s' + 1, next_action_ms := 0\<rparr>"
      if "ActTx h \<in> set acts" for h junk'
      using ack_received [of "on_air h @ junk'" s' "(x, y, z)" ok] air [OF that, of junk'] assms(4,5,6) k(8-11) by simp
    then show ?thesis using rx [unfolded h(1)] h k(1,6)
      by (intro exI [of _ c'] exI [of _ acts] exI [of _ ok]) (simp del: fun_upd_apply)
  qed
qed

text \<open>The first push of an apply over four anchors of which three are placed.\<close>

definition applying_gw :: apos_gw where
  "applying_gw = solved_gw\<lparr>gw_phase := APOS_GW_APPLY\<rparr>"

lemma applying_gw_inv: "apos_gw_inv applying_gw" "gw_phase applying_gw = APOS_GW_APPLY"
  using four_peers_ok
  by (simp_all add: apos_gw_inv_def applying_gw_def solved_gw_def solved_result_def gw_blank_def apos_gw_init_def
      gw_ready_def phase_ok_def apply_ok_def result_ok_def apos_gw_busy_def four_peers_def empty_result_def)

lemma applying_gw_sel:
  "\<not> awaiting_rsp applying_gw" "\<not> apply_reopen applying_gw" "\<not> apply_ending applying_gw" "next_action_ms applying_gw = 0"
  "apply_idx applying_gw = 0" "applied_ok applying_gw = 0" "gw_session applying_gw = 7" "length (gw_tx_buf applying_gw) = 34"
  "r_n_nodes (gw_res applying_gw) = 4" "placed (gw_res applying_gw) 0" "p_short_addr (peer (gw_tbl applying_gw) ! 0) = 1"
  "node_xyz (gw_res applying_gw) 0 = (0, 0, 0)"
  by (simp_all add: applying_gw_def solved_gw_def solved_result_def placed_def empty_result_def gw_blank_def
      apos_gw_init_def apos_table_init_def four_peers_def node_xyz_def)

lemma applying_gw_pushes:
  obtains s' f where "apos_gw_step (sample_gw_env 0) 20000 applying_gw = (s', [f])" "awaiting_rsp s'"
    "await_from_addr s' = 1" "apply_idx s' = 0" "applied_ok s' = 0"
proof -
  note sel = applying_gw_sel
  have u: "n_state (r_node (gw_res applying_gw) ! 0) \<noteq> APOS_NODE_UNPLACED" using sel(10) by (auto simp: placed_def)
  have sk: "skip_unplaced applying_gw = applying_gw" using u by (subst skip_unplaced.simps) (simp add: sel placed_def)
  have tx: "tx_start_ok (ge_tx (sample_gw_env 0))" "tx_completes (ge_tx (sample_gw_env 0)) 8"
    by (simp_all add: sample_gw_env_def sample_tx_def tx_completes_def wait_ok_def uwb_wait_for_sysstatus_lo_def wait_loop.simps)
  let ?v = "r_node (gw_res applying_gw) ! 0"
  obtain a where "apos_frame_setpos_build (Some (gw_tx_buf applying_gw)) 34 GATEWAY 1 7 (n_x ?v) (n_y ?v) (n_z ?v) = (Inr 25, Some a)"
    using setpos.build_fits [of "(GATEWAY, 1, 7, n_x ?v, n_y ?v, n_z ?v)" 34 "gw_tx_buf applying_gw"] sel(8) by auto
  moreover obtain s' fs where st: "apos_gw_step (sample_gw_env 0) 20000 applying_gw = (s', fs)" by fastforce
  ultimately have "length fs = 1 \<and> awaiting_rsp s' \<and> await_from_addr s' = 1 \<and> apply_idx s' = 0 \<and> applied_ok s' = 0"
    using sk tx sel applying_gw_inv(2)
    by (auto simp: apos_gw_step_def step_apply_def gw_tx_now_def Let_def sample_gw_env_def)
  then show thesis using that st by (cases fs) auto
qed


lemma gw_apply_pushes_solution_witness:
  "\<exists>s' f. apos_gw_step (sample_gw_env 0) 20000 applying_gw = (s', [f]) \<and>
    (\<forall>junk v. apos_frame_parse_setpos (Some (tx_data f @ junk)) 25 True = Inr v \<longrightarrow>
       (\<exists>k<4. placed (gw_res applying_gw) k \<and> v = (7, node_xyz (gw_res applying_gw) k)))"
proof (rule applying_gw_pushes)
  fix s' f
  assume st: "apos_gw_step (sample_gw_env 0) 20000 applying_gw = (s', [f])"
  have n: "r_n_nodes (gw_res applying_gw) = 4" "gw_session applying_gw = 7" by (simp_all add: applying_gw_sel)
  from gw_apply_pushes_solution [OF applying_gw_inv st] st show ?thesis unfolding n by fastforce
qed

lemma setpos_exchange_witness:
  "\<exists>s' f c' acts ok. apos_gw_step (sample_gw_env 0) 20000 applying_gw = (s', [f]) \<and>
     apos_node_on_rx sample_node_env sample_node_ctx (tx_data f @ [5]) 25 = Some (True, c', acts) \<and>
     cfg_pos (nc_active c') = (0, 0, 0, True) \<and>
     (\<forall>h. ActTx h \<in> set acts \<longrightarrow> applied_ok (apos_gw_on_rx (on_air h @ [9]) 26 s') = of_bool ok)"
proof (rule applying_gw_pushes)
  fix s' f
  assume st: "apos_gw_step (sample_gw_env 0) 20000 applying_gw = (s', [f])" "awaiting_rsp s'"
    "await_from_addr s' = 1" "apply_idx s' = 0" "applied_ok s' = 0"
  have c: "uwb_config_short_addr (nc_cfg sample_node_ctx) = await_from_addr s'"
    by (simp add: st(3) sample_node_ctx_def uwb_config_set_defaults_def uwb_config_short_addr_def)
  have n: "an_session (nc_node sample_node_ctx) = gw_session applying_gw" "settings_backend (ne_saver sample_node_env)"
    by (simp_all add: sample_node_ctx_def sample_node_env_def applying_gw_sel)
  have x: "node_xyz (gw_res applying_gw) (apply_idx s') = (0, 0, 0)" by (simp add: st(4) applying_gw_sel)
  from setpos_exchange [OF applying_gw_inv st(1,2) c n(1) sample_node_ok(1) n(2) x, of "[5]"] show ?thesis
  proof (elim exE conjE)
    fix c' acts ok
    assume "apos_node_on_rx sample_node_env sample_node_ctx (tx_data f @ [5]) 25 = Some (True, c', acts)"
      "cfg_pos (nc_active c') = (0, 0, 0, True)"
      and r: "\<forall>h junk'. ActTx h \<in> set acts \<longrightarrow> apos_gw_on_rx (on_air h @ junk') 26 s' =
       s'\<lparr>applied_ok := applied_ok applying_gw + of_bool ok, applied_fail := applied_fail applying_gw + of_bool (\<not> ok),
          awaiting_rsp := False, apply_retries := 0, tx_fails := 0, apply_idx := apply_idx s' + 1, next_action_ms := 0\<rparr>"
    moreover have "\<forall>h. ActTx h \<in> set acts \<longrightarrow> applied_ok (apos_gw_on_rx (on_air h @ [9]) 26 s') = of_bool ok"
      using r by (simp add: applying_gw_sel)
    ultimately show ?thesis using st(1) by blast
  qed
qed

end
