(* ===== verification/FloatText.thy ===== *)
theory FloatText
  imports Float32
begin

text \<open>
  The text of numbers as the C library's \<open>printf\<close> family writes it for \<open>%u\<close>, \<open>%03u\<close> and
  \<open>%.<p>f\<close>: the exact binary value, rounded once to \<open>p\<close> decimals, ties to even. With it, the exactness of
  the widening of a \<open>float\<close> to a \<open>double\<close>, which every \<open>float\<close> argument of these calls undergoes.
\<close>

section \<open>Widening\<close>

lemma bitlen_bounds: "0 < n \<Longrightarrow> 2 ^ (bitlen n - 1) \<le> n \<and> n < 2 ^ bitlen n \<and> 1 \<le> bitlen n"
proof (induction n rule: bitlen.induct)
  case (1 n)
  show ?case
  proof (cases "n div 2 = 0")
    case True
    then have "n = 1" using 1(2) by linarith
    then show ?thesis by simp
  next
    case False
    let ?b = "bitlen (n div 2)"
    have i: "2 ^ (?b - 1) \<le> n div 2" "n div 2 < 2 ^ ?b" "1 \<le> ?b" using 1 False by simp_all
    have b: "bitlen n = Suc ?b" using 1(2) by (subst bitlen.simps) simp
    have "(2 :: nat) ^ ?b = 2 * 2 ^ (?b - 1)" using i(3) by (simp flip: power_Suc)
    moreover have "2 * (n div 2) \<le> n" "n < 2 * (n div 2) + 2" by linarith+
    ultimately have "2 ^ ?b \<le> n" "n < 2 * 2 ^ ?b" using i by linarith+
    then show ?thesis by (simp add: b)
  qed
qed

lemma bitlen_unique: "2 ^ k \<le> n \<Longrightarrow> n < 2 ^ Suc k \<Longrightarrow> bitlen n = Suc k"
proof -
  assume a: "2 ^ k \<le> n" "n < 2 ^ Suc k"
  have "0 < n" using a(1) by (metis less_le_trans zero_less_numeral zero_less_power)
  note b = bitlen_bounds [OF this]
  have "k < bitlen n" using a(1) b by (metis le_less_trans power_less_imp_less_exp one_less_numeral_iff semiring_norm(76))
  moreover have "bitlen n - 1 < Suc k" using a(2) b by (metis le_less_trans power_less_imp_less_exp one_less_numeral_iff semiring_norm(76))
  ultimately show "bitlen n = Suc k" using b by linarith
qed

lemma bitlen_shift: "0 < n \<Longrightarrow> bitlen (n * 2 ^ k) = bitlen n + k"
proof -
  assume "0 < n"
  note b = bitlen_bounds [OF this]
  have "bitlen (n * 2 ^ k) = Suc (bitlen n - 1 + k)"
  proof (rule bitlen_unique)
    have "2 ^ (bitlen n - 1) * 2 ^ k \<le> n * 2 ^ k" "n * 2 ^ k < 2 ^ bitlen n * 2 ^ k" using b by simp_all
    moreover have "Suc (bitlen n - 1 + k) = bitlen n + k" using b by simp
    ultimately show "2 ^ (bitlen n - 1 + k) \<le> n * 2 ^ k" "n * 2 ^ k < 2 ^ Suc (bitlen n - 1 + k)"
      by (simp_all only: power_add)
  qed
  then show ?thesis using b by simp
qed

lemma bitlen_pow [simp]: "bitlen (2 ^ k) = Suc k"
  using bitlen_shift [of 1 k] by simp

lemma fl_log2_scaled:
  assumes "0 < m"
  shows "fl_log2 (m * 2 ^ k) 1 = int (bitlen m) - 1 + int k"
    and "fl_log2 m (2 ^ k) = int (bitlen m) - 1 - int k"
proof -
  note b = bitlen_bounds [OF assms]
  have "2 ^ nat (int (bitlen m + k) - 1) = (2 :: nat) ^ (bitlen m - 1) * 2 ^ k"
    using b by (simp add: nat_diff_distrib flip: power_add)
  then show "fl_log2 (m * 2 ^ k) 1 = int (bitlen m) - 1 + int k"
    using b assms by (simp add: fl_log2_def fl_scale_def bitlen_shift Let_def)
  let ?q = "int (bitlen m) - int (Suc k)"
  have "(case fl_scale m (2 ^ k) ?q of (n, d) \<Rightarrow> d \<le> n)"
  proof (cases "0 \<le> ?q")
    case True
    then have "(2 :: nat) ^ k * 2 ^ nat ?q = 2 ^ (bitlen m - 1)" by (simp add: nat_diff_distrib flip: power_add)
    then show ?thesis using True b by (simp add: fl_scale_def)
  next
    case False
    then have "k = (bitlen m - 1) + nat (- ?q)" using b by linarith
    then have "(2 :: nat) ^ k = 2 ^ (bitlen m - 1) * 2 ^ nat (- ?q)" by (metis power_add)
    then show ?thesis using False b by (simp add: fl_scale_def)
  qed
  then show "fl_log2 m (2 ^ k) = int (bitlen m) - 1 - int k"
    by (auto simp: fl_log2_def Let_def split: prod.splits)
qed

text \<open>A finite \<open>float\<close> has at most 24 digits; the \<open>double\<close> has the same value, with 53 digits.\<close>

lemma f32_val_range:
  assumes "f32_val w = Fin s m e"
  shows "m < 2 ^ 24 \<and> - 149 \<le> e \<and> e \<le> 104"
proof -
  have f: "unat w mod 8388608 < 8388608" "unat w div 8388608 mod 256 < 256" by simp_all
  then show ?thesis using assms
    by (auto simp: f32_val_def fl_decode_def bias_def emin_def Let_def split: if_splits)
qed

lemma round53:
  assumes "0 < m" and "m < 2 ^ 24" and "- 149 \<le> e" and "e \<le> 104"
  defines "L \<equiv> bitlen m"
  shows "fl_round_scaled 52 11 s m e = fl_sign 52 11 s (nat (int L + e + 1021) * 2 ^ 52 + m * 2 ^ (53 - L))"
    and "L \<le> 24" and "1 \<le> L"
proof -
  note b = bitlen_bounds [OF assms(1), folded L_def]
  have "2 ^ (L - 1) < (2 :: nat) ^ 24" using b assms(2) by linarith
  then have "L - 1 < 24" by (simp only: power_strict_increasing_iff)
  then show l: "L \<le> 24" by simp
  show "1 \<le> L" using b by simp
  define q where "q = int L + e - 53"
  have q: "- 1074 \<le> q" "q < e" using b assms(3) l by (simp_all add: q_def)
  define num where "num = (if 0 \<le> e then m * 2 ^ nat e else m)"
  define den where "den = (if 0 \<le> e then 1 else 2 ^ nat (- e) :: nat)"
  have lg: "fl_log2 num den = int L - 1 + e"
    using fl_log2_scaled [OF assms(1), of "nat e"] fl_log2_scaled [OF assms(1), of "nat (- e)"]
    by (simp add: L_def num_def den_def)
  have c: "(2 :: nat) ^ nat e * 2 ^ nat (- q) = 2 ^ (53 - L)" if "0 \<le> e" "q < 0"
    using that by (simp add: q_def flip: power_add)
  have d: "(2 :: nat) ^ nat e = 2 ^ (53 - L) * 2 ^ nat q" if "0 \<le> e" "0 \<le> q"
    using that l by (simp add: q_def flip: power_add)
  have g: "(2 :: nat) ^ nat (- q) = 2 ^ (53 - L) * 2 ^ nat (- e)" if "e < 0"
    using that l by (simp add: q_def flip: power_add)
  obtain n d where sc: "fl_scale num den q = (n, d)" "n div d = m * 2 ^ (53 - L)" "n mod d = 0" "0 < d"
  proof
    show "fl_scale num den q = (fst (fl_scale num den q), snd (fl_scale num den q))" by simp
    show "fst (fl_scale num den q) div snd (fl_scale num den q) = m * 2 ^ (53 - L)"
      "fst (fl_scale num den q) mod snd (fl_scale num den q) = 0" "0 < snd (fl_scale num den q)"
      using q c d g by (auto simp: fl_scale_def num_def den_def)
  qed
  have pos: "num \<noteq> 0" using assms(1) by (simp add: num_def)
  have em: "emin 52 11 = - 1074" by (simp add: emin_def bias_def)
  have mx: "max (fl_log2 num den - int 52) (- 1074) = q" using q by (simp add: q_def lg)
  have "m * 2 ^ (53 - L) < 2 ^ L * 2 ^ (53 - L)" using b by simp
  also have "\<dots> = 2 ^ 53" using l by (simp flip: power_add)
  finally have M: "m * 2 ^ (53 - L) < 2 ^ 53" .
  have "nat (q + 1074) \<le> 1149" using assms(4) l by (simp add: q_def)
  then have "nat (q + 1074) * 2 ^ 52 \<le> 1149 * 2 ^ 52" by (rule mult_le_mono1)
  then have mn: "min (fl_inf 52 11) (nat (q + 1074) * 2 ^ 52 + m * 2 ^ (53 - L)) = nat (q + 1074) * 2 ^ 52 + m * 2 ^ (53 - L)"
    using M by (simp add: fl_inf_def min_def)
  have "fl_round 52 11 s num den = fl_sign 52 11 s (nat (q + 1074) * 2 ^ 52 + m * 2 ^ (53 - L))"
    unfolding fl_round_def em Let_def mx sc(1) using sc(2-4) pos mn by simp
  then show "fl_round_scaled 52 11 s m e = fl_sign 52 11 s (nat (int L + e + 1021) * 2 ^ 52 + m * 2 ^ (53 - L))"
    by (simp add: fl_round_scaled_def q_def add.commute num_def den_def split: if_splits)
qed

lemma decode64:
  assumes "2 ^ 52 \<le> m" and "m < 2 ^ 53" and "k \<le> 2045"
  shows "f64_val (of_nat (fl_sign 52 11 s (k * 2 ^ 52 + m))) = Fin s m (int k - 1074)"
proof -
  define f where "f = m - 2 ^ 52"
  have f: "f < 2 ^ 52" "k * 2 ^ 52 + m = (k + 1) * 2 ^ 52 + f" using assms by (simp_all add: f_def)
  let ?w = "(if s then 2 ^ 63 else 0) + ((k + 1) * 2 ^ 52 + f) :: nat"
  have k: "(k + 1) * 2 ^ 52 \<le> 2046 * 2 ^ 52" using assms(3) by (intro mult_le_mono1) simp
  have "?w < 2 ^ 64" using k f(1) by simp
  then have w: "unat (of_nat ?w :: f64) = ?w" by (simp only: unat_of_nat) simp
  have md: "?w mod 2 ^ 52 = f" using f(1) by (simp add: mod_add_eq [symmetric])
  have q: "?w div 2 ^ 52 = (if s then 2 ^ 11 else 0) + (k + 1)"
    using f(1) by (intro div_nat_eqI) simp_all
  have "((if s then 2 ^ 11 else 0) + (k + 1)) mod 2 ^ 11 = (k + 1) mod (2 ^ 11 :: nat)"
    by (cases s) (simp_all only: if_True if_False mod_add_self1 add_0)
  also have "\<dots> = k + 1" using assms(3) by simp
  finally have ex: "?w div 2 ^ 52 mod 2 ^ 11 = k + 1" unfolding q .
  have sn: "odd (?w div 2 ^ (52 + 11)) = s"
  proof -
    have "?w div 2 ^ (52 + 11) = (if s then 1 else 0)" using k f(1) by (intro div_nat_eqI) auto
    then show ?thesis by simp
  qed
  have sg: "fl_sign 52 11 s (k * 2 ^ 52 + m) = ?w" unfolding fl_sign_def f(2) by simp
  have "k + 1 \<noteq> 2 ^ 11 - 1" "k + 1 \<noteq> 0" using assms(3) by simp_all
  moreover have "2 ^ 52 + f = m" using assms(1) by (simp add: f_def)
  moreover have "emin 52 11 + int (k + 1) - 1 = int k - 1074" by (simp add: emin_def bias_def)
  ultimately show ?thesis unfolding f64_val_def fl_decode_def sg w ex sn md Let_def by (simp only: if_False)
qed

lemma widen_val:
  assumes "f32_val a = Fin s m e" and "0 < m"
  shows "f64_val (f32_to_f64 a) = Fin s (m * 2 ^ (53 - bitlen m)) (int (bitlen m) + e - 53)"
proof -
  note r = f32_val_range [OF assms(1)]
  let ?L = "bitlen m"
  have rr: "m < 2 ^ 24" "- 149 \<le> e" "e \<le> 104" using r by simp_all
  note x = round53 [OF assms(2) rr]
  note b = bitlen_bounds [OF assms(2)]
  have "2 ^ (?L - 1) * 2 ^ (53 - ?L) \<le> m * 2 ^ (53 - ?L)" "m * 2 ^ (53 - ?L) < 2 ^ ?L * 2 ^ (53 - ?L)"
    using b by simp_all
  moreover have "(?L - 1) + (53 - ?L) = 52" "?L + (53 - ?L) = 53" using x(2,3) by simp_all
  ultimately have M: "2 ^ 52 \<le> m * 2 ^ (53 - ?L)" "m * 2 ^ (53 - ?L) < 2 ^ 53"
    by (metis power_add)+
  have "int (nat (int ?L + e + 1021)) = int ?L + e + 1021" "nat (int ?L + e + 1021) \<le> 2045"
    using x(2,3) rr by simp_all
  with decode64 [OF M, of "nat (int ?L + e + 1021)" s] show ?thesis
    by (simp add: f32_to_f64_def assms(1) x(1))
qed

text \<open>Widening keeps the value and whether it is finite.\<close>

fun fl_finite :: "fl \<Rightarrow> bool" where
  "fl_finite (Fin _ _ _) = True"
| "fl_finite _ = False"

lemma widen_zero: "f32_val a = Fin s 0 e \<Longrightarrow> f64_val (f32_to_f64 a) = Fin s 0 (- 1074)"
  by (cases s) (simp_all add: f32_to_f64_def fl_round_scaled_def fl_round_def fl_sign_def f64_val_def fl_decode_def
      emin_def bias_def Let_def)

lemma widen_exact:
  assumes "fl_finite (f32_val a)"
  shows "fl_finite (f64_val (f32_to_f64 a)) \<and> fl_real (f64_val (f32_to_f64 a)) = fl_real (f32_val a)"
proof (cases "f32_val a")
  case (Fin s m e)
  show ?thesis
  proof (cases "m = 0")
    case True
    then show ?thesis using Fin by (simp add: widen_zero)
  next
    case False
    have "bitlen m \<le> 24" using round53(2) [of m e] f32_val_range [OF Fin] False by simp
    then have "(2 :: real) ^ (53 - bitlen m) * 2 powi (int (bitlen m) + e - 53) = 2 powi e"
      by (simp add: power_int_add [symmetric] of_nat_diff flip: power_int_of_nat)
    then have "real m * 2 ^ (53 - bitlen m) * 2 powi (int (bitlen m) + e - 53) = real m * 2 powi e"
      by (simp add: mult.assoc)
    then show ?thesis using widen_val [OF Fin] False by (simp add: Fin)
  qed
qed (use assms in simp_all)


section \<open>Decimal text\<close>

definition digit :: "nat \<Rightarrow> char" where
  "digit d = char_of (48 + d)"

fun dec :: "nat \<Rightarrow> string" where
  "dec n = (if n < 10 then [digit n] else dec (n div 10) @ [digit (n mod 10)])"

declare dec.simps [simp del]

text \<open>Exactly \<open>p\<close> digits, the last ones of \<open>n\<close>.\<close>

fun dec_pad :: "nat \<Rightarrow> nat \<Rightarrow> string" where
  "dec_pad 0 n = []"
| "dec_pad (Suc p) n = dec_pad p (n div 10) @ [digit (n mod 10)]"

text \<open>\<open>%03u\<close>: at least three digits.\<close>

definition dec03 :: "nat \<Rightarrow> string" where
  "dec03 n = (if n < 1000 then dec_pad 3 n else dec n)"

text \<open>The quotient, rounded to the nearest integer, ties to even.\<close>

definition rnd_div :: "nat \<Rightarrow> nat \<Rightarrow> nat" where
  "rnd_div n d =
     (let q = n div d; r = n mod d in if 2 * r > d \<or> (2 * r = d \<and> odd q) then q + 1 else q)"

definition fixed_units :: "nat \<Rightarrow> nat \<Rightarrow> int \<Rightarrow> nat" where
  "fixed_units p m e = (if 0 \<le> e then m * 2 ^ nat e * 10 ^ p else rnd_div (m * 10 ^ p) (2 ^ nat (- e)))"

fun fmt_fixed :: "nat \<Rightarrow> fl \<Rightarrow> string" where
  "fmt_fixed p NaN = ''nan''"
| "fmt_fixed p (Inf s) = (if s then ''-inf'' else ''inf'')"
| "fmt_fixed p (Fin s m e) =
     (let u = fixed_units p m e in
      (if s then ''-'' else '''') @ dec (u div 10 ^ p) @ ''.'' @ dec_pad p u)"

text \<open>A \<open>float\<close> argument is widened first.\<close>

definition fmt_f32 :: "nat \<Rightarrow> f32 \<Rightarrow> string" where
  "fmt_f32 p a = fmt_fixed p (f64_val (f32_to_f64 a))"

definition fmt_f64 :: "nat \<Rightarrow> f64 \<Rightarrow> string" where
  "fmt_f64 p a = fmt_fixed p (f64_val a)"

section \<open>Reading it back\<close>

definition is_digit :: "char \<Rightarrow> bool" where
  "is_digit c \<longleftrightarrow> 48 \<le> (of_char c :: nat) \<and> of_char c \<le> (57 :: nat)"

definition num_of :: "string \<Rightarrow> nat" where
  "num_of ds = foldl (\<lambda>a c. 10 * a + (of_char c - 48)) 0 ds"

text \<open>The number a decimal numeral with an optional sign and an optional fraction denotes.\<close>

definition read_dec :: "string \<Rightarrow> real" where
  "read_dec t =
     (let neg = (t \<noteq> [] \<and> hd t = CHR ''-''); t = (if neg then tl t else t);
          i = takeWhile is_digit t; f = drop 1 (dropWhile is_digit t);
          v = real (num_of (i @ f)) / 10 ^ length f
      in if neg then - v else v)"

text \<open>The numerals of JSON without an exponent.\<close>

definition json_num :: "string \<Rightarrow> bool" where
  "json_num t =
     (let t = (if t \<noteq> [] \<and> hd t = CHR ''-'' then tl t else t);
          i = takeWhile is_digit t; r = dropWhile is_digit t
      in i \<noteq> [] \<and> (hd i = CHR ''0'' \<longrightarrow> length i = 1) \<and>
         (r = [] \<or> (hd r = CHR ''.'' \<and> tl r \<noteq> [] \<and> list_all is_digit (tl r))))"

lemma digit_is [simp]: "d < 10 \<Longrightarrow> is_digit (digit d)" "d < 10 \<Longrightarrow> of_char (digit d) = 48 + d"
  by (simp_all add: is_digit_def digit_def)

lemma num_of_snoc [simp]: "num_of (ds @ [c]) = 10 * num_of ds + (of_char c - 48)" "num_of [] = 0"
  by (simp_all add: num_of_def)

lemma dec_digits: "list_all is_digit (dec n) \<and> num_of (dec n) = n \<and> dec n \<noteq> []"
  by (induction n rule: dec.induct) (subst (1 2 3) dec.simps, auto simp: num_of_def)

lemma dec_no_zero: "hd (dec n) = CHR ''0'' \<Longrightarrow> n = 0"
proof (induction n rule: dec.induct)
  case (1 n)
  show ?case
  proof (cases "n < 10")
    case True
    then have "of_char (hd (dec n)) = 48 + n" by (subst dec.simps) simp
    then show ?thesis using 1(2) by simp
  next
    case False
    then have "hd (dec n) = hd (dec (n div 10))" using dec_digits [of "n div 10"] by (subst dec.simps) simp
    then have "n div 10 = 0" using 1 False by simp
    then show ?thesis using False by simp
  qed
qed

lemma dec_len: "n < 10 ^ Suc k \<Longrightarrow> length (dec n) \<le> Suc k"
proof (induction k arbitrary: n)
  case 0
  then show ?case by (subst dec.simps) simp
next
  case (Suc k)
  then show ?case by (subst dec.simps) (auto simp: less_mult_imp_div_less)
qed

lemma dec_pad_digits: "list_all is_digit (dec_pad p n) \<and> length (dec_pad p n) = p"
  by (induction p arbitrary: n) simp_all

lemma num_of_app: "num_of (a @ b) = num_of a * 10 ^ length b + num_of b"
proof (induction b rule: rev_induct)
  case (snoc c b)
  then show ?case by (simp flip: append_assoc)
qed simp

lemma dec_pad_num: "num_of (dec_pad p n) = n mod 10 ^ p"
proof (induction p arbitrary: n)
  case (Suc p)
  have "n mod (10 * 10 ^ p) = 10 * (n div 10 mod 10 ^ p) + n mod 10" by (simp add: mod_mult2_eq)
  then show ?case using Suc by simp
qed simp

lemma fixed_parts:
  "takeWhile is_digit (dec a @ ''.'' @ dec_pad p u) = dec a" "dropWhile is_digit (dec a @ ''.'' @ dec_pad p u) = ''.'' @ dec_pad p u"
proof -
  have d: "\<forall>c \<in> set (dec a). is_digit c" using dec_digits by (simp add: list_all_iff)
  have n: "\<not> is_digit CHR ''.''" by (simp add: is_digit_def)
  show "takeWhile is_digit (dec a @ ''.'' @ dec_pad p u) = dec a" using d n by (simp add: takeWhile_append)
  show "dropWhile is_digit (dec a @ ''.'' @ dec_pad p u) = ''.'' @ dec_pad p u" using d n by (simp add: dropWhile_append)
qed

lemma dec_head: "hd (dec a @ t) \<noteq> CHR ''-''"
proof -
  have "is_digit (hd (dec a))" "dec a \<noteq> []" using dec_digits [of a] by (auto simp: list_all_iff)
  then show ?thesis by (auto simp: is_digit_def)
qed

text \<open>The text is a number of JSON unless the value is not finite, and denotes the value to half a unit of
  its last decimal.\<close>

lemma fmt_json: "fl_finite v \<Longrightarrow> 0 < p \<Longrightarrow> json_num (fmt_fixed p v)"
proof (cases v)
  case (Fin s m e)
  assume p: "0 < p"
  define u where "u = fixed_units p m e"
  let ?t = "dec (u div 10 ^ p) @ ''.'' @ dec_pad p u"
  have t: "fmt_fixed p v = (if s then ''-'' else '''') @ ?t" by (simp add: Fin u_def Let_def)
  have z: "hd (dec (u div 10 ^ p)) = CHR ''0'' \<longrightarrow> length (dec (u div 10 ^ p)) = 1"
    using dec_no_zero [of "u div 10 ^ p"] by (auto simp: dec.simps [of 0])
  have d: "dec (u div 10 ^ p) \<noteq> []" "dec_pad p u \<noteq> []" "list_all is_digit (dec_pad p u)"
    using dec_digits dec_pad_digits [of p u] p by auto
  have "hd ?t \<noteq> CHR ''-''" by (rule dec_head)
  then show ?thesis using z d fixed_parts [of "u div 10 ^ p" p u] by (simp add: json_num_def t Let_def)
qed simp_all

lemma rnd_div_near: "0 < d \<Longrightarrow> \<bar>real (rnd_div n d) - real n / real d\<bar> \<le> 1 / 2"
proof -
  assume d: "0 < d"
  have n: "real n = real (n div d) * real d + real (n mod d)" by (metis div_mult_mod_eq of_nat_add of_nat_mult)
  have r: "real (n mod d) < real d" using d by simp
  have f: "real n / real d = real (n div d) + real (n mod d) / real d" using d n by (simp add: field_simps)
  show ?thesis
  proof (cases "2 * (n mod d) > d \<or> (2 * (n mod d) = d \<and> odd (n div d))")
    case True
    then have "real d \<le> 2 * real (n mod d)" by auto
    then have "1 / 2 \<le> real (n mod d) / real d" "real (n mod d) / real d < 1" using d r by (simp_all add: field_simps)
    then show ?thesis using True f by (simp add: rnd_div_def Let_def)
  next
    case False
    then have "2 * real (n mod d) \<le> real d" by auto
    then have "real (n mod d) / real d \<le> 1 / 2" "0 \<le> real (n mod d) / real d" using d by (simp_all add: field_simps)
    moreover have "rnd_div n d = n div d" using False by (simp add: rnd_div_def Let_def del: de_Morgan_conj de_Morgan_disj)
    ultimately show ?thesis using f by simp
  qed
qed

lemma fixed_units_near: "\<bar>real (fixed_units p m e) / 10 ^ p - real m * 2 powi e\<bar> \<le> 1 / (2 * 10 ^ p)"
proof (cases "0 \<le> e")
  case True
  then show ?thesis by (simp add: fixed_units_def power_int_def)
next
  case False
  let ?d = "(2 :: nat) ^ nat (- e)"
  have "real m * 2 powi e = real (m * 10 ^ p) / real ?d / 10 ^ p"
    using False by (simp add: power_int_def field_simps)
  moreover have "fixed_units p m e = rnd_div (m * 10 ^ p) ?d" using False by (simp add: fixed_units_def)
  moreover have "\<bar>real (rnd_div (m * 10 ^ p) ?d) / 10 ^ p - real (m * 10 ^ p) / real ?d / 10 ^ p\<bar> =
      \<bar>real (rnd_div (m * 10 ^ p) ?d) - real (m * 10 ^ p) / real ?d\<bar> / 10 ^ p"
    by (simp only: diff_divide_distrib [symmetric] abs_divide) simp
  moreover have "\<dots> \<le> (1 / 2) / 10 ^ p" by (intro divide_right_mono rnd_div_near) simp_all
  ultimately show ?thesis by simp
qed

lemma fmt_near:
  assumes "fl_finite v"
  shows "\<bar>read_dec (fmt_fixed p v) - fl_real v\<bar> \<le> 1 / (2 * 10 ^ p)"
proof (cases v)
  case (Fin s m e)
  define u where "u = fixed_units p m e"
  let ?t = "dec (u div 10 ^ p) @ ''.'' @ dec_pad p u"
  have t: "fmt_fixed p v = (if s then ''-'' else '''') @ ?t" by (simp add: Fin u_def Let_def)
  have h: "hd ?t \<noteq> CHR ''-''" by (rule dec_head)
  have "num_of (dec (u div 10 ^ p) @ dec_pad p u) = u div 10 ^ p * 10 ^ p + u mod 10 ^ p"
    using dec_digits dec_pad_digits [of p u] by (simp add: num_of_app dec_pad_num)
  then have n: "num_of (dec (u div 10 ^ p) @ dec_pad p u) = u" by (simp only: div_mult_mod_eq)
  have "read_dec (fmt_fixed p v) = (if s then - (real u / 10 ^ p) else real u / 10 ^ p)"
    using h fixed_parts [of "u div 10 ^ p" p u] dec_pad_digits [of p u] by (simp add: read_dec_def t n Let_def)
  then show ?thesis using fixed_units_near [of p m e] by (auto simp: Fin u_def)
qed (use assms in simp_all)


lemma dec_json: "json_num (dec n)"
proof -
  have d: "\<forall>c \<in> set (dec n). is_digit c" "dec n \<noteq> []" using dec_digits [of n] by (auto simp: list_all_iff)
  have h: "hd (dec n) \<noteq> CHR ''-''" using dec_head [of n "[]"] by simp
  have z: "hd (dec n) = CHR ''0'' \<longrightarrow> length (dec n) = 1"
    using dec_no_zero [of n] by (auto simp: dec.simps [of 0])
  have t: "takeWhile is_digit (dec n) = dec n" "dropWhile is_digit (dec n) = []" using d(1) by (simp_all add: takeWhile_eq_all_conv)
  have g: "(if dec n \<noteq> [] \<and> hd (dec n) = CHR ''-'' then tl (dec n) else dec n) = dec n" using h by simp
  show ?thesis using d(2) z unfolding json_num_def Let_def g t by simp
qed

text \<open>How long a numeral can get: a \<open>double\<close> has at most 309 digits before the point.\<close>

lemma f64_val_range:
  assumes "f64_val w = Fin s m e"
  shows "m < 2 ^ 53 \<and> e \<le> 971"
proof -
  have "unat w div 2 ^ 52 mod 2 ^ 11 < (2 :: nat) ^ 11" "unat w mod 2 ^ 52 < (2 :: nat) ^ 52" by simp_all
  then show ?thesis using assms
    by (auto simp: f64_val_def fl_decode_def bias_def emin_def Let_def split: if_splits)
qed

lemma rnd_div_le: "rnd_div n d \<le> n div d + 1"
  by (simp add: rnd_div_def Let_def)

lemma fixed_units_int:
  assumes "m * 2 ^ nat e \<le> b"
  shows "fixed_units p m e div 10 ^ p \<le> Suc b"
proof (cases "0 \<le> e")
  case True
  then show ?thesis using assms by (simp add: fixed_units_def)
next
  case False
  have "m * 10 ^ p div 2 ^ nat (- e) \<le> m * 10 ^ p" by (rule div_le_dividend)
  then have "rnd_div (m * 10 ^ p) (2 ^ nat (- e)) \<le> m * 10 ^ p + 1"
    using rnd_div_le [of "m * 10 ^ p" "2 ^ nat (- e)"] by linarith
  then have "fixed_units p m e \<le> m * 10 ^ p + 1" using False by (simp add: fixed_units_def)
  also have "\<dots> \<le> (m + 1) * 10 ^ p" by simp
  finally have "fixed_units p m e div 10 ^ p \<le> m + 1" by (metis div_le_mono nonzero_mult_div_cancel_right power_not_zero zero_neq_numeral)
  then show ?thesis using False assms by simp
qed

lemma fmt_fixed_len:
  assumes "m * 2 ^ nat e \<le> b" and "Suc b < 10 ^ Suc k"
  shows "length (fmt_fixed p (Fin s m e)) \<le> k + p + 3"
proof -
  have "fixed_units p m e div 10 ^ p < 10 ^ Suc k" using fixed_units_int [OF assms(1), of p] assms(2) by simp
  from dec_len [OF this] dec_pad_digits [of p "fixed_units p m e"] show ?thesis by (simp add: Let_def)
qed

lemma fmt_f64_len: "length (fmt_f64 p w) \<le> p + 311"
proof (cases "f64_val w")
  case (Fin s m e)
  note r = f64_val_range [OF Fin]
  have "m * 2 ^ nat e \<le> 2 ^ 53 * 2 ^ 971"
    using r by (intro mult_le_mono power_increasing) (simp_all add: nat_le_iff)
  moreover have "Suc (2 ^ 53 * 2 ^ 971) < (10 :: nat) ^ Suc 308" by simp
  ultimately have "length (fmt_fixed p (Fin s m e)) \<le> 308 + p + 3" by (rule fmt_fixed_len)
  then show ?thesis by (simp add: fmt_f64_def Fin)
qed (simp_all add: fmt_f64_def)

lemma fmt_f32_len: "length (fmt_f32 p w) \<le> p + 311"
  using fmt_f64_len [of p "f32_to_f64 w"] by (simp add: fmt_f32_def fmt_f64_def)

text \<open>Fewer where the value is known to be small.\<close>

lemma fl_real_bound:
  assumes "\<bar>fl_real (Fin s m e)\<bar> \<le> real b"
  shows "0 \<le> e \<Longrightarrow> m * 2 ^ nat e \<le> b" and "fixed_units p m e div 10 ^ p \<le> Suc b"
proof -
  have a: "real m * 2 powi e \<le> real b" using assms by (cases s) (simp_all add: abs_mult)
  {
    assume "0 \<le> e"
    then have "real (m * 2 ^ nat e) \<le> real b" using a by (simp add: power_int_def)
    then show "m * 2 ^ nat e \<le> b" by (simp only: of_nat_le_iff)
  }
  have "real (fixed_units p m e) / 10 ^ p \<le> real b + 1 / (2 * 10 ^ p)"
    using fixed_units_near [of p m e] a by linarith
  also have "\<dots> \<le> real b + 1"
  proof -
    have "(1 :: real) \<le> 2 * 10 ^ p" using one_le_power [of "10 :: real" p] by linarith
    then show ?thesis by simp
  qed
  finally have "real (fixed_units p m e) \<le> real (Suc b * 10 ^ p)" by (simp add: field_simps)
  then have "fixed_units p m e \<le> Suc b * 10 ^ p" by (simp only: of_nat_le_iff)
  then have "fixed_units p m e div 10 ^ p \<le> Suc b * 10 ^ p div 10 ^ p" by (rule div_le_mono)
  then show "fixed_units p m e div 10 ^ p \<le> Suc b" by simp
qed

lemma fmt_len_bound:
  assumes "fl_finite v" and "\<bar>fl_real v\<bar> \<le> real b" and "Suc b < 10 ^ Suc k"
  shows "length (fmt_fixed p v) \<le> k + p + 3"
proof (cases v)
  case (Fin s m e)
  have "fixed_units p m e div 10 ^ p < 10 ^ Suc k"
    using fl_real_bound(2) [of s m e b p] assms(2,3) by (simp add: Fin)
  from dec_len [OF this] dec_pad_digits [of p "fixed_units p m e"] show ?thesis by (simp add: Fin Let_def)
qed (use assms in simp_all)

lemma dec_pad_numeral [simp]: "dec_pad (numeral k) n = dec_pad (pred_numeral k) (n div 10) @ [digit (n mod 10)]"
  by (simp only: numeral_eq_Suc dec_pad.simps)

text \<open>A few texts: 1.23, 4.56 and -123.456 as \<open>float\<close>, 21.016042 as \<open>double\<close>, a tie, a NaN.\<close>

lemma text_samples:
  "fmt_f32 2 0x3F9D70A4 = ''1.23''" "fmt_f32 2 0x4091EB85 = ''4.56''" "fmt_f32 2 0xC2F6E979 = ''-123.46''"
  "fmt_f32 2 0x3E000000 = ''0.12''" "fmt_f32 2 0x7FC00000 = ''nan''" "dec03 4 = ''004''" "dec 4660 = ''4660''"
  by (simp_all add: fmt_f32_def fl_eval64 fixed_units_def rnd_div_def dec.simps digit_def dec03_def char_of_def bit_Suc_0_iff)

end
