(* ===== verification/PosJson.thy ===== *)
theory PosJson
  imports FloatText AposStore
begin

text \<open>
  The two MQTT payloads, src/pos_json.c, as the bytes the C code writes, and the JSON documents they are meant
  to be. A buffer is the string it holds; \<open>c_snprintf\<close> is the C library's call, which cuts what does not fit.
\<close>

section \<open>The code\<close>

abbreviation (input) POS_JSON_MAX_LEN :: nat where "POS_JSON_MAX_LEN \<equiv> 1536"

record pos_fix =
  fx_src_addr :: u16
  fx_tag_id :: u32
  fx_x :: f32
  fx_y :: f32
  fx_residual_m :: f32
  fx_n_anchors :: u8
  fx_batt_soc :: u8

text \<open>\<open>snprintf(buf + off, room, ...)\<close> of the text \<open>t\<close>: the length \<open>t\<close> would have, and the buffer with as much
  of it as fits before the final NUL.\<close>

definition c_snprintf :: "string \<Rightarrow> nat \<Rightarrow> string \<Rightarrow> int \<times> string" where
  "c_snprintf buf room t = (int (length t), if room = 0 then buf else buf @ take (room - 1) t)"

definition pos_json_fix :: "nat \<Rightarrow> pos_fix \<Rightarrow> int \<times> string" where
  "pos_json_fix len fix =
     (let (n, buf) = c_snprintf [] len
            (''{\"Tid\":'' @ dec (unat (fx_tag_id fix)) @ '',\"x\":'' @ fmt_f32 2 (fx_x fix) @
             '',\"y\":'' @ fmt_f32 2 (fx_y fix) @ '',\"z\":0}'')
      in if n < 0 \<or> n \<ge> int len then (-1, buf) else (n, buf))"

definition stub_text :: string where
  "stub_text = concat
     [''{\"name\":\"852541\",\"anchors\":['',
      ''{\"name\":\"ANC-LOBBY-001\",\"isAxis\":true,\"isReferenceAxis\":true,'',
      ''\"latitude\":21.01604164655441,\"longitude\":-89.6521292940793,'',
      ''\"x\":0.0,\"y\":0.0,\"z\":0.0},'',
      ''{\"name\":\"ANC-LOBBY-002\",\"isAxis\":false,\"isReferenceAxis\":false,'',
      ''\"latitude\":0,\"longitude\":0,\"x\":2.0,\"y\":0.0,\"z\":0.0},'',
      ''{\"name\":\"ANC-LOBBY-003\",\"isAxis\":false,\"isReferenceAxis\":false,'',
      ''\"latitude\":0,\"longitude\":0,\"x\":2.0,\"y\":2.0,\"z\":0.0},'',
      ''{\"name\":\"ANC-LOBBY-004\",\"isAxis\":false,\"isReferenceAxis\":false,'',
      ''\"latitude\":0,\"longitude\":0,\"x\":0.0,\"y\":2.0,\"z\":0.0}'',
      '']}'']"

definition anchors_stub :: "nat \<Rightarrow> int \<times> string" where
  "anchors_stub len =
     (let (n, buf) = c_snprintf [] len stub_text
      in if n < 0 \<or> n \<ge> int len then (-1, buf) else (n, buf))"

definition bool_text :: "bool \<Rightarrow> string" where
  "bool_text b = (if b then ''true'' else ''false'')"

text \<open>The text of the anchor \<open>k\<close>, and the loop over the anchors with its running offset, which is always the
  length of what has been written.\<close>

definition anchor_text :: "apos_survey \<Rightarrow> nat \<Rightarrow> string" where
  "anchor_text s k =
     (let v = sv_node s ! k; is_ref = (k = 0); geo = is_ref \<and> sv_ref_valid s in
      (if k = 0 then '''' else '','') @
      ''{\"name\":\"ANC-LOBBY-'' @ dec03 (unat (sn_short_addr v)) @ ''\",'' @
      ''\"isAxis\":'' @ bool_text is_ref @ '',\"isReferenceAxis\":'' @ bool_text is_ref @ '','' @
      ''\"latitude\":'' @ fmt_f64 8 (if geo then sv_ref_lat s else 0) @
      '',\"longitude\":'' @ fmt_f64 8 (if geo then sv_ref_lon s else 0) @ '','' @
      ''\"x\":'' @ fmt_f32 2 (sn_x v) @ '',\"y\":'' @ fmt_f32 2 (sn_y v) @
      '',\"z\":'' @ fmt_f32 2 (sn_z v) @ ''}'')"

definition anchors_head :: string where
  "anchors_head = ''{\"name\":\"852541\",\"anchors\":[''"

fun anchors_loop :: "nat \<Rightarrow> apos_survey \<Rightarrow> nat list \<Rightarrow> string \<Rightarrow> bool \<times> string" where
  "anchors_loop len s [] buf = (True, buf)"
| "anchors_loop len s (k # ks) buf =
     (let room = len - length buf; (n, b) = c_snprintf buf room (anchor_text s k)
      in if n < 0 \<or> n \<ge> int room then (False, b) else anchors_loop len s ks b)"

definition isfinite_f32 :: "f32 \<Rightarrow> bool" where
  "isfinite_f32 a = fl_finite (f32_val a)"

definition isfinite_f64 :: "f64 \<Rightarrow> bool" where
  "isfinite_f64 a = fl_finite (f64_val a)"

definition survey_finite :: "apos_survey \<Rightarrow> bool" where
  "survey_finite s \<longleftrightarrow>
     \<not> (sv_ref_valid s \<and> (\<not> isfinite_f64 (sv_ref_lat s) \<or> \<not> isfinite_f64 (sv_ref_lon s))) \<and>
     list_all (\<lambda>k. isfinite_f32 (sn_x (sv_node s ! k)) \<and> isfinite_f32 (sn_y (sv_node s ! k)) \<and>
        isfinite_f32 (sn_z (sv_node s ! k))) [0..<unat (sv_n_nodes s)]"

text \<open>\<open>None\<close> for a buffer or a survey that is not there; the string is what the buffer holds afterwards.\<close>

definition pos_json_anchors :: "string option \<Rightarrow> nat \<Rightarrow> apos_survey option \<Rightarrow> int \<times> string option" where
  "pos_json_anchors buf len sv =
     (if buf = None \<or> len = 0 then (-1, buf)
      else
        case sv of
          None \<Rightarrow> map_prod id Some (anchors_stub len)
        | Some s \<Rightarrow>
            if \<not> sv_valid s \<or> sv_n_nodes s = 0 then map_prod id Some (anchors_stub len)
            else if \<not> survey_finite s then (-1, buf)
            else
              let (n, b) = c_snprintf [] len anchors_head in
              if n < 0 \<or> n \<ge> int len then (-1, Some b)
              else
                let (ok, b) = anchors_loop len s [0..<unat (sv_n_nodes s)] b in
                if \<not> ok then (-1, Some b)
                else
                  let (n, b') = c_snprintf b (len - length b) '']}'' in
                  if n < 0 \<or> n \<ge> int (len - length b) then (-1, Some b')
                  else (int (length b) + n, Some b'))"

section \<open>JSON\<close>

text \<open>Documents and their text; a document is well formed if its numbers are numerals and its strings need no
  escapes.\<close>

datatype jval = JNum string | JStr string | JBool bool | JArr "jval list" | JObj "(string \<times> jval) list"

definition commas :: "string list \<Rightarrow> string" where
  "commas ts = (case ts of [] \<Rightarrow> [] | t # r \<Rightarrow> t @ concat (map ((@) '','') r))"

definition quoted :: "string \<Rightarrow> string" where
  "quoted t = ''\"'' @ t @ ''\"''"

primrec render :: "jval \<Rightarrow> string" where
  "render (JNum t) = t"
| "render (JStr t) = quoted t"
| "render (JBool b) = bool_text b"
| "render (JArr vs) = ''['' @ commas (map render vs) @ '']''"
| "render (JObj ms) = ''{'' @ commas (map (\<lambda>(k, t). quoted k @ '':'' @ t) (map (map_prod id render) ms)) @ ''}''"

definition plain :: "string \<Rightarrow> bool" where
  "plain t = list_all (\<lambda>c. c \<noteq> CHR 0x22 \<and> c \<noteq> CHR 0x5C \<and> 32 \<le> (of_char c :: nat)) t"

primrec jval_ok :: "jval \<Rightarrow> bool" where
  "jval_ok (JNum t) = json_num t"
| "jval_ok (JStr t) = plain t"
| "jval_ok (JBool b) = True"
| "jval_ok (JArr vs) = list_all id (map jval_ok vs)"
| "jval_ok (JObj ms) = list_all (\<lambda>(k, b). plain k \<and> b) (map (map_prod id jval_ok) ms)"


section \<open>What is published\<close>

definition fix_doc :: "pos_fix \<Rightarrow> jval" where
  "fix_doc fix = JObj [(''Tid'', JNum (dec (unat (fx_tag_id fix)))), (''x'', JNum (fmt_f32 2 (fx_x fix))),
     (''y'', JNum (fmt_f32 2 (fx_y fix))), (''z'', JNum ''0'')]"

definition anchor_doc :: "apos_survey \<Rightarrow> nat \<Rightarrow> jval" where
  "anchor_doc s k =
     (let v = sv_node s ! k; geo = (k = 0 \<and> sv_ref_valid s) in
      JObj [(''name'', JStr (''ANC-LOBBY-'' @ dec03 (unat (sn_short_addr v)))),
        (''isAxis'', JBool (k = 0)), (''isReferenceAxis'', JBool (k = 0)),
        (''latitude'', JNum (fmt_f64 8 (if geo then sv_ref_lat s else 0))),
        (''longitude'', JNum (fmt_f64 8 (if geo then sv_ref_lon s else 0))),
        (''x'', JNum (fmt_f32 2 (sn_x v))), (''y'', JNum (fmt_f32 2 (sn_y v))), (''z'', JNum (fmt_f32 2 (sn_z v)))])"

definition survey_doc :: "apos_survey \<Rightarrow> jval" where
  "survey_doc s = JObj [(''name'', JStr ''852541''),
     (''anchors'', JArr (map (anchor_doc s) [0..<unat (sv_n_nodes s)]))]"

definition stub_anchor :: "string \<Rightarrow> bool \<Rightarrow> string \<Rightarrow> string \<Rightarrow> string \<Rightarrow> string \<Rightarrow> jval" where
  "stub_anchor nm r lat lon x y = JObj [(''name'', JStr nm), (''isAxis'', JBool r), (''isReferenceAxis'', JBool r),
     (''latitude'', JNum lat), (''longitude'', JNum lon), (''x'', JNum x), (''y'', JNum y), (''z'', JNum ''0.0'')]"

definition stub_doc :: jval where
  "stub_doc = JObj [(''name'', JStr ''852541''), (''anchors'', JArr
     [stub_anchor ''ANC-LOBBY-001'' True ''21.01604164655441'' ''-89.6521292940793'' ''0.0'' ''0.0'',
      stub_anchor ''ANC-LOBBY-002'' False ''0'' ''0'' ''2.0'' ''0.0'',
      stub_anchor ''ANC-LOBBY-003'' False ''0'' ''0'' ''2.0'' ''2.0'',
      stub_anchor ''ANC-LOBBY-004'' False ''0'' ''0'' ''0.0'' ''2.0''])]"

lemma isfinite_widen: "isfinite_f32 a \<Longrightarrow> fl_finite (f64_val (f32_to_f64 a)) \<and>
    fl_real (f64_val (f32_to_f64 a)) = fl_real (f32_val a)"
  by (simp add: isfinite_f32_def widen_exact)

lemma fmt_f32_json: "isfinite_f32 a \<Longrightarrow> 0 < p \<Longrightarrow> json_num (fmt_f32 p a)"
  using isfinite_widen by (simp add: fmt_f32_def fmt_json)

lemma fmt_f64_json: "isfinite_f64 a \<Longrightarrow> 0 < p \<Longrightarrow> json_num (fmt_f64 p a)"
  by (simp add: fmt_f64_def isfinite_f64_def fmt_json)

lemma isfinite_0 [simp]: "isfinite_f64 0"
  by (simp add: isfinite_f64_def f64_val_def fl_decode_def Let_def)

lemma digits_plain: "list_all is_digit t \<Longrightarrow> plain t"
  by (auto simp: plain_def list_all_iff is_digit_def)

lemma dec03_plain: "plain (dec03 n)"
  using dec_digits [of n] dec_pad_digits [of 3 n] by (simp add: dec03_def digits_plain)

lemma stub_ok: "stub_text = render stub_doc" "jval_ok stub_doc" "length stub_text = 519"
  by (simp_all add: stub_text_def stub_doc_def stub_anchor_def commas_def quoted_def bool_text_def plain_def json_num_def
      is_digit_def Let_def)

lemma anchor_text_doc: "anchor_text s k = (if k = 0 then '''' else '','') @ render (anchor_doc s k)"
  by (simp add: anchor_text_def anchor_doc_def Let_def commas_def quoted_def)

lemma anchors_commas: "concat (map (anchor_text s) [0..<n]) = commas (map (\<lambda>k. render (anchor_doc s k)) [0..<n])"
proof (cases n)
  case (Suc m)
  have "map (anchor_text s) [1..<Suc m] = map ((@) '','') (map (\<lambda>k. render (anchor_doc s k)) [1..<Suc m])"
    by (auto simp: anchor_text_doc)
  moreover have "[0..<n] = 0 # [1..<Suc m]" using Suc by (simp add: upt_conv_Cons)
  ultimately show ?thesis by (simp only: list.map concat.simps commas_def list.case) (simp add: anchor_text_doc comp_def)
qed (simp add: commas_def)

lemma anchors_loop_full:
  assumes "length buf < len"
  shows "anchors_loop len s ks buf = (True, b) \<longleftrightarrow>
    b = buf @ concat (map (anchor_text s) ks) \<and> length b < len"
  using assms
proof (induction ks arbitrary: buf)
  case (Cons k ks)
  let ?t = "anchor_text s k"
  show ?case
  proof (cases "length buf + length ?t < len")
    case True
    then have "take (len - length buf - 1) ?t = ?t" by simp
    then have "anchors_loop len s (k # ks) buf = anchors_loop len s ks (buf @ ?t)"
      using True Cons.prems by (auto simp: c_snprintf_def Let_def)
    then show ?thesis using Cons.IH [of "buf @ ?t"] True by simp
  next
    case False
    then show ?thesis using Cons.prems by (auto simp: c_snprintf_def Let_def)
  qed
qed auto

text \<open>The whole text of a surveyed document; it is published exactly if it fits.\<close>

definition survey_text :: "apos_survey \<Rightarrow> string" where
  "survey_text s = anchors_head @ concat (map (anchor_text s) [0..<unat (sv_n_nodes s)]) @ '']}''"

lemma survey_text_doc: "survey_text s = render (survey_doc s)"
  by (simp add: survey_text_def anchors_head_def anchors_commas survey_doc_def commas_def quoted_def comp_def)

lemma pos_json_anchors_survey:
  assumes "sv_valid s" and "sv_n_nodes s \<noteq> 0" and "survey_finite s" and "0 < len"
  shows "pos_json_anchors (Some b0) len (Some s) = (n, Some b) \<and> n \<noteq> -1 \<longleftrightarrow>
    length (survey_text s) < len \<and> b = survey_text s \<and> n = int (length (survey_text s))"
proof -
  let ?h = anchors_head and ?c = "concat (map (anchor_text s) [0..<unat (sv_n_nodes s)])"
  show ?thesis
  proof (cases "length ?h < len")
    case False
    then have "pos_json_anchors (Some b0) len (Some s) = (-1, Some (take (len - 1) ?h))"
      using assms by (simp add: pos_json_anchors_def c_snprintf_def Let_def)
    then show ?thesis using False by (auto simp: survey_text_def)
  next
    case True
    obtain ok b1 where l: "anchors_loop len s [0..<unat (sv_n_nodes s)] ?h = (ok, b1)" by fastforce
    have e: "pos_json_anchors (Some b0) len (Some s) = (if \<not> ok then (-1, Some b1)
        else if 2 \<ge> len - length b1 then (-1, Some (snd (c_snprintf b1 (len - length b1) '']}'')))
        else (int (length b1) + 2, Some (b1 @ '']}'')))"
      using assms True l by (auto simp: pos_json_anchors_def c_snprintf_def Let_def take_Cons')
    note f = anchors_loop_full [OF True, of s "[0..<unat (sv_n_nodes s)]" b1]
    show ?thesis
    proof (cases ok)
      case True
      then have "b1 = ?h @ ?c \<and> length b1 < len" using l by (intro iffD1 [OF f]) simp
      then have b: "b1 = ?h @ ?c" "length b1 < len" by blast+
      show ?thesis using e True b by (auto simp: survey_text_def)
    next
      case False
      then have "\<not> length (?h @ ?c) < len"
        using l anchors_loop_full [OF True, of s "[0..<unat (sv_n_nodes s)]" "?h @ ?c"] by auto
      then show ?thesis using e False by (auto simp: survey_text_def)
    qed
  qed
qed

lemma survey_doc_ok: "survey_finite s \<Longrightarrow> jval_ok (survey_doc s)"
proof -
  assume f: "survey_finite s"
  have "jval_ok (anchor_doc s k)" if "k < unat (sv_n_nodes s)" for k
  proof -
    have "isfinite_f32 (sn_x (sv_node s ! k))" "isfinite_f32 (sn_y (sv_node s ! k))" "isfinite_f32 (sn_z (sv_node s ! k))"
      using f that by (auto simp: survey_finite_def list_all_iff)
    moreover have "sv_ref_valid s \<Longrightarrow> isfinite_f64 (sv_ref_lat s) \<and> isfinite_f64 (sv_ref_lon s)"
      using f by (auto simp: survey_finite_def)
    moreover have "plain (''ANC-LOBBY-'' @ t) = plain t" for t by (simp add: plain_def)
    ultimately show ?thesis by (simp add: anchor_doc_def Let_def fmt_f32_json fmt_f64_json dec03_plain) (simp add: plain_def)
  qed
  then show ?thesis by (simp add: survey_doc_def list_all_iff) (simp add: plain_def)
qed


section \<open>Properties\<close>

text \<open>A fix with finite coordinates is published as a complete JSON object with the tag's stable identity and the
  coordinates to within 5 mm; the uplink's buffer always holds it.\<close>

lemma fix_text: "pos_json_fix len fix =
    (if length (render (fix_doc fix)) < len then (int (length (render (fix_doc fix))), render (fix_doc fix))
     else (-1, take (len - 1) (render (fix_doc fix))))"
proof -
  have "render (fix_doc fix) = ''{\"Tid\":'' @ dec (unat (fx_tag_id fix)) @ '',\"x\":'' @ fmt_f32 2 (fx_x fix) @
      '',\"y\":'' @ fmt_f32 2 (fx_y fix) @ '',\"z\":0}''"
    by (simp add: fix_doc_def commas_def quoted_def)
  then show ?thesis by (auto simp: pos_json_fix_def c_snprintf_def Let_def)
qed

lemma fix_fits: "length (render (fix_doc fix)) < POS_JSON_MAX_LEN"
proof -
  have "unat (fx_tag_id fix) < 2 ^ 32" using unsigned_less [of "fx_tag_id fix"] by simp
  then have "unat (fx_tag_id fix) < 10 ^ Suc 9" by simp
  from dec_len [OF this] have "length (dec (unat (fx_tag_id fix))) \<le> 10" by simp
  moreover have "length (fmt_f32 2 (fx_x fix)) \<le> 313" "length (fmt_f32 2 (fx_y fix)) \<le> 313"
    using fmt_f32_len [of 2] by simp_all
  ultimately show ?thesis by (simp add: fix_doc_def commas_def quoted_def)
qed

text \<open>C40: A fix with finite coordinates is published as a well-formed JSON object of its identity as a plain decimal and
  its coordinates as decimals within half a hundredth of a metre of them.\<close>

theorem fix_published:
  assumes "isfinite_f32 (fx_x fix)" and "isfinite_f32 (fx_y fix)"
  shows "\<exists>xt yt t. t = render (JObj [(''Tid'', JNum (dec (unat (fx_tag_id fix)))), (''x'', JNum xt), (''y'', JNum yt), (''z'', JNum ''0'')])
    \<and> jval_ok (JObj [(''Tid'', JNum (dec (unat (fx_tag_id fix)))), (''x'', JNum xt), (''y'', JNum yt), (''z'', JNum ''0'')])
    \<and> pos_json_fix POS_JSON_MAX_LEN fix = (int (length t), t)
    \<and> \<bar>read_dec xt - fl_real (f32_val (fx_x fix))\<bar> \<le> 1 / 200
    \<and> \<bar>read_dec yt - fl_real (f32_val (fx_y fix))\<bar> \<le> 1 / 200"
proof -
  have near: "\<bar>read_dec (fmt_f32 2 a) - fl_real (f32_val a)\<bar> \<le> 1 / 200" if "isfinite_f32 a" for a
    using fmt_near [of "f64_val (f32_to_f64 a)" 2] isfinite_widen [OF that] by (simp add: fmt_f32_def)
  have ok: "jval_ok (fix_doc fix)"
    using assms by (simp add: fix_doc_def fmt_f32_json dec_json) (simp add: plain_def json_num_def is_digit_def)
  show ?thesis
    using ok near assms fix_fits [of "fix"] fix_text [of POS_JSON_MAX_LEN "fix"]
    by (intro exI [of _ "fmt_f32 2 (fx_x fix)"] exI [of _ "fmt_f32 2 (fx_y fix)"] exI [of _ "render (fix_doc fix)"])
      (simp add: fix_doc_def)
qed

definition sample_fix :: pos_fix where
  "sample_fix = \<lparr>fx_src_addr = 0x9999, fx_tag_id = 4660, fx_x = 0x3F9D70A4, fx_y = 0x4091EB85, fx_residual_m = 0,
     fx_n_anchors = 3, fx_batt_soc = 87\<rparr>"

lemma sample_fix_finite: "isfinite_f32 (fx_x sample_fix)" "isfinite_f32 (fx_y sample_fix)"
  by (simp_all add: sample_fix_def isfinite_f32_def fl_eval)

text \<open>The payload of the consumer's contract, byte for byte.\<close>

lemma fix_contract: "render (fix_doc sample_fix) = ''{\"Tid\":4660,\"x\":1.23,\"y\":4.56,\"z\":0}''"
  by (simp add: fix_doc_def sample_fix_def text_samples commas_def quoted_def)

lemma fix_published_witness:
  "\<exists>xt yt t. t = render (JObj [(''Tid'', JNum ''4660''), (''x'', JNum xt), (''y'', JNum yt), (''z'', JNum ''0'')])
    \<and> pos_json_fix POS_JSON_MAX_LEN sample_fix = (int (length t), t)
    \<and> \<bar>read_dec xt - fl_real (f32_val 0x3F9D70A4)\<bar> \<le> 1 / 200"
proof -
  have d: "dec (unat (fx_tag_id sample_fix)) = ''4660''" "fx_x sample_fix = 0x3F9D70A4"
    by (simp_all add: sample_fix_def text_samples)
  from fix_published [OF sample_fix_finite] show ?thesis unfolding d by blast
qed

text \<open>A coordinate that is not finite is published all the same, as a token JSON does not have.\<close>

lemma fix_nan:
  "pos_json_fix POS_JSON_MAX_LEN (sample_fix\<lparr>fx_x := 0x7FC00000\<rparr>) = (35, ''{\"Tid\":4660,\"x\":nan,\"y\":4.56,\"z\":0}'')"
  "\<not> json_num ''nan''"
proof -
  have t: "render (fix_doc (sample_fix\<lparr>fx_x := 0x7FC00000\<rparr>)) = ''{\"Tid\":4660,\"x\":nan,\"y\":4.56,\"z\":0}''"
    by (simp add: fix_doc_def sample_fix_def text_samples commas_def quoted_def)
  show "pos_json_fix POS_JSON_MAX_LEN (sample_fix\<lparr>fx_x := 0x7FC00000\<rparr>) = (35, ''{\"Tid\":4660,\"x\":nan,\"y\":4.56,\"z\":0}'')"
    unfolding fix_text t by simp
  show "\<not> json_num ''nan''" by (simp add: json_num_def is_digit_def)
qed

lemma anchors_complete:
  assumes "pos_json_anchors buf len sv = (n, b)" and "n \<noteq> -1"
  shows "\<exists>t d. b = Some t \<and> n = int (length t) \<and> length t < len \<and> t = render d \<and> jval_ok d \<and>
    d = (case sv of Some s \<Rightarrow> if sv_valid s \<and> sv_n_nodes s \<noteq> 0 then survey_doc s else stub_doc | None \<Rightarrow> stub_doc)"
proof -
  have stub: "\<exists>t. b = Some t \<and> n = int (length t) \<and> length t < len \<and> t = render stub_doc \<and> jval_ok stub_doc"
    if "map_prod id Some (anchors_stub len) = (n, b)"
  proof -
    have "length stub_text < len" "n = int (length stub_text)" "b = Some stub_text"
      using that assms(2) by (auto simp: anchors_stub_def c_snprintf_def Let_def split: if_splits)
    then show ?thesis using stub_ok(1,2) by auto
  qed
  have nb: "buf \<noteq> None" "0 < len" using assms by (auto simp: pos_json_anchors_def split: if_splits)
  then obtain b0 where b0: "buf = Some b0" by blast
  show ?thesis
  proof (cases "\<exists>s. sv = Some s \<and> sv_valid s \<and> sv_n_nodes s \<noteq> 0")
    case False
    then have "map_prod id Some (anchors_stub len) = (n, b)"
      using assms(1) nb by (auto simp: pos_json_anchors_def split: option.splits)
    with stub show ?thesis using False by (auto split: option.splits)
  next
    case True
    then obtain s where s: "sv = Some s" "sv_valid s" "sv_n_nodes s \<noteq> 0" by blast
    have f: "survey_finite s" using assms s nb by (auto simp: pos_json_anchors_def split: if_splits)
    obtain t where t: "b = Some t"
      using assms s f nb b0 by (auto simp: pos_json_anchors_def Let_def split: if_splits prod.splits)
    from pos_json_anchors_survey [OF s(2,3) f nb(2), of b0 n t] assms s t b0
    show ?thesis using survey_text_doc [of s] survey_doc_ok [OF f] by auto
  qed
qed

text \<open>C22: The anchors document: all of it or nothing. What is handed to the publisher is the complete text of a
  well-formed document, of the survey if there is one, of the placeholder otherwise.\<close>

theorem anchors_all_or_nothing:
  assumes "pos_json_anchors buf len sv = (n, b)" and "n \<noteq> -1"
  shows "\<exists>t d. b = Some t \<and> n = int (length t) \<and> length t < len \<and> t = render d \<and> jval_ok d \<and>
    d = (case sv of Some s \<Rightarrow> if sv_valid s \<and> sv_n_nodes s \<noteq> 0 then survey_doc s else stub_doc | None \<Rightarrow> stub_doc)"
  by (rule anchors_complete [OF assms])

text \<open>A coordinate of a plausible survey.\<close>

definition small_coord :: "f32 \<Rightarrow> bool" where
  "small_coord a \<longleftrightarrow> isfinite_f32 a \<and> \<bar>fl_real (f32_val a)\<bar> \<le> 10 ^ 15"

lemma concat_bound:
  "(\<And>k. k < n \<Longrightarrow> length (f k) \<le> (if k = 0 then b + c else b)) \<Longrightarrow> length (concat (map f [0..<n])) \<le> n * b + c"
proof (induction n)
  case (Suc n)
  have i: "length (concat (map f [0..<n])) \<le> n * b + c" using Suc by simp
  have l: "length (f n) \<le> (if n = 0 then b + c else b)" using Suc.prems by simp
  show ?case
  proof (cases n)
    case 0
    then show ?thesis using l by simp
  next
    case (Suc m)
    then show ?thesis using i l by simp
  qed
qed simp

lemma small_len: "small_coord a \<Longrightarrow> length (fmt_f32 2 a) \<le> 20"
  using fmt_len_bound [of "f64_val (f32_to_f64 a)" "10 ^ 15" 15 2] isfinite_widen [of a]
  by (simp add: small_coord_def fmt_f32_def)

lemma zero_text: "fmt_f64 8 0 = ''0.00000000''"
  by (simp add: fmt_f64_def f64_val_def fl_decode_def fixed_units_def rnd_div_def dec.simps digit_def char_of_def bit_Suc_0_iff Let_def
      emin_def bias_def)

lemma anchor_text_len:
  "length (anchor_text s k) \<le> 106 + length (fmt_f64 8 (if k = 0 \<and> sv_ref_valid s then sv_ref_lat s else 0)) +
     length (fmt_f64 8 (if k = 0 \<and> sv_ref_valid s then sv_ref_lon s else 0)) + length (fmt_f32 2 (sn_x (sv_node s ! k))) +
     length (fmt_f32 2 (sn_y (sv_node s ! k))) + length (fmt_f32 2 (sn_z (sv_node s ! k)))"
proof -
  have d: "length (dec03 (unat (a :: u16))) \<le> 5" for a
  proof -
    have "unat a < 2 ^ 16" using unsigned_less [of a] by simp
    then have "unat a < 10 ^ Suc 4" by simp
    from dec_len [OF this] dec_pad_digits [of 3 "unat a"] show ?thesis by (simp add: dec03_def)
  qed
  show ?thesis using d [of "sn_short_addr (sv_node s ! k)"]
    by (cases "k = 0"; cases "sv_ref_valid s") (simp_all add: anchor_text_def bool_text_def Let_def)
qed

text \<open>A survey of at most eight anchors within 10^15 m and a reference in degrees fits the uplink's buffer.\<close>

theorem anchors_fit:
  assumes "sv_valid s" and "sv_n_nodes s \<noteq> 0" and "sv_n_nodes s \<le> 8"
    and "\<And>k. k < unat (sv_n_nodes s) \<Longrightarrow>
      small_coord (sn_x (sv_node s ! k)) \<and> small_coord (sn_y (sv_node s ! k)) \<and> small_coord (sn_z (sv_node s ! k))"
    and "sv_ref_valid s \<Longrightarrow> isfinite_f64 (sv_ref_lat s) \<and> isfinite_f64 (sv_ref_lon s) \<and>
      \<bar>fl_real (f64_val (sv_ref_lat s))\<bar> \<le> 90 \<and> \<bar>fl_real (f64_val (sv_ref_lon s))\<bar> \<le> 180"
  shows "\<exists>b. pos_json_anchors (Some b0) POS_JSON_MAX_LEN (Some s) = (int (length b), Some b) \<and> b = render (survey_doc s)"
proof -
  let ?n = "unat (sv_n_nodes s)"
  have n: "?n \<le> 8" using assms(3) by (simp add: word_le_nat_alt)
  have f: "survey_finite s" using assms(4,5) by (auto simp: survey_finite_def small_coord_def list_all_iff)
  have geo: "length (fmt_f64 8 (sv_ref_lat s)) \<le> 13 \<and> length (fmt_f64 8 (sv_ref_lon s)) \<le> 13" if "sv_ref_valid s"
    using fmt_len_bound [of "f64_val (sv_ref_lat s)" 180 2 8] fmt_len_bound [of "f64_val (sv_ref_lon s)" 180 2 8] assms(5) [OF that]
    by (simp add: fmt_f64_def isfinite_f64_def)
  have "length (anchor_text s k) \<le> (if k = 0 then 186 + 6 else 186)" if "k < ?n" for k
  proof -
    have x: "length (fmt_f32 2 (sn_x (sv_node s ! k))) \<le> 20" "length (fmt_f32 2 (sn_y (sv_node s ! k))) \<le> 20"
      "length (fmt_f32 2 (sn_z (sv_node s ! k))) \<le> 20"
      using assms(4) [OF that] by (simp_all add: small_len)
    show ?thesis using anchor_text_len [of s k] x geo
      by (cases "k = 0"; cases "sv_ref_valid s") (simp_all add: zero_text)
  qed
  from concat_bound [of ?n "anchor_text s", OF this]
  have "length (concat (map (anchor_text s) [0..<?n])) \<le> ?n * 186 + 6" .
  then have l: "length (survey_text s) < 1536" using n by (simp add: survey_text_def anchors_head_def)
  from pos_json_anchors_survey [OF assms(1,2) f, of 1536 b0 "int (length (survey_text s))" "survey_text s"] l
  show ?thesis by (simp add: survey_text_doc)
qed


text \<open>Two anchors, the first geo-referenced at 21 degrees north.\<close>

definition two_anchor_survey :: apos_survey where
  "two_anchor_survey = survey_boot\<lparr>sv_node := \<lparr>sn_eui = replicate 8 1, sn_short_addr = 1, sn_x = 0, sn_y = 0, sn_z = 0\<rparr> #
       \<lparr>sn_eui = replicate 8 2, sn_short_addr = 2, sn_x = 0x40500000, sn_y = 0, sn_z = 0\<rparr> # replicate 6 zero_survey_node,
     sv_n_nodes := 2, sv_valid := True, sv_dim := 1, sv_ref_lat := 0x4035000000000000, sv_ref_valid := True\<rparr>"

lemma small_samples: "small_coord 0" "small_coord 0x40500000" "isfinite_f64 0x4035000000000000"
    "\<bar>fl_real (f64_val 0x4035000000000000)\<bar> \<le> 90" "\<bar>fl_real (f64_val 0)\<bar> \<le> 180"
  by (simp_all add: small_coord_def isfinite_f32_def isfinite_f64_def fl_eval64 power_int_def power_divide)

lemma anchors_fit_witness:
  "\<exists>b. pos_json_anchors (Some []) POS_JSON_MAX_LEN (Some two_anchor_survey) = (int (length b), Some b) \<and> b = render (survey_doc two_anchor_survey)"
proof (rule anchors_fit)
  fix k
  assume "k < unat (sv_n_nodes two_anchor_survey)"
  then have "k = 0 \<or> k = 1" by (auto simp: two_anchor_survey_def)
  then show "small_coord (sn_x (sv_node two_anchor_survey ! k)) \<and> small_coord (sn_y (sv_node two_anchor_survey ! k)) \<and>
      small_coord (sn_z (sv_node two_anchor_survey ! k))"
    by (auto simp: two_anchor_survey_def small_samples)
qed (simp_all add: two_anchor_survey_def survey_boot_def small_samples)

lemma anchors_all_or_nothing_witness:
  "\<exists>t. pos_json_anchors (Some []) POS_JSON_MAX_LEN None = (int (length t), Some t) \<and> t = render stub_doc \<and> jval_ok stub_doc"
proof -
  have p: "pos_json_anchors (Some []) POS_JSON_MAX_LEN None = (519, Some stub_text)"
    by (simp add: pos_json_anchors_def anchors_stub_def c_snprintf_def stub_ok(3) Let_def)
  from anchors_all_or_nothing [OF p] p show ?thesis by auto
qed

text \<open>A coordinate that is not finite withdraws the whole document.\<close>

lemma anchors_refuse_nan: "sv_valid s \<Longrightarrow> sv_n_nodes s \<noteq> 0 \<Longrightarrow> \<not> survey_finite s \<Longrightarrow> fst (pos_json_anchors buf len (Some s)) = -1"
  by (simp add: pos_json_anchors_def)

end
