(* ===== verification/Uplink.thy ===== *)
theory Uplink
  imports PosJson DevConfig "HOL-Library.Sublist"
begin

text \<open>
  The position uplink: src/pos_sink.c and src/net_uplink.c (the branch with networking). The queue of fixes is
  the kernel's message queue, a parameter with its documented behaviour as the locale \<open>msgq\<close>. The uplink
  thread is a machine that advances by one blocking call or loop turn, so that the submissions of the gateway
  and the events of the network stack fall between any two of its steps. What the network, the broker and
  the clock answer is the environment of a step.
\<close>

section \<open>The message queue\<close>

locale msgq =
  fixes put :: "'a \<Rightarrow> 'q \<Rightarrow> bool \<times> 'q"
    and get :: "'q \<Rightarrow> 'a option \<times> 'q"
    and view :: "'q \<Rightarrow> 'a list"
    and depth :: nat
  assumes depth_pos: "0 < depth"
    and bounded: "length (view q) \<le> depth"
    and put_room: "length (view q) < depth \<Longrightarrow> fst (put x q) \<and> view (snd (put x q)) = view q @ [x]"
    and put_full: "length (view q) = depth \<Longrightarrow> \<not> fst (put x q) \<and> view (snd (put x q)) = view q"
    and get_empty: "view q = [] \<Longrightarrow> fst (get q) = None \<and> view (snd (get q)) = []"
    and get_oldest: "view q = x # r \<Longrightarrow> fst (get q) = Some x \<and> view (snd (get q)) = r"
begin

text \<open>Making room and trying again always succeeds and drops exactly the oldest.\<close>

lemma replace_oldest:
  assumes "\<not> fst (put x q)"
  shows "view (snd (put x (snd (get (snd (put x q)))))) = tl (view q) @ [x]"
    and "fst (put x (snd (get (snd (put x q)))))" and "length (view q) = depth"
proof -
  show d: "length (view q) = depth" using assms put_room [of q x] bounded [of q] by fastforce
  then obtain y r where v: "view q = y # r" using depth_pos by (cases "view q") auto
  have p: "view (snd (put x q)) = y # r" using put_full [OF d] v by simp
  have g: "view (snd (get (snd (put x q)))) = r" using get_oldest [OF p] by simp
  have l: "length r < depth" using d v by simp
  show "view (snd (put x (snd (get (snd (put x q)))))) = tl (view q) @ [x]"
    "fst (put x (snd (get (snd (put x q)))))"
    using put_room [of "snd (get (snd (put x q)))" x] g l v by simp_all
qed

lemma put_ok: "fst (put x q) \<Longrightarrow> view (snd (put x q)) = view q @ [x] \<and> length (view q) < depth"
  using put_room [of q x] put_full [of q x] bounded [of q] by fastforce

lemma get_cases:
  obtains (empty) "fst (get q) = None" "view q = []" "view (snd (get q)) = []"
  | (oldest) x r where "fst (get q) = Some x" "view q = x # r" "view (snd (get q)) = r"
  using get_empty [of q] get_oldest [of q] by (cases "view q") auto

end

section \<open>State\<close>

abbreviation (input) FIX_QUEUE_DEPTH :: nat where "FIX_QUEUE_DEPTH \<equiv> 16"
abbreviation (input) DROP_WARN_INTERVAL_MS :: int where "DROP_WARN_INTERVAL_MS \<equiv> 10000"
abbreviation (input) BACKOFF_START_S :: u32 where "BACKOFF_START_S \<equiv> 1"
abbreviation (input) BACKOFF_MAX_S :: u32 where "BACKOFF_MAX_S \<equiv> 32"
abbreviation (input) LOCATION_TOPIC :: string where "LOCATION_TOPIC \<equiv> ''uwb/response/position/852541''"
abbreviation (input) ANCHOR_TOPIC :: string where "ANCHOR_TOPIC \<equiv> ''uwb/anchor/setup/852541''"

datatype uplink_state = ST_UNCONFIGURED | ST_WIFI_CONNECTING | ST_WIFI_CONNECTED | ST_MQTT_CONNECTING | ST_CONNECTED

text \<open>Where the thread is.\<close>

datatype uplink_pc =
    PcStart
  | PcWifi                \<comment> \<open>at the call of \<open>wifi_connect\<close>\<close>
  | PcRequest nat         \<comment> \<open>in its request loop, with the tries left\<close>
  | PcWaitIp              \<comment> \<open>at its \<open>k_sem_take(&ip_sem)\<close>\<close>
  | PcGotIp               \<comment> \<open>between the semaphore and the flag\<close>
  | PcWifiSleep
  | PcMqtt                \<comment> \<open>at \<open>while (wifi_associated)\<close>\<close>
  | PcBringUp
  | PcConnack int         \<comment> \<open>in the wait for the CONNACK, with its deadline\<close>
  | PcMqttSleep
  | PcAnchors
  | PcLive                \<comment> \<open>at \<open>while (mqtt_connected && wifi_associated)\<close>\<close>
  | PcDrain
  | PcLost
  | PcStopped

record 'q uplink =
  up_pc :: uplink_pc
  up_state :: uplink_state
  up_assoc :: bool
  up_connected :: bool
  up_connack :: bool
  up_msg_id :: u16
  up_q :: 'q
  up_dropped :: u32
  up_warn_ms :: int
  up_ip_sem :: bool
  up_wifi_backoff :: u32
  up_mqtt_backoff :: u32

definition uplink_boot :: "'q \<Rightarrow> 'q uplink" where
  "uplink_boot q = \<lparr>up_pc = PcStart, up_state = ST_UNCONFIGURED, up_assoc = False, up_connected = False,
     up_connack = False, up_msg_id = 1, up_q = q, up_dropped = 0, up_warn_ms = 0, up_ip_sem = False,
     up_wifi_backoff = BACKOFF_START_S, up_mqtt_backoff = BACKOFF_START_S\<rparr>"

datatype up_act =
    UpConnect string string              \<comment> \<open>the association request: SSID and passphrase\<close>
  | UpDhcp
  | UpSleepMs nat
  | UpMqttConnect u16 "string option" "string option"
  | UpPublish string string bool bool u16 \<comment> \<open>topic, message, at least once, retained, identifier\<close>
  | UpAbort

section \<open>The producer\<close>

definition net_uplink_submit ::
  "(pos_fix \<Rightarrow> 'q \<Rightarrow> bool \<times> 'q) \<Rightarrow> ('q \<Rightarrow> pos_fix option \<times> 'q) \<Rightarrow> int \<Rightarrow> pos_fix \<Rightarrow> 'q uplink \<Rightarrow> 'q uplink \<times> u32 option" where
  "net_uplink_submit put get now fix s =
     (let (ok, q) = put fix (up_q s) in
      if ok then (s\<lparr>up_q := q\<rparr>, None)
      else
        let (_, q) = get q;
            (_, q) = put fix q;
            s = s\<lparr>up_q := q, up_dropped := up_dropped s + 1\<rparr>
        in if now - up_warn_ms s \<ge> DROP_WARN_INTERVAL_MS
           then (s\<lparr>up_warn_ms := now\<rparr>, Some (up_dropped s))
           else (s, None))"

definition pos_sink_publish ::
  "(pos_fix \<Rightarrow> 'q \<Rightarrow> bool \<times> 'q) \<Rightarrow> ('q \<Rightarrow> pos_fix option \<times> 'q) \<Rightarrow> int \<Rightarrow> pos_fix \<Rightarrow> 'q uplink \<Rightarrow> 'q uplink \<times> u32 option" where
  "pos_sink_publish put get now fix s =
     (if fx_n_anchors fix < 3 \<or> fx_n_anchors fix > 4 then (s, None)
      else net_uplink_submit put get now fix s)"

section \<open>Events of the network stack\<close>

datatype mqtt_evt = EvtConnack int | EvtDisconnect | EvtPuback | EvtOther

definition mqtt_evt_handler :: "mqtt_evt \<Rightarrow> 'q uplink \<Rightarrow> 'q uplink" where
  "mqtt_evt_handler ev s =
     (case ev of
        EvtConnack rc \<Rightarrow> if rc \<noteq> 0 then s else s\<lparr>up_connack := True, up_connected := True\<rparr>
      | EvtDisconnect \<Rightarrow> s\<lparr>up_connected := False\<rparr>
      | EvtPuback \<Rightarrow> s
      | EvtOther \<Rightarrow> s)"

text \<open>The result of an association is only logged; the argument says whether the event is the loss of it.\<close>

definition wifi_evt :: "bool \<Rightarrow> 'q uplink \<Rightarrow> 'q uplink" where
  "wifi_evt lost s = (if lost then s\<lparr>up_assoc := False, up_state := ST_WIFI_CONNECTING\<rparr> else s)"

definition ipv4_evt :: "bool \<Rightarrow> 'q uplink \<Rightarrow> 'q uplink" where
  "ipv4_evt added s = (if added then s\<lparr>up_ip_sem := True\<rparr> else s)"

section \<open>The thread\<close>

text \<open>What the calls of one step return: whether there is a WiFi interface, the codes of the requests, whether
  the wait for an address has run out, the clock, whether the socket is readable, and the MQTT events the
  library delivers meanwhile. The survey is the one in the cache of the anchor store.\<close>

record up_env =
  ue_iface :: bool
  ue_rc :: int
  ue_expired :: bool
  ue_resolved :: bool
  ue_now :: int
  ue_readable :: bool
  ue_input :: int
  ue_live :: int
  ue_events :: "mqtt_evt list"
  ue_survey :: apos_survey

abbreviation (input) EAGAIN :: int where "EAGAIN \<equiv> 11"

definition publish :: "string \<Rightarrow> string \<Rightarrow> bool \<Rightarrow> bool \<Rightarrow> 'q uplink \<Rightarrow> 'q uplink \<times> up_act list" where
  "publish topic msg qos1 retain s =
     (let i = up_msg_id s; n = i + 1 in
      (s\<lparr>up_msg_id := (if n = 0 then 1 else n)\<rparr>, [UpPublish topic msg qos1 retain i]))"

definition credential :: "string \<Rightarrow> string option" where
  "credential t = (if t \<noteq> [] then Some t else None)"

definition wifi_step :: "net_config \<Rightarrow> up_env \<Rightarrow> 'q uplink \<Rightarrow> 'q uplink \<times> up_act list" where
  "wifi_step cfg e s =
     (case up_pc s of
        PcWifi \<Rightarrow>
          if \<not> ue_iface e then (s\<lparr>up_pc := PcWifiSleep\<rparr>, [])
          else (s\<lparr>up_state := ST_WIFI_CONNECTING, up_pc := PcRequest 10\<rparr>, [])
      | PcRequest 0 \<Rightarrow> (s\<lparr>up_pc := PcWifiSleep\<rparr>, [])
      | PcRequest (Suc tries) \<Rightarrow>
          if ue_rc e = 0 then (s\<lparr>up_pc := PcWaitIp\<rparr>, [UpConnect (net_ssid cfg) (net_psk cfg), UpDhcp])
          else (s\<lparr>up_pc := PcRequest tries\<rparr>, [UpConnect (net_ssid cfg) (net_psk cfg), UpSleepMs 500])
      | PcWaitIp \<Rightarrow>
          if up_ip_sem s then (s\<lparr>up_ip_sem := False, up_pc := PcGotIp\<rparr>, [])
          else if ue_expired e then (s\<lparr>up_pc := PcWifiSleep\<rparr>, [])
          else (s, [])
      | PcGotIp \<Rightarrow>
          (s\<lparr>up_state := ST_WIFI_CONNECTED, up_assoc := True, up_wifi_backoff := BACKOFF_START_S,
             up_mqtt_backoff := BACKOFF_START_S, up_pc := PcMqtt\<rparr>, [])
      | PcWifiSleep \<Rightarrow>
          (s\<lparr>up_wifi_backoff := min (up_wifi_backoff s * 2) BACKOFF_MAX_S, up_pc := PcWifi\<rparr>,
           [UpSleepMs (1000 * unat (up_wifi_backoff s))])
      | _ \<Rightarrow> (s, []))"

definition mqtt_bring_up_step :: "net_config \<Rightarrow> u16 \<Rightarrow> up_env \<Rightarrow> 'q uplink \<Rightarrow> 'q uplink \<times> up_act list" where
  "mqtt_bring_up_step cfg addr e s =
     (case up_pc s of
        PcBringUp \<Rightarrow>
          if \<not> ue_resolved e then (s\<lparr>up_pc := PcMqttSleep\<rparr>, [])
          else
            let s = fold mqtt_evt_handler (ue_events e)
                  (s\<lparr>up_state := ST_MQTT_CONNECTING, up_connack := False, up_connected := False\<rparr>)
            in (s\<lparr>up_pc := (if ue_rc e \<noteq> 0 then PcMqttSleep else PcConnack (ue_now e + 10000))\<rparr>,
                [UpMqttConnect addr (credential (net_mqtt_user cfg)) (credential (net_mqtt_pass cfg))])
      | PcConnack deadline \<Rightarrow>
          if \<not> up_connack s \<and> ue_now e < deadline \<and> \<not> (ue_readable e \<and> ue_input e \<noteq> 0)
          then (if ue_readable e then fold mqtt_evt_handler (ue_events e) s else s, [])
          else
            let s = (if \<not> up_connack s \<and> ue_now e < deadline then fold mqtt_evt_handler (ue_events e) s else s) in
            if \<not> up_connack s then (s\<lparr>up_pc := PcMqttSleep\<rparr>, [UpAbort])
            else (s\<lparr>up_state := ST_CONNECTED, up_mqtt_backoff := BACKOFF_START_S, up_pc := PcAnchors\<rparr>, [])
      | _ \<Rightarrow> (s, []))"

definition publish_anchor_map :: "up_env \<Rightarrow> 'q uplink \<Rightarrow> 'q uplink \<times> up_act list" where
  "publish_anchor_map e s =
     (case pos_json_anchors (Some []) POS_JSON_MAX_LEN (Some (ue_survey e)) of
        (n, b) \<Rightarrow>
          if n < 0 then (s, [])
          else
            let (s, acts) = publish ANCHOR_TOPIC (the b) True True s
            in (fold mqtt_evt_handler (ue_events e) s, acts))"

text \<open>One turn of \<open>drain_fix_queue\<close>.\<close>

definition drain_step :: "('q \<Rightarrow> pos_fix option \<times> 'q) \<Rightarrow> up_env \<Rightarrow> 'q uplink \<Rightarrow> 'q uplink \<times> up_act list" where
  "drain_step get e s =
     (case get (up_q s) of
        (None, q) \<Rightarrow> (s\<lparr>up_q := q, up_pc := PcLive\<rparr>, [])
      | (Some fix, q) \<Rightarrow>
          let s = s\<lparr>up_q := q\<rparr>; (n, t) = pos_json_fix POS_JSON_MAX_LEN fix in
          if n < 0 then (s, [])
          else
            let (s, acts) = publish LOCATION_TOPIC t False False s;
                s = fold mqtt_evt_handler (ue_events e) s
            in (if ue_rc e \<noteq> 0 then s\<lparr>up_pc := PcLost\<rparr> else s, acts))"

definition uplink_step ::
  "('q \<Rightarrow> pos_fix option \<times> 'q) \<Rightarrow> net_config \<Rightarrow> u16 \<Rightarrow> up_env \<Rightarrow> 'q uplink \<Rightarrow> 'q uplink \<times> up_act list" where
  "uplink_step get cfg addr e s =
     (case up_pc s of
        PcStart \<Rightarrow>
          if \<not> net_config_is_provisioned cfg then (s\<lparr>up_state := ST_UNCONFIGURED, up_pc := PcStopped\<rparr>, [])
          else (s\<lparr>up_pc := PcWifi\<rparr>, [])
      | PcMqtt \<Rightarrow> (s\<lparr>up_pc := (if up_assoc s then PcBringUp else PcWifi)\<rparr>, [])
      | PcBringUp \<Rightarrow> mqtt_bring_up_step cfg addr e s
      | PcConnack _ \<Rightarrow> mqtt_bring_up_step cfg addr e s
      | PcMqttSleep \<Rightarrow>
          (s\<lparr>up_mqtt_backoff := min (up_mqtt_backoff s * 2) BACKOFF_MAX_S, up_pc := PcMqtt\<rparr>,
           [UpSleepMs (1000 * unat (up_mqtt_backoff s))])
      | PcAnchors \<Rightarrow> (let (s, acts) = publish_anchor_map e s in (s\<lparr>up_pc := PcLive\<rparr>, acts))
      | PcLive \<Rightarrow>
          if \<not> (up_connected s \<and> up_assoc s) then (s\<lparr>up_pc := PcLost\<rparr>, [])
          else
            let s = fold mqtt_evt_handler (ue_events e) s in
            if ue_readable e \<and> ue_input e \<noteq> 0 then (s\<lparr>up_pc := PcLost\<rparr>, [])
            else if ue_live e \<noteq> 0 \<and> ue_live e \<noteq> - EAGAIN then (s\<lparr>up_pc := PcLost\<rparr>, [])
            else (s\<lparr>up_pc := PcDrain\<rparr>, [])
      | PcDrain \<Rightarrow> drain_step get e s
      | PcLost \<Rightarrow>
          (s\<lparr>up_connected := False, up_state := (if up_assoc s then ST_WIFI_CONNECTED else up_state s), up_pc := PcMqtt\<rparr>,
           [UpAbort])
      | PcStopped \<Rightarrow> (s, [])
      | _ \<Rightarrow> wifi_step cfg e s)"

definition net_uplink_state_str :: "'q uplink \<Rightarrow> string" where
  "net_uplink_state_str s =
     (case up_state s of
        ST_UNCONFIGURED \<Rightarrow> ''unconfigured''
      | ST_WIFI_CONNECTING \<Rightarrow> ''wifi-connecting''
      | ST_WIFI_CONNECTED \<Rightarrow> ''wifi-connected''
      | ST_MQTT_CONNECTING \<Rightarrow> ''mqtt-connecting''
      | ST_CONNECTED \<Rightarrow> ''connected'')"


section \<open>Runs\<close>

text \<open>What can happen: a fix from the gateway's dispatcher, an event of the network stack (delivered once the
  thread has registered for it), a step of the thread.\<close>

datatype up_event =
    UeSubmit int pos_fix
  | UeWifi bool
  | UeIpv4 bool
  | UeThread up_env

definition registered :: "'q uplink \<Rightarrow> bool" where
  "registered s \<longleftrightarrow> up_pc s \<noteq> PcStart \<and> up_pc s \<noteq> PcStopped"

fun uplink_do ::
  "(pos_fix \<Rightarrow> 'q \<Rightarrow> bool \<times> 'q) \<Rightarrow> ('q \<Rightarrow> pos_fix option \<times> 'q) \<Rightarrow> net_config \<Rightarrow> u16 \<Rightarrow> up_event \<Rightarrow> 'q uplink \<Rightarrow>
     'q uplink \<times> up_act list" where
  "uplink_do put get cfg addr (UeSubmit now fix) s = (fst (pos_sink_publish put get now fix s), [])"
| "uplink_do put get cfg addr (UeWifi lost) s = (if registered s then wifi_evt lost s else s, [])"
| "uplink_do put get cfg addr (UeIpv4 added) s = (if registered s then ipv4_evt added s else s, [])"
| "uplink_do put get cfg addr (UeThread e) s = uplink_step get cfg addr e s"

fun uplink_run ::
  "(pos_fix \<Rightarrow> 'q \<Rightarrow> bool \<times> 'q) \<Rightarrow> ('q \<Rightarrow> pos_fix option \<times> 'q) \<Rightarrow> net_config \<Rightarrow> u16 \<Rightarrow> up_event list \<Rightarrow> 'q uplink \<Rightarrow>
     'q uplink \<times> up_act list" where
  "uplink_run put get cfg addr [] s = (s, [])"
| "uplink_run put get cfg addr (ev # evs) s =
     (let (s, a) = uplink_do put get cfg addr ev s; (s, b) = uplink_run put get cfg addr evs s in (s, a @ b))"

section \<open>The shape of a step\<close>

lemma mqtt_evts [simp]:
  "up_pc (fold mqtt_evt_handler evs s) = up_pc s" "up_q (fold mqtt_evt_handler evs s) = up_q s"
  "up_msg_id (fold mqtt_evt_handler evs s) = up_msg_id s" "up_assoc (fold mqtt_evt_handler evs s) = up_assoc s"
  "up_dropped (fold mqtt_evt_handler evs s) = up_dropped s" "up_wifi_backoff (fold mqtt_evt_handler evs s) = up_wifi_backoff s"
  "up_mqtt_backoff (fold mqtt_evt_handler evs s) = up_mqtt_backoff s" "up_ip_sem (fold mqtt_evt_handler evs s) = up_ip_sem s"
  "up_state (fold mqtt_evt_handler evs s) = up_state s"
  by (induction evs arbitrary: s) (simp_all add: mqtt_evt_handler_def split: mqtt_evt.splits)

lemma mqtt_evts_connack: "up_connack s \<Longrightarrow> up_connack (fold mqtt_evt_handler evs s)"
  by (induction evs arbitrary: s) (simp_all add: mqtt_evt_handler_def split: mqtt_evt.splits)

text \<open>The phases: before the link is up, and once a CONNACK has been accepted.\<close>

fun link_phase :: "uplink_pc \<Rightarrow> bool" where
  "link_phase PcStart = True" | "link_phase PcWifi = True" | "link_phase (PcRequest n) = True"
| "link_phase PcWaitIp = True" | "link_phase PcGotIp = True" | "link_phase PcWifiSleep = True"
| "link_phase PcStopped = True" | "link_phase pc = False"

fun broker_phase :: "uplink_pc \<Rightarrow> bool" where
  "broker_phase PcAnchors = True" | "broker_phase PcLive = True" | "broker_phase PcDrain = True"
| "broker_phase pc = False"

definition backoff_ok :: "u32 \<Rightarrow> bool" where
  "backoff_ok b \<longleftrightarrow> b \<in> {1, 2, 4, 8, 16, 32}"

definition up_inv :: "'q uplink \<Rightarrow> bool" where
  "up_inv s \<longleftrightarrow> up_msg_id s \<noteq> 0 \<and> backoff_ok (up_wifi_backoff s) \<and> backoff_ok (up_mqtt_backoff s) \<and>
     (link_phase (up_pc s) \<longrightarrow> \<not> up_assoc s) \<and> (broker_phase (up_pc s) \<longrightarrow> up_connack s)"

lemma backoff_next: "backoff_ok b \<Longrightarrow> backoff_ok (min (b * 2) 32)"
  by (auto simp: backoff_ok_def min_def)

lemma backoff_sleep: "backoff_ok b \<Longrightarrow> 1000 * unat b \<in> {1000, 2000, 4000, 8000, 16000, 32000}"
  by (auto simp: backoff_ok_def)

lemma backoff_1 [simp]: "backoff_ok 1"
  by (simp add: backoff_ok_def)

lemma submit_frame:
  "up_pc (fst (pos_sink_publish put get now f s)) = up_pc s" "up_assoc (fst (pos_sink_publish put get now f s)) = up_assoc s"
  "up_msg_id (fst (pos_sink_publish put get now f s)) = up_msg_id s" "up_connack (fst (pos_sink_publish put get now f s)) = up_connack s"
  "up_wifi_backoff (fst (pos_sink_publish put get now f s)) = up_wifi_backoff s"
  "up_mqtt_backoff (fst (pos_sink_publish put get now f s)) = up_mqtt_backoff s"
  by (simp_all add: pos_sink_publish_def net_uplink_submit_def Let_def split: prod.splits)

text \<open>What a thread step sends, by the place it is at.\<close>

lemma wifi_step_sends:
  "snd (wifi_step cfg e s) \<in> {[], [UpConnect (net_ssid cfg) (net_psk cfg), UpDhcp],
      [UpConnect (net_ssid cfg) (net_psk cfg), UpSleepMs 500], [UpSleepMs (1000 * unat (up_wifi_backoff s))]}"
  "up_q (fst (wifi_step cfg e s)) = up_q s" "up_msg_id (fst (wifi_step cfg e s)) = up_msg_id s"
  "up_dropped (fst (wifi_step cfg e s)) = up_dropped s" "\<not> link_phase (up_pc s) \<Longrightarrow> wifi_step cfg e s = (s, [])"
  by (cases "up_pc s"; auto simp: wifi_step_def split: nat.splits)+

lemma bring_up_sends:
  "snd (mqtt_bring_up_step cfg addr e s) \<in> {[], [UpAbort],
      [UpMqttConnect addr (credential (net_mqtt_user cfg)) (credential (net_mqtt_pass cfg))]}"
  "up_q (fst (mqtt_bring_up_step cfg addr e s)) = up_q s" "up_msg_id (fst (mqtt_bring_up_step cfg addr e s)) = up_msg_id s"
  "up_dropped (fst (mqtt_bring_up_step cfg addr e s)) = up_dropped s" "up_assoc (fst (mqtt_bring_up_step cfg addr e s)) = up_assoc s"
  by (cases "up_pc s"; auto simp: mqtt_bring_up_step_def Let_def)+

lemma wifi_step_inv:
  assumes "up_inv s" and "link_phase (up_pc s)"
  shows "up_inv (fst (wifi_step cfg e s))"
  using assms by (cases "up_pc s" rule: link_phase.cases)
    (auto simp: wifi_step_def up_inv_def backoff_next split: nat.splits)

lemma bring_up_inv:
  assumes "up_inv s" and "\<not> link_phase (up_pc s)"
  shows "up_inv (fst (mqtt_bring_up_step cfg addr e s))"
  using assms by (cases "up_pc s") (auto simp: mqtt_bring_up_step_def up_inv_def Let_def)

lemma publish_inv: "up_inv s \<Longrightarrow> up_inv (fst (publish t m q r s))"
  by (simp add: publish_def up_inv_def Let_def)

lemma uplink_step_inv:
  assumes "up_inv s"
  shows "up_inv (fst (uplink_step get cfg addr e s))"
proof -
  have w: "up_inv (fst (wifi_step cfg e s))" if "link_phase (up_pc s)" by (rule wifi_step_inv [OF assms that])
  have b: "up_inv (fst (mqtt_bring_up_step cfg addr e s))" if "\<not> link_phase (up_pc s)" by (rule bring_up_inv [OF assms that])
  have k: "up_inv (fold mqtt_evt_handler evs s)" if "up_inv s" for evs and s :: "'a uplink"
    using that mqtt_evts_connack by (auto simp: up_inv_def)
  have d: "up_inv (fst (drain_step get e s))" if "up_pc s = PcDrain"
  proof (cases "get (up_q s)")
    case (Pair fo q)
    have iq: "up_inv (s\<lparr>up_q := q\<rparr>)" using assms by (simp add: up_inv_def)
    then have "up_inv (fold mqtt_evt_handler (ue_events e) (fst (publish t m b r (s\<lparr>up_q := q\<rparr>))))" for t m b r
      by (intro k publish_inv)
    then have "up_inv ((fold mqtt_evt_handler (ue_events e) (fst (publish t m b r (s\<lparr>up_q := q\<rparr>))))\<lparr>up_pc := PcLost\<rparr>)"
      "up_inv (fold mqtt_evt_handler (ue_events e) (fst (publish t m b r (s\<lparr>up_q := q\<rparr>))))" for t m b r
      by (auto simp: up_inv_def)
    moreover have "up_inv (s\<lparr>up_q := q, up_pc := PcLive\<rparr>)" using assms that by (simp add: up_inv_def)
    ultimately show ?thesis using iq by (auto simp: drain_step_def Pair case_prod_beta Let_def split: option.splits)
  qed
  have a: "up_inv ((fst (publish_anchor_map e s))\<lparr>up_pc := PcLive\<rparr>)" if "up_pc s = PcAnchors"
  proof -
    have "up_inv (fst (publish_anchor_map e s)) \<and> up_connack (fst (publish_anchor_map e s)) \<and> up_assoc (fst (publish_anchor_map e s)) = up_assoc s"
      using assms that k [OF publish_inv [OF assms]] mqtt_evts_connack
      by (auto simp: publish_anchor_map_def case_prod_beta publish_def Let_def up_inv_def)
    then show ?thesis by (auto simp: up_inv_def)
  qed
  show ?thesis
    using assms w b d a k [OF assms, of "ue_events e"]
    by (cases "up_pc s") (auto simp: uplink_step_def up_inv_def backoff_next case_prod_beta Let_def)
qed

lemma anchors_some: "pos_json_anchors (Some b0) len sv = (n, b) \<Longrightarrow> \<exists>t. b = Some t"
  by (auto simp: pos_json_anchors_def Let_def map_prod_def split: if_splits option.splits prod.splits)

text \<open>What the thread does is one of these.\<close>

lemma uplink_step_cases:
  assumes "msgq put get view d" and "uplink_step get cfg addr e s = (s', acts)"
  obtains (link) "link_phase (up_pc s)" "set acts \<subseteq> {UpConnect (net_ssid cfg) (net_psk cfg), UpDhcp, UpSleepMs 500,
        UpSleepMs (1000 * unat (up_wifi_backoff s))}" "up_q s' = up_q s" "up_msg_id s' = up_msg_id s" "up_dropped s' = up_dropped s"
  | (quiet) "\<not> link_phase (up_pc s)" "set acts \<subseteq> {UpAbort, UpSleepMs (1000 * unat (up_mqtt_backoff s)),
        UpMqttConnect addr (credential (net_mqtt_user cfg)) (credential (net_mqtt_pass cfg))}"
      "up_q s' = up_q s" "up_msg_id s' = up_msg_id s" "up_dropped s' = up_dropped s"
  | (anchors) n t where "up_pc s = PcAnchors" "pos_json_anchors (Some []) POS_JSON_MAX_LEN (Some (ue_survey e)) = (n, Some t)" "0 \<le> n"
      "acts = [UpPublish ANCHOR_TOPIC t True True (up_msg_id s)]" "up_q s' = up_q s" "up_dropped s' = up_dropped s"
      "up_msg_id s' = (if up_msg_id s + 1 = 0 then 1 else up_msg_id s + 1)"
  | (empty) "up_pc s = PcDrain" "view (up_q s) = []" "view (up_q s') = []" "acts = []" "up_msg_id s' = up_msg_id s" "up_dropped s' = up_dropped s"
  | (one) x r where "up_pc s = PcDrain" "view (up_q s) = x # r" "view (up_q s') = r"
      "acts = [UpPublish LOCATION_TOPIC (render (fix_doc x)) False False (up_msg_id s)]" "up_dropped s' = up_dropped s"
      "up_msg_id s' = (if up_msg_id s + 1 = 0 then 1 else up_msg_id s + 1)"
proof -
  consider (w) "link_phase (up_pc s)" | (a) "up_pc s = PcAnchors" | (d) "up_pc s = PcDrain"
    | (q) "\<not> link_phase (up_pc s)" "up_pc s \<noteq> PcAnchors" "up_pc s \<noteq> PcDrain" by blast
  then show thesis
  proof cases
    case w
    have "acts = [] \<or> acts = snd (wifi_step cfg e s)"
      "up_q s' = up_q s" "up_msg_id s' = up_msg_id s" "up_dropped s' = up_dropped s"
      using w assms(2) wifi_step_sends(2-4) [of cfg e s]
      by (cases "up_pc s"; auto simp: uplink_step_def split: if_splits)+
    then show thesis using w wifi_step_sends(1) [of cfg e s] by (intro link) auto
  next
    case a
    obtain n b where p: "pos_json_anchors (Some []) POS_JSON_MAX_LEN (Some (ue_survey e)) = (n, b)" by fastforce
    show thesis
    proof (cases "n < 0")
      case True
      then show thesis using a assms(2) p by (intro quiet) (auto simp: uplink_step_def publish_anchor_map_def)
    next
      case False
      then obtain t where "b = Some t" using anchors_some [OF p] by auto
      then show thesis using a assms(2) p False
        by (intro anchors [of n t]) (auto simp: uplink_step_def publish_anchor_map_def publish_def Let_def)
    qed
  next
    case d
    then have e: "drain_step get e s = (s', acts)" using assms(2) by (simp add: uplink_step_def)
    show thesis
    proof (rule msgq.get_cases [OF assms(1), of "up_q s"])
      assume g: "fst (get (up_q s)) = None" "view (up_q s) = []" "view (snd (get (up_q s))) = []"
      then show thesis using d e by (intro empty) (auto simp: drain_step_def split: prod.splits)
    next
      fix x r
      assume g: "fst (get (up_q s)) = Some x" "view (up_q s) = x # r" "view (snd (get (up_q s))) = r"
      have t: "pos_json_fix POS_JSON_MAX_LEN x = (int (length (render (fix_doc x))), render (fix_doc x))"
        using fix_fits by (simp add: fix_text)
      show thesis using d e g t
        by (intro one [of x r]) (auto simp: drain_step_def publish_def Let_def split: prod.splits if_splits)
    qed
  next
    case q
    have "set acts \<subseteq> {UpAbort, UpSleepMs (1000 * unat (up_mqtt_backoff s)),
        UpMqttConnect addr (credential (net_mqtt_user cfg)) (credential (net_mqtt_pass cfg))}"
      "up_q s' = up_q s" "up_msg_id s' = up_msg_id s" "up_dropped s' = up_dropped s"
      using q assms(2) bring_up_sends [of cfg addr e s]
      by (cases "up_pc s"; auto simp: uplink_step_def Let_def split: if_splits)+
    then show thesis using q(1) by (intro quiet)
  qed
qed


section \<open>Properties\<close>

text \<open>An outage: what is queued is the newest sixteen, and the others are counted.\<close>

definition submit_all ::
  "(pos_fix \<Rightarrow> 'q \<Rightarrow> bool \<times> 'q) \<Rightarrow> ('q \<Rightarrow> pos_fix option \<times> 'q) \<Rightarrow> (int \<times> pos_fix) list \<Rightarrow> 'q uplink \<Rightarrow> 'q uplink" where
  "submit_all put get xs s = fold (\<lambda>(now, x) s. fst (net_uplink_submit put get now x s)) xs s"

lemma submit_effect:
  assumes "msgq put get view 16"
  shows "view (up_q (fst (net_uplink_submit put get now x s))) =
      (if length (view (up_q s)) < 16 then view (up_q s) @ [x] else tl (view (up_q s)) @ [x])"
    and "up_dropped (fst (net_uplink_submit put get now x s)) =
      up_dropped s + (if length (view (up_q s)) < 16 then 0 else 1)"
proof -
  have "view (up_q (fst (net_uplink_submit put get now x s))) =
      (if length (view (up_q s)) < 16 then view (up_q s) @ [x] else tl (view (up_q s)) @ [x]) \<and>
    up_dropped (fst (net_uplink_submit put get now x s)) = up_dropped s + (if length (view (up_q s)) < 16 then 0 else 1)"
  proof (cases "fst (put x (up_q s))")
    case True
    then show ?thesis using msgq.put_ok [OF assms True] by (auto simp: net_uplink_submit_def split: prod.splits)
  next
    case False
    then show ?thesis using msgq.replace_oldest [OF assms False]
      by (auto simp: net_uplink_submit_def Let_def case_prod_beta)
  qed
  then show "view (up_q (fst (net_uplink_submit put get now x s))) =
      (if length (view (up_q s)) < 16 then view (up_q s) @ [x] else tl (view (up_q s)) @ [x])"
    "up_dropped (fst (net_uplink_submit put get now x s)) = up_dropped s + (if length (view (up_q s)) < 16 then 0 else 1)"
    by blast+
qed

text \<open>C16: An outage costs the oldest positions only: over any submissions the queue, with the eviction as the code does
  it, holds exactly the last sixteen of what was queued and submitted, in that order, and every fix it lost is
  counted.\<close>

theorem queue_keeps_newest:
  assumes "msgq put get view 16"
  shows "view (up_q (submit_all put get xs s)) =
      (let l = view (up_q s) @ map snd xs in drop (length l - 16) l) \<and>
    up_dropped (submit_all put get xs s) = up_dropped s + of_nat (length (view (up_q s)) + length xs - 16)"
proof (induction xs arbitrary: s)
  case Nil
  then show ?case using msgq.bounded [OF assms, of "up_q s"] by (simp add: submit_all_def)
next
  case (Cons p xs)
  obtain now x where p: "p = (now, x)" by (cases p)
  let ?s = "fst (net_uplink_submit put get now x s)"
  have e: "submit_all put get (p # xs) s = submit_all put get xs ?s" by (simp add: submit_all_def p)
  have b: "length (view (up_q s)) \<le> 16" by (rule msgq.bounded [OF assms])
  show ?case
  proof (cases "length (view (up_q s)) < 16")
    case True
    then show ?thesis using Cons.IH [of ?s] submit_effect [OF assms, of now x s] by (simp add: e [unfolded p] p Let_def)
  next
    case False
    then obtain y r where v: "view (up_q s) = y # r" "length r = 15" using b by (cases "view (up_q s)") auto
    then show ?thesis using Cons.IH [of ?s] submit_effect [OF assms, of now x s] by (simp add: e [unfolded p] p Let_def add.commute)
  qed
qed

text \<open>A model of the kernel's queue: a list of at most sixteen.\<close>

typedef fix_list = "{l :: pos_fix list. length l \<le> 16}"
  by (rule exI [of _ "[]"]) simp

setup_lifting type_definition_fix_list

lift_definition list_view :: "fix_list \<Rightarrow> pos_fix list" is "\<lambda>l. l" .
lift_definition list_empty :: fix_list is "[]" by simp
lift_definition list_put :: "pos_fix \<Rightarrow> fix_list \<Rightarrow> bool \<times> fix_list" is
  "\<lambda>x l. if length l < 16 then (True, l @ [x]) else (False, l)" by auto
lift_definition list_get :: "fix_list \<Rightarrow> pos_fix option \<times> fix_list" is
  "\<lambda>l. case l of [] \<Rightarrow> (None, []) | x # r \<Rightarrow> (Some x, r)" by (auto split: list.splits)


interpretation fixq: msgq list_put list_get list_view 16
  by unfold_locales (transfer; auto split: list.splits if_splits)+

definition numbered_fix :: "nat \<Rightarrow> pos_fix" where
  "numbered_fix k = sample_fix\<lparr>fx_tag_id := of_nat k\<rparr>"

lemma queue_keeps_newest_witness:
  "list_view (up_q (submit_all list_put list_get (map (\<lambda>k. (0, numbered_fix k)) [0..<20]) (uplink_boot list_empty))) =
     map numbered_fix [4..<20] \<and>
   up_dropped (submit_all list_put list_get (map (\<lambda>k. (0, numbered_fix k)) [0..<20]) (uplink_boot list_empty)) = 4"
proof -
  have "list_view list_empty = []" by transfer simp
  moreover have "drop 4 [0..<20] = [4..<20]" by simp
  ultimately show ?thesis
    using queue_keeps_newest [OF fixq.msgq_axioms, of "map (\<lambda>k. (0, numbered_fix k)) [0..<20]" "uplink_boot list_empty"]
    by (simp add: uplink_boot_def comp_def drop_map)
qed

section \<open>Order of publication\<close>

definition accepted :: "up_event list \<Rightarrow> pos_fix list" where
  "accepted evs = concat (map (\<lambda>ev. case ev of UeSubmit _ x \<Rightarrow> if fx_n_anchors x < 3 \<or> fx_n_anchors x > 4 then [] else [x] | _ \<Rightarrow> []) evs)"

text \<open>The position messages among the actions.\<close>

definition fixes_sent :: "up_act list \<Rightarrow> string list" where
  "fixes_sent acts = concat (map (\<lambda>a. case a of UpPublish topic t q r i \<Rightarrow> if topic = LOCATION_TOPIC then [t] else [] | _ \<Rightarrow> []) acts)"

definition msg_ids :: "up_act list \<Rightarrow> u16 list" where
  "msg_ids acts = concat (map (\<lambda>a. case a of UpPublish topic t q r i \<Rightarrow> [i] | _ \<Rightarrow> []) acts)"

abbreviation fix_text_of :: "pos_fix \<Rightarrow> string" where
  "fix_text_of x \<equiv> render (fix_doc x)"

text \<open>The effect of one event on the queue, the counter and the messages.\<close>

lemma uplink_do_fifo:
  assumes "msgq put get view 16" and "uplink_do put get cfg addr ev s = (s', acts)"
  obtains (kept) "accepted [ev] = []" "fixes_sent acts @ map fix_text_of (view (up_q s')) = map fix_text_of (view (up_q s))"
      "up_dropped s' = up_dropped s" "length (fixes_sent acts) + length (view (up_q s')) = length (view (up_q s))"
  | (queued) x where "accepted [ev] = [x]" "fixes_sent acts = []" "view (up_q s') = view (up_q s) @ [x]" "up_dropped s' = up_dropped s"
  | (lost) x where "accepted [ev] = [x]" "fixes_sent acts = []" "view (up_q s') = tl (view (up_q s)) @ [x]"
      "up_dropped s' = up_dropped s + 1" "view (up_q s) \<noteq> []"
proof (cases ev)
  case (UeSubmit now x)
  show thesis
  proof (cases "fx_n_anchors x < 3 \<or> fx_n_anchors x > 4")
    case True
    then show thesis using assms(2) UeSubmit by (intro kept) (auto simp: accepted_def pos_sink_publish_def fixes_sent_def)
  next
    case False
    then have "s' = fst (net_uplink_submit put get now x s)" "acts = []" using assms(2) UeSubmit by (auto simp: pos_sink_publish_def)
    moreover have "view (up_q s) \<noteq> []" if "\<not> length (view (up_q s)) < 16" using that by auto
    ultimately show thesis using submit_effect [OF assms(1), of now x s] False UeSubmit queued [of x] lost [of x]
      by (cases "length (view (up_q s)) < 16") (auto simp: accepted_def fixes_sent_def)
  qed
next
  case (UeThread e)
  have "accepted [ev] = []" by (simp add: UeThread accepted_def)
  have st: "uplink_step get cfg addr e s = (s', acts)" using assms(2) UeThread by simp
  have none: "fixes_sent acts = []" if "set acts \<subseteq> {UpConnect (net_ssid cfg) (net_psk cfg), UpDhcp, UpSleepMs 500,
      UpSleepMs a, UpAbort, UpMqttConnect addr u p}" for a u p
    using that by (auto simp: fixes_sent_def)
  from assms(1) st show thesis
  proof (cases rule: uplink_step_cases)
    case link
    then show thesis using none [of "1000 * unat (up_wifi_backoff s)"] \<open>accepted [ev] = []\<close> by (intro kept) auto
  next
    case quiet
    then show thesis using none [of "1000 * unat (up_mqtt_backoff s)"] \<open>accepted [ev] = []\<close> by (intro kept) auto
  next
    case (anchors n t)
    then show thesis using \<open>accepted [ev] = []\<close> by (intro kept) (auto simp: fixes_sent_def)
  next
    case empty
    then show thesis using \<open>accepted [ev] = []\<close> by (intro kept) (auto simp: fixes_sent_def)
  next
    case (one x r)
    then show thesis using \<open>accepted [ev] = []\<close> by (intro kept) (auto simp: fixes_sent_def)
  qed
next
  case (UeWifi b)
  then show thesis using assms(2) by (intro kept) (auto simp: accepted_def fixes_sent_def wifi_evt_def split: if_splits)
next
  case (UeIpv4 b)
  then show thesis using assms(2) by (intro kept) (auto simp: accepted_def fixes_sent_def ipv4_evt_def split: if_splits)
qed


lemma accepted_Cons: "accepted (ev # evs) = accepted [ev] @ accepted evs"
  by (simp add: accepted_def)

lemma sent_append: "fixes_sent (a @ b) = fixes_sent a @ fixes_sent b" "msg_ids (a @ b) = msg_ids a @ msg_ids b"
  by (simp_all add: fixes_sent_def msg_ids_def)

lemma subseq_tl: "subseq (a @ map f v) (map f acc) \<Longrightarrow> subseq (a @ map f (tl v)) (map f acc)"
proof (rule subseq_order.trans [of _ "a @ map f v"])
  show "subseq (a @ map f (tl v)) (a @ map f v)" by (cases v) (auto intro!: list_emb_append_mono [OF subseq_order.refl])
qed

lemma uplink_fifo_run:
  assumes "msgq put get view 16" and "uplink_run put get cfg addr evs s = (s', acts)"
    and "subseq (sent @ map fix_text_of (view (up_q s))) (map fix_text_of acc)"
    and "length acc = length sent + length (view (up_q s)) + n" and "up_dropped s = of_nat n"
  shows "subseq ((sent @ fixes_sent acts) @ map fix_text_of (view (up_q s'))) (map fix_text_of (acc @ accepted evs)) \<and>
    (\<exists>n'. length (acc @ accepted evs) = length (sent @ fixes_sent acts) + length (view (up_q s')) + n' \<and> up_dropped s' = of_nat n')"
  using assms(2-)
proof (induction evs arbitrary: s acts sent acc n)
  case Nil
  then show ?case by (auto simp: accepted_def fixes_sent_def)
next
  case (Cons ev evs)
  obtain s1 a where d: "uplink_do put get cfg addr ev s = (s1, a)" by fastforce
  obtain b where r: "uplink_run put get cfg addr evs s1 = (s', b)" and acts: "acts = a @ b"
  proof -
    obtain s2 b where "uplink_run put get cfg addr evs s1 = (s2, b)" by fastforce
    then show thesis using that Cons.prems(1) d by simp
  qed
  from assms(1) d obtain n1 where st: "subseq ((sent @ fixes_sent a) @ map fix_text_of (view (up_q s1))) (map fix_text_of (acc @ accepted [ev]))"
    "length (acc @ accepted [ev]) = length (sent @ fixes_sent a) + length (view (up_q s1)) + n1" "up_dropped s1 = of_nat n1"
  proof (cases rule: uplink_do_fifo)
    case kept
    then show thesis using Cons.prems(2-4) by (intro that [of n]) simp_all
  next
    case (queued x)
    have "subseq ((sent @ map fix_text_of (view (up_q s))) @ [fix_text_of x]) (map fix_text_of acc @ [fix_text_of x])"
      using Cons.prems(2) by (intro list_emb_append_mono) auto
    then show thesis using queued Cons.prems(3,4) by (intro that [of n]) simp_all
  next
    case (lost x)
    obtain y r where v: "view (up_q s) = y # r" using lost(5) by (cases "view (up_q s)") auto
    have "subseq (sent @ map fix_text_of r) (map fix_text_of acc)" using subseq_tl [OF Cons.prems(2)] by (simp add: v)
    then have "subseq ((sent @ map fix_text_of r) @ [fix_text_of x]) (map fix_text_of acc @ [fix_text_of x])"
      by (intro list_emb_append_mono) auto
    then show thesis using lost(1-4) Cons.prems(3,4) by (intro that [of "Suc n"]) (simp_all add: v)
  qed
  from Cons.IH [OF r st] show ?case unfolding acts sent_append accepted_Cons [of ev evs] append_assoc .
qed


lemma fixq_empty: "list_view list_empty = []"
  by transfer simp



section \<open>What the thread sends\<close>

lemma uplink_do_inv: "up_inv s \<Longrightarrow> up_inv (fst (uplink_do put get cfg addr ev s))"
proof (cases ev)
  case (UeThread e)
  then show "up_inv s \<Longrightarrow> ?thesis" using uplink_step_inv [of s get cfg addr e] by simp
qed (auto simp: up_inv_def submit_frame wifi_evt_def ipv4_evt_def)

lemma uplink_run_inv: "up_inv s \<Longrightarrow> up_inv (fst (uplink_run put get cfg addr evs s))"
proof (induction evs arbitrary: s)
  case (Cons ev evs)
  then show ?case using uplink_do_inv [of s put get cfg addr ev] by (simp add: case_prod_beta)
qed simp

lemma uplink_boot_inv: "up_inv (uplink_boot q)"
  by (simp add: up_inv_def uplink_boot_def)

text \<open>What the thread may send in a state: it associates only while the link is down; it sleeps half a second or a
  step of the ladder 1, 2, 4, ..., 32 s; and it publishes only after a CONNACK, never under the identifier 0, a
  complete document: the anchors retained and at least once, the oldest queued fix neither.\<close>

definition act_ok :: "net_config \<Rightarrow> apos_survey \<Rightarrow> pos_fix list \<Rightarrow> 'q uplink \<Rightarrow> up_act \<Rightarrow> bool" where
  "act_ok cfg sv queued s act =
     (case act of
        UpConnect ssid psk \<Rightarrow> \<not> up_assoc s \<and> ssid = net_ssid cfg \<and> psk = net_psk cfg
      | UpSleepMs n \<Rightarrow> n = 500 \<or> n \<in> {1000, 2000, 4000, 8000, 16000, 32000}
      | UpPublish topic t qos1 retain i \<Rightarrow>
          i \<noteq> 0 \<and> up_connack s \<and>
          (topic = ANCHOR_TOPIC \<and> qos1 \<and> retain \<and>
             t = render (if sv_valid sv \<and> sv_n_nodes sv \<noteq> 0 then survey_doc sv else stub_doc) \<and>
             jval_ok (if sv_valid sv \<and> sv_n_nodes sv \<noteq> 0 then survey_doc sv else stub_doc) \<or>
           topic = LOCATION_TOPIC \<and> \<not> qos1 \<and> \<not> retain \<and> queued \<noteq> [] \<and> t = render (fix_doc (hd queued)))
      | _ \<Rightarrow> True)"

lemma anchors_text:
  assumes "pos_json_anchors (Some []) len (Some sv) = (n, Some t)" and "0 \<le> n"
  shows "t = render (if sv_valid sv \<and> sv_n_nodes sv \<noteq> 0 then survey_doc sv else stub_doc) \<and>
    jval_ok (if sv_valid sv \<and> sv_n_nodes sv \<noteq> 0 then survey_doc sv else stub_doc)"
  using anchors_complete [OF assms(1)] assms(2) by auto

text \<open>Whatever the network does, every request the thread makes in a state it can reach is a proper one: it
  associates only while the link is down, with the configured credentials; it pauses half a second or a step of
  the ladder from 1 to 32 s; and it publishes only after a CONNACK, under a non-zero identifier, either the
  complete anchors document, retained and at least once, or the complete text of the oldest queued fix.\<close>

theorem uplink_acts_ok:
  assumes "msgq put get view 16" and "uplink_run put get cfg addr evs (uplink_boot q) = (s, past)"
    and "uplink_step get cfg addr e s = (s', acts)" and "act \<in> set acts"
  shows "act_ok cfg (ue_survey e) (view (up_q s)) s act"
proof -
  have i: "up_inv s" using uplink_run_inv [OF uplink_boot_inv [of q], of put get cfg addr evs] assms(2) by simp
  from assms(1,3) show ?thesis
  proof (cases rule: uplink_step_cases)
    case link
    then show ?thesis using i assms(4) backoff_sleep [of "up_wifi_backoff s"] by (auto simp: act_ok_def up_inv_def)
  next
    case quiet
    then show ?thesis using i assms(4) backoff_sleep [of "up_mqtt_backoff s"] by (auto simp: act_ok_def up_inv_def)
  next
    case (anchors n t)
    then show ?thesis using i assms(4) anchors_text [OF anchors(2,3)] by (simp add: act_ok_def up_inv_def)
  next
    case empty
    then show ?thesis using assms(4) by simp
  next
    case (one x r)
    then show ?thesis using i assms(4) by (simp add: act_ok_def up_inv_def)
  qed
qed

text \<open>The identifiers count 1, 2, ..., 65535 and start again at 1.\<close>

definition nth_id :: "nat \<Rightarrow> u16" where
  "nth_id j = of_nat (j mod 65535 + 1)"

lemma nth_id_next: "(if nth_id j + 1 = 0 then 1 else nth_id j + 1) = nth_id (Suc j)"
proof (cases "j mod 65535 = 65534")
  case True
  then have "Suc j mod 65535 = 0" by (simp add: mod_Suc)
  then show ?thesis by (simp add: nth_id_def True)
next
  case False
  have l: "j mod 65535 < 65535" by simp
  with False have "Suc j mod 65535 = Suc (j mod 65535)" by (simp add: mod_Suc)
  moreover have "(of_nat (j mod 65535 + 2) :: u16) \<noteq> 0"
  proof
    assume "(of_nat (j mod 65535 + 2) :: u16) = 0"
    then have "(j mod 65535 + 2) mod 2 ^ 16 = 0" using unat_of_nat [of "j mod 65535 + 2", where ?'a = 16] by (simp only: unat_0) simp
    then show False using l False by simp
  qed
  ultimately show ?thesis by (simp add: nth_id_def algebra_simps)
qed

lemma msg_ids_run:
  assumes "msgq put get view 16" and "uplink_run put get cfg addr evs s = (s', acts)" and "up_msg_id s = nth_id n"
  shows "msg_ids acts = map nth_id [n..<n + length (msg_ids acts)] \<and> up_msg_id s' = nth_id (n + length (msg_ids acts))"
  using assms(2,3)
proof (induction evs arbitrary: s acts n)
  case Nil
  then show ?case by (simp add: msg_ids_def)
next
  case (Cons ev evs)
  obtain s1 a where d: "uplink_do put get cfg addr ev s = (s1, a)" by fastforce
  obtain s2 b where r: "uplink_run put get cfg addr evs s1 = (s2, b)" by fastforce
  have acts: "acts = a @ b" "s2 = s'" using Cons.prems(1) d r by simp_all
  have "msg_ids a = [] \<and> up_msg_id s1 = up_msg_id s \<or>
      msg_ids a = [up_msg_id s] \<and> up_msg_id s1 = (if up_msg_id s + 1 = 0 then 1 else up_msg_id s + 1)"
  proof (cases ev)
    case (UeThread e)
    then have "uplink_step get cfg addr e s = (s1, a)" using d by simp
    from assms(1) this show ?thesis
      by (cases rule: uplink_step_cases) (auto simp: msg_ids_def)
  qed (use d in \<open>auto simp: submit_frame msg_ids_def wifi_evt_def ipv4_evt_def split: if_splits\<close>)
  then show ?case
  proof
    assume "msg_ids a = [] \<and> up_msg_id s1 = up_msg_id s"
    then show ?thesis using Cons.IH [OF r [unfolded acts(2)], of n] Cons.prems(2) by (simp add: acts sent_append)
  next
    assume m: "msg_ids a = [up_msg_id s] \<and> up_msg_id s1 = (if up_msg_id s + 1 = 0 then 1 else up_msg_id s + 1)"
    then have "up_msg_id s1 = nth_id (Suc n)" using Cons.prems(2) nth_id_next [of n] by metis
    from Cons.IH [OF r [unfolded acts(2)] this]
    have b: "msg_ids b = map nth_id [Suc n..<Suc n + length (msg_ids b)]" "up_msg_id s' = nth_id (Suc n + length (msg_ids b))" by simp_all
    have "[n..<n + Suc (length (msg_ids b))] = n # [Suc n..<Suc n + length (msg_ids b)]" by (subst upt_conv_Cons) simp_all
    moreover have "msg_ids acts = nth_id n # msg_ids b" using m Cons.prems(2) by (simp add: acts sent_append)
    ultimately show ?thesis using b by simp
  qed
qed

lemma uplink_step_stays:
  assumes "\<not> link_phase (up_pc s)" and "up_assoc s" and "uplink_step get cfg addr e s = (s', acts)"
  shows "\<not> link_phase (up_pc s') \<and> up_assoc s' \<and> (\<forall>u p. UpConnect u p \<notin> set acts)"
  using assms by (cases "up_pc s")
    (auto simp: uplink_step_def mqtt_bring_up_step_def publish_anchor_map_def drain_step_def publish_def Let_def
      split: if_splits prod.splits option.splits)

text \<open>C17: An MQTT failure is retried in place: as long as the network stack reports no loss of the link, a thread
  that got past the association never asks for another one, whatever the broker does.\<close>

theorem mqtt_retried_in_place:
  assumes "\<not> link_phase (up_pc s)" and "up_assoc s" and "UeWifi True \<notin> set evs"
    and "uplink_run put get cfg addr evs s = (s', acts)"
  shows "\<not> link_phase (up_pc s') \<and> up_assoc s' \<and> (\<forall>u p. UpConnect u p \<notin> set acts)"
  using assms
proof (induction evs arbitrary: s acts)
  case (Cons ev evs)
  obtain s1 a where d: "uplink_do put get cfg addr ev s = (s1, a)" by fastforce
  obtain s2 b where r: "uplink_run put get cfg addr evs s1 = (s2, b)" by fastforce
  have acts: "acts = a @ b" "s2 = s'" using Cons.prems(4) d r by simp_all
  have "\<not> link_phase (up_pc s1) \<and> up_assoc s1 \<and> (\<forall>u p. UpConnect u p \<notin> set a)"
  proof (cases ev)
    case (UeThread e)
    then show ?thesis using uplink_step_stays [OF Cons.prems(1,2), of get cfg addr e s1 a] d by simp
  qed (use d Cons.prems in \<open>auto simp: submit_frame wifi_evt_def ipv4_evt_def split: if_splits\<close>)
  with Cons.IH [of s1 b] Cons.prems(3) r show ?case by (auto simp: acts)
qed simp

text \<open>An unprovisioned board uses no network.\<close>

lemma unprovisioned_idle:
  assumes "\<not> net_config_is_provisioned cfg" and "\<not> registered s" and "uplink_run put get cfg addr evs s = (s', acts)"
  shows "acts = [] \<and> \<not> registered s'"
  using assms(2,3)
proof (induction evs arbitrary: s acts)
  case (Cons ev evs)
  obtain s1 a where d: "uplink_do put get cfg addr ev s = (s1, a)" by fastforce
  obtain s2 b where r: "uplink_run put get cfg addr evs s1 = (s2, b)" by fastforce
  have acts: "acts = a @ b" "s2 = s'" using Cons.prems(2) d r by simp_all
  have "a = [] \<and> \<not> registered s1"
    using d Cons.prems(1) assms(1) by (cases ev) (auto simp: registered_def submit_frame uplink_step_def)
  with Cons.IH [of s1 b] r show ?case by (simp add: acts)
qed simp


text \<open>The identifiers of the messages of a run are 1, 2, ..., 65535, 1, ...: never the reserved 0, and different
  within any 65535 messages in a row.\<close>

theorem message_ids:
  assumes "msgq put get view 16" and "uplink_run put get cfg addr evs (uplink_boot q) = (s, acts)"
  shows "msg_ids acts = map (\<lambda>j. of_nat (j mod 65535 + 1)) [0..<length (msg_ids acts)] \<and> 0 \<notin> set (msg_ids acts)"
proof -
  have m: "msg_ids acts = map nth_id [0..<length (msg_ids acts)]"
    using msg_ids_run [OF assms, of 0] by (simp add: uplink_boot_def nth_id_def)
  have "nth_id j \<noteq> 0" for j
  proof
    assume "nth_id j = 0"
    then have "(j mod 65535 + 1) mod 2 ^ 16 = 0"
      using unat_of_nat [of "j mod 65535 + 1", where ?'a = 16] by (simp only: nth_id_def unat_0) simp
    then show False using mod_less_divisor [of 65535 j] by simp
  qed
  then have "0 \<notin> set (msg_ids acts)" by (subst m) auto
  with m show ?thesis unfolding nth_id_def by blast
qed

section \<open>Concrete runs\<close>

definition net_cfg :: net_config where
  "net_cfg = net_config_set_defaults\<lparr>net_ssid := ''lobby'', net_psk := ''secret-1'', net_broker := ''broker''\<rparr>"

text \<open>A network that answers everything, and the turns of a thread in it.\<close>

definition good_net :: up_env where
  "good_net = \<lparr>ue_iface = True, ue_rc = 0, ue_expired = False, ue_resolved = True, ue_now = 0, ue_readable = True,
     ue_input = 0, ue_live = - 11, ue_events = [EvtConnack 0], ue_survey = survey_boot\<rparr>"

definition joined :: "fix_list uplink" where
  "joined = (uplink_boot list_empty)\<lparr>up_pc := PcMqtt, up_state := ST_WIFI_CONNECTED, up_assoc := True\<rparr>"

lemma thread_joins:
  "uplink_run list_put list_get net_cfg 0 [UeThread good_net, UeThread good_net, UeThread good_net, UeIpv4 True,
     UeThread good_net, UeThread good_net] (uplink_boot list_empty) =
   (joined, [UpConnect ''lobby'' ''secret-1'', UpDhcp])"
  by (simp add: net_cfg_def net_config_set_defaults_def good_net_def uplink_boot_def uplink_step_def wifi_step_def
      net_config_is_provisioned_def registered_def ipv4_evt_def joined_def)

lemma uplink_acts_ok_witness:
  "\<not> up_assoc (fst (uplink_run list_put list_get net_cfg 0 [UeThread good_net, UeThread good_net] (uplink_boot list_empty)))"
proof -
  let ?r = "uplink_run list_put list_get net_cfg 0 [UeThread good_net, UeThread good_net] (uplink_boot list_empty)"
  have st: "UpConnect ''lobby'' ''secret-1'' \<in> set (snd (uplink_step list_get net_cfg 0 good_net (fst ?r)))"
    by (simp add: net_cfg_def net_config_set_defaults_def good_net_def uplink_boot_def uplink_step_def wifi_step_def
        net_config_is_provisioned_def)
  have e: "?r = (fst ?r, snd ?r)" by simp
  have u: "uplink_step list_get net_cfg 0 good_net (fst ?r) =
      (fst (uplink_step list_get net_cfg 0 good_net (fst ?r)), snd (uplink_step list_get net_cfg 0 good_net (fst ?r)))" by simp
  from uplink_acts_ok [OF fixq.msgq_axioms e u st] show ?thesis by (simp add: act_ok_def)
qed

lemma mqtt_retried_in_place_witness:
  "up_assoc (fst (uplink_run list_put list_get net_cfg 0 [UeThread good_net, UeThread (good_net\<lparr>ue_resolved := False\<rparr>), UeThread good_net] joined))"
proof -
  let ?r = "uplink_run list_put list_get net_cfg 0 [UeThread good_net, UeThread (good_net\<lparr>ue_resolved := False\<rparr>), UeThread good_net] joined"
  have e: "?r = (fst ?r, snd ?r)" by simp
  have p: "\<not> link_phase (up_pc joined)" "up_assoc joined" by (simp_all add: joined_def)
  from mqtt_retried_in_place [OF p _ e] show ?thesis by simp
qed

definition full_run :: "up_event list" where
  "full_run = replicate 3 (UeThread good_net) @ [UeIpv4 True] @ replicate 6 (UeThread good_net)"

lemma message_ids_witness:
  "0 \<notin> set (msg_ids (snd (uplink_run list_put list_get net_cfg 0 full_run (uplink_boot list_empty))))"
proof -
  let ?r = "uplink_run list_put list_get net_cfg 0 full_run (uplink_boot list_empty)"
  have e: "?r = (fst ?r, snd ?r)" by simp
  from message_ids [OF fixq.msgq_axioms e] show ?thesis by simp
qed

text \<open>Two gaps of the association. An address that arrives after the 30 s of one attempt is taken by the next one
  before its own association; the thread is then in the MQTT phase on a link that may not exist, which
  the property above says it leaves only if a loss is reported.\<close>

lemma stale_address:
  "fst (uplink_run list_put list_get net_cfg 0
     [UeThread good_net, UeThread good_net, UeThread good_net, UeThread (good_net\<lparr>ue_expired := True\<rparr>), UeIpv4 True,
      UeThread good_net, UeThread good_net, UeThread good_net, UeThread good_net, UeThread good_net] (uplink_boot list_empty)) =
   joined"
  by (simp add: net_cfg_def net_config_set_defaults_def good_net_def uplink_boot_def uplink_step_def wifi_step_def
      net_config_is_provisioned_def registered_def ipv4_evt_def joined_def)

text \<open>And a driver that refuses a second request while it is associated, as the comment in the thread says it does,
  keeps a board whose address came late from ever reaching the broker.\<close>

lemma refused_forever:
  assumes "\<And>e. UeThread e \<in> set evs \<Longrightarrow> ue_rc e \<noteq> 0" and "up_pc s \<in> {PcWifi, PcWifiSleep} \<union> range PcRequest"
    and "uplink_run put get cfg addr evs s = (s', acts)"
  shows "up_pc s' \<in> {PcWifi, PcWifiSleep} \<union> range PcRequest"
  using assms
proof (induction evs arbitrary: s acts)
  case (Cons ev evs)
  obtain s1 a where d: "uplink_do put get cfg addr ev s = (s1, a)" by fastforce
  obtain s2 b where r: "uplink_run put get cfg addr evs s1 = (s2, b)" by fastforce
  have "s2 = s'" using Cons.prems(3) d r by simp
  moreover have "up_pc s1 \<in> {PcWifi, PcWifiSleep} \<union> range PcRequest"
  proof (cases ev)
    case (UeThread e)
    then have "ue_rc e \<noteq> 0" using Cons.prems(1) by simp
    then show ?thesis using d Cons.prems(2) UeThread by (auto simp: uplink_step_def wifi_step_def split: nat.splits if_splits)
  qed (use d Cons.prems(2) in \<open>auto simp: submit_frame wifi_evt_def ipv4_evt_def split: if_splits\<close>)
  ultimately show ?case using Cons.IH [of s1 b] Cons.prems(1) r by simp
qed simp

end
