(* ===== verification/UwbGateway.thy ===== *)
theory UwbGateway
  imports GwCore AposSurvey Uplink
begin

text \<open>
  The gateway's loop, src/uwb_gateway.c: the superframe between two beacons, the dispatch of what is received
  to the seat table, the survey and the position sink, and the beacons. The seat table is the \<open>gw_core\<close>
  context of the loop; the module's sequence counter \<open>gw_seq\<close> is the one the survey gateway shares and is kept in
  its record. A turn of the loop is one pass of the inner loop, followed by the superframe boundary when the
  pass left it. What the radio and the kernel answer in a turn is its environment. The handshake of the receive
  callbacks is that of the slave loop, in \<open>UwbSlave\<close>.
\<close>

section \<open>State\<close>

abbreviation (input) T_SUPERFRAME_UUS :: u32 where "T_SUPERFRAME_UUS \<equiv> 195000"
abbreviation (input) RX_TO_TX_DLY_UUS :: u32 where "RX_TO_TX_DLY_UUS \<equiv> 2000"
abbreviation (input) BEACON_ARM_MARGIN_UUS :: u32 where "BEACON_ARM_MARGIN_UUS \<equiv> 5000"
abbreviation (input) APOS_GW_STEP_BUDGET_UUS :: u32 where "APOS_GW_STEP_BUDGET_UUS \<equiv> 10000"
abbreviation (input) GW_TX_COMPLETE_TIMEOUT_MS :: u32 where "GW_TX_COMPLETE_TIMEOUT_MS \<equiv> 11"
abbreviation (input) GW_RX_BUF_LEN :: nat where "GW_RX_BUF_LEN \<equiv> 64"

record gateway =
  gt_seats :: gw_core_ctx
  gt_apos :: apos_gw
  gt_beacon_buf :: "u8 list"
  gt_beacon_ts :: u64

text \<open>What a pass of the inner loop sees: the radio's clock, before and after a step of the survey; the
  environment of that step; the length of the event the wait returned, if it did; the bytes received and
  their timestamp; the radio at the answer, and the uninitialised buffer the answer is built in.\<close>

record gw_pass =
  gp_now1 :: u32
  gp_gw :: gw_env
  gp_now2 :: u32
  gp_event :: "u16 option"
  gp_rx :: "u8 list"
  gp_rx_ts :: u64
  gp_grant_tx :: tx_env
  gp_grant_buf :: "u8 list"

text \<open>What a turn does to the outside: frames, the programmed receive timeouts, fixes handed to the sink.\<close>

datatype gt_act = GtTx tx_frame | GtListen u32 | GtPublish pos_fix

definition bump_seq :: "gateway \<Rightarrow> gateway" where
  "bump_seq s = s\<lparr>gt_apos := (gt_apos s)\<lparr>gw_seq := gw_seq (gt_apos s) + 1\<rparr>\<rparr>"

section \<open>The two transmissions\<close>

text \<open>The result is the timestamp, 0 where the beacon did not go out; \<open>ts\<close> is what the radio's register holds.\<close>

definition tx_beacon :: "tx_env \<Rightarrow> u8 list \<Rightarrow> bool \<Rightarrow> u32 \<Rightarrow> gateway \<Rightarrow> u64 \<times> gateway \<times> gt_act list" where
  "tx_beacon e ts delayed tx_at s =
     (let slot_map = gw_core_build_slotmap (gt_seats s) in
      case uwb_frame_beacon_build (Some (gt_beacon_buf s)) 37 (frame_counter (gt_seats s)) (Some slot_map) 11 of
        (Inl _, _) \<Rightarrow> (0, s, [])
      | (Inr n, out) \<Rightarrow>
          let b = uwb_frame_set_seq_num (the out) (gw_seq (gt_apos s));
              s = (bump_seq s)\<lparr>gt_beacon_buf := b\<rparr>;
              f = \<lparr>tx_data = take n b, tx_len = n + FCS_LEN, tx_when = (if delayed then Some tx_at else None)\<rparr>
          in
          if \<not> tx_start_ok e then (0, s, [])
          else if \<not> tx_completes e GW_TX_COMPLETE_TIMEOUT_MS then (0, s, [GtTx f])
          else (uwb_get_tx_timestamp_u64 ts, s, [GtTx f]))"

definition send_grant :: "tx_env \<Rightarrow> u8 list \<Rightarrow> u8 list \<Rightarrow> gw_grant \<Rightarrow> u64 \<Rightarrow> gateway \<Rightarrow> gateway \<times> gt_act list" where
  "send_grant e buf eui g rx_ts s =
     (case uwb_frame_grant_build (Some buf) 24 (Some eui) (g_short_addr g) (g_slot_index g) (g_tier g) (g_lease g) of
        (Inl _, _) \<Rightarrow> (s, [])
      | (Inr n, out) \<Rightarrow>
          let b = uwb_frame_set_seq_num (the out) (gw_seq (gt_apos s));
              s = bump_seq s;
              tx_at = ucast (drop_bit 8 (rx_ts + ucast RX_TO_TX_DLY_UUS * 65536)) :: u32
          in
          if \<not> tx_start_ok e then (s, [])
          else (s, [GtTx \<lparr>tx_data = take n b, tx_len = n + FCS_LEN, tx_when = Some tx_at\<rparr>]))"

section \<open>Dispatch\<close>

definition gw_dispatch :: "gw_pass \<Rightarrow> nat \<Rightarrow> gateway \<Rightarrow> gateway \<times> gt_act list" where
  "gw_dispatch e len s =
     (let buf = gp_rx e in
      if apos_frame_is_apos (Some buf) len then (s\<lparr>gt_apos := apos_gw_on_rx buf len (gt_apos s)\<rparr>, [])
      else if uwb_frame_is_join (Some buf) len then
        (case uwb_frame_parse_join (Some buf) len of
           Inl _ \<Rightarrow> (s, [])
         | Inr (eui, req_tier) \<Rightarrow>
             (case gw_core_join (gt_seats s) eui req_tier of
                (None, c) \<Rightarrow> (s\<lparr>gt_seats := c\<rparr>, [])
              | (Some g, c) \<Rightarrow> send_grant (gp_grant_tx e) (gp_grant_buf e) eui g (gp_rx_ts e) (s\<lparr>gt_seats := c\<rparr>)))
      else if uwb_frame_is_keepalive (Some buf) len then
        (case uwb_frame_parse_keepalive (Some buf) len of
           Inl _ \<Rightarrow> (s, [])
         | Inr (sa, rt, _) \<Rightarrow> (s\<lparr>gt_seats := gw_core_keepalive (gt_seats s) sa rt\<rparr>, []))
      else if uwb_frame_is_release (Some buf) len then
        (s\<lparr>gt_seats := gw_core_release (gt_seats s) (uwb_frame_get_src_addr buf)\<rparr>, [])
      else if uwb_frame_is_pos (Some buf) len then
        (case uwb_frame_parse_pos (Some buf) len of
           Inl _ \<Rightarrow> (s, [])
         | Inr (sa, x, y, res, n, soc) \<Rightarrow>
             let tid = (case gw_core_find_eui (gt_seats s) sa of
                   Some eui \<Rightarrow> tag_id_from_eui eui
                 | None \<Rightarrow> ucast sa)
             in (s, [GtPublish \<lparr>fx_src_addr = sa, fx_tag_id = tid, fx_x = x, fx_y = y, fx_residual_m = res,
                       fx_n_anchors = n, fx_batt_soc = soc\<rparr>]))
      else (s, []))"

section \<open>The superframe\<close>

definition gw_next_beacon :: "gateway \<Rightarrow> u32" where
  "gw_next_beacon s = ucast (drop_bit 8 (gt_beacon_ts s + ucast T_SUPERFRAME_UUS * 65536))"

text \<open>\<open>(int32_t)(next_beacon - now)\<close>, and the conversion of a span of the 32-bit clock to microseconds.\<close>

definition to_beacon :: "u32 \<Rightarrow> u32 \<Rightarrow> int" where
  "to_beacon nb now = sint (nb - now)"

definition hi32_to_uus :: "u32 \<Rightarrow> u32" where
  "hi32_to_uus spn = ucast (push_bit 8 (ucast spn :: u64) div 65536)"

text \<open>The part of a pass before the radio listens: \<open>None\<close> where it breaks out.\<close>

definition pass_prologue :: "gw_pass \<Rightarrow> u32 \<Rightarrow> gateway \<Rightarrow> (int option \<times> gateway \<times> gt_act list)" where
  "pass_prologue e nb s =
     (let tb = to_beacon nb (gp_now1 e); margin = sint (UUS_TO_HI32 BEACON_ARM_MARGIN_UUS) in
      if tb \<le> margin then (None, s, [])
      else if apos_gw_busy (gt_apos s) then
        let reserve = sint (UUS_TO_HI32 (BEACON_ARM_MARGIN_UUS + APOS_GW_STEP_BUDGET_UUS)) in
        if tb > reserve then
          let spn = word_of_int tb - UUS_TO_HI32 BEACON_ARM_MARGIN_UUS;
              (a, fs) = apos_gw_step (gp_gw e) (unat (hi32_to_uus spn)) (gt_apos s);
              s = s\<lparr>gt_apos := a\<rparr>;
              tb = to_beacon nb (gp_now2 e)
          in if tb \<le> margin then (None, s, map GtTx fs) else (Some tb, s, map GtTx fs)
        else (Some tb, s, [])
      else (Some tb, s, []))"

text \<open>One pass: whether it broke out of the loop, the state and what it did.\<close>

definition gateway_pass :: "gw_pass \<Rightarrow> u32 \<Rightarrow> gateway \<Rightarrow> bool \<times> gateway \<times> gt_act list" where
  "gateway_pass e nb s =
     (case pass_prologue e nb s of
        (None, s, acts) \<Rightarrow> (True, s, acts)
      | (Some tb, s, acts) \<Rightarrow>
          let span_hi32 = word_of_int tb - UUS_TO_HI32 BEACON_ARM_MARGIN_UUS;
              acts = acts @ [GtListen (hi32_to_uus span_hi32)]
          in
          (case gp_event e of
             None \<Rightarrow> (False, s, acts)
           | Some flen \<Rightarrow>
               if unat flen \<le> FCS_LEN \<or> unat flen > GW_RX_BUF_LEN then (False, s, acts)
               else let (s, acts') = gw_dispatch e (unat flen - FCS_LEN) s in (False, s, acts @ acts')))"

text \<open>The end of a superframe; \<open>now\<close> is the clock read where the beacon was missed.\<close>

definition gateway_boundary :: "tx_env \<Rightarrow> u8 list \<Rightarrow> u32 \<Rightarrow> u32 \<Rightarrow> gateway \<Rightarrow> gateway \<times> gt_act list" where
  "gateway_boundary e ts now nb s =
     (let s = s\<lparr>gt_seats := gw_core_superframe_tick (gt_seats s)\<rparr>;
          (t, s, acts) = tx_beacon e ts True nb s
      in (s\<lparr>gt_beacon_ts := (if t \<noteq> 0 then t else push_bit 8 (ucast now))\<rparr>, acts))"

record gw_turn =
  gu_pass :: gw_pass
  gu_tx :: tx_env
  gu_ts :: "u8 list"
  gu_now :: u32

definition gateway_turn :: "gw_turn \<Rightarrow> gateway \<Rightarrow> gateway \<times> gt_act list" where
  "gateway_turn e s =
     (let nb = gw_next_beacon s; (broke, s, acts) = gateway_pass (gu_pass e) nb s in
      if \<not> broke then (s, acts)
      else let (s, acts') = gateway_boundary (gu_tx e) (gu_ts e) (gu_now e) nb s in (s, acts @ acts'))"

text \<open>\<open>uwb_gateway_run\<close> up to its loop: \<open>None\<close> where it returns. The statics it finds are those of \<open>s\<close>.\<close>

definition gateway_boot :: "uwb_config \<Rightarrow> tx_env \<Rightarrow> u8 list \<Rightarrow> gateway \<Rightarrow> gateway option \<times> gt_act list" where
  "gateway_boot cfg e ts s =
     (if \<not> cfg_position_valid cfg then (None, [])
      else
        let s = s\<lparr>gt_seats := gw_core_init, gt_apos := apos_gw_init (gt_apos s)\<rparr>;
            (t, s, acts) = tx_beacon e ts False 0 s
        in if t = 0 then (None, acts) else (Some (s\<lparr>gt_beacon_ts := t\<rparr>), acts))"


section \<open>The arithmetic of the superframe\<close>

lemma hi32_consts [simp]:
  "UUS_TO_HI32 5000 = 1280000" "UUS_TO_HI32 15000 = 3840000" "UUS_TO_HI32 195000 = 49920000"
  by (simp_all add: UUS_TO_HI32_def)

lemma unat_hi32_to_uus: "unat (hi32_to_uus w) = unat w div 256"
proof -
  have w: "unat w < 2 ^ 32" using unsigned_less [of w] by simp
  have "push_bit 8 (ucast w :: u64) = of_nat (unat w * 256)" by (simp add: push_bit_eq_mult)
  then have "unat (push_bit 8 (ucast w :: u64)) = unat w * 256" using w by (simp only: unat_of_nat) simp
  then have "unat (push_bit 8 (ucast w :: u64) div 65536) = unat w * 256 div 65536" by (simp add: unat_div)
  also have "\<dots> = unat w div 256" by (simp add: div_mult2_eq [of _ 256 256, simplified])
  finally have "unat (push_bit 8 (ucast w :: u64) div 65536) = unat w div 256" .
  then show ?thesis using w by (simp add: hi32_to_uus_def unsigned_ucast_eq take_bit_eq_mod)
qed

lemma span_uus:
  assumes "1280000 < t" and "t = to_beacon nb now"
  shows "int (unat (hi32_to_uus (word_of_int t - 1280000))) = (t - 1280000) div 256"
proof -
  have t: "t < 2 ^ 31" using assms(2) sint_lt [of "nb - now"] by (simp add: to_beacon_def)
  have "(word_of_int t - 1280000 :: u32) = of_nat (nat (t - 1280000))" using assms(1) by simp
  then have "unat (word_of_int t - 1280000 :: u32) = nat (t - 1280000)"
    using t assms(1) by (simp only: unat_of_nat) simp
  then show ?thesis using assms(1) by (simp add: unat_hi32_to_uus zdiv_int)
qed

text \<open>A time on the 40-bit clock, moved by a whole number of ticks of the 32-bit clock.\<close>

lemma hi32_add: "(ucast (drop_bit 8 (r + of_nat (c * 256) :: u64)) :: u32) = ucast (drop_bit 8 r) + of_nat c"
proof -
  have u: "unat (r + of_nat (c * 256) :: u64) = (unat r + c * 256) mod 2 ^ 64"
    by (simp only: unat_word_ariths(1) unat_of_nat mod_add_right_eq) simp
  have "x mod 2 ^ 64 div 256 mod 2 ^ 32 = x div 256 mod (2 ^ 32 :: nat)" for x
  proof -
    have "x mod (256 * 2 ^ 56) = 256 * (x div 256 mod 2 ^ 56) + x mod 256" by (rule mod_mult2_eq)
    then have "x mod 2 ^ 64 div 256 = x div 256 mod 2 ^ 56" by simp
    moreover have "x div 256 mod 2 ^ 56 mod 2 ^ 32 = x div 256 mod (2 ^ 32 :: nat)" by (rule mod_mod_cancel) (simp add: le_imp_power_dvd)
    ultimately show ?thesis by simp
  qed
  note m = this
  have d: "unat (ucast (drop_bit 8 (w :: u64)) :: u32) = unat w div 256 mod 2 ^ 32" for w
  proof -
    have "unat w < 2 ^ 64" using unsigned_less [of w] by simp
    then have "unat (drop_bit 8 w) = drop_bit 8 (unat w)" by (simp add: unsigned_drop_bit_eq take_bit_nat_eq_self)
    then show ?thesis by (simp add: unsigned_ucast_eq take_bit_eq_mod drop_bit_eq_div [of _ "unat w"])
  qed
  have "unat (ucast (drop_bit 8 (r + of_nat (c * 256) :: u64)) :: u32) = (unat r + c * 256) mod 2 ^ 64 div 256 mod 2 ^ 32"
    by (simp only: d u)
  also have "\<dots> = (unat r div 256 + c) mod 2 ^ 32" by (simp only: m) (simp add: add.commute)
  also have "\<dots> = unat (ucast (drop_bit 8 r) + of_nat c :: u32)"
    by (simp only: unat_word_ariths(1) d unat_of_nat) (simp add: mod_add_eq)
  finally show ?thesis by (simp only: word_unat_eq_iff)
qed

lemma gw_next_beacon_eq: "gw_next_beacon s = ucast (drop_bit 8 (gt_beacon_ts s)) + UUS_TO_HI32 T_SUPERFRAME_UUS"
  using hi32_add [of "gt_beacon_ts s" 49920000] by (simp add: gw_next_beacon_def)

lemma dispatch_no_listen: "GtListen t \<notin> set (snd (gw_dispatch e n s))"
  by (auto simp: gw_dispatch_def send_grant_def Let_def split: sum.splits option.splits prod.splits)

lemma prologue_shape:
  assumes "pass_prologue e nb s = (r, s1, a1)"
  shows "GtListen t \<notin> set a1"
    and "s1 = s \<and> a1 = [] \<or>
      (\<exists>av fs. 10000 \<le> av \<and> 256 * int av + 1280000 \<le> to_beacon nb (gp_now1 e) \<and>
         apos_gw_step (gp_gw e) av (gt_apos s) = (gt_apos s1, fs) \<and> a1 = map GtTx fs)"
    and "case r of None \<Rightarrow> to_beacon nb (gp_now1 e) \<le> 1280000 \<or> to_beacon nb (gp_now2 e) \<le> 1280000
      | Some tb \<Rightarrow> 1280000 < tb \<and> (tb = to_beacon nb (gp_now1 e) \<or> tb = to_beacon nb (gp_now2 e))"
proof -
  show "GtListen t \<notin> set a1"
    using assms by (auto simp: pass_prologue_def Let_def split: if_splits prod.splits)
  show "s1 = s \<and> a1 = [] \<or>
      (\<exists>av fs. 10000 \<le> av \<and> 256 * int av + 1280000 \<le> to_beacon nb (gp_now1 e) \<and>
         apos_gw_step (gp_gw e) av (gt_apos s) = (gt_apos s1, fs) \<and> a1 = map GtTx fs)"
  proof (cases "a1 = [] \<and> s1 = s")
    case False
    let ?tb = "to_beacon nb (gp_now1 e)"
    let ?av = "unat (hi32_to_uus (word_of_int ?tb - 1280000))"
    have c: "3840000 < ?tb" "a1 = map GtTx (snd (apos_gw_step (gp_gw e) ?av (gt_apos s)))"
      "gt_apos s1 = fst (apos_gw_step (gp_gw e) ?av (gt_apos s))"
      using assms False by (auto simp: pass_prologue_def Let_def split: if_splits prod.splits)
    have "int ?av = (?tb - 1280000) div 256" using c(1) by (intro span_uus) simp_all
    then have "10000 \<le> ?av" "256 * int ?av + 1280000 \<le> ?tb" using c(1) by linarith+
    then show ?thesis using c(2,3) by (intro disjI2 exI [of _ ?av] exI [of _ "snd (apos_gw_step (gp_gw e) ?av (gt_apos s))"]) auto
  qed simp
  show "case r of None \<Rightarrow> to_beacon nb (gp_now1 e) \<le> 1280000 \<or> to_beacon nb (gp_now2 e) \<le> 1280000
      | Some tb \<Rightarrow> 1280000 < tb \<and> (tb = to_beacon nb (gp_now1 e) \<or> tb = to_beacon nb (gp_now2 e))"
    using assms by (auto simp: pass_prologue_def Let_def split: if_splits prod.splits)
qed


section \<open>The invariant of the loop\<close>

definition gt_inv :: "gateway \<Rightarrow> bool" where
  "gt_inv s \<longleftrightarrow> gw_inv (gt_seats s) \<and> apos_gw_inv (gt_apos s) \<and> length (gt_beacon_buf s) = 37"

definition pass_ok :: "gw_pass \<Rightarrow> bool" where
  "pass_ok e \<longleftrightarrow> 0 \<le> ge_now (gp_gw e) \<and> length (gp_rx e) = GW_RX_BUF_LEN \<and> length (gp_grant_buf e) = 24"

lemma apos_gw_inv_seq [simp]: "apos_gw_inv (s\<lparr>gw_seq := q\<rparr>) = apos_gw_inv s"
  by (simp add: apos_gw_inv_def gw_ready_def result_ok_def phase_ok_def apos_gw_busy_def range_ok_def apply_ok_def
      split: apos_gw_phase.splits)

lemma bump_simps [simp]:
  "gt_seats (bump_seq s) = gt_seats s" "gt_beacon_buf (bump_seq s) = gt_beacon_buf s" "gt_beacon_ts (bump_seq s) = gt_beacon_ts s"
  "gt_apos (bump_seq s) = (gt_apos s)\<lparr>gw_seq := gw_seq (gt_apos s) + 1\<rparr>"
  by (simp_all add: bump_seq_def)

lemma gt_inv_bump [simp]: "gt_inv (bump_seq s) = gt_inv s"
  by (simp add: gt_inv_def)

text \<open>The beacon always builds; what goes out, if anything, is the slot map of the seats and their counter.\<close>

lemma tx_beacon_effect:
  assumes "gt_inv s" and "tx_beacon e ts delayed tx_at s = (t, s', acts)"
  shows "gt_inv s' \<and> gt_seats s' = gt_seats s \<and> gt_beacon_ts s' = gt_beacon_ts s \<and>
    gt_apos s' = (gt_apos s)\<lparr>gw_seq := gw_seq (gt_apos s) + 1\<rparr> \<and> (t \<noteq> 0 \<longrightarrow> t = uwb_get_tx_timestamp_u64 ts \<and> acts \<noteq> []) \<and>
    (tx_start_ok e \<longrightarrow> acts \<noteq> []) \<and> (tx_start_ok e \<and> tx_completes e 11 \<longrightarrow> t = uwb_get_tx_timestamp_u64 ts) \<and>
    (\<forall>a\<in>set acts. \<exists>f. a = GtTx f \<and> tx_when f = (if delayed then Some tx_at else None) \<and>
       (\<forall>junk. uwb_frame_parse_beacon (Some (on_air f @ junk)) 37 =
          Inr (UWB_PROTO_VER, frame_counter (gt_seats s), gw_core_build_slotmap (gt_seats s), 11)))"
proof -
  let ?sm = "gw_core_build_slotmap (gt_seats s)"
  have sm: "length ?sm = 11" using assms(1) gw.slotmap_len by (simp add: gt_inv_def)
  obtain g where g: "uwb_frame_beacon_build (Some (gt_beacon_buf s)) 37 (frame_counter (gt_seats s)) (Some ?sm) 11 = (Inr 37, Some g)"
    "length g = 37"
    using beacon.build_fits [of "(frame_counter (gt_seats s), ?sm)" 37 "gt_beacon_buf s"] sm assms(1)
    by (auto simp: gt_inv_def)
  let ?b = "put_u8 g 2 (gw_seq (gt_apos s))"
  have r: "uwb_frame_parse_beacon (Some (take 37 ?b @ junk)) 37 = Inr (UWB_PROTO_VER, frame_counter (gt_seats s), ?sm, 11)" for junk
    using beacon.received [of "(frame_counter (gt_seats s), ?sm)" 37 "gt_beacon_buf s" 37 g "gw_seq (gt_apos s)" junk] g sm assms(1)
    by (simp add: gt_inv_def)
  show ?thesis
    using assms g r by (auto simp: tx_beacon_def uwb_frame_set_seq_num_def Let_def gt_inv_def on_air_def split: if_splits)
qed

lemma send_grant_effect:
  assumes "length buf = 24" and "length eui = 8" and "send_grant e buf eui g rx_ts s = (s', acts)"
  shows "s' = bump_seq s \<and> (tx_start_ok e \<longrightarrow> acts \<noteq> []) \<and>
    (\<forall>a\<in>set acts. \<exists>f. a = GtTx f \<and> tx_when f = Some (ucast (drop_bit 8 rx_ts) + UUS_TO_HI32 RX_TO_TX_DLY_UUS) \<and>
       (\<forall>junk. uwb_frame_parse_grant (Some (on_air f @ junk)) 24 = Inr (eui, g_short_addr g, g_slot_index g, g_tier g, g_lease g)))"
proof -
  let ?m = "(eui, g_short_addr g, g_slot_index g, g_tier g, g_lease g)"
  obtain o' where o: "uwb_frame_grant_build (Some buf) 24 (Some eui) (g_short_addr g) (g_slot_index g) (g_tier g) (g_lease g) = (Inr 24, Some o')"
    "length o' = 24"
    using grant.build_fits [of ?m 24 buf] assms(1,2) by auto
  let ?b = "put_u8 o' 2 (gw_seq (gt_apos s))"
  have r: "uwb_frame_parse_grant (Some (take 24 ?b @ junk)) 24 = Inr ?m" for junk
    using grant.received [of ?m 24 buf 24 o' "gw_seq (gt_apos s)" junk] o assms(1,2) by simp
  have t: "ucast (drop_bit 8 (rx_ts + 131072000)) = (ucast (drop_bit 8 rx_ts) + UUS_TO_HI32 2000 :: u32)"
    using hi32_add [of rx_ts 512000] by (simp add: UUS_TO_HI32_def)
  show ?thesis
    using assms(3) o r t by (auto simp: send_grant_def uwb_frame_set_seq_num_def Let_def on_air_def split: if_splits)
qed


lemma rx_len: "length (get_bytes b i n) = n"
  by (simp add: get_bytes_def)

text \<open>What the dispatcher does with a frame.\<close>

lemma dispatch_cases:
  assumes "gw_dispatch e n s = (s', acts)"
  obtains (survey) "apos_frame_is_apos (Some (gp_rx e)) n" "s' = s\<lparr>gt_apos := apos_gw_on_rx (gp_rx e) n (gt_apos s)\<rparr>" "acts = []"
  | (refused) eui t c where "uwb_frame_parse_join (Some (gp_rx e)) n = Inr (eui, t)" "length eui = 8"
      "gw_core_join (gt_seats s) eui t = (None, c)" "s' = s\<lparr>gt_seats := c\<rparr>" "acts = []"
  | (granted) eui t g c where "uwb_frame_parse_join (Some (gp_rx e)) n = Inr (eui, t)" "length eui = 8"
      "gw_core_join (gt_seats s) eui t = (Some g, c)"
      "send_grant (gp_grant_tx e) (gp_grant_buf e) eui g (gp_rx_ts e) (s\<lparr>gt_seats := c\<rparr>) = (s', acts)"
  | (kept) sa t i where "uwb_frame_parse_keepalive (Some (gp_rx e)) n = Inr (sa, t, i)"
      "s' = s\<lparr>gt_seats := gw_core_keepalive (gt_seats s) sa t\<rparr>" "acts = []"
  | (released) "uwb_frame_is_release (Some (gp_rx e)) n"
      "s' = s\<lparr>gt_seats := gw_core_release (gt_seats s) (uwb_frame_get_src_addr (gp_rx e))\<rparr>" "acts = []"
  | (published) "uwb_frame_is_pos (Some (gp_rx e)) n" "s' = s" "\<exists>x. acts = [GtPublish x]"
  | (other) "s' = s" "acts = []"
proof -
  let ?b = "Some (gp_rx e)"
  consider (a) "apos_frame_is_apos ?b n" | (j) "\<not> apos_frame_is_apos ?b n" "uwb_frame_is_join ?b n"
    | (r) "\<not> apos_frame_is_apos ?b n" "\<not> uwb_frame_is_join ?b n" by blast
  then show thesis
  proof cases
    case a
    then show thesis using assms by (intro survey) (auto simp: gw_dispatch_def)
  next
    case j
    then obtain eui t where p: "uwb_frame_parse_join ?b n = Inr (eui, t)" "length eui = 8"
      by (simp add: uwb_frame_parse_join_def rx_len)
    then show thesis using assms j refused granted by (auto simp: gw_dispatch_def split: prod.splits option.splits)
  next
    case r
    show thesis
    proof (cases "uwb_frame_is_keepalive ?b n")
      case True
      then show thesis using assms r by (intro kept) (auto simp: gw_dispatch_def uwb_frame_parse_keepalive_def Let_def)
    next
      case False
      show thesis
      proof (cases "uwb_frame_is_release ?b n")
        case True
        then show thesis using assms r False by (intro released) (auto simp: gw_dispatch_def)
      next
        case f: False
        then show thesis using assms r False published other
          by (cases "uwb_frame_is_pos ?b n") (auto simp: gw_dispatch_def uwb_frame_parse_pos_def Let_def)
      qed
    qed
  qed
qed

lemma dispatch_inv:
  assumes "gt_inv s" and "pass_ok e" and "gw_dispatch e n s = (s', acts)"
  shows "gt_inv s' \<and> gt_beacon_ts s' = gt_beacon_ts s"
proof -
  have i: "gw_inv (gt_seats s)" "apos_gw_inv (gt_apos s)" "length (gt_beacon_buf s) = 37" using assms(1) by (simp_all add: gt_inv_def)
  from assms(3) show ?thesis
  proof (cases rule: dispatch_cases)
    case survey
    then show ?thesis using apos_gw_on_rx_ok [OF i(2), of "gp_rx e" n] i by (simp add: gt_inv_def)
  next
    case (refused eui t c)
    then show ?thesis using join_inv [OF i(1) refused(2), of t] i by (simp add: gt_inv_def)
  next
    case (granted eui t g c)
    have "gw_inv c" using join_inv [OF i(1) granted(2), of t] granted(3) by simp
    moreover have "length (gp_grant_buf e) = 24" using assms(2) by (simp add: pass_ok_def)
    ultimately show ?thesis using send_grant_effect [OF _ granted(2,4)] i by (simp add: gt_inv_def)
  next
    case (kept sa t j)
    then show ?thesis using keepalive_inv [OF i(1)] i by (simp add: gt_inv_def)
  next
    case released
    then show ?thesis using release_inv [OF i(1)] i by (simp add: gt_inv_def)
  qed (use assms(1) in simp_all)
qed

lemma turn_inv:
  assumes "gt_inv s" and "pass_ok (gu_pass e)"
  shows "gt_inv (fst (gateway_turn e s))"
proof -
  obtain r s1 a1 where p: "pass_prologue (gu_pass e) (gw_next_beacon s) s = (r, s1, a1)" by (metis surj_pair)
  have "apos_gw_inv (fst (apos_gw_step (gp_gw (gu_pass e)) av (gt_apos s)))" for av
    using apos_gw_step_ok [of "gt_apos s" "gp_gw (gu_pass e)" av] assms by (simp add: gt_inv_def pass_ok_def step_ok_def)
  then have i1: "gt_inv s1"
    using p assms(1) by (auto simp: pass_prologue_def gt_inv_def case_prod_beta Let_def split: if_splits)
  obtain broke s2 a2 where g: "gateway_pass (gu_pass e) (gw_next_beacon s) s = (broke, s2, a2)" by (metis surj_pair)
  have i2: "gt_inv s2"
    using g p i1 dispatch_inv [OF i1 assms(2)]
    by (auto simp: gateway_pass_def Let_def split: option.splits if_splits prod.splits)
  let ?s = "s2\<lparr>gt_seats := gw_core_superframe_tick (gt_seats s2)\<rparr>"
  have it: "gt_inv ?s" using i2 tick_inv [of "gt_seats s2"] by (simp add: gt_inv_def)
  obtain t s3 a3 where b: "tx_beacon (gu_tx e) (gu_ts e) True (gw_next_beacon s) ?s = (t, s3, a3)" by (metis surj_pair)
  have "gt_inv s3" using tx_beacon_effect [OF it b] by blast
  then show ?thesis
    using g i2 b by (auto simp: gateway_turn_def gateway_boundary_def gt_inv_def Let_def)
qed


text \<open>The states of the gateway: after the boot, after any turns of the loop, and with the console's calls on the
  survey between them.\<close>

definition shell_op :: "gw_op \<Rightarrow> bool" where
  "shell_op op = (case op of GwStep _ _ \<Rightarrow> False | GwRx _ _ \<Rightarrow> False | _ \<Rightarrow> True)"

inductive gt_reach :: "gateway \<Rightarrow> bool" where
  gt_boot: "gw_ready (gt_apos s0) \<Longrightarrow> length (gt_beacon_buf s0) = 37 \<Longrightarrow> gateway_boot cfg e ts s0 = (Some s, acts) \<Longrightarrow> gt_reach s"
| gt_turn: "gt_reach s \<Longrightarrow> pass_ok (gu_pass e) \<Longrightarrow> gt_reach (fst (gateway_turn e s))"
| gt_shell: "gt_reach s \<Longrightarrow> shell_op op \<Longrightarrow> gw_do op (gt_apos s) = Some (a, fs) \<Longrightarrow> gt_reach (s\<lparr>gt_apos := a\<rparr>)"

lemma boot_effect:
  assumes "gw_ready (gt_apos s0)" and "length (gt_beacon_buf s0) = 37" and "gateway_boot cfg e ts s0 = (Some s, acts)"
  shows "gt_inv s \<and> cfg_position_valid cfg \<and> gt_beacon_ts s \<noteq> 0 \<and> leases (gt_seats s) = Map.empty"
proof -
  let ?s = "s0\<lparr>gt_seats := gw_core_init, gt_apos := apos_gw_init (gt_apos s0)\<rparr>"
  have i: "gt_inv ?s" using gw_reach_inv [OF gw_boot [OF assms(1)]] assms(2) by (simp add: gt_inv_def)
  obtain t s1 a where b: "tx_beacon e ts False 0 ?s = (t, s1, a)" by (metis surj_pair)
  note f = tx_beacon_effect [OF i b]
  have v: "cfg_position_valid cfg" "t \<noteq> 0" "s = s1\<lparr>gt_beacon_ts := t\<rparr>"
    using assms(3) b by (auto simp: gateway_boot_def split: if_splits)
  have "leases gw_core_init = Map.empty"
    by (rule ext) (simp add: leases_None find_seat_by_eui_def gw_core_init_def zero_seat_def first_index_None)
  then show ?thesis using f v by (auto simp: gt_inv_def)
qed

lemma gt_reach_inv: "gt_reach s \<Longrightarrow> gt_inv s"
proof (induction rule: gt_reach.induct)
  case (gt_boot s0 cfg e ts s acts)
  then show ?case using boot_effect by blast
next
  case (gt_turn s e)
  then show ?case by (intro turn_inv)
next
  case (gt_shell s op a fs)
  then show ?case using gw_do_inv [of "gt_apos s" op a fs] by (auto simp: gt_inv_def shell_op_def split: gw_op.splits)
qed

section \<open>Properties\<close>



lemma received_join:
  assumes "uwb_frame_join_build (Some b) cap (Some eui) rt = (Inr n, Some g)" and "cap \<le> length b" and "length eui = 8"
  shows "uwb_frame_parse_join (Some (take n (uwb_frame_set_seq_num g q) @ junk)) n = Inr (eui, rt)"
  using join.received [of "(eui, rt)" cap b n g q junk] assms by (simp add: uwb_frame_set_seq_num_def)

text \<open>The two codecs do not take each other's frames.\<close>

lemma not_survey: "uwb_frame_is_valid (Some b) n \<Longrightarrow> b ! 9 \<noteq> 0xEB \<Longrightarrow> \<not> apos_frame_is_apos (Some b) n"
  by (simp add: apos_frame_is_apos_def)

text \<open>C8: A JOIN is answered truthfully: the JOIN a tag builds, sent and received in any state the gateway reaches, gets
  the tag a seat exactly when it holds one or one is free; whatever is sent back is parsed by the tag to its own
  EUI, and the address, slot, tier and lease that the seat table now holds for it; it leaves 2000 UUS after
  the reception; and no other tag's seat changes.\<close>

theorem join_answered:
  assumes "gt_reach s" and "pass_ok e" and "uwb_frame_join_build (Some b) cap (Some eui) rt = (Inr n, Some g)"
    and "cap \<le> length b" and "length eui = 8" and "gp_rx e = take n (uwb_frame_set_seq_num g q) @ junk"
    and "gw_dispatch e n s = (s', acts)"
  shows "(\<forall>eui'. eui' \<noteq> eui \<longrightarrow> leases (gt_seats s') eui' = leases (gt_seats s) eui') \<and>
    (case leases (gt_seats s') eui of
       None \<Rightarrow> acts = [] \<and> leases (gt_seats s) eui = None \<and> lease_slots (leases (gt_seats s)) = {..<11}
     | Some (a, i, t, l) \<Rightarrow> t = rt \<and> l = 50 \<and> (tx_start_ok (gp_grant_tx e) \<longrightarrow> acts \<noteq> []) \<and>
         (\<forall>act\<in>set acts. \<exists>f. act = GtTx f \<and> tx_when f = Some (ucast (drop_bit 8 (gp_rx_ts e)) + UUS_TO_HI32 RX_TO_TX_DLY_UUS) \<and>
            (\<forall>junk'. uwb_frame_parse_grant (Some (on_air f @ junk')) 24 = Inr (eui, a, of_nat i, rt, 50))))"
proof -
  have i: "gw_inv (gt_seats s)" using gt_reach_inv [OF assms(1)] by (simp add: gt_inv_def)
  have p: "uwb_frame_parse_join (Some (gp_rx e)) n = Inr (eui, rt)"
    unfolding assms(6) by (rule received_join [OF assms(3-5)])
  then have j: "uwb_frame_is_join (Some (gp_rx e)) n" by (auto simp: uwb_frame_parse_join_def split: if_splits)
  then have na: "\<not> apos_frame_is_apos (Some (gp_rx e)) n"
    by (intro not_survey) (auto simp: uwb_frame_is_join_def)
  have d: "(s', acts) = (case gw_core_join (gt_seats s) eui rt of
       (None, c) \<Rightarrow> (s\<lparr>gt_seats := c\<rparr>, [])
     | (Some g, c) \<Rightarrow> send_grant (gp_grant_tx e) (gp_grant_buf e) eui g (gp_rx_ts e) (s\<lparr>gt_seats := c\<rparr>))"
    using assms(7) p j na by (simp add: gw_dispatch_def)
  obtain go c where jc: "gw_core_join (gt_seats s) eui rt = (go, c)" by fastforce
  note a = join_answer [OF i assms(5), of rt, unfolded jc]
  show ?thesis
  proof (cases go)
    case None
    then show ?thesis using a d jc by simp
  next
    case (Some gr)
    have sg: "send_grant (gp_grant_tx e) (gp_grant_buf e) eui gr (gp_rx_ts e) (s\<lparr>gt_seats := c\<rparr>) = (s', acts)"
      using d jc Some by simp
    have "length (gp_grant_buf e) = 24" using assms(2) by (simp add: pass_ok_def)
    note f = send_grant_effect [OF this assms(5) sg]
    have l: "leases c eui = Some (g_short_addr gr, unat (g_slot_index gr), rt, 50)" "g_tier gr = rt" "g_lease gr = 50"
      "\<forall>e'. e' \<noteq> eui \<longrightarrow> leases c e' = leases (gt_seats s) e'"
      using a Some by simp_all
    have s': "gt_seats s' = c" using f by simp
    show ?thesis using f l unfolding s' by simp
  qed
qed

text \<open>C21: A position keeps the tag's identity: the POS frame a tag builds, received in any state the gateway reaches, is
  handed to the sink with every field as it was sent, under the identity of the EUI that holds the sender's
  address, whatever address that is, or under the address if nobody holds it; and nothing else happens.\<close>

theorem pos_published:
  assumes "gt_reach s" and "uwb_frame_pos_build (Some b) cap sa x y res n soc = (Inr m, Some g)"
    and "cap \<le> length b" and "gp_rx e = take m (uwb_frame_set_seq_num g q) @ junk"
  shows "\<exists>tid. gw_dispatch e m s = (s, [GtPublish \<lparr>fx_src_addr = sa, fx_tag_id = tid, fx_x = x, fx_y = y,
      fx_residual_m = res, fx_n_anchors = n, fx_batt_soc = soc\<rparr>]) \<and>
    (\<forall>eui r. leases (gt_seats s) eui = Some (sa, r) \<longrightarrow> tid = tag_id_from_eui eui) \<and>
    ((\<forall>eui r. leases (gt_seats s) eui \<noteq> Some (sa, r)) \<longrightarrow> tid = ucast sa)"
proof -
  have i: "gw_inv (gt_seats s)" using gt_reach_inv [OF assms(1)] by (simp add: gt_inv_def)
  have p: "uwb_frame_parse_pos (Some (gp_rx e)) m = Inr (sa, x, y, res, n, soc)"
    using pos.received [where m = "(sa, x, y, res, n, soc)" and cap = cap and b = b and n = m and f = g and s = q and junk = junk] assms(2-4) by (simp add: uwb_frame_set_seq_num_def)
  then have t: "uwb_frame_is_pos (Some (gp_rx e)) m" by (auto simp: uwb_frame_parse_pos_def split: if_splits)
  then have v: "uwb_frame_is_valid (Some (gp_rx e)) m" "gp_rx e ! 9 = 0xEA" by (auto simp: uwb_frame_is_pos_def)
  then have na: "\<not> apos_frame_is_apos (Some (gp_rx e)) m" by (intro not_survey) simp_all
  have no: "\<not> uwb_frame_is_join (Some (gp_rx e)) m" "\<not> uwb_frame_is_keepalive (Some (gp_rx e)) m" "\<not> uwb_frame_is_release (Some (gp_rx e)) m"
    using v(2) by (simp_all add: uwb_frame_is_join_def uwb_frame_is_keepalive_def uwb_frame_is_release_def)
  let ?tid = "case gw_core_find_eui (gt_seats s) sa of Some eui \<Rightarrow> tag_id_from_eui eui | None \<Rightarrow> ucast sa"
  have "gw_core_find_eui (gt_seats s) sa = None" if "\<forall>eui r. leases (gt_seats s) eui \<noteq> Some (sa, r)"
  proof -
    have "gw_core_find_eui (gt_seats s) sa \<noteq> Some eui" for eui using that gw_find_eui_iff [OF i, of sa eui] by blast
    then show ?thesis by (cases "gw_core_find_eui (gt_seats s) sa") auto
  qed
  moreover have "gw_core_find_eui (gt_seats s) sa = Some eui" if "leases (gt_seats s) eui = Some (sa, r)" for eui r
    using that gw_find_eui_iff [OF i, of sa eui] by blast
  ultimately show ?thesis using p t na no
    by (intro exI [of _ ?tid]) (auto simp: gw_dispatch_def Let_def)
qed

text \<open>C39: The loop keeps the state of both protocols: whatever is received and whenever, from power-up on, the seat table
  satisfies its invariant and so does the survey; and a turn either listens once and stays in its superframe,
  or ends it with one tick of every lease and no frame but those of the survey and the beacon.\<close>

theorem gateway_consistent:
  assumes "gt_reach s" and "gateway_turn e s = (s', acts)"
  shows "gw_inv (gt_seats s) \<and> apos_gw_inv (gt_apos s) \<and>
    ((\<exists>t. filter (\<lambda>a. \<exists>t. a = GtListen t) acts = [GtListen t]) \<and> gw_next_beacon s' = gw_next_beacon s \<or>
     (\<forall>t. GtListen t \<notin> set acts) \<and> gt_seats s' = gw_core_superframe_tick (gt_seats s))"
proof -
  have i: "gw_inv (gt_seats s)" "apos_gw_inv (gt_apos s)" using gt_reach_inv [OF assms(1)] by (simp_all add: gt_inv_def)
  let ?nb = "gw_next_beacon s"
  obtain r s1 a1 where p: "pass_prologue (gu_pass e) ?nb s = (r, s1, a1)" by (metis surj_pair)
  have s1: "gt_seats s1 = gt_seats s" "gt_beacon_ts s1 = gt_beacon_ts s" "filter (\<lambda>a. \<exists>t. a = GtListen t) a1 = []"
    using p by (auto simp: pass_prologue_def Let_def filter_empty_conv split: if_splits prod.splits)
  have nl: "filter (\<lambda>a. \<exists>t. a = GtListen t) (snd (gw_dispatch (gu_pass e) n s1)) = []" for n
    using dispatch_no_listen by (auto simp: filter_empty_conv)
  have dt: "gt_beacon_ts (fst (gw_dispatch (gu_pass e) n s1)) = gt_beacon_ts s1" for n
    by (auto simp: gw_dispatch_def send_grant_def Let_def split: sum.splits option.splits prod.splits)
  have nb: "gw_next_beacon s' = gw_next_beacon s" if "gt_beacon_ts s' = gt_beacon_ts s" for s' using that by (simp add: gw_next_beacon_def)
  show ?thesis
  proof (cases r)
    case None
    then obtain t s3 a3 where b: "tx_beacon (gu_tx e) (gu_ts e) True ?nb (s1\<lparr>gt_seats := gw_core_superframe_tick (gt_seats s1)\<rparr>) = (t, s3, a3)"
      by (metis surj_pair)
    have g: "gt_seats s3 = gw_core_superframe_tick (gt_seats s)" "\<forall>t. GtListen t \<notin> set a3"
      using b s1 by (auto simp: tx_beacon_def Let_def split: sum.splits prod.splits if_splits)
    have "gt_seats s' = gt_seats s3" "acts = a1 @ a3"
      using assms(2) p None b by (auto simp: gateway_turn_def gateway_pass_def gateway_boundary_def Let_def)
    then show ?thesis using i g s1(3) by (auto simp: filter_empty_conv)
  next
    case (Some tb)
    then have "(\<exists>t. filter (\<lambda>a. \<exists>t. a = GtListen t) acts = [GtListen t]) \<and> gt_beacon_ts s' = gt_beacon_ts s"
      using assms(2) p s1 nl dt
      by (auto simp: gateway_turn_def gateway_pass_def Let_def case_prod_beta split: option.splits if_splits)
    then show ?thesis using i nb by blast
  qed
qed


section \<open>Concrete turns\<close>

definition gateway_statics :: gateway where
  "gateway_statics = \<lparr>gt_seats = gw_core_init, gt_apos = gw_blank, gt_beacon_buf = replicate 37 0, gt_beacon_ts = 0\<rparr>"

definition good_tx :: tx_env where
  "good_tx = \<lparr>tx_start_ok = True, tx_sys = (\<lambda>_. 0x80), tx_clk = int, tx_now = 0\<rparr>"

definition sample_ts :: "u8 list" where
  "sample_ts = [0, 1, 0, 0, 0]"

lemma good_tx_completes: "tx_start_ok good_tx" "tx_completes good_tx 11"
  by (simp_all add: good_tx_def tx_completes_def wait_ok_def uwb_wait_for_sysstatus_lo_def wait_loop.simps)

lemma sample_ts_256: "uwb_get_rx_timestamp_u64 sample_ts = 256"
  by (simp add: uwb_get_tx_timestamp_u64_def uwb_get_rx_timestamp_u64_def sample_ts_def numeral_eq_Suc)

lemma boot_succeeds:
  assumes "gw_ready (gt_apos s0)" and "length (gt_beacon_buf s0) = 37" and "cfg_position_valid cfg"
    and "tx_start_ok e" and "tx_completes e 11" and "uwb_get_tx_timestamp_u64 ts \<noteq> 0"
  shows "\<exists>s acts. gateway_boot cfg e ts s0 = (Some s, acts)"
proof -
  let ?s = "s0\<lparr>gt_seats := gw_core_init, gt_apos := apos_gw_init (gt_apos s0)\<rparr>"
  have i: "gt_inv ?s" using gw_reach_inv [OF gw_boot [OF assms(1)]] assms(2) by (simp add: gt_inv_def)
  obtain t s1 a where b: "tx_beacon e ts False 0 ?s = (t, s1, a)" by (metis surj_pair)
  have "t = uwb_get_tx_timestamp_u64 ts" using tx_beacon_effect [OF i b] assms(4,5) by blast
  then have "t \<noteq> 0" using assms(6) by (rule ssubst)
  then show ?thesis using b assms(3) by (simp add: gateway_boot_def)
qed

lemma statics_ok: "gw_ready (gt_apos gateway_statics)" "length (gt_beacon_buf gateway_statics) = 37"
  by (simp_all add: gateway_statics_def gw_blank_def gw_ready_def apos_gw_init_def)

definition gateway_cfg :: uwb_config where
  "gateway_cfg = uwb_config_set_pos uwb_config_set_defaults 0 0 0"

lemma sample_booted:
  obtains s where "gt_reach s"
proof -
  have "cfg_position_valid gateway_cfg" by (simp add: gateway_cfg_def uwb_config_set_pos_def)
  moreover have "uwb_get_tx_timestamp_u64 sample_ts \<noteq> 0" by (simp add: sample_ts_256)
  ultimately obtain s acts where "gateway_boot gateway_cfg good_tx sample_ts gateway_statics = (Some s, acts)"
    using boot_succeeds [OF statics_ok _ good_tx_completes] by blast
  from gt_boot [OF statics_ok this] show thesis by (rule that)
qed


definition gateway_pass_env :: "u8 list \<Rightarrow> gw_pass" where
  "gateway_pass_env rx = \<lparr>gp_now1 = 0, gp_gw = sample_gw_env 0, gp_now2 = 0, gp_event = None, gp_rx = rx, gp_rx_ts = 0,
     gp_grant_tx = good_tx, gp_grant_buf = replicate 24 0\<rparr>"

lemma gateway_consistent_witness:
  "\<exists>s s' acts. gateway_turn \<lparr>gu_pass = gateway_pass_env [], gu_tx = good_tx, gu_ts = sample_ts, gu_now = 0\<rparr> s = (s', acts) \<and>
     gw_inv (gt_seats s) \<and> apos_gw_inv (gt_apos s)"
proof -
  obtain s where r: "gt_reach s" by (rule sample_booted)
  obtain s' acts where t: "gateway_turn \<lparr>gu_pass = gateway_pass_env [], gu_tx = good_tx, gu_ts = sample_ts, gu_now = 0\<rparr> s = (s', acts)"
    by fastforce
  from gateway_consistent [OF r t] t show ?thesis by blast
qed



lemma join_answered_witness:
  "\<exists>s s' acts e. gw_dispatch e 19 s = (s', acts) \<and>
     (leases (gt_seats s') [1, 2, 3, 4, 5, 6, 7, 8] = None \<longrightarrow> acts = [])"
proof -
  obtain s where r: "gt_reach s" by (rule sample_booted)
  obtain g where b: "uwb_frame_join_build (Some (replicate 64 0)) 64 (Some [1, 2, 3, 4, 5, 6, 7, 8]) 2 = (Inr 19, Some g)" "length g = 64"
    using join.build_fits [of "([1, 2, 3, 4, 5, 6, 7, 8], 2)" 64 "replicate 64 0"] by auto
  let ?e = "gateway_pass_env (take 19 (uwb_frame_set_seq_num g 3) @ replicate 45 0)"
  have ok: "pass_ok ?e"
    by (simp add: pass_ok_def gateway_pass_env_def sample_gw_env_def uwb_frame_set_seq_num_def b(2))
  have rx: "gp_rx ?e = take 19 (uwb_frame_set_seq_num g 3) @ replicate 45 0" by (simp add: gateway_pass_env_def)
  obtain s' acts where d: "gw_dispatch ?e 19 s = (s', acts)" by fastforce
  have "leases (gt_seats s') [1, 2, 3, 4, 5, 6, 7, 8] = None \<longrightarrow> acts = []"
    using join_answered [OF r ok b(1) _ _ rx d] by (auto split: option.splits)
  then show ?thesis by (intro exI [of _ s] exI [of _ s'] exI [of _ acts] exI [of _ ?e] conjI d)
qed

lemma pos_published_witness:
  "\<exists>s e x. gw_dispatch e 24 s = (s, [GtPublish x]) \<and> fx_x x = 0x3F800000 \<and> fx_n_anchors x = 3"
proof -
  obtain s where r: "gt_reach s" by (rule sample_booted)
  obtain g where b: "uwb_frame_pos_build (Some (replicate 64 0)) 64 256 0x3F800000 0 0 3 90 = (Inr 24, Some g)"
    by (simp add: uwb_frame_pos_build_def write_hdr_def Let_def)
  define e where "e = gateway_pass_env (take 24 (uwb_frame_set_seq_num g 3) @ [1])"
  have rx: "gp_rx e = take 24 (uwb_frame_set_seq_num g 3) @ [1]" by (simp add: e_def gateway_pass_env_def)
  have cap: "(64::nat) \<le> length (replicate 64 (0::u8))" by simp
  obtain tid where d: "gw_dispatch e 24 s = (s, [GtPublish \<lparr>fx_src_addr = 256, fx_tag_id = tid, fx_x = 0x3F800000, fx_y = 0,
      fx_residual_m = 0, fx_n_anchors = 3, fx_batt_soc = 90\<rparr>])"
    using pos_published [OF r b cap rx] by blast
  show ?thesis by (rule exI, rule exI, rule exI, rule conjI, rule d) simp
qed

end
