(* ===== verification/CalRun.thy ===== *)
theory CalRun
  imports CalMath AnchorRespond UwbStore
begin

text \<open>
  The calibration image, src/cal_run.c. The main thread answers polls as an
  anchor without a guard until the console asks for a batch of 128 exchanges; the two threads hand a request
  and a result to each other through two semaphores. A batch is a function of the exchanges it makes; the
  hand-over is a step relation in which every access to a shared variable is a step, so that the theorems
  hold in any interleaving of the two threads.
\<close>

section \<open>A batch\<close>

abbreviation (input) CAL_PEER_REFERENCE :: u8 where "CAL_PEER_REFERENCE \<equiv> 0xFF"

record cal_request =
  cq_peer_wire_id :: u8
  cq_ref_mm :: int
  cq_persist :: bool

record cal_result =
  cs_attempted :: nat
  cs_valid :: nat
  cs_kept :: nat
  cs_mean_mm :: int
  cs_ref_mm :: int
  cs_error_mm :: int
  cs_old_tx :: u16
  cs_new_tx :: u16
  cs_status :: "errno option"

definition cal_result_zero :: cal_result where
  "cal_result_zero = \<lparr>cs_attempted = 0, cs_valid = 0, cs_kept = 0, cs_mean_mm = 0, cs_ref_mm = 0, cs_error_mm = 0,
     cs_old_tx = 0, cs_new_tx = 0, cs_status = None\<rparr>"

text \<open>One turn of the loop; \<open>samples\<close> is the part of the array that is filled, \<open>None\<close> the distance that is undefined.\<close>

definition batch_exchange ::
  "ss_env \<Rightarrow> u8 \<Rightarrow> ss_state \<times> int list \<times> tx_frame list \<Rightarrow> (ss_state \<times> int list \<times> tx_frame list) option" where
  "batch_exchange x peer_wire_id st =
     (let (ss, samples, air) = st in
      case ss_initiator_range x ss peer_wire_id of
        (None, _, _) \<Rightarrow> None
      | (Some mm, ss, fs) \<Rightarrow> Some (ss, if mm \<noteq> INT32_MIN then samples @ [mm] else samples, air @ fs))"

fun batch_loop ::
  "ss_env list \<Rightarrow> u8 \<Rightarrow> ss_state \<times> int list \<times> tx_frame list \<Rightarrow> (ss_state \<times> int list \<times> tx_frame list) option" where
  "batch_loop [] peer st = Some st"
| "batch_loop (x # xs) peer st =
     (case batch_exchange x peer st of None \<Rightarrow> None | Some st \<Rightarrow> batch_loop xs peer st)"

text \<open>What follows the loop: the result, the live configuration, and the value programmed into the radio, if one
  is; \<open>None\<close> where the arithmetic overflows.\<close>

definition batch_verdict ::
  "cal_request \<Rightarrow> int list \<Rightarrow> cal_result \<Rightarrow> uwb_config \<Rightarrow> (cal_result \<times> uwb_config \<times> u16 option) option" where
  "batch_verdict req samples res cfg =
     (let res = res\<lparr>cs_attempted := CAL_MAX_SAMPLES, cs_valid := length samples\<rparr> in
      if length samples < CAL_MAX_SAMPLES div 4 then Some (res\<lparr>cs_status := Some ENODATA\<rparr>, cfg, None)
      else
        (case cal_filtered_mean samples of
           None \<Rightarrow> None
         | Some None \<Rightarrow> Some (res\<lparr>cs_status := Some EIO\<rparr>, cfg, None)
         | Some (Some (mean, kept)) \<Rightarrow>
             let res = res\<lparr>cs_mean_mm := mean, cs_kept := kept\<rparr> in
             (case i32 (mean - cs_ref_mm res) of
                None \<Rightarrow> None
              | Some err \<Rightarrow>
                  let res = res\<lparr>cs_error_mm := err\<rparr> in
                  if \<not> cq_persist req then Some (res\<lparr>cs_status := None\<rparr>, cfg, None)
                  else
                    let res = res\<lparr>cs_old_tx := cfg_ant_delay_tx cfg\<rparr> in
                    (case cal_solve_tx_delay mean (cs_ref_mm res) (cfg_ant_delay_tx cfg) (cfg_ant_delay_rx cfg) of
                       None \<Rightarrow> None
                     | Some (ok, new_tx) \<Rightarrow>
                         let res = res\<lparr>cs_new_tx := new_tx\<rparr> in
                         if \<not> ok then Some (res\<lparr>cs_status := Some ERANGE\<rparr>, cfg, None)
                         else Some (res\<lparr>cs_status := None\<rparr>, cfg\<lparr>cfg_ant_delay_tx := new_tx\<rparr>, Some new_tx)))))"

text \<open>The whole of \<open>run_batch\<close> on the 128 exchanges \<open>xs\<close>: with the polls it transmits.\<close>

definition run_batch ::
  "ss_env list \<Rightarrow> cal_request \<Rightarrow> cal_result \<Rightarrow> uwb_config \<Rightarrow> ss_state
     \<Rightarrow> (cal_result \<times> uwb_config \<times> u16 option \<times> ss_state \<times> tx_frame list) option" where
  "run_batch xs req res cfg ss =
     (case batch_loop xs (cq_peer_wire_id req) (ss_initiator_enter ss, [], []) of
        None \<Rightarrow> None
      | Some (ss, samples, air) \<Rightarrow>
          (case batch_verdict req samples res cfg of
             None \<Rightarrow> None
           | Some (res, cfg, tx) \<Rightarrow> Some (res, cfg, tx, ss, air)))"

section \<open>The idle responder\<close>

text \<open>What a receive event of length \<open>rx_len\<close> does while no batch runs.\<close>

definition cal_idle_rx ::
  "tx_env \<Rightarrow> int \<Rightarrow> responder \<Rightarrow> u8 list \<Rightarrow> u16 \<Rightarrow> u64 \<Rightarrow> uwb_config \<Rightarrow> responder \<times> response" where
  "cal_idle_rx e now r rx_buf len rx_ts cfg =
     (let flen = unat len in
      if flen > FCS_LEN \<and> flen \<le> RX_BUF_LEN
      then anchor_respond_wave_poll e now (r\<lparr>rsp_guard := None\<rparr>) rx_buf (flen - FCS_LEN) rx_ts cfg True
      else (r, Ignored))"

section \<open>The hand-over\<close>

text \<open>Where the console thread is in \<open>cal_run_execute\<close>, with its local variables: before the test, after each
  access that follows, in the wait, and after the return, with what was returned.\<close>

datatype cal_console =
    CcIdle
  | CcCalled cal_request
  | CcBusy cal_request
  | CcCopied cal_request
  | CcReset cal_request
  | CcWait cal_request
  | CcTaken cal_request
  | CcFetched cal_request cal_result
  | CcReleased cal_request cal_result
  | CcReturned cal_request "errno option" cal_result

text \<open>Where the main thread is in its loop; in a batch, with the result it builds, the initiator's state before it,
  the exchanges made so far, the samples and the polls.\<close>

datatype cal_main =
    CmPoll
  | CmTaken
  | CmBatch cal_result ss_state "ss_env list" "int list" "tx_frame list"
  | CmStore cal_result
  | CmGive

text \<open>\<open>cw_history\<close> records the calls and the finished batches; it is not state of the program.\<close>

datatype cal_event =
    Called cal_request
  | Batch "ss_env list" uwb_config ss_state cal_result uwb_config "tx_frame list"

record cal_world =
  cw_req :: cal_request
  cw_res :: cal_result
  cw_busy :: bool
  cw_req_sem :: bool
  cw_done_sem :: bool
  cw_console :: cal_console
  cw_main :: cal_main
  cw_cfg :: uwb_config
  cw_radio_tx :: u16
  cw_ss :: ss_state
  cw_resp :: responder
  cw_history :: "cal_event list"

definition cal_boot :: "uwb_config \<Rightarrow> responder \<Rightarrow> cal_world" where
  "cal_boot cfg r = \<lparr>cw_req = \<lparr>cq_peer_wire_id = 0, cq_ref_mm = 0, cq_persist = False\<rparr>, cw_res = cal_result_zero,
     cw_busy = False, cw_req_sem = False, cw_done_sem = False, cw_console = CcIdle, cw_main = CmPoll, cw_cfg = cfg,
     cw_radio_tx = cfg_ant_delay_tx cfg, cw_ss = ss_boot, cw_resp = r, cw_history = []\<rparr>"

text \<open>The console, in the order of the lines of \<open>cal_run_execute\<close>. The wait may run out only where \<open>late\<close> says so.\<close>

inductive console_step :: "bool \<Rightarrow> cal_world \<Rightarrow> cal_world \<Rightarrow> bool" for late where
  cc_call: "cw_console w = CcIdle \<or> (\<exists>r rc out. cw_console w = CcReturned r rc out) \<Longrightarrow>
    console_step late w (w\<lparr>cw_console := CcCalled req, cw_history := cw_history w @ [Called req]\<rparr>)"
| cc_refuse: "cw_console w = CcCalled req \<Longrightarrow> cw_busy w \<Longrightarrow>
    console_step late w (w\<lparr>cw_console := CcReturned req (Some EBUSY) cal_result_zero\<rparr>)"
| cc_enter: "cw_console w = CcCalled req \<Longrightarrow> \<not> cw_busy w \<Longrightarrow>
    console_step late w (w\<lparr>cw_busy := True, cw_console := CcBusy req\<rparr>)"
| cc_copy: "cw_console w = CcBusy req \<Longrightarrow> console_step late w (w\<lparr>cw_req := req, cw_console := CcCopied req\<rparr>)"
| cc_reset: "cw_console w = CcCopied req \<Longrightarrow> console_step late w (w\<lparr>cw_done_sem := False, cw_console := CcReset req\<rparr>)"
| cc_give: "cw_console w = CcReset req \<Longrightarrow> console_step late w (w\<lparr>cw_req_sem := True, cw_console := CcWait req\<rparr>)"
| cc_take: "cw_console w = CcWait req \<Longrightarrow> cw_done_sem w \<Longrightarrow>
    console_step late w (w\<lparr>cw_done_sem := False, cw_console := CcTaken req\<rparr>)"
| cc_expire: "late \<Longrightarrow> cw_console w = CcWait req \<Longrightarrow>
    console_step late w (w\<lparr>cw_busy := False, cw_console := CcReturned req (Some ETIMEDOUT) cal_result_zero\<rparr>)"
| cc_fetch: "cw_console w = CcTaken req \<Longrightarrow> console_step late w (w\<lparr>cw_console := CcFetched req (cw_res w)\<rparr>)"
| cc_release: "cw_console w = CcFetched req out \<Longrightarrow>
    console_step late w (w\<lparr>cw_busy := False, cw_console := CcReleased req out\<rparr>)"
| cc_return: "cw_console w = CcReleased req out \<Longrightarrow>
    console_step late w (w\<lparr>cw_console := CcReturned req (cs_status (cw_res w)) out\<rparr>)"

text \<open>The main thread. A batch whose arithmetic is undefined has no step. The two events of one \<open>k_poll\<close> are taken
  one by one here, in either order, which only adds behaviours.\<close>

inductive main_step :: "cal_world \<Rightarrow> cal_world \<Rightarrow> bool" where
  cm_frame: "cw_main w = CmPoll \<Longrightarrow> cal_idle_rx e now (cw_resp w) buf len ts (cw_cfg w) = (r, out) \<Longrightarrow>
    main_step w (w\<lparr>cw_resp := r\<rparr>)"
| cm_take: "cw_main w = CmPoll \<Longrightarrow> cw_req_sem w \<Longrightarrow> main_step w (w\<lparr>cw_req_sem := False, cw_main := CmTaken\<rparr>)"
| cm_begin: "cw_main w = CmTaken \<Longrightarrow>
    main_step w (w\<lparr>cw_main := CmBatch (cal_result_zero\<lparr>cs_ref_mm := cq_ref_mm (cw_req w)\<rparr>) (cw_ss w) [] [] [],
      cw_ss := ss_initiator_enter (cw_ss w)\<rparr>)"
| cm_exchange: "cw_main w = CmBatch res ss0 xs samples air \<Longrightarrow> length xs < CAL_MAX_SAMPLES \<Longrightarrow>
    batch_exchange x (cq_peer_wire_id (cw_req w)) (cw_ss w, samples, air) = Some (ss, samples', air') \<Longrightarrow>
    main_step w (w\<lparr>cw_ss := ss, cw_main := CmBatch res ss0 (xs @ [x]) samples' air'\<rparr>)"
| cm_verdict: "cw_main w = CmBatch res ss0 xs samples air \<Longrightarrow> length xs = CAL_MAX_SAMPLES \<Longrightarrow>
    batch_verdict (cw_req w) samples res (cw_cfg w) = Some (res', cfg, tx) \<Longrightarrow>
    main_step w (w\<lparr>cw_cfg := cfg, cw_radio_tx := (case tx of None \<Rightarrow> cw_radio_tx w | Some t \<Rightarrow> t),
      cw_main := CmStore res', cw_history := cw_history w @ [Batch xs (cw_cfg w) ss0 res' cfg air]\<rparr>)"
| cm_store: "cw_main w = CmStore res \<Longrightarrow> main_step w (w\<lparr>cw_res := res, cw_main := CmGive\<rparr>)"
| cm_give: "cw_main w = CmGive \<Longrightarrow> main_step w (w\<lparr>cw_done_sem := True, cw_main := CmPoll\<rparr>)"

inductive cal_reach :: "bool \<Rightarrow> uwb_config \<Rightarrow> cal_world \<Rightarrow> bool" for late cfg0 where
  cal_start: "cal_reach late cfg0 (cal_boot cfg0 r)"
| cal_console: "cal_reach late cfg0 w \<Longrightarrow> console_step late w w' \<Longrightarrow> cal_reach late cfg0 w'"
| cal_main: "cal_reach late cfg0 w \<Longrightarrow> main_step w w' \<Longrightarrow> cal_reach late cfg0 w'"

inductive_cases console_cases: "console_step late w w'"
inductive_cases main_cases: "main_step w w'"

section \<open>What a batch finds\<close>

lemma batch_loop_snoc:
  "batch_loop (xs @ [x]) p st = (case batch_loop xs p st of None \<Rightarrow> None | Some st \<Rightarrow> batch_exchange x p st)"
  by (induction xs arbitrary: st) (simp_all split: option.splits)

text \<open>What an exchange yields does not depend on the polls before it.\<close>

definition exchange_mm :: "ss_env \<Rightarrow> int option" where
  "exchange_mm x = fst (ss_initiator_range x ss_boot 0)"

lemma range_mm: "fst (ss_initiator_range x ss p) = exchange_mm x"
  by (simp add: exchange_mm_def ss_initiator_range_def Let_def split: ss_verdict.split)

definition distances :: "ss_env list \<Rightarrow> int list" where
  "distances xs = filter (\<lambda>mm. mm \<noteq> INT32_MIN) (map (\<lambda>x. the (exchange_mm x)) xs)"

definition poll_to :: "u8 \<Rightarrow> tx_frame \<Rightarrow> bool" where
  "poll_to p f \<longleftrightarrow> (\<exists>q. tx_data f = tx_poll_ref[2 := q, 10 := p])"

lemma batch_exchange_spec:
  assumes "batch_exchange x p (ss, samples, air) = Some (ss', samples', air')" and "ss_inv ss"
  shows "ss_inv ss'" and "samples' = samples @ distances [x]" and "\<exists>fs. air' = air @ fs \<and> length fs \<le> 1 \<and> (\<forall>f\<in>set fs. poll_to p f)"
proof -
  obtain r s1 fs where r: "ss_initiator_range x ss p = (r, s1, fs)" by (metis surj_pair)
  then have mm: "r = exchange_mm x" using range_mm [of x ss p] by simp
  have s: "s1 = ss'" "samples' = samples @ distances [x]" "air' = air @ fs" using assms(1) r mm
    by (auto simp: batch_exchange_def distances_def split: option.splits)
  have i: "ss_inv s1" using range_inv [OF assms(2), of x p] r by simp
  have f: "length fs \<le> 1 \<and> (\<forall>f\<in>set fs. poll_to p f)"
    using range_frames [of x ss p] r ss_poll_ref [OF assms(2), of p] by (auto simp: poll_to_def split: if_splits)
  from s i f show "ss_inv ss'" "samples' = samples @ distances [x]"
    "\<exists>fs. air' = air @ fs \<and> length fs \<le> 1 \<and> (\<forall>f\<in>set fs. poll_to p f)" by blast+
qed

lemma batch_loop_spec:
  assumes "batch_loop xs p (ss, samples, air) = Some (ss', samples', air')" and "ss_inv ss"
  shows "ss_inv ss' \<and> samples' = samples @ distances xs \<and>
    (\<exists>fs. air' = air @ fs \<and> length fs \<le> length xs \<and> (\<forall>f\<in>set fs. poll_to p f))"
  using assms
proof (induction xs arbitrary: ss samples air)
  case (Cons x xs)
  then obtain s1 m1 a1 where x: "batch_exchange x p (ss, samples, air) = Some (s1, m1, a1)"
    and l: "batch_loop xs p (s1, m1, a1) = Some (ss', samples', air')" by (auto split: option.splits)
  note e = batch_exchange_spec [OF x Cons.prems(2)]
  obtain fs where f: "a1 = air @ fs" "length fs \<le> 1" "\<forall>f\<in>set fs. poll_to p f" using e(3) by blast
  from Cons.IH [OF l e(1)] obtain fs' where g: "ss_inv ss'" "samples' = m1 @ distances xs" "air' = a1 @ fs'"
    "length fs' \<le> length xs" "\<forall>f\<in>set fs'. poll_to p f" by blast
  have "samples' = samples @ distances (x # xs)" using e(2) g(2) by (simp add: distances_def)
  moreover have "air' = air @ (fs @ fs') \<and> length (fs @ fs') \<le> length (x # xs) \<and> (\<forall>f\<in>set (fs @ fs'). poll_to p f)"
    using f g by auto
  ultimately show ?case using g(1) by blast
qed (simp add: distances_def)

text \<open>The correction of the delay cancels the error to half a delay unit.\<close>

lemma solved_delay:
  assumes "cal_solve_tx_delay mean ref tx rx = Some (True, new)" and "\<bar>mean - ref\<bar> \<le> 2147481"
    and "uint tx + uint rx < 65536" and "uint rx \<le> 45000"
  shows "\<bar>(mean - ref) * 1000 - (uint new - uint tx) * 2340\<bar> \<le> 1170"
proof -
  obtain t where t: "cal_solve_step mean ref (tx + rx) = Some t" "uint new = uint t - uint rx"
    using solve_tx_ok [OF assms(1,3)] by blast
  have s: "uint (tx + rx) = uint tx + uint rx"
    using assms(3) by (simp add: uint_word_ariths mod_pos_pos_trivial)
  have n: "14000 \<le> uint new" "uint new \<le> 19000" using solve_tx_range [OF assms(1)] by simp_all
  have "0 < uint t" "uint t < 65000" using n t(2) assms(4) uint_ge_0 [of rx] by linarith+
  from solve_step_residual [OF assms(2) t(1) this] show ?thesis using s t(2) by (simp add: algebra_simps)
qed

lemma verdict_sound:
  assumes "batch_verdict req samples (cal_result_zero\<lparr>cs_ref_mm := cq_ref_mm req\<rparr>) cfg = Some (res, cfg', tx)"
    and "\<not> length samples < 32" and "cal_filtered_mean samples = Some (Some (mean, kept))"
  shows "cs_valid res = length samples \<and> cs_ref_mm res = cq_ref_mm req \<and> cs_mean_mm res = mean \<and> cs_kept res = kept \<and>
    cs_error_mm res = mean - cq_ref_mm req \<and> cs_status res \<in> {None, Some ERANGE} \<and>
    (if cq_persist req \<and> cs_status res = None
     then cfg' = cfg\<lparr>cfg_ant_delay_tx := cs_new_tx res\<rparr> \<and> tx = Some (cs_new_tx res) \<and>
       cal_solve_tx_delay mean (cq_ref_mm req) (cfg_ant_delay_tx cfg) (cfg_ant_delay_rx cfg) = Some (True, cs_new_tx res)
     else cfg' = cfg \<and> tx = None)"
proof -
  have "i32 (mean - cq_ref_mm req) = Some (mean - cq_ref_mm req)"
    using assms by (cases "i32 (mean - cq_ref_mm req)") (auto simp: batch_verdict_def Let_def i32_def split: if_splits)
  then show ?thesis using assms by (auto simp: batch_verdict_def Let_def split: option.splits if_splits)
qed

text \<open>C13: A batch is honest: it reports a mean only over at least 32 genuine distances, of which the filter kept more than
  half, and the mean lies between the smallest and the largest; it changes the delay, in the live configuration
  and in the radio at once, exactly when it was asked to and succeeded, to a value in the legal band that
  cancels the measured error to half a delay unit; and all it transmitted are at most 128 reference polls to
  the requested peer.\<close>

theorem cal_batch_sound:
  assumes "run_batch xs req (cal_result_zero\<lparr>cs_ref_mm := cq_ref_mm req\<rparr>) cfg ss = Some (res, cfg', tx, ss', air)"
    and "length xs = 128" and "ss_inv ss" and "\<And>mm. mm \<in> set (distances xs) \<Longrightarrow> lo \<le> mm \<and> mm \<le> hi" and "hi - lo < 357913941"
  shows "cs_valid res = length (distances xs) \<and> cs_ref_mm res = cq_ref_mm req \<and>
    (cs_status res = Some ENODATA \<longleftrightarrow> length (distances xs) < 32) \<and> cs_status res \<in> {None, Some ENODATA, Some ERANGE} \<and>
    (32 \<le> length (distances xs) \<longrightarrow> lo \<le> cs_mean_mm res \<and> cs_mean_mm res \<le> hi \<and> length (distances xs) div 2 < cs_kept res \<and>
       cs_error_mm res = cs_mean_mm res - cq_ref_mm req) \<and>
    (if cq_persist req \<and> cs_status res = None
     then cfg' = cfg\<lparr>cfg_ant_delay_tx := cs_new_tx res\<rparr> \<and> tx = Some (cs_new_tx res) \<and> 14000 \<le> uint (cs_new_tx res) \<and>
       uint (cs_new_tx res) \<le> 19000 \<and>
       (\<bar>cs_error_mm res\<bar> \<le> 2147481 \<and> uint (cfg_ant_delay_tx cfg) + uint (cfg_ant_delay_rx cfg) < 65536 \<and>
          uint (cfg_ant_delay_rx cfg) \<le> 45000 \<longrightarrow>
        \<bar>cs_error_mm res * 1000 - (uint (cs_new_tx res) - uint (cfg_ant_delay_tx cfg)) * 2340\<bar> \<le> 1170)
     else cfg' = cfg \<and> tx = None) \<and>
    length air \<le> 128 \<and> (\<forall>f\<in>set air. poll_to (cq_peer_wire_id req) f)"
proof -
  let ?res = "cal_result_zero\<lparr>cs_ref_mm := cq_ref_mm req\<rparr>" and ?n = "length (distances xs)"
  obtain samples where l: "batch_loop xs (cq_peer_wire_id req) (ss_initiator_enter ss, [], []) = Some (ss', samples, air)"
    and v: "batch_verdict req samples ?res cfg = Some (res, cfg', tx)"
    using assms(1) by (auto simp: run_batch_def split: option.splits)
  have s: "samples = distances xs" and a: "length air \<le> 128 \<and> (\<forall>f\<in>set air. poll_to (cq_peer_wire_id req) f)"
    using batch_loop_spec [OF l] assms(2,3) by auto
  have n: "?n \<le> 128" using assms(2) by (metis distances_def length_filter_le length_map)
  show ?thesis
  proof (cases "?n < 32")
    case True
    then show ?thesis using v a by (auto simp: s batch_verdict_def Let_def)
  next
    case False
    then have "distances xs \<noteq> []" by auto
    from filtered_mean_ok [OF this n assms(4,5)] obtain mean kept where m: "cal_filtered_mean (distances xs) = Some (Some (mean, kept))"
      "lo \<le> mean" "mean \<le> hi" "?n div 2 < kept" by auto
    note vs = verdict_sound [OF v False [folded s] m(1) [folded s]]
    show ?thesis
    proof (cases "cq_persist req \<and> cs_status res = None")
      case True
      then have c: "cal_solve_tx_delay mean (cq_ref_mm req) (cfg_ant_delay_tx cfg) (cfg_ant_delay_rx cfg) = Some (True, cs_new_tx res)"
        using vs by simp
      show ?thesis using vs True \<open>\<not> ?n < 32\<close> m(2-4) a solved_delay [OF c] solve_tx_range [OF c] by (simp add: s)
    next
      case False
      then show ?thesis using vs \<open>\<not> ?n < 32\<close> m(2-4) a by (auto simp: s)
    qed
  qed
qed

section \<open>The hand-over is exact\<close>

definition quiet :: "cal_world \<Rightarrow> bool" where
  "quiet w \<longleftrightarrow> \<not> cw_req_sem w \<and> \<not> cw_done_sem w \<and> cw_main w = CmPoll"

definition pending :: "cal_request \<Rightarrow> cal_world \<Rightarrow> bool" where
  "pending req w \<longleftrightarrow> (\<exists>h. cw_history w = h @ [Called req])"

definition blank_result :: "cal_request \<Rightarrow> cal_result" where
  "blank_result req = cal_result_zero\<lparr>cs_ref_mm := cq_ref_mm req\<rparr>"

definition served :: "cal_request \<Rightarrow> cal_result \<Rightarrow> cal_world \<Rightarrow> bool" where
  "served req res w \<longleftrightarrow> (\<exists>h xs cfg ss0 tx ss air.
     cw_history w = h @ [Called req, Batch xs cfg ss0 res (cw_cfg w) air] \<and> length xs = 128 \<and> ss_inv ss0 \<and>
     run_batch xs req (blank_result req) cfg ss0 = Some (res, cw_cfg w, tx, ss, air))"

fun batch_inv :: "cal_request \<Rightarrow> cal_world \<Rightarrow> cal_main \<Rightarrow> bool" where
  "batch_inv req w CmPoll = (cw_req_sem w \<and> \<not> cw_done_sem w \<and> pending req w \<or>
     \<not> cw_req_sem w \<and> cw_done_sem w \<and> served req (cw_res w) w)"
| "batch_inv req w CmTaken = (\<not> cw_req_sem w \<and> \<not> cw_done_sem w \<and> pending req w)"
| "batch_inv req w (CmBatch res ss0 xs samples air) = (\<not> cw_req_sem w \<and> \<not> cw_done_sem w \<and> pending req w \<and>
     res = blank_result req \<and> ss_inv ss0 \<and>
     batch_loop xs (cq_peer_wire_id req) (ss_initiator_enter ss0, [], []) = Some (cw_ss w, samples, air))"
| "batch_inv req w (CmStore res) = (\<not> cw_req_sem w \<and> \<not> cw_done_sem w \<and> served req res w)"
| "batch_inv req w CmGive = (\<not> cw_req_sem w \<and> \<not> cw_done_sem w \<and> served req (cw_res w) w)"

fun console_inv :: "cal_world \<Rightarrow> cal_console \<Rightarrow> bool" where
  "console_inv w CcIdle = (quiet w \<and> \<not> cw_busy w)"
| "console_inv w (CcCalled req) = (quiet w \<and> \<not> cw_busy w \<and> pending req w)"
| "console_inv w (CcBusy req) = (quiet w \<and> cw_busy w \<and> pending req w)"
| "console_inv w (CcCopied req) = (quiet w \<and> cw_busy w \<and> pending req w \<and> cw_req w = req)"
| "console_inv w (CcReset req) = (quiet w \<and> cw_busy w \<and> pending req w \<and> cw_req w = req)"
| "console_inv w (CcWait req) = (cw_busy w \<and> cw_req w = req \<and> batch_inv req w (cw_main w))"
| "console_inv w (CcTaken req) = (quiet w \<and> cw_busy w \<and> served req (cw_res w) w)"
| "console_inv w (CcFetched req out) = (quiet w \<and> cw_busy w \<and> out = cw_res w \<and> served req out w)"
| "console_inv w (CcReleased req out) = (quiet w \<and> \<not> cw_busy w \<and> out = cw_res w \<and> served req out w)"
| "console_inv w (CcReturned req rc out) = (quiet w \<and> \<not> cw_busy w \<and> rc = cs_status out \<and> served req out w)"

definition cal_inv :: "cal_world \<Rightarrow> bool" where
  "cal_inv w \<longleftrightarrow> ss_inv (cw_ss w) \<and> console_inv w (cw_console w)"

text \<open>An update of what the predicates do not read keeps them.\<close>

lemma keeps [simp]:
  "pending r (w\<lparr>cw_req := q\<rparr>) = pending r w" "pending r (w\<lparr>cw_busy := b\<rparr>) = pending r w"
  "pending r (w\<lparr>cw_req_sem := b\<rparr>) = pending r w" "pending r (w\<lparr>cw_done_sem := b\<rparr>) = pending r w"
  "pending r (w\<lparr>cw_console := c\<rparr>) = pending r w" "pending r (w\<lparr>cw_main := m\<rparr>) = pending r w"
  "pending r (w\<lparr>cw_ss := ss\<rparr>) = pending r w" "pending r (w\<lparr>cw_resp := rs\<rparr>) = pending r w"
  "served r res (w\<lparr>cw_busy := b\<rparr>) = served r res w" "served r res (w\<lparr>cw_req_sem := b\<rparr>) = served r res w"
  "served r res (w\<lparr>cw_done_sem := b\<rparr>) = served r res w" "served r res (w\<lparr>cw_console := c\<rparr>) = served r res w"
  "served r res (w\<lparr>cw_main := m\<rparr>) = served r res w" "served r res (w\<lparr>cw_res := x\<rparr>) = served r res w"
  "served r res (w\<lparr>cw_resp := rs\<rparr>) = served r res w"
  by (simp_all add: pending_def served_def)

lemma console_keeps_inv:
  assumes "console_step False w w'" and "cal_inv w"
  shows "cal_inv w'"
  using assms(1)
proof (rule console_cases)
  fix req
  assume "w' = w\<lparr>cw_console := CcCalled req, cw_history := cw_history w @ [Called req]\<rparr>"
    and "cw_console w = CcIdle \<or> (\<exists>r rc out. cw_console w = CcReturned r rc out)"
  then show ?thesis using assms(2) by (auto simp: cal_inv_def quiet_def pending_def)
next
  fix req
  assume "w' = w\<lparr>cw_done_sem := False, cw_console := CcTaken req\<rparr>" "cw_console w = CcWait req" "cw_done_sem w"
  then show ?thesis using assms(2) by (cases "cw_main w") (auto simp: cal_inv_def quiet_def)
qed (use assms(2) in \<open>auto simp: cal_inv_def quiet_def\<close>)

lemma main_waits:
  assumes "main_step w w'" and "cal_inv w" and "\<not> (\<exists>r. cw_console w = CcWait r)"
  shows "\<exists>r. w' = w\<lparr>cw_resp := r\<rparr>"
proof -
  have "quiet w" using assms(2,3) by (cases "cw_console w") (simp_all add: cal_inv_def)
  then show ?thesis using assms(1) by (auto simp: quiet_def elim: main_cases)
qed

lemma cm_exchange_inv:
  assumes "batch_inv req w (CmBatch res ss0 xs samples air)" and "cw_req w = req" and "ss_inv (cw_ss w)"
    and "batch_exchange x (cq_peer_wire_id (cw_req w)) (cw_ss w, samples, air) = Some (ss, samples', air')"
  shows "ss_inv ss \<and> batch_inv req (w\<lparr>cw_ss := ss, cw_main := m\<rparr>) (CmBatch res ss0 (xs @ [x]) samples' air')"
  using assms batch_exchange_spec(1) [OF assms(4,3)] by (simp add: batch_loop_snoc)

lemma cm_verdict_inv:
  assumes "batch_inv req w (CmBatch res ss0 xs samples air)" and "cw_req w = req" and "length xs = 128"
    and "batch_verdict (cw_req w) samples res (cw_cfg w) = Some (res', cfg, tx)"
  shows "batch_inv req (w\<lparr>cw_cfg := cfg, cw_radio_tx := t, cw_main := m,
    cw_history := cw_history w @ [Batch xs (cw_cfg w) ss0 res' cfg air]\<rparr>) (CmStore res')"
proof -
  obtain h where h: "cw_history w = h @ [Called req]" using assms(1) by (auto simp: pending_def)
  have "run_batch xs req (blank_result req) (cw_cfg w) ss0 = Some (res', cfg, tx, cw_ss w, air)"
    using assms by (simp add: run_batch_def)
  then show ?thesis using assms(1,3) h by (simp add: served_def)
qed

lemma main_keeps_inv:
  assumes "main_step w w'" and "cal_inv w"
  shows "cal_inv w'"
proof (cases "\<exists>r. cw_console w = CcWait r")
  case False
  obtain r where "w' = w\<lparr>cw_resp := r\<rparr>" using main_waits [OF assms False] by blast
  then show ?thesis using assms(2) False by (cases "cw_console w") (simp_all add: cal_inv_def quiet_def)
next
  case True
  then obtain req where c: "cw_console w = CcWait req" by blast
  then have i: "ss_inv (cw_ss w)" "cw_busy w" "cw_req w = req" "batch_inv req w (cw_main w)"
    using assms(2) by (simp_all add: cal_inv_def)
  from assms(1) show ?thesis
  proof (rule main_cases)
    fix e now buf len ts r out
    assume "w' = w\<lparr>cw_resp := r\<rparr>"
    then show ?thesis using i c by (cases "cw_main w") (auto simp: cal_inv_def)
  next
    fix res ss0 xs samples air x ss samples' air'
    assume w': "w' = w\<lparr>cw_ss := ss, cw_main := CmBatch res ss0 (xs @ [x]) samples' air'\<rparr>"
      and m: "cw_main w = CmBatch res ss0 xs samples air"
      and b: "batch_exchange x (cq_peer_wire_id (cw_req w)) (cw_ss w, samples, air) = Some (ss, samples', air')"
    have "batch_inv req w (CmBatch res ss0 xs samples air)" using i(4) m by simp
    from cm_exchange_inv [OF this i(3,1) b] show ?thesis using i c by (simp add: cal_inv_def w')
  next
    fix res ss0 xs samples air res' cfg tx
    assume w': "w' = w\<lparr>cw_cfg := cfg, cw_radio_tx := case tx of None \<Rightarrow> cw_radio_tx w | Some t \<Rightarrow> t,
        cw_main := CmStore res', cw_history := cw_history w @ [Batch xs (cw_cfg w) ss0 res' cfg air]\<rparr>"
      and m: "cw_main w = CmBatch res ss0 xs samples air" and l: "length xs = 128"
      and v: "batch_verdict (cw_req w) samples res (cw_cfg w) = Some (res', cfg, tx)"
    have "batch_inv req w (CmBatch res ss0 xs samples air)" using i(4) m by simp
    from cm_verdict_inv [OF this i(3) l v] show ?thesis using i c by (simp add: cal_inv_def w')
  qed (use i c in \<open>auto simp: cal_inv_def blank_result_def\<close>)
qed

lemma cal_reach_inv: "cal_reach False cfg0 w \<Longrightarrow> cal_inv w"
proof (induction rule: cal_reach.induct)
  case (cal_start r)
  then show ?case using ss_boot_inv by (simp add: cal_inv_def cal_boot_def quiet_def)
qed (blast intro: console_keeps_inv main_keeps_inv)+

text \<open>C7: The console gets the answer to its own question: in any interleaving of the two threads in which no wait runs
  out, a command that returns has been served by exactly one batch, begun after the call, of 128 exchanges
  with the requested peer, and what it returns is that batch's result and status, with the live delay as that
  batch left it; and a command that waits is never forgotten.\<close>

theorem calibration_served:
  assumes "cal_reach False cfg0 w"
  shows "(\<forall>req rc out. cw_console w = CcReturned req rc out \<longrightarrow> rc = cs_status out \<and>
      (\<exists>h xs cfg ss0 tx ss air. cw_history w = h @ [Called req, Batch xs cfg ss0 out (cw_cfg w) air] \<and> length xs = 128 \<and>
        run_batch xs req (blank_result req) cfg ss0 = Some (out, cw_cfg w, tx, ss, air))) \<and>
    (\<forall>req. cw_console w = CcWait req \<longrightarrow> cw_done_sem w \<or> cw_req_sem w \<or> cw_main w \<noteq> CmPoll)"
proof -
  have i: "console_inv w (cw_console w)" using cal_reach_inv [OF assms] by (simp add: cal_inv_def)
  have "cw_done_sem w \<or> cw_req_sem w \<or> cw_main w \<noteq> CmPoll" if "cw_console w = CcWait req" for req
    using i that by (cases "cw_main w") auto
  moreover have "rc = cs_status out \<and> served req out w" if "cw_console w = CcReturned req rc out" for req rc out
    using i that by simp
  ultimately show ?thesis unfolding served_def by blast
qed

text \<open>The live delay and the radio's register agree in every interleaving, whatever runs out: so the timestamp a
  response of this board reports, which adds the configured delay, is the one the radio realises. Nothing
  else of the configuration changes.\<close>

lemma verdict_delay:
  assumes "batch_verdict req samples res cfg = Some (res', cfg', tx)"
  shows "(case tx of None \<Rightarrow> cfg' = cfg | Some t \<Rightarrow> cfg' = cfg\<lparr>cfg_ant_delay_tx := t\<rparr>)"
  using assms by (auto simp: batch_verdict_def Let_def split: if_splits option.splits)

lemma live_is_radio:
  assumes "cal_reach late cfg0 w"
  shows "cw_cfg w = cfg0\<lparr>cfg_ant_delay_tx := cw_radio_tx w\<rparr>"
  using assms
proof (induction rule: cal_reach.induct)
  case (cal_console w w')
  have "cw_cfg w' = cw_cfg w \<and> cw_radio_tx w' = cw_radio_tx w" using cal_console(2) by (rule console_cases) simp_all
  then show ?case using cal_console.IH by simp
next
  case (cal_main w w')
  from cal_main(2) show ?case
  proof (rule main_cases)
    fix res ss0 xs samples air res' cfg' tx
    assume w': "w' = w\<lparr>cw_cfg := cfg', cw_radio_tx := case tx of None \<Rightarrow> cw_radio_tx w | Some t \<Rightarrow> t, cw_main := CmStore res',
        cw_history := cw_history w @ [Batch xs (cw_cfg w) ss0 res' cfg' air]\<rparr>"
      and v: "batch_verdict (cw_req w) samples res (cw_cfg w) = Some (res', cfg', tx)"
    show ?thesis using verdict_delay [OF v] cal_main.IH by (cases tx) (simp_all add: w')
  qed (use cal_main.IH in simp_all)
qed (simp add: cal_boot_def)

section \<open>Runs\<close>

definition cal_cfg :: uwb_config where "cal_cfg = uwb_config_set_defaults"

definition cal_responder :: responder where
  "cal_responder = \<lparr>tx_resp_msg = tx_resp_boot, last_ms = 0, suppressed = 0, rsp_seq = 0, rsp_guard = None\<rparr>"

definition peer_req :: cal_request where "peer_req = \<lparr>cq_peer_wire_id = 2, cq_ref_mm = 1000, cq_persist = False\<rparr>"

definition ref_req :: cal_request where "ref_req = \<lparr>cq_peer_wire_id = 0xFF, cq_ref_mm = 3000, cq_persist = True\<rparr>"

text \<open>An exchange that fails, and a batch of them.\<close>

lemma failed_exchange: "exchange_mm sample_exchange = Some INT32_MIN"
  by (simp add: exchange_mm_def ss_initiator_range_def sample_exchange_def Let_def)

lemma fail_step:
  assumes "cal_reach late cfg0 w" and "cw_main w = CmBatch res ss0 xs [] []" and "length xs < 128"
  shows "\<exists>w'. cal_reach late cfg0 w' \<and> cw_main w' = CmBatch res ss0 (xs @ [sample_exchange]) [] [] \<and>
    w' = w\<lparr>cw_main := cw_main w', cw_ss := cw_ss w'\<rparr>"
proof -
  obtain ss where "batch_exchange sample_exchange (cq_peer_wire_id (cw_req w)) (cw_ss w, [], []) = Some (ss, [], [])"
    by (simp add: batch_exchange_def ss_initiator_range_def sample_exchange_def Let_def)
  from cal_main [OF assms(1) cm_exchange [OF assms(2,3) this]] show ?thesis
    by (intro exI [of _ "w\<lparr>cw_ss := ss, cw_main := CmBatch res ss0 (xs @ [sample_exchange]) [] []\<rparr>"]) simp
qed

lemma fail_run:
  assumes "cal_reach late cfg0 w" and "cw_main w = CmBatch res ss0 xs [] []" and "length xs + k = 128"
  shows "\<exists>ss xs'. cal_reach late cfg0 (w\<lparr>cw_main := CmBatch res ss0 xs' [] [], cw_ss := ss\<rparr>) \<and> length xs' = 128"
  using assms
proof (induction k arbitrary: w xs)
  case 0
  then have "w = w\<lparr>cw_main := CmBatch res ss0 xs [] [], cw_ss := cw_ss w\<rparr>" by simp
  with 0 show ?case by (metis add_0_right)
next
  case (Suc k)
  then have "length xs < 128" by simp
  from fail_step [OF Suc.prems(1,2) this] obtain ss where
    w1: "cal_reach late cfg0 (w\<lparr>cw_main := CmBatch res ss0 (xs @ [sample_exchange]) [] [], cw_ss := ss\<rparr>)" by metis
  have "length (xs @ [sample_exchange]) + k = 128" using Suc.prems(3) by simp
  from Suc.IH [OF w1 _ this] show ?case by simp
qed

text \<open>Asking, up to the wait; and the rest of a batch that fails, from its taking to the end.\<close>

lemma ask:
  assumes "cal_reach late cfg0 w" and "cw_console w = CcIdle \<or> (\<exists>r rc out. cw_console w = CcReturned r rc out)" and "\<not> cw_busy w"
  shows "cal_reach late cfg0 (w\<lparr>cw_console := CcWait req, cw_history := cw_history w @ [Called req], cw_busy := True,
    cw_req := req, cw_done_sem := False, cw_req_sem := True\<rparr>)"
proof -
  let ?w1 = "w\<lparr>cw_console := CcCalled req, cw_history := cw_history w @ [Called req]\<rparr>"
  let ?w2 = "?w1\<lparr>cw_busy := True, cw_console := CcBusy req\<rparr>"
  let ?w3 = "?w2\<lparr>cw_req := req, cw_console := CcCopied req\<rparr>"
  let ?w4 = "?w3\<lparr>cw_done_sem := False, cw_console := CcReset req\<rparr>"
  have "cal_reach late cfg0 ?w1" by (rule cal_console [OF assms(1) cc_call [OF assms(2)]])
  then have "cal_reach late cfg0 ?w2" by (rule cal_console [OF _ cc_enter]) (simp_all add: assms(3))
  then have "cal_reach late cfg0 ?w3" by (rule cal_console [OF _ cc_copy]) simp
  then have "cal_reach late cfg0 ?w4" by (rule cal_console [OF _ cc_reset]) simp
  then have "cal_reach late cfg0 (?w4\<lparr>cw_req_sem := True, cw_console := CcWait req\<rparr>)"
    by (rule cal_console [OF _ cc_give]) simp
  then show ?thesis by (rule back_subst [where P = "cal_reach late cfg0"]) simp
qed

lemma begin_batch:
  assumes "cal_reach late cfg0 w" and "cw_main w = CmPoll" and "cw_req_sem w"
  shows "\<exists>w'. cal_reach late cfg0 w' \<and> cw_main w' = CmBatch (blank_result (cw_req w)) (cw_ss w) [] [] [] \<and>
    w' = w\<lparr>cw_req_sem := False, cw_main := cw_main w', cw_ss := cw_ss w'\<rparr>"
proof -
  have "cal_reach late cfg0 (w\<lparr>cw_req_sem := False, cw_main := CmTaken\<rparr>)" by (rule cal_main [OF assms(1) cm_take [OF assms(2,3)]])
  from cal_main [OF this cm_begin] show ?thesis
    by (intro exI [of _ "w\<lparr>cw_req_sem := False, cw_main := CmBatch (blank_result (cw_req w)) (cw_ss w) [] [] [],
        cw_ss := ss_initiator_enter (cw_ss w)\<rparr>"]) (simp add: blank_result_def)
qed

lemma end_batch:
  assumes "cal_reach late cfg0 w" and "cw_main w = CmBatch res ss0 xs [] []" and "length xs = 128"
  shows "\<exists>w' out. cal_reach late cfg0 w' \<and> cs_status out = Some ENODATA \<and> cs_ref_mm out = cs_ref_mm res \<and>
    w' = w\<lparr>cw_main := CmPoll, cw_res := out, cw_done_sem := True, cw_history := cw_history w @ [Batch xs (cw_cfg w) ss0 out (cw_cfg w) []]\<rparr>"
proof -
  let ?out = "res\<lparr>cs_attempted := 128, cs_valid := 0, cs_status := Some ENODATA\<rparr>"
  let ?w1 = "w\<lparr>cw_main := CmStore ?out, cw_history := cw_history w @ [Batch xs (cw_cfg w) ss0 ?out (cw_cfg w) []]\<rparr>"
  have v: "batch_verdict (cw_req w) [] res (cw_cfg w) = Some (?out, cw_cfg w, None)" by (simp add: batch_verdict_def)
  have "cal_reach late cfg0 ?w1" using cal_main [OF assms(1) cm_verdict [OF assms(2,3) v]] by simp
  then have "cal_reach late cfg0 (?w1\<lparr>cw_res := ?out, cw_main := CmGive\<rparr>)" by (rule cal_main [OF _ cm_store]) simp
  then have "cal_reach late cfg0 (?w1\<lparr>cw_res := ?out, cw_main := CmGive, cw_done_sem := True, cw_main := CmPoll\<rparr>)"
    by (rule cal_main [OF _ cm_give]) simp
  then show ?thesis by (intro exI [of _ "?w1\<lparr>cw_res := ?out, cw_done_sem := True, cw_main := CmPoll\<rparr>"] exI [of _ ?out]) simp
qed

lemma answer:
  assumes "cal_reach late cfg0 w" and "cw_console w = CcWait req" and "cw_done_sem w"
  shows "cal_reach late cfg0 (w\<lparr>cw_done_sem := False, cw_busy := False, cw_console := CcReturned req (cs_status (cw_res w)) (cw_res w)\<rparr>)"
proof -
  let ?w1 = "w\<lparr>cw_done_sem := False, cw_console := CcTaken req\<rparr>"
  let ?w2 = "?w1\<lparr>cw_console := CcFetched req (cw_res w)\<rparr>"
  let ?w3 = "?w2\<lparr>cw_busy := False, cw_console := CcReleased req (cw_res w)\<rparr>"
  have "cal_reach late cfg0 ?w1" by (rule cal_console [OF assms(1) cc_take [OF assms(2,3)]])
  then have "cal_reach late cfg0 ?w2" using cal_console [OF _ cc_fetch, of late cfg0 ?w1 req] by simp
  then have "cal_reach late cfg0 ?w3" by (rule cal_console [OF _ cc_release]) simp
  then have "cal_reach late cfg0 (?w3\<lparr>cw_console := CcReturned req (cs_status (cw_res w)) (cw_res w)\<rparr>)"
    using cal_console [OF _ cc_return, of late cfg0 ?w3 req "cw_res w"] by simp
  then show ?thesis by simp
qed

lemma begin_and_fail:
  assumes "cal_reach late cfg0 w" and "cw_main w = CmPoll" and "cw_req_sem w"
  shows "\<exists>ss ss0 xs. cal_reach late cfg0 (w\<lparr>cw_req_sem := False, cw_main := CmBatch (blank_result (cw_req w)) ss0 xs [] [], cw_ss := ss\<rparr>) \<and>
    length xs = 128"
proof -
  obtain ss1 where r: "cal_reach late cfg0 (w\<lparr>cw_req_sem := False, cw_main := CmBatch (blank_result (cw_req w)) (cw_ss w) [] [] [],
      cw_ss := ss1\<rparr>)" (is "cal_reach _ _ ?w1") using begin_batch [OF assms] by metis
  have "cw_main ?w1 = CmBatch (blank_result (cw_req w)) (cw_ss w) [] [] []" "length [] + 128 = (128 :: nat)" by simp_all
  from fail_run [OF r this] obtain ss xs where
    "cal_reach late cfg0 (?w1\<lparr>cw_main := CmBatch (blank_result (cw_req w)) (cw_ss w) xs [] [], cw_ss := ss\<rparr>)" "length xs = 128" by blast
  then show ?thesis by (intro exI [of _ ss] exI [of _ "cw_ss w"] exI [of _ xs]) simp
qed

lemma cal_asked:
  "cal_reach late cal_cfg ((cal_boot cal_cfg cal_responder)\<lparr>cw_console := CcWait peer_req, cw_history := [Called peer_req], cw_busy := True,
    cw_req := peer_req, cw_done_sem := False, cw_req_sem := True\<rparr>)"
  using ask [OF cal_start [of late cal_cfg cal_responder], of peer_req] by (simp add: cal_boot_def)

lemma cal_answered:
  "\<exists>w out b. cal_reach late cal_cfg w \<and> cw_console w = CcReturned peer_req (Some ENODATA) out \<and> cs_status out = Some ENODATA \<and>
     cw_history w = [Called peer_req, b] \<and> (\<forall>req. b \<noteq> Called req)"
proof -
  obtain w1 ss0 xs where w1: "cal_reach late cal_cfg w1" "cw_main w1 = CmBatch (blank_result peer_req) ss0 xs [] []" "length xs = 128"
    "cw_console w1 = CcWait peer_req" "cw_history w1 = [Called peer_req]"
    using begin_and_fail [OF cal_asked] by (fastforce simp: cal_boot_def)
  from end_batch [OF w1(1-3)] obtain w2 out where w2: "cal_reach late cal_cfg w2" "cs_status out = Some ENODATA" "cs_ref_mm out = 1000"
    "cw_console w2 = CcWait peer_req" "cw_done_sem w2" "cw_res w2 = out"
    "cw_history w2 = [Called peer_req, Batch xs (cw_cfg w1) ss0 out (cw_cfg w1) []]"
    using w1(4,5) by (fastforce simp: blank_result_def peer_req_def)
  from answer [OF w2(1,4,5)] w2(2,6,7) show ?thesis by fastforce
qed

lemma calibration_served_witness:
  "\<exists>w out h b. cal_reach False cal_cfg w \<and> cw_console w = CcReturned peer_req (Some ENODATA) out \<and> cs_status out = Some ENODATA \<and>
     cw_history w = h @ [Called peer_req, b]"
proof -
  obtain w out where w: "cal_reach False cal_cfg w" "cw_console w = CcReturned peer_req (Some ENODATA) out"
    using cal_answered by blast
  from calibration_served [OF w(1)] w show ?thesis by metis
qed

text \<open>Where the wait may run out the reset of \<open>done_sem\<close> does not help: a command given while an earlier batch still
  runs overwrites the request under it, and is handed that batch's result, here with the other command's
  reference distance.\<close>

lemma stale_result:
  "\<exists>w out. cal_reach True cal_cfg w \<and> cw_console w = CcReturned ref_req (Some ENODATA) out \<and> cs_ref_mm out \<noteq> cq_ref_mm ref_req"
proof -
  let ?w = "(cal_boot cal_cfg cal_responder)\<lparr>cw_console := CcWait peer_req, cw_history := [Called peer_req], cw_busy := True,
    cw_req := peer_req, cw_done_sem := False, cw_req_sem := True\<rparr>"
  obtain w1 ss0 xs where w1: "cal_reach True cal_cfg w1" "cw_main w1 = CmBatch (blank_result peer_req) ss0 xs [] []" "length xs = 128"
    "cw_console w1 = CcWait peer_req"
    using begin_and_fail [OF cal_asked] by (fastforce simp: cal_boot_def)
  let ?w2 = "w1\<lparr>cw_busy := False, cw_console := CcReturned peer_req (Some ETIMEDOUT) cal_result_zero\<rparr>"
  have "cal_reach True cal_cfg ?w2" by (rule cal_console [OF w1(1) cc_expire]) (simp_all add: w1(4))
  from ask [OF this, of ref_req] obtain w3 where w3: "cal_reach True cal_cfg w3" "cw_main w3 = CmBatch (blank_result peer_req) ss0 xs [] []"
    "cw_console w3 = CcWait ref_req" using w1(2) by fastforce
  from end_batch [OF w3(1,2) w1(3)] obtain w4 out where w4: "cal_reach True cal_cfg w4" "cs_status out = Some ENODATA" "cs_ref_mm out = 1000"
    "cw_console w4 = CcWait ref_req" "cw_done_sem w4" "cw_res w4 = out"
    using w3(3) by (fastforce simp: blank_result_def peer_req_def)
  from answer [OF w4(1,4,5)] w4(2,3,6) show ?thesis by (fastforce simp: ref_req_def)
qed

text \<open>A good batch: 128 exchanges at 6395 mm against a reference at 2 m, solved and applied.\<close>

definition good_req :: cal_request where "good_req = \<lparr>cq_peer_wire_id = 0xFF, cq_ref_mm = 2000, cq_persist = True\<rparr>"

lemma good_distances: "distances (replicate n good_exchange) = replicate n 6395"
  using good_exchange_range range_mm [of good_exchange ss_boot 2] by (simp add: distances_def)

lemma good_loop:
  "\<exists>ss air. batch_loop (replicate n good_exchange) p (ss0, samples, air0) = Some (ss, samples @ replicate n 6395, air)"
proof (induction n arbitrary: ss0 samples air0)
  case (Suc n)
  have m: "fst (ss_initiator_range good_exchange ss0 p) = Some 6395"
    using good_exchange_range range_mm [of good_exchange ss_boot 2] range_mm [of good_exchange ss0 p] by simp
  obtain ss1 fs where "ss_initiator_range good_exchange ss0 p = (Some 6395, ss1, fs)" using m by (metis prod.collapse)
  then have "batch_exchange good_exchange p (ss0, samples, air0) = Some (ss1, samples @ [6395], air0 @ fs)"
    by (simp add: batch_exchange_def)
  then show ?case using Suc.IH [of ss1 "samples @ [6395]" "air0 @ fs"] by simp
qed simp

lemma good_batch:
  "\<exists>res cfg' tx ss air. run_batch (replicate 128 good_exchange) good_req (cal_result_zero\<lparr>cs_ref_mm := cq_ref_mm good_req\<rparr>) cal_cfg ss_boot =
     Some (res, cfg', tx, ss, air) \<and> cs_status res = None"
proof -
  obtain ss air where l: "batch_loop (replicate 128 good_exchange) (cq_peer_wire_id good_req) (ss_initiator_enter ss_boot, [], []) =
      Some (ss, replicate 128 6395, air)" using good_loop [of 128 _ _ "[]" "[]"] by fastforce
  obtain kept where f: "cal_filtered_mean (replicate 128 6395) = Some (Some (6395, kept))"
    using filtered_mean_ok [of "replicate 128 (6395 :: int)" 6395 6395] by auto
  have s: "cal_solve_tx_delay 6395 2000 16385 16385 = Some (True, 18263)"
    by (simp add: cal_solve_tx_delay_def cal_solve_step_def div_round_pos_def i32_def)
  show ?thesis using l f s
    by (simp add: run_batch_def batch_verdict_def good_req_def cal_result_zero_def cal_cfg_def uwb_config_set_defaults_def i32_def)
qed

lemma cal_batch_sound_witness:
  "\<exists>res cfg' tx ss air. run_batch (replicate 128 good_exchange) good_req (cal_result_zero\<lparr>cs_ref_mm := 2000\<rparr>) cal_cfg ss_boot =
     Some (res, cfg', tx, ss, air) \<and> cs_mean_mm res = 6395 \<and> cs_error_mm res = 4395 \<and> cfg_ant_delay_tx cfg' = cs_new_tx res \<and>
     \<bar>4395 * 1000 - (uint (cs_new_tx res) - 16385) * 2340\<bar> \<le> 1170"
proof -
  obtain res cfg' tx ss air where r: "run_batch (replicate 128 good_exchange) good_req (cal_result_zero\<lparr>cs_ref_mm := cq_ref_mm good_req\<rparr>)
      cal_cfg ss_boot = Some (res, cfg', tx, ss, air)" and ok: "cs_status res = None" using good_batch by blast
  have d: "6395 \<le> mm \<and> mm \<le> 6395" if "mm \<in> set (distances (replicate 128 good_exchange))" for mm
    using that by (simp add: good_distances)
  have "cs_mean_mm res = 6395 \<and> cs_error_mm res = 4395 \<and> cfg_ant_delay_tx cfg' = cs_new_tx res \<and>
     \<bar>4395 * 1000 - (uint (cs_new_tx res) - 16385) * 2340\<bar> \<le> 1170"
  proof -
    note b = cal_batch_sound [OF r _ ss_boot_inv d]
    then have m: "cs_mean_mm res = 6395" "cs_error_mm res = cs_mean_mm res - 2000"
      by (simp_all add: good_distances good_req_def)
    from b show ?thesis using ok m by (simp add: good_distances good_req_def cal_cfg_def uwb_config_set_defaults_def)
  qed
  with r show ?thesis by (simp add: good_req_def)
qed

end
