(* ===== verification/CArgs.thy ===== *)
theory CArgs
  imports FloatText
begin

text \<open>
  The numbers a console command reads: \<open>strtoul\<close> and \<open>strtol\<close> with base 0 on the 32-bit \<open>long\<close> of the board,
  \<open>strtof\<close> and \<open>strtod\<close>, and the checks every shell file puts around them (\<open>parse_ul\<close>, \<open>parse_l\<close>,
  \<open>parse_flt\<close>): something was consumed and nothing is left. An argument is the list of its characters before
  the NUL.
\<close>

section \<open>Lexical parts\<close>

definition is_space :: "char \<Rightarrow> bool" where
  "is_space c \<longleftrightarrow> of_char c = (32 :: nat) \<or> 9 \<le> (of_char c :: nat) \<and> of_char c \<le> (13 :: nat)"

definition digit_val :: "char \<Rightarrow> nat" where
  "digit_val c =
     (let n = of_char c in
      if 48 \<le> n \<and> n \<le> 57 then n - 48
      else if 97 \<le> n \<and> n \<le> 122 then n - 87
      else if 65 \<le> n \<and> n \<le> 90 then n - 55
      else 99)"

definition is_base_digit :: "nat \<Rightarrow> char \<Rightarrow> bool" where
  "is_base_digit b c \<longleftrightarrow> digit_val c < b"

definition base_value :: "nat \<Rightarrow> string \<Rightarrow> nat" where
  "base_value b ds = foldl (\<lambda>n c. n * b + digit_val c) 0 ds"

text \<open>White space and the sign.\<close>

definition c_sign :: "string \<Rightarrow> bool \<times> string" where
  "c_sign s =
     (let s = dropWhile is_space s in
      case s of
        [] \<Rightarrow> (False, [])
      | c # t \<Rightarrow> if c = CHR ''-'' then (True, t) else if c = CHR ''+'' then (False, t) else (False, s))"

fun hex_prefix :: "string \<Rightarrow> bool" where
  "hex_prefix (z # x # _) = (z = CHR ''0'' \<and> (x = CHR ''x'' \<or> x = CHR ''X''))"
| "hex_prefix _ = False"

section \<open>Integers\<close>

text \<open>The sign, the magnitude and the rest; \<open>None\<close> where there is no number. A prefix that no hexadecimal digit
  follows is the number 0.\<close>

definition c_int :: "string \<Rightarrow> (bool \<times> nat \<times> string) option" where
  "c_int s =
     (let (neg, s) = c_sign s;
          hex = hex_prefix s \<and> drop 2 s \<noteq> [] \<and> is_base_digit 16 (hd (drop 2 s));
          b = (if hex then 16 else if s \<noteq> [] \<and> hd s = CHR ''0'' then 8 else 10);
          s = (if hex then drop 2 s else s);
          ds = takeWhile (is_base_digit b) s
      in if ds = [] then None else Some (neg, base_value b ds, dropWhile (is_base_digit b) s))"

text \<open>\<open>strtoul\<close> saturates, and negates modulo \<open>2 ^ 32\<close>; \<open>strtol\<close> saturates on both sides.\<close>

definition c_strtoul :: "string \<Rightarrow> (u32 \<times> string) option" where
  "c_strtoul s =
     (case c_int s of
        None \<Rightarrow> None
      | Some (neg, n, rest) \<Rightarrow>
          Some (if n \<ge> 2 ^ 32 then - 1 else if neg then - of_nat n else of_nat n, rest))"

definition c_strtol :: "string \<Rightarrow> (int \<times> string) option" where
  "c_strtol s =
     (case c_int s of
        None \<Rightarrow> None
      | Some (neg, n, rest) \<Rightarrow>
          Some (if neg then max (- (2 ^ 31)) (- int n) else min (2 ^ 31 - 1) (int n), rest))"

definition parse_ul :: "string \<Rightarrow> u32 option" where
  "parse_ul arg = (case c_strtoul arg of Some (v, []) \<Rightarrow> Some v | _ \<Rightarrow> None)"

definition parse_l :: "string \<Rightarrow> int option" where
  "parse_l arg = (case c_strtol arg of Some (v, []) \<Rightarrow> Some v | _ \<Rightarrow> None)"

section \<open>Floating-point numbers\<close>

definition lower :: "char \<Rightarrow> char" where
  "lower c = (let n = of_char c :: nat in if 65 \<le> n \<and> n \<le> 90 then char_of (n + 32) else c)"

definition word_at :: "string \<Rightarrow> string \<Rightarrow> bool" where
  "word_at w s \<longleftrightarrow> map lower (take (length w) s) = w"

text \<open>Digits with an optional point, at least one of them: the digits, how many are behind the point, the rest.\<close>

definition c_digits :: "nat \<Rightarrow> string \<Rightarrow> (nat \<times> nat \<times> string) option" where
  "c_digits b s =
     (let ip = takeWhile (is_base_digit b) s; s1 = dropWhile (is_base_digit b) s;
          point = s1 \<noteq> [] \<and> hd s1 = CHR ''.'';
          fp = (if point then takeWhile (is_base_digit b) (tl s1) else []);
          rest = (if point then dropWhile (is_base_digit b) (tl s1) else s1)
      in if ip = [] \<and> fp = [] then None else Some (base_value b (ip @ fp), length fp, rest))"

text \<open>An exponent counts only if it has a digit.\<close>

definition c_exponent :: "char \<Rightarrow> string \<Rightarrow> int \<times> string" where
  "c_exponent e s =
     (if s = [] \<or> lower (hd s) \<noteq> e then (0, s)
      else
        let t = tl s;
            neg = (t \<noteq> [] \<and> hd t = CHR ''-'');
            u = (if t \<noteq> [] \<and> (hd t = CHR ''-'' \<or> hd t = CHR ''+'') then tl t else t);
            ds = takeWhile (is_base_digit 10) u
        in if ds = [] then (0, s)
           else (if neg then - int (base_value 10 ds) else int (base_value 10 ds), dropWhile (is_base_digit 10) u))"

text \<open>\<open>n * b ^ k\<close> as a fraction.\<close>

definition scaled :: "nat \<Rightarrow> nat \<Rightarrow> int \<Rightarrow> nat \<times> nat" where
  "scaled b n k = (if k \<ge> 0 then (n * b ^ nat k, 1) else (n, b ^ nat (- k)))"

text \<open>The characters in brackets that may follow \<open>nan\<close>.\<close>

definition nan_chars :: "string \<Rightarrow> string" where
  "nan_chars s =
     (if s \<noteq> [] \<and> hd s = CHR ''('' then
        let t = dropWhile (\<lambda>c. digit_val c < 36 \<or> c = CHR ''_'') (tl s) in
        if t \<noteq> [] \<and> hd t = CHR '')'' then tl t else s
      else s)"

definition c_strtod :: "nat \<Rightarrow> nat \<Rightarrow> string \<Rightarrow> (nat \<times> string) option" where
  "c_strtod mb eb arg =
     (let (neg, s) = c_sign arg in
      if word_at ''infinity'' s then Some (fl_sign mb eb neg (fl_inf mb eb), drop 8 s)
      else if word_at ''inf'' s then Some (fl_sign mb eb neg (fl_inf mb eb), drop 3 s)
      else if word_at ''nan'' s then Some (fl_nan mb eb, nan_chars (drop 3 s))
      else if hex_prefix s \<and> c_digits 16 (drop 2 s) \<noteq> None then
        (let (n, k, t) = the (c_digits 16 (drop 2 s)); (x, rest) = c_exponent (CHR ''p'') t;
             (a, b) = scaled 2 n (x - 4 * int k)
         in Some (fl_round mb eb neg a b, rest))
      else
        (case c_digits 10 s of
           None \<Rightarrow> None
         | Some (n, k, t) \<Rightarrow>
             let (x, rest) = c_exponent (CHR ''e'') t; (a, b) = scaled 10 n (x - int k)
             in Some (fl_round mb eb neg a b, rest)))"

definition parse_flt :: "string \<Rightarrow> f32 option" where
  "parse_flt arg = (case c_strtod 23 8 arg of Some (v, []) \<Rightarrow> Some (of_nat v) | _ \<Rightarrow> None)"

definition parse_dbl :: "string \<Rightarrow> f64 option" where
  "parse_dbl arg = (case c_strtod 52 11 arg of Some (v, []) \<Rightarrow> Some (of_nat v) | _ \<Rightarrow> None)"

section \<open>What is read\<close>

lemma parse_samples:
  "parse_ul ''0x10'' = Some 16" "parse_ul ''08'' = None" "parse_ul ''3 '' = None" "parse_ul ''-1'' = Some 0xFFFFFFFF"
  by (simp_all add: parse_ul_def c_strtoul_def c_int_def c_sign_def is_space_def is_base_digit_def digit_val_def base_value_def)

lemma nan_is_a_number: "parse_flt ''nan'' = Some 0x7FC00000" "parse_dbl ''nan'' = Some 0x7FF8000000000000"
  by (simp_all add: parse_flt_def parse_dbl_def c_strtod_def c_sign_def is_space_def word_at_def lower_def nan_chars_def
      char_of_def bit_Suc_0_iff fl_nan_def fl_inf_def Let_def)

end
