(* ===== verification/Console.thy ===== *)
theory Console
  imports CArgs UwbStore NetStore
begin

text \<open>
  The console commands \<open>anchor\<close> and \<open>net\<close>, src/anchor_shell.c and src/net_shell.c. The shell subsystem splits
  the line and checks the number of arguments; a command is a function of its arguments that returns the error,
  the configuration in RAM and the flash. What is printed is not modelled. The theorems compare every command
  with what it is documented to do to the configuration, and the configuration with the one the next boot loads.
\<close>

section \<open>The anchor commands\<close>

datatype anchor_cmd =
    AnchorShow
  | AnchorId string
  | AnchorMode string
  | AnchorPos string string string
  | AnchorAnt string string
  | AnchorReset

definition anchor_cmd_id :: "saver \<Rightarrow> string \<Rightarrow> uwb_config \<times> flash \<Rightarrow> errno option \<times> uwb_config \<times> flash" where
  "anchor_cmd_id sv arg s =
     (let (cfg, f) = s in
      case parse_ul arg of
        None \<Rightarrow> (Some EINVAL, cfg, f)
      | Some v \<Rightarrow>
          if v > 255 then (Some EINVAL, cfg, f)
          else let (ok, cfg) = uwb_config_set_id cfg (ucast v) in
            if \<not> ok then (Some EINVAL, cfg, f)
            else let (ret, f) = uwb_store_save_id sv cfg f in (ret, cfg, f))"

definition anchor_cmd_mode :: "saver \<Rightarrow> string \<Rightarrow> uwb_config \<times> flash \<Rightarrow> errno option \<times> uwb_config \<times> flash" where
  "anchor_cmd_mode sv arg s =
     (let (cfg, f) = s in
      case uwb_config_mode_from_name arg of
        None \<Rightarrow> (Some EINVAL, cfg, f)
      | Some m \<Rightarrow>
          let cfg = snd (uwb_config_set_mode cfg m);
              (ret, f) = uwb_store_save_mode sv cfg f
          in (ret, cfg, f))"

definition anchor_cmd_pos ::
  "saver \<Rightarrow> u8 list \<Rightarrow> string \<Rightarrow> string \<Rightarrow> string \<Rightarrow> uwb_config \<times> flash \<Rightarrow> errno option \<times> uwb_config \<times> flash" where
  "anchor_cmd_pos sv pad a b c s =
     (let (cfg, f) = s in
      case (parse_flt a, parse_flt b, parse_flt c) of
        (Some x, Some y, Some z) \<Rightarrow>
          let cfg = uwb_config_set_pos cfg x y z;
              (ret, f) = uwb_store_save_pos sv pad cfg f
          in (ret, cfg, f)
      | _ \<Rightarrow> (Some EINVAL, cfg, f))"

definition anchor_cmd_ant :: "saver \<Rightarrow> string \<Rightarrow> string \<Rightarrow> uwb_config \<times> flash \<Rightarrow> errno option \<times> uwb_config \<times> flash" where
  "anchor_cmd_ant sv a b s =
     (let (cfg, f) = s in
      case (parse_ul a, parse_ul b) of
        (Some tx, Some rx) \<Rightarrow>
          let (ok, cfg) = uwb_config_set_ant cfg tx rx in
          if \<not> ok then (Some EINVAL, cfg, f)
          else let (ret, f) = uwb_store_save_ant sv cfg f in (ret, cfg, f)
      | _ \<Rightarrow> (Some EINVAL, cfg, f))"

text \<open>All four are saved even if one fails.\<close>

definition anchor_cmd_reset :: "saver \<Rightarrow> u8 list \<Rightarrow> uwb_config \<times> flash \<Rightarrow> errno option \<times> uwb_config \<times> flash" where
  "anchor_cmd_reset sv pad s =
     (let cfg = uwb_config_set_defaults; f = snd s;
          (ret, f) = uwb_store_save_mode sv cfg f;
          (r, f) = uwb_store_save_id sv cfg f;
          ret = (if ret \<noteq> None then ret else r);
          (r, f) = uwb_store_save_ant sv cfg f;
          ret = (if ret \<noteq> None then ret else r);
          (r, f) = uwb_store_save_pos sv pad cfg f;
          ret = (if ret \<noteq> None then ret else r)
      in (ret, cfg, f))"

fun anchor_shell ::
  "saver \<Rightarrow> u8 list \<Rightarrow> anchor_cmd \<Rightarrow> uwb_config \<times> flash \<Rightarrow> errno option \<times> uwb_config \<times> flash" where
  "anchor_shell sv pad AnchorShow s = (None, s)"
| "anchor_shell sv pad (AnchorId a) s = anchor_cmd_id sv a s"
| "anchor_shell sv pad (AnchorMode a) s = anchor_cmd_mode sv a s"
| "anchor_shell sv pad (AnchorPos a b c) s = anchor_cmd_pos sv pad a b c s"
| "anchor_shell sv pad (AnchorAnt a b) s = anchor_cmd_ant sv a b s"
| "anchor_shell sv pad AnchorReset s = anchor_cmd_reset sv pad s"

section \<open>The net commands\<close>

datatype net_cmd =
    NetShow
  | NetSsid string
  | NetPass string
  | NetBroker string "string option"
  | NetUser string
  | NetMqttPass string
  | NetReset

text \<open>The shape of the four commands that set one string.\<close>

definition net_cmd_str ::
  "(net_config \<Rightarrow> string option \<Rightarrow> bool \<times> net_config) \<Rightarrow> (net_config \<Rightarrow> flash \<Rightarrow> errno option \<times> flash) \<Rightarrow> string
     \<Rightarrow> net_config \<times> flash \<Rightarrow> errno option \<times> net_config \<times> flash" where
  "net_cmd_str set_field save arg s =
     (let (cfg, f) = s; (ok, cfg) = set_field cfg (Some arg) in
      if \<not> ok then (Some EINVAL, cfg, f)
      else let (ret, f) = save cfg f in (ret, cfg, f))"

definition net_cmd_ssid :: "saver \<Rightarrow> string \<Rightarrow> net_config \<times> flash \<Rightarrow> errno option \<times> net_config \<times> flash" where
  [simp]: "net_cmd_ssid sv = net_cmd_str net_config_set_ssid (net_store_save_ssid sv)"

definition net_cmd_pass :: "saver \<Rightarrow> string \<Rightarrow> net_config \<times> flash \<Rightarrow> errno option \<times> net_config \<times> flash" where
  [simp]: "net_cmd_pass sv = net_cmd_str net_config_set_psk (net_store_save_psk sv)"

definition net_cmd_user :: "saver \<Rightarrow> string \<Rightarrow> net_config \<times> flash \<Rightarrow> errno option \<times> net_config \<times> flash" where
  [simp]: "net_cmd_user sv = net_cmd_str net_config_set_user (net_store_save_user sv)"

definition net_cmd_mqttpass :: "saver \<Rightarrow> string \<Rightarrow> net_config \<times> flash \<Rightarrow> errno option \<times> net_config \<times> flash" where
  [simp]: "net_cmd_mqttpass sv = net_cmd_str net_config_set_mqtt_pass (net_store_save_mqtt_pass sv)"

definition net_cmd_broker ::
  "saver \<Rightarrow> string \<Rightarrow> string option \<Rightarrow> net_config \<times> flash \<Rightarrow> errno option \<times> net_config \<times> flash" where
  "net_cmd_broker sv host port_arg s =
     (let (cfg, f) = s in
      case (case port_arg of None \<Rightarrow> Some (ucast NET_MQTT_PORT_DEFAULT) | Some a \<Rightarrow> parse_ul a) of
        None \<Rightarrow> (Some EINVAL, cfg, f)
      | Some port \<Rightarrow>
          let (ok, cfg) = net_config_set_broker cfg (Some host) port in
          if \<not> ok then (Some EINVAL, cfg, f)
          else let (ret, f) = net_store_save_broker sv cfg f in (ret, cfg, f))"

definition net_cmd_reset :: "saver \<Rightarrow> net_config \<times> flash \<Rightarrow> errno option \<times> net_config \<times> flash" where
  "net_cmd_reset sv s =
     (let cfg = net_config_set_defaults; (ret, f) = net_store_save_all sv cfg (snd s) in (ret, cfg, f))"

fun net_shell :: "saver \<Rightarrow> net_cmd \<Rightarrow> net_config \<times> flash \<Rightarrow> errno option \<times> net_config \<times> flash" where
  "net_shell sv NetShow s = (None, s)"
| "net_shell sv (NetSsid a) s = net_cmd_ssid sv a s"
| "net_shell sv (NetPass a) s = net_cmd_pass sv a s"
| "net_shell sv (NetBroker h p) s = net_cmd_broker sv h p s"
| "net_shell sv (NetUser a) s = net_cmd_user sv a s"
| "net_shell sv (NetMqttPass a) s = net_cmd_mqttpass sv a s"
| "net_shell sv NetReset s = net_cmd_reset sv s"

text \<open>A session: the results, and where it leaves RAM and flash.\<close>

fun shell_session :: "('c \<Rightarrow> 's \<Rightarrow> errno option \<times> 's) \<Rightarrow> 'c list \<Rightarrow> 's \<Rightarrow> errno option list \<times> 's" where
  "shell_session step [] s = ([], s)"
| "shell_session step (c # cs) s = (let (rc, s) = step c s; (rcs, s) = shell_session step cs s in (rc # rcs, s))"

section \<open>What a command means\<close>

text \<open>The change of the configuration the help texts promise; \<open>None\<close> for arguments that are refused.\<close>

fun anchor_meaning :: "anchor_cmd \<Rightarrow> (uwb_config \<Rightarrow> uwb_config) option" where
  "anchor_meaning AnchorShow = Some (\<lambda>c. c)"
| "anchor_meaning (AnchorId a) =
     (case parse_ul a of Some v \<Rightarrow> if v < 4 then Some (\<lambda>c. c\<lparr>cfg_anchor_id := ucast v\<rparr>) else None | None \<Rightarrow> None)"
| "anchor_meaning (AnchorMode a) =
     (if a = ''slave'' then Some (\<lambda>c. c\<lparr>cfg_mode := 0\<rparr>) else if a = ''gateway'' then Some (\<lambda>c. c\<lparr>cfg_mode := 1\<rparr>) else None)"
| "anchor_meaning (AnchorPos a b d) =
     (case (parse_flt a, parse_flt b, parse_flt d) of
        (Some x, Some y, Some z) \<Rightarrow> Some (\<lambda>c. c\<lparr>cfg_x := x, cfg_y := y, cfg_z := z, cfg_position_valid := True\<rparr>)
      | _ \<Rightarrow> None)"
| "anchor_meaning (AnchorAnt a b) =
     (case (parse_ul a, parse_ul b) of
        (Some tx, Some rx) \<Rightarrow>
          if tx \<le> 65535 \<and> rx \<le> 65535 then Some (\<lambda>c. c\<lparr>cfg_ant_delay_tx := ucast tx, cfg_ant_delay_rx := ucast rx\<rparr>) else None
      | _ \<Rightarrow> None)"
| "anchor_meaning AnchorReset = Some (\<lambda>_. uwb_config_set_defaults)"

definition net_field :: "nat \<Rightarrow> nat \<Rightarrow> string \<Rightarrow> (net_config \<Rightarrow> net_config) \<Rightarrow> (net_config \<Rightarrow> net_config) option" where
  "net_field lo hi a g = (if lo \<le> length a \<and> length a \<le> hi then Some g else None)"

fun net_meaning :: "net_cmd \<Rightarrow> (net_config \<Rightarrow> net_config) option" where
  "net_meaning NetShow = Some (\<lambda>c. c)"
| "net_meaning (NetSsid a) = net_field 1 32 a (\<lambda>c. c\<lparr>net_ssid := a\<rparr>)"
| "net_meaning (NetPass a) = net_field 8 63 a (\<lambda>c. c\<lparr>net_psk := a\<rparr>)"
| "net_meaning (NetBroker h p) =
     (case (case p of None \<Rightarrow> Some 1883 | Some a \<Rightarrow> parse_ul a) of
        Some port \<Rightarrow> if 0 < port \<and> port \<le> 65535 then net_field 1 63 h (\<lambda>c. c\<lparr>net_broker := h, net_port := ucast port\<rparr>) else None
      | None \<Rightarrow> None)"
| "net_meaning (NetUser a) = net_field 0 32 a (\<lambda>c. c\<lparr>net_mqtt_user := a\<rparr>)"
| "net_meaning (NetMqttPass a) = net_field 0 63 a (\<lambda>c. c\<lparr>net_mqtt_pass := a\<rparr>)"
| "net_meaning NetReset = Some (\<lambda>_. net_config_set_defaults)"

fun meanings :: "('c \<Rightarrow> ('g \<Rightarrow> 'g) option) \<Rightarrow> 'c list \<Rightarrow> 'g \<Rightarrow> 'g" where
  "meanings m [] g = g"
| "meanings m (c # cs) g = meanings m cs (case m c of None \<Rightarrow> g | Some h \<Rightarrow> h g)"

section \<open>One command\<close>

text \<open>What a boot makes of the flash.\<close>

definition anchor_on_flash :: "flash \<Rightarrow> uwb_config" where
  "anchor_on_flash f =
     (let d = uwb_config_set_defaults;
          (x, y, z, p) = (case f ''anchor/pos'' of None \<Rightarrow> cfg_pos d | Some v \<Rightarrow> pos_upd v (cfg_pos d)) in
     \<lparr>cfg_mode = (case f ''anchor/mode'' of None \<Rightarrow> cfg_mode d | Some v \<Rightarrow> mode_upd v (cfg_mode d)),
      cfg_anchor_id = (case f ''anchor/id'' of None \<Rightarrow> cfg_anchor_id d | Some v \<Rightarrow> id_upd v (cfg_anchor_id d)),
      cfg_ant_delay_tx = (case f ''anchor/ant_tx'' of None \<Rightarrow> cfg_ant_delay_tx d | Some v \<Rightarrow> ant_upd v (cfg_ant_delay_tx d)),
      cfg_ant_delay_rx = (case f ''anchor/ant_rx'' of None \<Rightarrow> cfg_ant_delay_rx d | Some v \<Rightarrow> ant_upd v (cfg_ant_delay_rx d)),
      cfg_x = x, cfg_y = y, cfg_z = z, cfg_position_valid = p\<rparr>)"

lemma empty_configs_ok [simp]: "uwb_config_ok uwb_config_set_defaults" "net_config_ok net_config_set_defaults"
  by (simp_all add: uwb_config_ok_def uwb_config_set_defaults_def net_config_ok_def net_config_set_defaults_def)

lemma anchor_boot:
  "delivers f ents \<Longrightarrow> uwb_store_init None None ents uwb_config_set_defaults = (None, anchor_on_flash f)"
  using anchor_load [OF empty_configs_ok(1), of f ents] by (simp add: uwb_store_init_def anchor_on_flash_def)

lemma save_cases:
  assumes "settings_backend sv" and "sv k v f = (rc, f')"
  shows "rc = None \<longrightarrow> f' = f(k \<mapsto> v)"
  using backend_cases [OF assms(1), of k v f] assms(2) by auto

lemma anchor_flash_keys:
  "i < 4 \<Longrightarrow> anchor_on_flash (f(''anchor/id'' \<mapsto> [i])) = (anchor_on_flash f)\<lparr>cfg_anchor_id := i\<rparr>"
  "m < 2 \<Longrightarrow> anchor_on_flash (f(''anchor/mode'' \<mapsto> [m])) = (anchor_on_flash f)\<lparr>cfg_mode := m\<rparr>"
  "anchor_on_flash (f(''anchor/ant_tx'' \<mapsto> le16 t, ''anchor/ant_rx'' \<mapsto> le16 r)) =
     (anchor_on_flash f)\<lparr>cfg_ant_delay_tx := t, cfg_ant_delay_rx := r\<rparr>"
  by (simp_all add: anchor_on_flash_def id_upd_def mode_upd_def ant_upd_def get_le Let_def case_prod_beta)

lemma anchor_flash_pos:
  assumes "length pad = 3"
  shows "anchor_on_flash (f(''anchor/pos'' \<mapsto> stored_pos x y z w pad)) =
      (if w \<noteq> 0 then (anchor_on_flash f)\<lparr>cfg_x := x, cfg_y := y, cfg_z := z, cfg_position_valid := True\<rparr>
       else (anchor_on_flash f)\<lparr>cfg_x := 0, cfg_y := 0, cfg_z := 0, cfg_position_valid := False\<rparr>)"
  by (simp add: anchor_on_flash_def pos_upd_def stored_pos_parts [OF assms] cfg_pos_def uwb_config_set_defaults_def
      Let_def case_prod_beta)

text \<open>A well-formed command that returns 0 has done what it means, in RAM and on flash; a malformed one is refused and
  changes nothing.\<close>

definition anchor_synced :: "uwb_config \<times> flash \<Rightarrow> bool" where
  "anchor_synced s \<longleftrightarrow> uwb_config_ok (fst s) \<and> anchor_on_flash (snd s) = fst s"

lemma ucast_small [simp]: "(v :: u32) \<le> 65535 \<Longrightarrow> unat (ucast v :: u16) = unat v" "(v :: u32) < 256 \<Longrightarrow> unat (ucast v :: u8) = unat v"
  by (simp_all add: word_le_nat_alt word_less_nat_alt unsigned_ucast_eq take_bit_nat_eq_self)

lemma id_arg: "(v :: u32) \<le> 255 \<Longrightarrow> (4 :: u8) \<le> ucast v \<longleftrightarrow> 4 \<le> v"
  by (simp add: word_le_nat_alt unsigned_ucast_eq take_bit_nat_eq_self)

lemma anchor_malformed: "anchor_meaning c = None \<Longrightarrow> anchor_shell sv pad c s = (Some EINVAL, s)"
proof (cases c)
  case (AnchorId a)
  assume m: "anchor_meaning c = None"
  have "(4 :: u8) \<le> ucast v" if "v \<le> 255" "\<not> v < 4" for v :: u32 using id_arg [OF that(1)] that(2) by simp
  then show ?thesis using m AnchorId
    by (cases s) (auto simp: anchor_cmd_id_def uwb_config_set_id_def not_less Let_def split: option.splits if_splits)
next
  case (AnchorMode a)
  assume "anchor_meaning c = None"
  then show ?thesis using AnchorMode mode_from_name_iff [of a]
    by (cases s) (auto simp: anchor_cmd_mode_def uwb_config_mode_from_name_def mode_names_def split: option.splits if_splits)
qed (cases s; auto simp: anchor_cmd_pos_def anchor_cmd_ant_def uwb_config_set_ant_def Let_def not_le
    split: option.splits if_splits)+

lemma mode_from_name: "uwb_config_mode_from_name a = (if a = ''slave'' then Some 0 else if a = ''gateway'' then Some 1 else None)"
  by (auto simp: uwb_config_mode_from_name_def mode_names_def)

lemma anchor_step:
  assumes "settings_backend sv" and "length pad = 3" and "anchor_meaning c = Some g" and "anchor_shell sv pad c (cfg, f) = (rc, cfg', f')"
    and "anchor_synced (cfg, f)"
  shows "cfg' = g cfg" and "rc = None \<Longrightarrow> anchor_synced (cfg', f')"
proof -
  note sc = save_cases [OF assms(1)]
  have ok: "uwb_config_ok cfg" and fl: "anchor_on_flash f = cfg" using assms(5) by (simp_all add: anchor_synced_def)
  have "cfg' = g cfg \<and> (rc = None \<longrightarrow> anchor_synced (cfg', f'))"
  proof (cases c)
    case AnchorShow
    then show ?thesis using assms(3-5) by auto
  next
    case (AnchorId a)
    then obtain v where v: "parse_ul a = Some v" "v < 4" "g = (\<lambda>c. c\<lparr>cfg_anchor_id := ucast v\<rparr>)"
      using assms(3) by (auto split: option.splits if_splits)
    have le: "v \<le> 255" using v(2) by (simp add: word_le_nat_alt word_less_nat_alt)
    have s: "\<not> v > 255" "\<not> (4 :: u8) \<le> ucast v" "(ucast v :: u8) < 4" using v(2) le id_arg [OF le] by (metis leD, metis leD, metis not_le)
    obtain r f1 where x: "sv ''anchor/id'' [ucast v] f = (r, f1)" by fastforce
    have "cfg' = cfg\<lparr>cfg_anchor_id := ucast v\<rparr> \<and> rc = r \<and> f' = f1"
      using assms(4) AnchorId v s x by (simp add: anchor_cmd_id_def uwb_config_set_id_def uwb_store_save_id_def)
    then show ?thesis using sc [OF x] v(3) s(2) ok fl by (auto simp: anchor_synced_def anchor_flash_keys uwb_config_ok_def)
  next
    case (AnchorMode a)
    then obtain m where m: "uwb_config_mode_from_name a = Some m" "m < 2" "g = (\<lambda>c. c\<lparr>cfg_mode := m\<rparr>)"
      using assms(3) by (auto simp: mode_from_name split: if_splits)
    obtain r f1 where x: "sv ''anchor/mode'' [m] f = (r, f1)" by fastforce
    have "cfg' = cfg\<lparr>cfg_mode := m\<rparr> \<and> rc = r \<and> f' = f1"
      using assms(4) AnchorMode m m(2) [folded not_le] x by (simp add: anchor_cmd_mode_def uwb_config_set_mode_def uwb_store_save_mode_def)
    then show ?thesis using sc [OF x] m(2,3) ok fl by (auto simp: anchor_synced_def anchor_flash_keys uwb_config_ok_def)
  next
    case (AnchorPos a b d)
    then obtain x y z where v: "parse_flt a = Some x" "parse_flt b = Some y" "parse_flt d = Some z"
      "g = (\<lambda>c. c\<lparr>cfg_x := x, cfg_y := y, cfg_z := z, cfg_position_valid := True\<rparr>)"
      using assms(3) by (auto split: option.splits)
    obtain r f1 where w: "sv ''anchor/pos'' (stored_pos x y z 1 pad) f = (r, f1)" by fastforce
    have "cfg' = g cfg \<and> rc = r \<and> f' = f1"
      using assms(4) AnchorPos v w by (simp add: anchor_cmd_pos_def uwb_config_set_pos_def uwb_store_save_pos_def)
    then show ?thesis using sc [OF w] v(4) ok fl by (auto simp: anchor_synced_def anchor_flash_pos [OF assms(2)] uwb_config_ok_def)
  next
    case (AnchorAnt a b)
    then obtain t r where v: "parse_ul a = Some t" "parse_ul b = Some r" "t \<le> 65535" "r \<le> 65535"
      "g = (\<lambda>c. c\<lparr>cfg_ant_delay_tx := ucast t, cfg_ant_delay_rx := ucast r\<rparr>)"
      using assms(3) by (auto split: option.splits if_splits)
    obtain r1 f1 where x: "sv ''anchor/ant_tx'' (le16 (ucast t)) f = (r1, f1)" by fastforce
    obtain r2 f2 where y: "sv ''anchor/ant_rx'' (le16 (ucast r)) f1 = (r2, f2)" by fastforce
    have "cfg' = g cfg \<and> rc = (if r1 \<noteq> None then r1 else r2) \<and> f' = f2"
      using assms(4) AnchorAnt v(1,2,5) v(3,4) [folded not_less] x y by (auto simp: anchor_cmd_ant_def uwb_config_set_ant_def uwb_store_save_ant_def)
    then show ?thesis using sc [OF x] sc [OF y] v(5) ok fl
      by (auto simp: anchor_synced_def anchor_flash_keys uwb_config_ok_def split: if_splits)
  next
    case AnchorReset
    let ?d = uwb_config_set_defaults
    obtain r1 f1 where a: "sv ''anchor/mode'' [0] f = (r1, f1)" by fastforce
    obtain r2 f2 where b: "sv ''anchor/id'' [0] f1 = (r2, f2)" by fastforce
    obtain r3 f3 where c: "sv ''anchor/ant_tx'' (le16 16385) f2 = (r3, f3)" by fastforce
    obtain r4 f4 where d: "sv ''anchor/ant_rx'' (le16 16385) f3 = (r4, f4)" by fastforce
    obtain r5 f5 where e: "sv ''anchor/pos'' (stored_pos 0 0 0 0 pad) f4 = (r5, f5)" by fastforce
    have r: "cfg' = ?d" "f' = f5" "rc = None \<longrightarrow> r1 = None \<and> r2 = None \<and> r3 = None \<and> r4 = None \<and> r5 = None"
      using assms(4) AnchorReset a b c d e
      by (auto simp: anchor_cmd_reset_def uwb_config_set_defaults_def uwb_store_save_mode_def uwb_store_save_id_def
          uwb_store_save_ant_def uwb_store_save_pos_def split: if_splits)
    have "anchor_on_flash f5 = ?d" if "rc = None"
    proof -
      have "f5 = f(''anchor/mode'' \<mapsto> [0], ''anchor/id'' \<mapsto> [0], ''anchor/ant_tx'' \<mapsto> le16 16385, ''anchor/ant_rx'' \<mapsto> le16 16385,
          ''anchor/pos'' \<mapsto> stored_pos 0 0 0 0 pad)"
        using that r(3) sc [OF a] sc [OF b] sc [OF c] sc [OF d] sc [OF e] by simp
      then show ?thesis by (simp add: anchor_flash_pos [OF assms(2)] anchor_flash_keys) (simp add: uwb_config_set_defaults_def)
    qed
    then show ?thesis using assms(3) AnchorReset r by (auto simp: anchor_synced_def)
  qed
  then show "cfg' = g cfg" "rc = None \<Longrightarrow> anchor_synced (cfg', f')" by blast+
qed

section \<open>One network command\<close>

definition net_on_flash :: "flash \<Rightarrow> net_config" where
  "net_on_flash f =
     (let d = net_config_set_defaults in
     \<lparr>net_ssid = (case f ''net/ssid'' of None \<Rightarrow> net_ssid d | Some v \<Rightarrow> str_upd 1 32 v (net_ssid d)),
      net_psk = (case f ''net/psk'' of None \<Rightarrow> net_psk d | Some v \<Rightarrow> str_upd 8 63 v (net_psk d)),
      net_broker = (case f ''net/broker'' of None \<Rightarrow> net_broker d | Some v \<Rightarrow> str_upd 1 63 v (net_broker d)),
      net_port = (case f ''net/port'' of None \<Rightarrow> net_port d | Some v \<Rightarrow> port_upd v (net_port d)),
      net_mqtt_user = (case f ''net/user'' of None \<Rightarrow> net_mqtt_user d | Some v \<Rightarrow> str_upd 0 32 v (net_mqtt_user d)),
      net_mqtt_pass = (case f ''net/mqttpass'' of None \<Rightarrow> net_mqtt_pass d | Some v \<Rightarrow> str_upd 0 63 v (net_mqtt_pass d))\<rparr>)"

lemma net_boot:
  "delivers f ents \<Longrightarrow> settings_load ''net'' net_settings_set ents net_config_set_defaults = net_on_flash f"
  using net_load [OF empty_configs_ok(2), of f ents] by (simp add: net_on_flash_def)

lemma net_flash_keys:
  assumes "c_string s"
  shows "1 \<le> length s \<Longrightarrow> length s \<le> 32 \<Longrightarrow> net_on_flash (f(''net/ssid'' \<mapsto> c_bytes s)) = (net_on_flash f)\<lparr>net_ssid := s\<rparr>"
    and "8 \<le> length s \<Longrightarrow> length s \<le> 63 \<Longrightarrow> net_on_flash (f(''net/psk'' \<mapsto> c_bytes s)) = (net_on_flash f)\<lparr>net_psk := s\<rparr>"
    and "1 \<le> length s \<Longrightarrow> length s \<le> 63 \<Longrightarrow> p \<noteq> 0 \<Longrightarrow>
      net_on_flash (f(''net/broker'' \<mapsto> c_bytes s, ''net/port'' \<mapsto> le16 p)) = (net_on_flash f)\<lparr>net_broker := s, net_port := p\<rparr>"
    and "length s \<le> 32 \<Longrightarrow> net_on_flash (f(''net/user'' \<mapsto> c_bytes s)) = (net_on_flash f)\<lparr>net_mqtt_user := s\<rparr>"
    and "length s \<le> 63 \<Longrightarrow> net_on_flash (f(''net/mqttpass'' \<mapsto> c_bytes s)) = (net_on_flash f)\<lparr>net_mqtt_pass := s\<rparr>"
  using assms by (simp_all add: net_on_flash_def str_upd_saved port_upd_def get_le Let_def)

lemma net_malformed: "net_meaning c = None \<Longrightarrow> net_shell sv c s = (Some EINVAL, s)"
  by (cases c; cases s) (auto simp: net_cmd_str_def net_cmd_broker_def net_field_def net_config_set_ssid_def net_config_set_psk_def
      net_config_set_broker_def net_config_set_user_def net_config_set_mqtt_pass_def set_str_def Let_def not_le not_less
      word_gt_0 Suc_le_eq split: option.splits if_splits)

definition net_synced :: "net_config \<times> flash \<Rightarrow> bool" where
  "net_synced s \<longleftrightarrow> net_on_flash (snd s) = fst s"

text \<open>The characters an argument can have.\<close>

fun net_args :: "net_cmd \<Rightarrow> string list" where
  "net_args (NetSsid a) = [a]"
| "net_args (NetPass a) = [a]"
| "net_args (NetBroker h p) = [h]"
| "net_args (NetUser a) = [a]"
| "net_args (NetMqttPass a) = [a]"
| "net_args _ = []"

lemma net_step_str:
  assumes "settings_backend sv" and "net_cmd_str set_field save a (cfg, f) = (rc, cfg', f')" and "set_field cfg (Some a) = (True, g cfg)"
    and "\<And>c f. save c f = sv k (c_bytes (fld c)) f" and "fld (g cfg) = a"
    and "net_on_flash (f(k \<mapsto> c_bytes a)) = g (net_on_flash f)" and "net_on_flash f = cfg"
  shows "cfg' = g cfg \<and> (rc = None \<longrightarrow> net_on_flash f' = cfg')"
proof -
  obtain r f1 where x: "sv k (c_bytes a) f = (r, f1)" by fastforce
  have "cfg' = g cfg \<and> rc = r \<and> f' = f1" using assms(2,3,4,5) x by (simp add: net_cmd_str_def)
  then show ?thesis using save_cases [OF assms(1) x] assms(6,7) by auto
qed

lemma net_step:
  assumes "settings_backend sv" and "net_meaning c = Some g" and "net_shell sv c (cfg, f) = (rc, cfg', f')"
    and "net_synced (cfg, f)" and "\<forall>a\<in>set (net_args c). c_string a"
  shows "cfg' = g cfg" and "rc = None \<Longrightarrow> net_synced (cfg', f')"
proof -
  have fl: "net_on_flash f = cfg" using assms(4) by (simp add: net_synced_def)
  have "cfg' = g cfg \<and> (rc = None \<longrightarrow> net_on_flash f' = cfg')"
  proof (cases c)
    case NetShow
    then show ?thesis using assms(2,3) fl by auto
  next
    case (NetSsid a)
    then have g: "1 \<le> length a" "length a \<le> 32" "g = (\<lambda>c. c\<lparr>net_ssid := a\<rparr>)" using assms(2) by (auto simp: net_field_def split: if_splits)
    have ne: "a \<noteq> []" using g(1) by auto
    show ?thesis
      by (rule net_step_str [OF assms(1), where set_field = net_config_set_ssid and save = "net_store_save_ssid sv" and fld = net_ssid
            and k = "''net/ssid''" and a = a and cfg = cfg and f = f and g = g])
        (use assms(3,5) NetSsid g ne fl net_flash_keys(1) [of a] in
          \<open>simp_all add: net_config_set_ssid_def set_str_def net_store_save_ssid_def not_less\<close>)
  next
    case (NetPass a)
    then have g: "8 \<le> length a" "length a \<le> 63" "g = (\<lambda>c. c\<lparr>net_psk := a\<rparr>)" using assms(2) by (auto simp: net_field_def split: if_splits)
    show ?thesis
      by (rule net_step_str [OF assms(1), where set_field = net_config_set_psk and save = "net_store_save_psk sv" and fld = net_psk
            and k = "''net/psk''" and a = a and cfg = cfg and f = f and g = g])
        (use assms(3,5) NetPass g fl net_flash_keys(2) [of a] in
          \<open>simp_all add: net_config_set_psk_def set_str_def net_store_save_psk_def not_less\<close>)
  next
    case (NetUser a)
    then have g: "length a \<le> 32" "g = (\<lambda>c. c\<lparr>net_mqtt_user := a\<rparr>)" using assms(2) by (auto simp: net_field_def split: if_splits)
    show ?thesis
      by (rule net_step_str [OF assms(1), where set_field = net_config_set_user and save = "net_store_save_user sv" and fld = net_mqtt_user
            and k = "''net/user''" and a = a and cfg = cfg and f = f and g = g])
        (use assms(3,5) NetUser g fl net_flash_keys(4) [of a] in
          \<open>simp_all add: net_config_set_user_def set_str_def net_store_save_user_def not_less\<close>)
  next
    case (NetMqttPass a)
    then have g: "length a \<le> 63" "g = (\<lambda>c. c\<lparr>net_mqtt_pass := a\<rparr>)" using assms(2) by (auto simp: net_field_def split: if_splits)
    show ?thesis
      by (rule net_step_str [OF assms(1), where set_field = net_config_set_mqtt_pass and save = "net_store_save_mqtt_pass sv"
            and fld = net_mqtt_pass and k = "''net/mqttpass''" and a = a and cfg = cfg and f = f and g = g])
        (use assms(3,5) NetMqttPass g fl net_flash_keys(5) [of a] in
          \<open>simp_all add: net_config_set_mqtt_pass_def set_str_def net_store_save_mqtt_pass_def not_less\<close>)
  next
    case (NetBroker h p)
    then obtain port where p: "(case p of None \<Rightarrow> Some 1883 | Some a \<Rightarrow> parse_ul a) = Some port" "0 < port" "port \<le> 65535"
      and g: "1 \<le> length h" "length h \<le> 63" "g = (\<lambda>c. c\<lparr>net_broker := h, net_port := ucast port\<rparr>)"
      using assms(2) by (auto simp: net_field_def split: option.splits if_splits)
    obtain r1 f1 where x: "sv ''net/broker'' (c_bytes h) f = (r1, f1)" by fastforce
    obtain r2 f2 where y: "sv ''net/port'' (le16 (ucast port)) f1 = (r2, f2)" by fastforce
    have q: "\<not> (port = 0 \<or> 65535 < port)" "\<not> (length h < 1 \<or> 63 < length h)" using p g by (auto simp: not_less)
    have b: "net_config_set_broker cfg (Some h) port = (True, g cfg)"
      using q g(3) by (auto simp: net_config_set_broker_def set_str_def)
    have "net_cmd_broker sv h p (cfg, f) = ((if r1 \<noteq> None then r1 else r2), g cfg, f2)"
      using p(1) b x y g(3) by (cases p) (auto simp: net_cmd_broker_def net_store_save_broker_def)
    then have e: "cfg' = g cfg" "rc = (if r1 \<noteq> None then r1 else r2)" "f' = f2" using assms(3) NetBroker by simp_all
    have "(ucast port :: u16) \<noteq> 0" using ucast_port_nonzero p(2,3) by (metis word_gt_0)
    moreover have "c_string h" using assms(5) NetBroker by simp
    ultimately have k: "net_on_flash (f(''net/broker'' \<mapsto> c_bytes h, ''net/port'' \<mapsto> le16 (ucast port))) = g cfg"
      using net_flash_keys(3) g fl by simp
    have "f' = f(''net/broker'' \<mapsto> c_bytes h, ''net/port'' \<mapsto> le16 (ucast port))" if "rc = None"
      using that e save_cases [OF assms(1) x] save_cases [OF assms(1) y] by (metis option.distinct(1))
    with e(1) k show ?thesis by metis
  next
    case NetReset
    obtain r1 f1 where x: "net_store_save_all sv net_config_set_defaults f = (r1, f1)" by fastforce
    have r: "cfg' = net_config_set_defaults" "rc = r1" "f' = f1" using assms(3) NetReset x by (simp_all add: net_cmd_reset_def)
    have "net_on_flash f' = net_config_set_defaults" if "rc = None"
      using net_saved [OF assms(1), of net_config_set_defaults f f1] x r that
      by (simp add: net_on_flash_def net_config_set_defaults_def str_upd_def port_upd_def c_bytes_def c_str_def get_le Let_def)
    then show ?thesis using assms(2) NetReset r by auto
  qed
  then show "cfg' = g cfg" "rc = None \<Longrightarrow> net_synced (cfg', f')" by (simp_all add: net_synced_def)
qed

section \<open>Sessions\<close>

text \<open>What the two shells have in common: a malformed command is refused whole, and a well-formed one does what it
  means in RAM and, if it returns 0, keeps flash in step with RAM. A proper command is one with a settings
  subsystem that keeps its promises; each command of a session may meet another one, with other failures.\<close>

locale config_shell =
  fixes step :: "'c \<Rightarrow> 'g \<times> flash \<Rightarrow> errno option \<times> 'g \<times> flash"
    and meaning :: "'c \<Rightarrow> ('g \<Rightarrow> 'g) option"
    and synced :: "'g \<times> flash \<Rightarrow> bool"
    and proper :: "'c \<Rightarrow> bool"
  assumes refused: "meaning c = None \<Longrightarrow> step c s = (Some EINVAL, s)"
    and does: "meaning c = Some g \<Longrightarrow> proper c \<Longrightarrow> synced (cfg, f) \<Longrightarrow> step c (cfg, f) = (rc, cfg', f') \<Longrightarrow>
      cfg' = g cfg \<and> (rc = None \<longrightarrow> synced (cfg', f'))"
begin

lemma session_exact:
  assumes "shell_session step cs s = (rcs, s')" and "\<forall>c\<in>set cs. proper c"
    and "\<forall>(c, rc)\<in>set (zip cs rcs). rc = None \<or> meaning c = None" and "synced s"
  shows "synced s' \<and> fst s' = meanings meaning cs (fst s)"
  using assms
proof (induction cs arbitrary: s rcs)
  case (Cons c cs)
  obtain rc s1 where c: "step c s = (rc, s1)" by (rule prod.exhaust)
  obtain r where r: "shell_session step cs s1 = (r, s')" "rcs = rc # r" using Cons.prems(1) c by (auto split: prod.splits)
  have "synced s1 \<and> fst s1 = (case meaning c of None \<Rightarrow> fst s | Some h \<Rightarrow> h (fst s))"
  proof (cases "meaning c")
    case None
    then show ?thesis using refused [of c s] c Cons.prems(4) by simp
  next
    case (Some g)
    then have "rc = None" using Cons.prems(3) r(2) by simp
    then show ?thesis using does [OF Some, of "fst s" "snd s" rc "fst s1" "snd s1"] c Cons.prems(2,4) Some by simp
  qed
  then show ?case using Cons.IH [OF r(1)] Cons.prems(2,3) r(2) by simp
qed simp

end

interpretation anchor_console: config_shell "\<lambda>(sv, pad, c). anchor_shell sv pad c" "\<lambda>(sv, pad, c). anchor_meaning c" anchor_synced
    "\<lambda>(sv, pad, c). settings_backend sv \<and> length pad = 3"
proof (unfold_locales, goal_cases)
  case (1 c s)
  then show ?case using anchor_malformed by (cases c) simp
next
  case (2 c g cfg f rc cfg' f')
  then show ?case using anchor_step [of "fst c" "fst (snd c)" "snd (snd c)" g cfg f rc cfg' f'] by (cases c) simp
qed

interpretation net_console: config_shell "\<lambda>(sv, c). net_shell sv c" "\<lambda>(sv, c). net_meaning c" net_synced
    "\<lambda>(sv, c). settings_backend sv \<and> (\<forall>a\<in>set (net_args c). c_string a)"
proof (unfold_locales, goal_cases)
  case (1 c s)
  then show ?case using net_malformed by (cases c) simp
next
  case (2 c g cfg f rc cfg' f')
  then show ?case using net_step [of "fst c" "snd c" g cfg f rc cfg' f'] by (cases c) simp
qed

text \<open>A session on the anchor console from a consistent state.\<close>

lemma anchor_on_flash_ok: "delivers f ents \<Longrightarrow> uwb_config_ok (anchor_on_flash f)"
  using anchor_mode.load_keeps [OF empty_configs_ok(1), of ents] anchor_boot [of f ents] by (simp add: uwb_store_init_def)

lemma anchor_session:
  assumes "shell_session (\<lambda>(sv, pad, c). anchor_shell sv pad c) cs s = (rcs, s')"
    and "\<forall>(sv, pad, c)\<in>set cs. settings_backend sv \<and> length pad = 3"
    and "\<forall>((sv, pad, c), rc)\<in>set (zip cs rcs). rc = None \<or> anchor_meaning c = None" and "anchor_synced s"
  shows "anchor_synced s' \<and> fst s' = meanings anchor_meaning (map (\<lambda>(sv, pad, c). c) cs) (fst s)"
proof -
  have m: "meanings (\<lambda>(sv, pad, c). anchor_meaning c) cs g = meanings anchor_meaning (map (\<lambda>(sv, pad, c). c) cs) g" for g
    by (induction cs arbitrary: g) (simp_all add: case_prod_beta)
  have "\<forall>c\<in>set cs. case c of (sv, pad, c) \<Rightarrow> settings_backend sv \<and> length pad = 3"
    "\<forall>(c, rc)\<in>set (zip cs rcs). rc = None \<or> (case c of (sv, pad, c) \<Rightarrow> anchor_meaning c) = None"
    using assms(2,3) by (simp_all add: case_prod_beta)
  from anchor_console.session_exact [OF assms(1) this assms(4)] show ?thesis by (simp add: m)
qed

section \<open>Properties\<close>

text \<open>C10: The anchor console tells the truth: in any session from a boot on, in which every command returned 0 or was
  malformed, the configuration in RAM is the one the commands mean, malformed ones changed nothing, and a reboot
  loads exactly that configuration, whatever else fails at other times and in whatever order the keys arrive.\<close>

theorem anchor_console_truthful:
  assumes "delivers f ents" and "uwb_store_init None None ents uwb_config_set_defaults = (None, cfg)"
    and "shell_session (\<lambda>(sv, pad, c). anchor_shell sv pad c) cs (cfg, f) = (rcs, cfg', f')"
    and "\<forall>(sv, pad, c)\<in>set cs. settings_backend sv \<and> length pad = 3"
    and "\<forall>((sv, pad, c), rc)\<in>set (zip cs rcs). rc = None \<or> anchor_meaning c = None"
    and "delivers f' ents'"
  shows "cfg' = meanings anchor_meaning (map (\<lambda>(sv, pad, c). c) cs) cfg \<and> uwb_config_ok cfg' \<and>
    uwb_store_init None None ents' uwb_config_set_defaults = (None, cfg')"
proof -
  have "cfg = anchor_on_flash f" using anchor_boot [OF assms(1)] assms(2) by simp
  then have "anchor_synced (cfg, f)" using anchor_on_flash_ok [OF assms(1)] by (simp add: anchor_synced_def)
  from anchor_session [OF assms(3-5) this] anchor_boot [OF assms(6)] show ?thesis by (auto simp: anchor_synced_def)
qed

text \<open>And so does the network console.\<close>

theorem net_console_truthful:
  assumes "delivers f ents" and "settings_load ''net'' net_settings_set ents net_config_set_defaults = cfg"
    and "shell_session (\<lambda>(sv, c). net_shell sv c) cs (cfg, f) = (rcs, cfg', f')"
    and "\<forall>(sv, c)\<in>set cs. settings_backend sv \<and> (\<forall>a\<in>set (net_args c). c_string a)"
    and "\<forall>((sv, c), rc)\<in>set (zip cs rcs). rc = None \<or> net_meaning c = None"
    and "delivers f' ents'"
  shows "cfg' = meanings net_meaning (map snd cs) cfg \<and>
    settings_load ''net'' net_settings_set ents' net_config_set_defaults = cfg'"
proof -
  have s: "net_synced (cfg, f)" using net_boot [OF assms(1)] assms(2) by (simp add: net_synced_def)
  have m: "meanings (\<lambda>(sv, c). net_meaning c) cs g = meanings net_meaning (map snd cs) g" for g
    by (induction cs arbitrary: g) (simp_all add: case_prod_beta)
  have "\<forall>c\<in>set cs. case c of (sv, c) \<Rightarrow> settings_backend sv \<and> (\<forall>a\<in>set (net_args c). c_string a)"
    "\<forall>(c, rc)\<in>set (zip cs rcs). rc = None \<or> (case c of (sv, c) \<Rightarrow> net_meaning c) = None"
    using assms(4,5) by (simp_all add: case_prod_beta)
  from net_console.session_exact [OF assms(3) this s] net_boot [OF assms(6)] show ?thesis
    by (simp add: m net_synced_def)
qed

lemma arg_samples: "parse_ul ''3'' = Some 3" "parse_ul ''9'' = Some 9" "parse_ul ''8883'' = Some 8883"
  by (simp_all add: parse_ul_def c_strtoul_def c_int_def c_sign_def is_space_def is_base_digit_def digit_val_def base_value_def)

text \<open>A session of three commands, the second of them malformed and on a store that fails.\<close>

definition sample_cmds :: "(saver \<times> u8 list \<times> anchor_cmd) list" where
  "sample_cmds = [(reliable, [7, 7, 7], AnchorId ''3''), (\<lambda>k v f. (Some EIO, f), [7, 7, 7], AnchorId ''9''),
     (reliable, [7, 7, 7], AnchorMode ''gateway'')]"

abbreviation (input) sample_flash :: flash where
  "sample_flash \<equiv> Map.empty(''anchor/id'' \<mapsto> [3], ''anchor/mode'' \<mapsto> [1])"

lemma sample_session:
  "shell_session (\<lambda>(sv, pad, c). anchor_shell sv pad c) sample_cmds (uwb_config_set_defaults, Map.empty) =
     ([None, Some EINVAL, None], uwb_config_set_defaults\<lparr>cfg_anchor_id := 3, cfg_mode := 1\<rparr>, sample_flash)"
  "\<forall>(sv, pad, c)\<in>set sample_cmds. settings_backend sv \<and> length pad = 3"
  "\<forall>((sv, pad, c), rc)\<in>set (zip sample_cmds [None, Some EINVAL, None]). rc = None \<or> anchor_meaning c = None"
  "meanings anchor_meaning (map (\<lambda>(sv, pad, c). c) sample_cmds) uwb_config_set_defaults =
     uwb_config_set_defaults\<lparr>cfg_anchor_id := 3, cfg_mode := 1\<rparr>"
  by (simp_all add: sample_cmds_def anchor_cmd_id_def anchor_cmd_mode_def arg_samples mode_from_name uwb_config_set_id_def
      uwb_config_set_mode_def uwb_store_save_id_def uwb_store_save_mode_def reliable_def word_le_nat_alt settings_backend_def)

lemma sample_flashes: "delivers Map.empty []" "delivers sample_flash [(''anchor/id'', [3]), (''anchor/mode'', [1])]"
  "uwb_store_init None None [] uwb_config_set_defaults = (None, uwb_config_set_defaults)"
  by (auto simp: delivers_def fun_eq_iff uwb_store_init_def settings_load_def)

lemma anchor_console_truthful_witness:
  "uwb_store_init None None [(''anchor/id'', [3]), (''anchor/mode'', [1])] uwb_config_set_defaults =
     (None, uwb_config_set_defaults\<lparr>cfg_anchor_id := 3, cfg_mode := 1\<rparr>)"
  using anchor_console_truthful [OF sample_flashes(1,3) sample_session(1-3) sample_flashes(2)] by simp

lemma net_console_truthful_witness:
  "settings_load ''net'' net_settings_set [(''net/port'', le16 8883), (''net/ssid'', c_bytes ''lab''), (''net/broker'', c_bytes ''b'')]
     net_config_set_defaults = net_config_set_defaults\<lparr>net_ssid := ''lab'', net_broker := ''b'', net_port := 8883\<rparr>"
proof -
  let ?cs = "[(reliable, NetSsid ''lab''), (reliable, NetPass ''short''), (reliable, NetBroker ''b'' (Some ''8883''))]"
  let ?f = "Map.empty(''net/ssid'' \<mapsto> c_bytes ''lab'', ''net/broker'' \<mapsto> c_bytes ''b'', ''net/port'' \<mapsto> le16 8883)"
  let ?c = "net_config_set_defaults\<lparr>net_ssid := ''lab'', net_broker := ''b'', net_port := 8883\<rparr>"
  have d: "delivers Map.empty []"
    "delivers ?f [(''net/port'', le16 8883), (''net/ssid'', c_bytes ''lab''), (''net/broker'', c_bytes ''b'')]"
    by (auto simp: delivers_def fun_eq_iff)
  have s: "shell_session (\<lambda>(sv, c). net_shell sv c) ?cs (net_config_set_defaults, Map.empty) = ([None, Some EINVAL, None], ?c, ?f)"
    by (simp add: net_cmd_str_def net_cmd_broker_def arg_samples net_config_set_ssid_def net_config_set_psk_def
        net_config_set_broker_def set_str_def net_store_save_ssid_def net_store_save_broker_def reliable_def)
  have i: "settings_load ''net'' net_settings_set [] net_config_set_defaults = net_config_set_defaults"
    by (simp add: settings_load_def)
  from net_console_truthful [OF d(1) i s _ _ d(2)] show ?thesis by (simp add: net_field_def c_string_def)
qed

text \<open>Any text \<open>strtof\<close> reads is a coordinate: a position that is not a number is taken, marked valid and stored.\<close>

lemma position_not_a_number:
  "\<exists>f'. anchor_shell reliable [0, 0, 0] (AnchorPos ''nan'' ''nan'' ''nan'') (uwb_config_set_defaults, f) =
     (None, uwb_config_set_pos uwb_config_set_defaults 0x7FC00000 0x7FC00000 0x7FC00000, f')"
  by (simp add: anchor_cmd_pos_def nan_is_a_number uwb_store_save_pos_def reliable_def Let_def)

end
