(* ===== verification/SurveyShell.thy ===== *)
theory SurveyShell
  imports CArgs AposSurvey PosJson
begin

text \<open>
  The console command \<open>apos\<close>, src/apos_shell.c, on the gateway: the operations of the survey behind the checks of
  the shell. A command returns the error and the survey's state, which holds the stored survey too; \<open>None\<close> is a
  random source that never yields a session. What is printed is not modelled.
\<close>

section \<open>Arguments\<close>

definition parse_id :: "string \<Rightarrow> bool \<Rightarrow> int option" where
  "parse_id arg allow_none =
     (case parse_l arg of
        None \<Rightarrow> None
      | Some v \<Rightarrow>
          if allow_none \<and> v = -1 then Some (-1)
          else if v < 0 \<or> v \<ge> uint UWB_MAX_ANCHORS then None
          else Some v)"

definition require_gateway :: "uwb_config \<Rightarrow> errno option" where
  "require_gateway cfg = (if cfg_mode cfg \<noteq> UWB_MODE_GATEWAY then Some ENOTSUP else None)"

definition gauge_keys :: "string list" where
  "gauge_keys = [''origin='', ''xaxis='', ''plane='', ''up='']"

text \<open>One argument: the first key it starts with, then the id behind it.\<close>

definition gauge_arg :: "string \<Rightarrow> int list \<Rightarrow> int list option" where
  "gauge_arg arg val =
     (case first_index (\<lambda>key. take (length key) arg = key) gauge_keys of
        None \<Rightarrow> None
      | Some k \<Rightarrow>
          (case parse_id (drop (length (gauge_keys ! k)) arg) (k = 3) of
             None \<Rightarrow> None
           | Some v \<Rightarrow> Some (val[k := v])))"

fun gauge_args :: "string list \<Rightarrow> int list \<Rightarrow> int list option" where
  "gauge_args [] val = Some val"
| "gauge_args (a # as) val = (case gauge_arg a val of None \<Rightarrow> None | Some val \<Rightarrow> gauge_args as val)"

section \<open>Commands\<close>

datatype apos_cmd =
    AposEnum "nat \<Rightarrow> u32"
  | AposGauge "string list"
  | AposShow
  | AposRun "nat \<Rightarrow> u32"
  | AposZoff string
  | AposApply "string option"
  | AposRef string string saver "u8 list"

definition apos_cmd_gauge :: "string list \<Rightarrow> apos_gw \<Rightarrow> errno option \<times> apos_gw" where
  "apos_cmd_gauge args s =
     (case gauge_args args [-1, -1, -1, -1] of
        None \<Rightarrow> (Some EINVAL, s)
      | Some val \<Rightarrow>
          if list_ex (\<lambda>k. val ! k = -1) [0..<3] then (Some EINVAL, s)
          else
            let addr = map (\<lambda>k. word_of_int (uint UWB_ANCHOR_ADDR_BASE + val ! k) :: u16) [0..<3] in
            apos_gw_set_gauge (addr ! 0) (addr ! 1) (addr ! 2)
              (if val ! 3 = -1 then -1 else uint UWB_ANCHOR_ADDR_BASE + val ! 3) s)"

definition apos_cmd_apply :: "string option \<Rightarrow> apos_gw \<Rightarrow> errno option \<times> apos_gw" where
  "apos_cmd_apply arg s =
     (let force = (arg = Some ''force'') in
      if arg \<noteq> None \<and> \<not> force then (Some EINVAL, s) else apos_gw_start_apply force s)"

definition apos_cmd_zoff :: "string \<Rightarrow> apos_gw \<Rightarrow> errno option \<times> apos_gw" where
  "apos_cmd_zoff arg s =
     (case parse_flt arg of None \<Rightarrow> (Some EINVAL, s) | Some v \<Rightarrow> (None, apos_gw_set_zoff v s))"

abbreviation (input) D_90 :: f64 where "D_90 \<equiv> 0x4056800000000000"
abbreviation (input) D_MINUS_90 :: f64 where "D_MINUS_90 \<equiv> 0xC056800000000000"
abbreviation (input) D_180 :: f64 where "D_180 \<equiv> 0x4066800000000000"
abbreviation (input) D_MINUS_180 :: f64 where "D_MINUS_180 \<equiv> 0xC066800000000000"

definition apos_cmd_ref :: "string \<Rightarrow> string \<Rightarrow> saver \<Rightarrow> u8 list \<Rightarrow> apos_gw \<Rightarrow> errno option \<times> apos_gw" where
  "apos_cmd_ref a b sv pad s =
     (if apos_gw_busy s then (Some EBUSY, s)
      else
        (case (parse_dbl a, parse_dbl b) of
           (Some lat, Some lon) \<Rightarrow>
             if f64_lt lat D_MINUS_90 \<or> f64_lt D_90 lat \<or> f64_lt lon D_MINUS_180 \<or> f64_lt D_180 lon then (Some EINVAL, s)
             else let (rc, st, fl) = apos_store_set_ref sv pad lat lon (gw_store s) (gw_flash s)
                  in (rc, s\<lparr>gw_store := st, gw_flash := fl\<rparr>)
         | _ \<Rightarrow> (Some EINVAL, s)))"

text \<open>Every command but \<open>show\<close> asks for the gateway first.\<close>

definition apos_shell :: "uwb_config \<Rightarrow> apos_cmd \<Rightarrow> apos_gw \<Rightarrow> (errno option \<times> apos_gw) option" where
  "apos_shell cfg c s =
     (if c = AposShow then Some (None, s)
      else
        (case require_gateway cfg of
           Some rc \<Rightarrow> Some (Some rc, s)
         | None \<Rightarrow>
             (case c of
                AposEnum rnd \<Rightarrow> apos_gw_start_enum rnd s
              | AposGauge args \<Rightarrow> Some (apos_cmd_gauge args s)
              | AposShow \<Rightarrow> Some (None, s)
              | AposRun rnd \<Rightarrow> apos_gw_start_run rnd s
              | AposZoff a \<Rightarrow> Some (apos_cmd_zoff a s)
              | AposApply a \<Rightarrow> Some (apos_cmd_apply a s)
              | AposRef a b sv pad \<Rightarrow> Some (apos_cmd_ref a b sv pad s))))"

section \<open>The gauge\<close>

lemma small_ids:
  "parse_l (dec 0) = Some 0" "parse_l (dec 1) = Some 1" "parse_l (dec 2) = Some 2" "parse_l (dec 3) = Some 3"
  by (simp_all add: parse_l_def c_strtol_def c_int_def c_sign_def is_space_def is_base_digit_def digit_val_def base_value_def
      dec.simps digit_def char_of_def bit_Suc_0_iff Let_def)

lemma parse_id_dec: "n < 4 \<Longrightarrow> parse_id (dec n) b = Some (int n)"
proof -
  assume "n < 4"
  then consider "n = 0" | "n = 1" | "n = 2" | "n = 3" by linarith
  then show ?thesis by cases (simp_all add: parse_id_def small_ids [simplified])
qed

lemma parse_id_range: "parse_id a b = Some v \<Longrightarrow> 0 \<le> v \<and> v < 4 \<or> b \<and> v = -1"
  by (auto simp: parse_id_def split: option.splits if_splits)

lemma gauge_key_found:
  assumes "k < 4" shows "first_index (\<lambda>key. take (length key) (gauge_keys ! k @ t) = key) gauge_keys = Some k"
proof -
  consider "k = 0" | "k = 1" | "k = 2" | "k = 3" using assms by linarith
  then show ?thesis by cases (simp_all add: gauge_keys_def)
qed

text \<open>The arguments of a list of positions, in whatever order they are given.\<close>

lemma gauge_args_typed:
  assumes "\<forall>k\<in>set ks. k < 4 \<and> ids k < 4" and "length val = 4"
  shows "\<exists>val'. gauge_args (map (\<lambda>k. gauge_keys ! k @ dec (ids k)) ks) val = Some val' \<and> length val' = 4 \<and>
    (\<forall>k<4. val' ! k = (if k \<in> set ks then int (ids k) else val ! k))"
  using assms
proof (induction ks arbitrary: val)
  case (Cons k ks)
  have "gauge_arg (gauge_keys ! k @ dec (ids k)) val = Some (val[k := int (ids k)])"
    using Cons.prems(1) unfolding gauge_arg_def by (subst gauge_key_found) (simp_all add: parse_id_dec)
  moreover obtain val' where "gauge_args (map (\<lambda>k. gauge_keys ! k @ dec (ids k)) ks) (val[k := int (ids k)]) = Some val'"
    "length val' = 4" "\<forall>j<4. val' ! j = (if j \<in> set ks then int (ids j) else val[k := int (ids k)] ! j)"
    using Cons.IH [of "val[k := int (ids k)]"] Cons.prems by auto
  ultimately show ?case using Cons.prems by (intro exI [of _ val']) (auto simp: nth_list_update)
qed simp

lemma gauge_args_range:
  assumes "gauge_args args val = Some val'" and "length val = 4" and "\<forall>k<4. -1 \<le> val ! k \<and> val ! k < 4"
  shows "length val' = 4 \<and> (\<forall>k<4. -1 \<le> val' ! k \<and> val' ! k < 4)"
  using assms
proof (induction args arbitrary: val)
  case (Cons a args)
  then obtain v1 where a: "gauge_arg a val = Some v1" "gauge_args args v1 = Some val'" by (auto split: option.splits)
  then obtain k v where k: "v1 = val[k := v]" "-1 \<le> v \<and> v < 4"
    using parse_id_range by (fastforce simp: gauge_arg_def split: option.splits)
  have "\<forall>j<4. -1 \<le> v1 ! j \<and> v1 ! j < 4" using k Cons.prems(2,3) by (cases "k < 4") (auto simp: nth_list_update)
  then show ?case using Cons.IH [OF a(2)] k(1) Cons.prems(2) by simp
qed simp

section \<open>Properties\<close>

lemma wire_addr:
  assumes "-1 \<le> x" "x < (4 :: int)" shows "uint (1 + word_of_int x :: u16) = 1 + x"
proof -
  have "uint (word_of_int (1 + x) :: u16) = 1 + x" using assms by (subst uint_word_of_int) simp
  then show ?thesis by simp
qed

lemma int_addr: "n < 4 \<Longrightarrow> uint (1 + word_of_nat n :: u16) = 1 + int n"
  using wire_addr [of "int n"] by simp

text \<open>C15: The frame is the one that was typed: on an idle gateway the ids of the three or four anchors are taken in
  whatever order the arguments come, each to its own role, and an omitted \<open>up\<close> selects the planar survey.\<close>

theorem gauge_as_typed:
  assumes "cfg_mode cfg = UWB_MODE_GATEWAY" and "\<not> apos_gw_busy s" and "distinct ks" and "{0, 1, 2} \<subseteq> set ks" and "set ks \<subseteq> {0, 1, 2, 3}"
    and "\<forall>k\<in>set ks. ids k < 4" and "inj_on ids (set ks)"
  shows "apos_shell cfg (AposGauge (map (\<lambda>k. gauge_keys ! k @ dec (ids k)) ks)) s =
    Some (None, s\<lparr>gauge_addr := [1 + int (ids 0), 1 + int (ids 1), 1 + int (ids 2), if 3 \<in> set ks then 1 + int (ids 3) else -1]\<rparr>)"
proof -
  have k4: "\<forall>k\<in>set ks. k < 4 \<and> ids k < 4" using assms(5,6) by auto
  obtain val where v: "gauge_args (map (\<lambda>k. gauge_keys ! k @ dec (ids k)) ks) [-1, -1, -1, -1] = Some val"
    "length val = 4" "\<forall>k<4. val ! k = (if k \<in> set ks then int (ids k) else [-1, -1, -1, -1] ! k)"
    using gauge_args_typed [OF k4, of "[-1, -1, -1, -1]"] by auto
  have m: "0 \<in> set ks" "1 \<in> set ks" "2 \<in> set ks" using assms(4) by simp_all
  have ne: "ids i \<noteq> ids j" if "i \<in> set ks" "j \<in> set ks" "i \<noteq> j" for i j using that inj_onD [OF assms(7)] by blast
  have i: "ids 0 < 4" "ids 1 < 4" "ids 2 < 4" using m assms(6) by blast+
  have d: "ids 0 \<noteq> ids 1" "ids 0 \<noteq> ids 2" "ids 1 \<noteq> ids 2" by (rule ne [OF m(1,2)] ne [OF m(1,3)] ne [OF m(2,3)], simp)+
  have u: "ids 3 < 4 \<and> ids 3 \<noteq> ids 0 \<and> ids 3 \<noteq> ids 1 \<and> ids 3 \<noteq> ids 2" if "3 \<in> set ks"
    using that assms(6) ne [OF that m(1)] ne [OF that m(2)] ne [OF that m(3)] by simp
  have w: "val ! 0 = int (ids 0)" "val ! 1 = int (ids 1)" "val ! 2 = int (ids 2)" "val ! 3 = (if 3 \<in> set ks then int (ids 3) else -1)"
    using v(3) assms(4) by auto
  have "apos_cmd_gauge (map (\<lambda>k. gauge_keys ! k @ dec (ids k)) ks) s =
    apos_gw_set_gauge (word_of_int (1 + int (ids 0))) (word_of_int (1 + int (ids 1))) (word_of_int (1 + int (ids 2)))
      (if 3 \<in> set ks then 1 + int (ids 3) else -1) s"
    using v(1) w by (simp add: apos_cmd_gauge_def upt_rec Let_def flip: numeral_2_eq_2)
  also have "\<dots> = (None, s\<lparr>gauge_addr := [1 + int (ids 0), 1 + int (ids 1), 1 + int (ids 2), if 3 \<in> set ks then 1 + int (ids 3) else -1]\<rparr>)"
    using assms(2) i d u by (simp add: apos_gw_set_gauge_def int_addr)
  finally show ?thesis using assms(1) by (simp add: apos_shell_def require_gateway_def)
qed

lemma gauge_as_typed_witness:
  "apos_shell (uwb_config_set_defaults\<lparr>cfg_mode := 1\<rparr>) (AposGauge [''plane='' @ dec 3, ''origin='' @ dec 0, ''xaxis='' @ dec 1]) gw_blank =
     Some (None, gw_blank\<lparr>gauge_addr := [1, 2, 4, -1]\<rparr>)"
proof -
  have "apos_shell (uwb_config_set_defaults\<lparr>cfg_mode := 1\<rparr>)
      (AposGauge (map (\<lambda>k. gauge_keys ! k @ dec ([0, 1, 3] ! k)) [2, 0, 1])) gw_blank =
    Some (None, gw_blank\<lparr>gauge_addr := [1 + int ([0, 1, 3] ! 0), 1 + int ([0, 1, 3] ! 1), 1 + int ([0, 1, 3] ! 2),
      if 3 \<in> set [2, 0, 1 :: nat] then 1 + int ([0, 1, 3] ! 3) else -1]\<rparr>)"
    by (rule gauge_as_typed) (auto simp: apos_gw_busy_def gw_blank_def apos_gw_init_def inj_on_def)
  then show ?thesis by (simp add: gauge_keys_def)
qed

lemma store_irrelevant: "apos_gw_inv (s\<lparr>gw_store := st, gw_flash := fl\<rparr>) = apos_gw_inv s"
  by (simp add: apos_gw_inv_def gw_ready_def phase_ok_def result_ok_def apos_gw_busy_def range_ok_def apply_ok_def
      cong: apos_gw_phase.case_cong)

lemma gauge_accepted:
  assumes "apos_cmd_gauge args s = (None, s')"
  shows "length (gauge_addr s') = 4 \<and> distinct (gauge_addr s') \<and> set (take 3 (gauge_addr s')) \<subseteq> {1..4} \<and>
    (gauge_addr s' ! 3 = -1 \<or> gauge_addr s' ! 3 \<in> {1..4})"
proof -
  obtain val where v: "gauge_args args [-1, -1, -1, -1] = Some val" using assms by (auto simp: apos_cmd_gauge_def split: option.splits)
  have "\<forall>k<4. -1 \<le> [-1, -1, -1, -1 :: int] ! k \<and> [-1, -1, -1, -1 :: int] ! k < 4"
    by (auto simp: less_Suc_eq numeral_eq_Suc)
  then have r: "length val = 4" "\<forall>k<4. -1 \<le> val ! k \<and> val ! k < 4" using gauge_args_range [OF v] by simp_all
  obtain a b c d where val: "val = [a, b, c, d]" using r(1) by (auto simp: length_Suc_conv numeral_eq_Suc)
  have abcd: "-1 \<le> a" "a < 4" "-1 \<le> b" "b < 4" "-1 \<le> c" "c < 4" "-1 \<le> d" "d < 4"
    using r(2) [rule_format, of 0] r(2) [rule_format, of 1] r(2) [rule_format, of 2] r(2) [rule_format, of 3] by (simp_all add: val)
  have n: "a \<noteq> -1" "b \<noteq> -1" "c \<noteq> -1" using assms v val by (auto simp: apos_cmd_gauge_def upt_rec split: if_splits)
  then have "0 \<le> a" "0 \<le> b" "0 \<le> c" "d = -1 \<or> 0 \<le> d" using abcd by linarith+
  then show ?thesis using assms v val abcd wire_addr
    by (auto simp: apos_cmd_gauge_def apos_gw_set_gauge_def upt_rec Let_def split: if_splits)
qed

text \<open>Each command keeps the invariant, and does nothing while a survey runs.\<close>

lemma gauge_cmd_keeps:
  assumes "apos_gw_inv s" and "apos_cmd_gauge args s = (rc, s')"
  shows "apos_gw_inv s' \<and> (apos_gw_busy s \<longrightarrow> s' = s)"
proof -
  have g: "apos_gw_inv t \<and> (apos_gw_busy s \<longrightarrow> t = s)" if "apos_gw_set_gauge o' x p u s = (r, t)" for o' x p u r t
    using that set_gauge_inv [OF assms(1), of o' x p u] by (auto simp: apos_gw_set_gauge_def)
  show ?thesis using assms by (auto simp: apos_cmd_gauge_def Let_def dest: g split: option.splits if_splits)
qed

lemma apply_cmd_keeps:
  assumes "apos_gw_inv s" and "apos_cmd_apply a s = (rc, s')"
  shows "apos_gw_inv s' \<and> (apos_gw_busy s \<longrightarrow> s' = s)"
proof -
  have g: "apos_gw_inv t \<and> (apos_gw_busy s \<longrightarrow> t = s)" if "apos_gw_start_apply f s = (r, t)" for f r t
    using that start_apply_inv [OF assms(1), of f] by (auto simp: apos_gw_start_apply_def)
  show ?thesis using assms by (auto simp: apos_cmd_apply_def Let_def dest: g split: if_splits)
qed

lemma ref_cmd_keeps:
  assumes "apos_gw_inv s" and "apos_cmd_ref a b sv pad s = (rc, s')"
  shows "apos_gw_inv s' \<and> (apos_gw_busy s \<longrightarrow> s' = s)"
  using assms store_irrelevant by (auto simp: apos_cmd_ref_def Let_def split: option.splits if_splits prod.splits)

lemma busy_refuses:
  "apos_gw_start_enum rnd s = Some (rc, s') \<Longrightarrow> apos_gw_busy s \<Longrightarrow> s' = s"
  "apos_gw_start_run rnd s = Some (rc, s') \<Longrightarrow> apos_gw_busy s \<Longrightarrow> s' = s"
  by (simp_all add: apos_gw_start_enum_def apos_gw_start_run_def)

text \<open>C14: No command disturbs a survey: whatever is typed, the state stays consistent; on a board that is not the gateway
  nothing changes; while a survey runs nothing changes but the height offset of the next solve; and a gauge that is
  accepted names three or four different anchors.\<close>

theorem apos_console_safe:
  assumes "apos_gw_inv s" and "apos_shell cfg c s = Some (rc, s')"
  shows "apos_gw_inv s' \<and> (cfg_mode cfg \<noteq> UWB_MODE_GATEWAY \<longrightarrow> s' = s) \<and>
    (apos_gw_busy s \<longrightarrow> (\<exists>z. s' = s\<lparr>zoff_m := z\<rparr>)) \<and>
    (\<forall>args. c = AposGauge args \<and> rc = None \<longrightarrow> length (gauge_addr s') = 4 \<and> distinct (gauge_addr s') \<and>
       set (take 3 (gauge_addr s')) \<subseteq> {1..4} \<and> (gauge_addr s' ! 3 = -1 \<or> gauge_addr s' ! 3 \<in> {1..4}))"
proof (cases "c = AposShow \<or> cfg_mode cfg \<noteq> UWB_MODE_GATEWAY")
  case True
  then show ?thesis using assms by (auto simp: apos_shell_def require_gateway_def intro: exI [of _ "zoff_m s"] split: if_splits)
next
  case False
  then have gw: "require_gateway cfg = None" "c \<noteq> AposShow" by (simp_all add: require_gateway_def)
  have "apos_gw_inv s' \<and> ((apos_gw_busy s \<longrightarrow> s' = s) \<or> (\<exists>z. s' = s\<lparr>zoff_m := z\<rparr>))"
  proof (cases c)
    case (AposEnum rnd)
    then have "apos_gw_start_enum rnd s = Some (rc, s')" using assms(2) gw by (simp add: apos_shell_def)
    then show ?thesis using start_enum_inv [OF assms(1)] busy_refuses(1) by blast
  next
    case (AposRun rnd)
    then have "apos_gw_start_run rnd s = Some (rc, s')" using assms(2) gw by (simp add: apos_shell_def)
    then show ?thesis using start_run_inv [OF assms(1)] busy_refuses(2) by blast
  next
    case (AposZoff a)
    then show ?thesis using assms gw set_zoff_inv [OF assms(1)]
      by (auto simp: apos_shell_def apos_cmd_zoff_def apos_gw_set_zoff_def split: option.splits)
  next
    case (AposGauge args)
    then have "apos_cmd_gauge args s = (rc, s')" using assms(2) gw by (simp add: apos_shell_def)
    then show ?thesis using gauge_cmd_keeps [OF assms(1)] by blast
  next
    case (AposApply a)
    then have "apos_cmd_apply a s = (rc, s')" using assms(2) gw by (simp add: apos_shell_def)
    then show ?thesis using apply_cmd_keeps [OF assms(1)] by blast
  next
    case (AposRef a b sv pad)
    then have "apos_cmd_ref a b sv pad s = (rc, s')" using assms(2) gw by (simp add: apos_shell_def)
    then show ?thesis using ref_cmd_keeps [OF assms(1)] by blast
  qed (use gw in simp)
  moreover have "\<exists>z. s = s\<lparr>zoff_m := z\<rparr>" by (rule exI [of _ "zoff_m s"]) simp
  moreover have "apos_cmd_gauge args s = (rc, s')" if "c = AposGauge args" for args
    using assms(2) gw that by (simp add: apos_shell_def)
  ultimately show ?thesis using False gauge_accepted by blast
qed

lemma apos_console_safe_witness:
  "\<exists>s'. apos_shell (uwb_config_set_defaults\<lparr>cfg_mode := 1\<rparr>) (AposGauge [''up=7'']) ranging_gw = Some (Some EINVAL, s') \<and> apos_gw_inv s' \<and>
     (\<exists>z. s' = ranging_gw\<lparr>zoff_m := z\<rparr>)"
proof -
  have "parse_id ''7'' True = None"
    by (simp add: parse_id_def parse_l_def c_strtol_def c_int_def c_sign_def is_space_def is_base_digit_def digit_val_def base_value_def)
  then have s: "apos_shell (uwb_config_set_defaults\<lparr>cfg_mode := 1\<rparr>) (AposGauge [''up=7'']) ranging_gw = Some (Some EINVAL, ranging_gw)"
    by (simp add: apos_shell_def require_gateway_def apos_cmd_gauge_def gauge_arg_def gauge_keys_def)
  have "apos_gw_busy ranging_gw" by (simp add: apos_gw_busy_def ranging_gw_def)
  with apos_console_safe [OF ranging_gw_inv s] s show ?thesis by blast
qed

text \<open>A reference that is not a number passes the test of the range, and from then on the anchors document is refused.\<close>

lemma reference_not_a_number:
  assumes "cfg_mode cfg = UWB_MODE_GATEWAY" and "\<not> apos_gw_busy s" and "sv_valid (gw_store s)" and "sv_n_nodes (gw_store s) \<noteq> 0"
  shows "\<exists>s'. apos_shell cfg (AposRef ''nan'' ''nan'' reliable pad) s = Some (None, s') \<and>
    fst (pos_json_anchors buf len (Some (gw_store s'))) = -1"
proof -
  let ?n = "0x7FF8000000000000" and ?st = "gw_store s"
  have nan: "f64_val ?n = NaN" by (simp add: f64_val_def fl_decode_def)
  have lt: "\<not> f64_lt ?n b" "\<not> f64_lt b ?n" for b by (simp_all add: f64_lt_def nan) (cases "f64_val b"; simp)
  have "apos_shell cfg (AposRef ''nan'' ''nan'' reliable pad) s =
      Some (None, s\<lparr>gw_store := ?st\<lparr>sv_ref_lat := ?n, sv_ref_lon := ?n, sv_ref_valid := True\<rparr>,
        gw_flash := (gw_flash s)(''apos/ref'' \<mapsto> stored_ref ?n ?n pad)\<rparr>)"
    using assms(1,2) lt by (simp add: apos_shell_def require_gateway_def apos_cmd_ref_def nan_is_a_number apos_store_set_ref_def reliable_def)
  then show ?thesis using anchors_refuse_nan assms(3,4) by (fastforce simp: survey_finite_def isfinite_f64_def nan)
qed

end
