(* ===== verification/CalShell.thy ===== *)
theory CalShell
  imports CalRun Console
begin

text \<open>
  The console command \<open>cal\<close> of the calibration image, src/cal_shell.c, over the hand-over of CalRun: a command is
  the request it submits and, when \<open>cal_run_execute\<close> has returned, what it makes of the answer. A session of the
  image is a step relation over the two threads, the configuration singleton, which is not the copy the
  main thread works with, and the flash. What is printed is not modelled.
\<close>

section \<open>Commands\<close>

datatype cal_cmd = CalRef string | CalPeer string string

definition cal_cmd_peer_req :: "string \<Rightarrow> string \<Rightarrow> cal_request option" where
  "cal_cmd_peer_req a b =
     (case parse_l a of
        None \<Rightarrow> None
      | Some k \<Rightarrow>
          if k < 0 \<or> k \<ge> uint UWB_MAX_ANCHORS then None
          else
            (case parse_l b of
               None \<Rightarrow> None
             | Some mm \<Rightarrow>
                 if mm \<le> 0 then None
                 else Some \<lparr>cq_peer_wire_id = word_of_int (uint UWB_ANCHOR_ADDR_BASE + k) AND 0xFF, cq_ref_mm = mm, cq_persist = False\<rparr>))"

definition cal_cmd_ref_req :: "string \<Rightarrow> cal_request option" where
  "cal_cmd_ref_req a =
     (case parse_l a of
        None \<Rightarrow> None
      | Some mm \<Rightarrow> if mm \<le> 0 then None else Some \<lparr>cq_peer_wire_id = CAL_PEER_REFERENCE, cq_ref_mm = mm, cq_persist = True\<rparr>)"

fun cal_cmd_req :: "cal_cmd \<Rightarrow> cal_request option" where
  "cal_cmd_req (CalRef a) = cal_cmd_ref_req a"
| "cal_cmd_req (CalPeer a b) = cal_cmd_peer_req a b"

text \<open>What \<open>cal ref\<close> does with the answer: the singleton and the flash follow the radio.\<close>

definition cal_cmd_ref_done ::
  "saver \<Rightarrow> errno option \<Rightarrow> cal_result \<Rightarrow> uwb_config \<times> flash \<Rightarrow> errno option \<times> uwb_config \<times> flash" where
  "cal_cmd_ref_done sv rc res s =
     (if rc \<noteq> None then (rc, s)
      else
        let (cfg, f) = s; (ok, cfg) = uwb_config_set_ant cfg (ucast (cs_new_tx res)) (ucast (cfg_ant_delay_rx cfg)) in
        if \<not> ok then (Some EINVAL, cfg, f)
        else let (ret, f) = uwb_store_save_ant sv cfg f in (ret, cfg, f))"

fun cal_cmd_done ::
  "saver \<Rightarrow> cal_cmd \<Rightarrow> errno option \<Rightarrow> cal_result \<Rightarrow> uwb_config \<times> flash \<Rightarrow> errno option \<times> uwb_config \<times> flash" where
  "cal_cmd_done sv (CalRef a) rc res s = cal_cmd_ref_done sv rc res s"
| "cal_cmd_done sv (CalPeer a b) rc res s = (rc, s)"

section \<open>Sessions\<close>

text \<open>\<open>ci_cmd\<close> is the command the shell thread is in, \<open>ci_last\<close> the last command and its answer.\<close>

record cal_image =
  ci_world :: cal_world
  ci_cfg :: uwb_config
  ci_flash :: flash
  ci_cmd :: "cal_cmd option"
  ci_last :: "(cal_cmd \<times> errno option) option"

definition cal_image_boot :: "uwb_config \<Rightarrow> flash \<Rightarrow> responder \<Rightarrow> cal_image" where
  "cal_image_boot cfg f r = \<lparr>ci_world = cal_boot cfg r, ci_cfg = cfg, ci_flash = f, ci_cmd = None, ci_last = None\<rparr>"

text \<open>Whether a command of the anchor console can change the antenna delays.\<close>

definition sets_delays :: "anchor_cmd \<Rightarrow> bool" where
  "sets_delays c = (case c of AnchorAnt _ _ \<Rightarrow> True | AnchorReset \<Rightarrow> True | _ \<Rightarrow> False)"

text \<open>The waits may run out where \<open>late\<close>, and the anchor console may set delays where \<open>ant\<close>.\<close>

inductive image_step :: "bool \<Rightarrow> bool \<Rightarrow> cal_image \<Rightarrow> cal_image \<Rightarrow> bool" for late ant where
  im_bad: "ci_cmd im = None \<Longrightarrow> cal_cmd_req c = None \<Longrightarrow> image_step late ant im (im\<lparr>ci_last := Some (c, Some EINVAL)\<rparr>)"
| im_call: "ci_cmd im = None \<Longrightarrow> cal_cmd_req c = Some req \<Longrightarrow>
    console_step late (ci_world im) ((ci_world im)\<lparr>cw_console := CcCalled req, cw_history := cw_history (ci_world im) @ [Called req]\<rparr>) \<Longrightarrow>
    image_step late ant im (im\<lparr>ci_world := (ci_world im)\<lparr>cw_console := CcCalled req, cw_history := cw_history (ci_world im) @ [Called req]\<rparr>,
      ci_cmd := Some c, ci_last := None\<rparr>)"
| im_console: "ci_cmd im \<noteq> None \<Longrightarrow> \<not> (\<exists>req rc out. cw_console (ci_world im) = CcReturned req rc out) \<Longrightarrow>
    console_step late (ci_world im) w \<Longrightarrow> image_step late ant im (im\<lparr>ci_world := w\<rparr>)"
| im_main: "main_step (ci_world im) w \<Longrightarrow> image_step late ant im (im\<lparr>ci_world := w\<rparr>)"
| im_done: "ci_cmd im = Some c \<Longrightarrow> cw_console (ci_world im) = CcReturned req rc out \<Longrightarrow> settings_backend sv \<Longrightarrow>
    cal_cmd_done sv c rc out (ci_cfg im, ci_flash im) = (ret, cfg, f) \<Longrightarrow>
    image_step late ant im (im\<lparr>ci_cfg := cfg, ci_flash := f, ci_cmd := None, ci_last := Some (c, ret)\<rparr>)"
| im_anchor: "ci_cmd im = None \<Longrightarrow> ant \<or> \<not> sets_delays c \<Longrightarrow> settings_backend sv \<Longrightarrow> length pad = 3 \<Longrightarrow>
    anchor_shell sv pad c (ci_cfg im, ci_flash im) = (ret, cfg, f) \<Longrightarrow>
    image_step late ant im (im\<lparr>ci_cfg := cfg, ci_flash := f, ci_last := None\<rparr>)"

inductive image_reach :: "bool \<Rightarrow> bool \<Rightarrow> uwb_config \<Rightarrow> cal_image \<Rightarrow> bool" for late ant cfg0 where
  im_start: "image_reach late ant cfg0 (cal_image_boot cfg0 f r)"
| im_next: "image_reach late ant cfg0 im \<Longrightarrow> image_step late ant im im' \<Longrightarrow> image_reach late ant cfg0 im'"

inductive_cases image_cases: "image_step late ant im im'"

lemma image_world: "image_reach late ant cfg0 im \<Longrightarrow> cal_reach late cfg0 (ci_world im)"
proof (induction rule: image_reach.induct)
  case (im_start f r)
  then show ?case by (simp add: cal_image_boot_def cal_start)
next
  case (im_next im im')
  from im_next(2) show ?case by (rule image_cases) (use im_next.IH in \<open>auto intro: cal_console cal_main\<close>)
qed

text \<open>A verdict changes the live delay exactly when it was asked to and succeeded.\<close>

lemma verdict_cfg:
  assumes "batch_verdict req samples res cfg = Some (res', cfg', tx)"
  shows "cfg' = (if cq_persist req \<and> cs_status res' = None then cfg\<lparr>cfg_ant_delay_tx := cs_new_tx res'\<rparr> else cfg)"
  using assms by (auto simp: batch_verdict_def Let_def split: if_splits option.splits)

lemma run_cfg:
  "run_batch xs req res cfg ss = Some (res', cfg', tx, ss', air) \<Longrightarrow>
   cfg' = (if cq_persist req \<and> cs_status res' = None then cfg\<lparr>cfg_ant_delay_tx := cs_new_tx res'\<rparr> else cfg)"
  using verdict_cfg by (fastforce simp: run_batch_def split: option.splits)

text \<open>The live configuration as it was when the running command was given.\<close>

definition before_cmd :: "cal_world \<Rightarrow> uwb_config" where
  "before_cmd w = (case last (cw_history w) of Called _ \<Rightarrow> cw_cfg w | Batch _ cfg _ _ _ _ \<Rightarrow> cfg)"

definition same_delays :: "uwb_config \<Rightarrow> uwb_config \<Rightarrow> bool" where
  "same_delays a b \<longleftrightarrow> cfg_ant_delay_tx a = cfg_ant_delay_tx b \<and> cfg_ant_delay_rx a = cfg_ant_delay_rx b"

fun console_req :: "cal_console \<Rightarrow> cal_request option" where
  "console_req CcIdle = None"
| "console_req (CcCalled req) = Some req"
| "console_req (CcBusy req) = Some req"
| "console_req (CcCopied req) = Some req"
| "console_req (CcReset req) = Some req"
| "console_req (CcWait req) = Some req"
| "console_req (CcTaken req) = Some req"
| "console_req (CcFetched req out) = Some req"
| "console_req (CcReleased req out) = Some req"
| "console_req (CcReturned req rc out) = Some req"

definition image_inv :: "cal_image \<Rightarrow> bool" where
  "image_inv im \<longleftrightarrow> cal_inv (ci_world im) \<and>
     (case ci_cmd im of
        None \<Rightarrow> (cw_console (ci_world im) = CcIdle \<or> (\<exists>req rc out. cw_console (ci_world im) = CcReturned req rc out)) \<and>
          same_delays (ci_cfg im) (cw_cfg (ci_world im))
      | Some c \<Rightarrow> ci_last im = None \<and> (\<exists>req. cal_cmd_req c = Some req \<and> console_req (cw_console (ci_world im)) = Some req) \<and>
          same_delays (ci_cfg im) (before_cmd (ci_world im))) \<and>
     (\<forall>a. ci_last im = Some (CalRef a, None) \<longrightarrow> same_delays (anchor_on_flash (ci_flash im)) (ci_cfg im) \<and>
        (\<exists>h req xs cfg ss0 res cfg' tx ss air. cw_history (ci_world im) = h @ [Called req, Batch xs cfg ss0 res cfg' air] \<and>
           cal_cmd_ref_req a = Some req \<and> length xs = 128 \<and>
           run_batch xs req (blank_result req) cfg ss0 = Some (res, cfg', tx, ss, air) \<and> cs_new_tx res = cfg_ant_delay_tx (ci_cfg im)))"

section \<open>The steps keep it\<close>

lemma console_moves:
  assumes "console_step late w w'" and "console_req (cw_console w) \<noteq> None" and "\<not> (\<exists>req rc out. cw_console w = CcReturned req rc out)"
  shows "cw_history w' = cw_history w \<and> before_cmd w' = before_cmd w \<and> console_req (cw_console w') = console_req (cw_console w)"
  using assms(1) by (rule console_cases) (use assms(2,3) in \<open>auto simp: before_cmd_def split: cal_event.split\<close>)

lemma main_before:
  assumes "main_step w w'" and "cal_inv w"
  shows "before_cmd w' = before_cmd w \<and> cw_console w' = cw_console w"
  using assms(1)
proof (rule main_cases)
  fix res ss0 xs samples air res' cfg tx
  assume m: "cw_main w = CmBatch res ss0 xs samples air" and w': "w' = w\<lparr>cw_cfg := cfg, cw_radio_tx := case tx of None \<Rightarrow> cw_radio_tx w | Some t \<Rightarrow> t,
      cw_main := CmStore res', cw_history := cw_history w @ [Batch xs (cw_cfg w) ss0 res' cfg air]\<rparr>"
  have "\<not> quiet w" using m by (simp add: quiet_def)
  then obtain req where "cw_console w = CcWait req" using assms(2) by (cases "cw_console w") (simp_all add: cal_inv_def)
  then have "pending req w" using assms(2) m by (simp add: cal_inv_def)
  then show ?thesis by (auto simp: before_cmd_def pending_def w')
qed (simp_all add: before_cmd_def split: cal_event.split)

lemma same_delays_trans: "same_delays a b \<Longrightarrow> same_delays b c \<Longrightarrow> same_delays a c"
  by (simp add: same_delays_def)

text \<open>The end of \<open>cal ref\<close>.\<close>

lemma ref_done:
  assumes "settings_backend sv" and "cal_cmd_ref_done sv rc out (cfg, f) = (ret, cfg', f')"
  shows "cfg' = (if rc = None then cfg\<lparr>cfg_ant_delay_tx := cs_new_tx out\<rparr> else cfg)"
    and "ret = None \<Longrightarrow> rc = None \<and> same_delays (anchor_on_flash f') cfg'"
proof -
  let ?t = "cs_new_tx out" and ?r = "cfg_ant_delay_rx cfg"
  have u: "ucast (ucast x :: u32) = x" "\<not> (65535 :: u32) < ucast x" for x :: u16
  proof -
    have x: "unat x < 65536" using unsigned_less [of x, where 'a = nat] by simp
    then show "ucast (ucast x :: u32) = x" "\<not> (65535 :: u32) < ucast x"
      by (simp_all add: word_less_nat_alt word_unat_eq_iff unsigned_ucast_eq unsigned_take_bit_eq take_bit_nat_eq_self)
  qed
  obtain r1 f1 where a: "sv ''anchor/ant_tx'' (le16 ?t) f = (r1, f1)" by fastforce
  obtain r2 f2 where b: "sv ''anchor/ant_rx'' (le16 ?r) f1 = (r2, f2)" by fastforce
  have d: "cfg' = (if rc = None then cfg\<lparr>cfg_ant_delay_tx := ?t\<rparr> else cfg) \<and>
      (ret = None \<longrightarrow> rc = None \<and> r1 = None \<and> r2 = None \<and> f' = f2)"
    using assms(2) a b by (auto simp: cal_cmd_ref_done_def uwb_config_set_ant_def uwb_store_save_ant_def u split: if_splits)
  have "f2 = f(''anchor/ant_tx'' \<mapsto> le16 ?t, ''anchor/ant_rx'' \<mapsto> le16 ?r)" if "r1 = None" "r2 = None"
    using that save_cases [OF assms(1) a, rule_format] save_cases [OF assms(1) b, rule_format] by blast
  then show "cfg' = (if rc = None then cfg\<lparr>cfg_ant_delay_tx := ?t\<rparr> else cfg)"
    "ret = None \<Longrightarrow> rc = None \<and> same_delays (anchor_on_flash f') cfg'"
    using d by (auto simp: anchor_flash_keys(3) same_delays_def)
qed

lemma anchor_keeps_delays:
  assumes "\<not> sets_delays c" and "anchor_shell sv pad c (cfg, f) = (ret, cfg', f')"
  shows "same_delays cfg' cfg"
  using assms by (cases c) (auto simp: sets_delays_def same_delays_def anchor_cmd_id_def anchor_cmd_mode_def anchor_cmd_pos_def
      uwb_config_set_id_def uwb_config_set_mode_def uwb_config_set_pos_def Let_def split: option.splits if_splits prod.splits)

lemma image_keeps_inv:
  assumes "image_step False False im im'" and "image_inv im"
  shows "image_inv im'"
proof -
  let ?w = "ci_world im"
  have ci: "cal_inv ?w" using assms(2) by (simp add: image_inv_def)
  from assms(1) show ?thesis
  proof (rule image_cases)
    fix c assume "im' = im\<lparr>ci_last := Some (c, Some EINVAL)\<rparr>" "ci_cmd im = None"
    then show ?thesis using assms(2) by (simp add: image_inv_def)
  next
    fix c req
    assume im': "im' = im\<lparr>ci_world := ?w\<lparr>cw_console := CcCalled req, cw_history := cw_history ?w @ [Called req]\<rparr>,
        ci_cmd := Some c, ci_last := None\<rparr>"
      and c: "ci_cmd im = None" "cal_cmd_req c = Some req"
      and s: "console_step False ?w (?w\<lparr>cw_console := CcCalled req, cw_history := cw_history ?w @ [Called req]\<rparr>)"
    show ?thesis using assms(2) c console_keeps_inv [OF s ci] by (simp add: im' image_inv_def before_cmd_def)
  next
    fix w k assume im': "im' = im\<lparr>ci_world := w\<rparr>" and k: "ci_cmd im = Some k"
      and c: "\<forall>req rc out. cw_console ?w \<noteq> CcReturned req rc out" and s: "console_step False ?w w"
    from k have "console_req (cw_console ?w) \<noteq> None"
      using assms(2) by (cases "console_req (cw_console ?w)") (auto simp: image_inv_def)
    from console_moves [OF s this] c show ?thesis
      using assms(2) k console_keeps_inv [OF s ci] by (auto simp: im' image_inv_def)
  next
    fix w assume im': "im' = im\<lparr>ci_world := w\<rparr>" and s: "main_step ?w w"
    show ?thesis
    proof (cases "ci_cmd im")
      case None
      then have "\<not> (\<exists>r. cw_console ?w = CcWait r)" using assms(2) by (auto simp: image_inv_def)
      from main_waits [OF s ci this] show ?thesis
        using None assms(2) main_keeps_inv [OF s ci] by (auto simp: im' image_inv_def)
    next
      case (Some k)
      then show ?thesis using assms(2) main_before [OF s ci] main_keeps_inv [OF s ci] by (simp add: im' image_inv_def)
    qed
  next
    fix c req rc out sv ret cfg f
    assume im': "im' = im\<lparr>ci_cfg := cfg, ci_flash := f, ci_cmd := None, ci_last := Some (c, ret)\<rparr>"
      and c: "ci_cmd im = Some c" "cw_console ?w = CcReturned req rc out" and sv: "settings_backend sv"
      and d: "cal_cmd_done sv c rc out (ci_cfg im, ci_flash im) = (ret, cfg, f)"
    have q: "cal_cmd_req c = Some req" "same_delays (ci_cfg im) (before_cmd ?w)" using assms(2) c by (simp_all add: image_inv_def)
    have "rc = cs_status out" "served req out ?w" using ci c(2) by (simp_all add: cal_inv_def)
    then obtain h xs cfg0 ss0 tx ss air where
      h: "cw_history ?w = h @ [Called req, Batch xs cfg0 ss0 out (cw_cfg ?w) air]" "length xs = 128"
      and r: "run_batch xs req (blank_result req) cfg0 ss0 = Some (out, cw_cfg ?w, tx, ss, air)"
      by (auto simp: served_def)
    have b: "before_cmd ?w = cfg0" by (simp add: before_cmd_def h(1))
    have live: "cw_cfg ?w = (if cq_persist req \<and> rc = None then cfg0\<lparr>cfg_ant_delay_tx := cs_new_tx out\<rparr> else cfg0)"
      using run_cfg [OF r] \<open>rc = cs_status out\<close> by simp
    show ?thesis
    proof (cases c)
      case (CalRef a)
      then have p: "cal_cmd_ref_req a = Some req" "cq_persist req" using q(1) by (auto simp: cal_cmd_ref_req_def split: option.splits if_splits)
      have d': "cal_cmd_ref_done sv rc out (ci_cfg im, ci_flash im) = (ret, cfg, f)" using d CalRef by simp
      note rd = ref_done [OF sv d']
      have "same_delays cfg (cw_cfg ?w)" using rd(1) live p(2) q(2) b by (auto simp: same_delays_def)
      moreover have "cs_new_tx out = cfg_ant_delay_tx cfg" if "ret = None" using rd that by auto
      ultimately show ?thesis using ci c(2) rd(2) h r p(1) CalRef by (auto simp: im' image_inv_def)
    next
      case (CalPeer a b')
      then have "\<not> cq_persist req" using q(1) by (auto simp: cal_cmd_peer_req_def split: option.splits if_splits)
      then have "cw_cfg ?w = before_cmd ?w" using live b by simp
      then show ?thesis using ci c(2) q(2) d CalPeer by (simp add: im' image_inv_def)
    qed
  next
    fix c sv pad ret cfg f
    assume im': "im' = im\<lparr>ci_cfg := cfg, ci_flash := f, ci_last := None\<rparr>" and c: "ci_cmd im = None" "False \<or> \<not> sets_delays c"
      and a: "anchor_shell sv pad c (ci_cfg im, ci_flash im) = (ret, cfg, f)"
    have "same_delays cfg (ci_cfg im)" using anchor_keeps_delays [OF _ a] c(2) by simp
    then show ?thesis using assms(2) c(1) same_delays_trans by (auto simp: im' image_inv_def)
  qed
qed

lemma image_reach_inv: "image_reach False False cfg0 im \<Longrightarrow> image_inv im"
proof (induction rule: image_reach.induct)
  case (im_start f r)
  have "cal_inv (cal_boot cfg0 r)" by (rule cal_reach_inv [OF cal_start])
  then show ?case by (simp add: image_inv_def cal_image_boot_def same_delays_def) (simp add: cal_boot_def)
qed (rule image_keeps_inv)

section \<open>The four copies of the delay\<close>


text \<open>A run of one command is a run of the image.\<close>

definition calls :: "cal_world \<Rightarrow> cal_event list" where
  "calls w = filter (\<lambda>e. case e of Called _ \<Rightarrow> True | Batch _ _ _ _ _ _ \<Rightarrow> False) (cw_history w)"

lemma image_lift:
  assumes "cal_reach late cfg0 w" and "cal_cmd_req c = Some req"
  shows "(calls w = [] \<longrightarrow> cw_console w = CcIdle \<and>
      image_reach late ant cfg0 \<lparr>ci_world = w, ci_cfg = cfg0, ci_flash = f, ci_cmd = None, ci_last = None\<rparr>) \<and>
    (calls w = [Called req] \<longrightarrow>
      image_reach late ant cfg0 \<lparr>ci_world = w, ci_cfg = cfg0, ci_flash = f, ci_cmd = Some c, ci_last = None\<rparr>)"
  using assms(1)
proof (induction rule: cal_reach.induct)
  case (cal_start r)
  then show ?case using im_start [of late ant cfg0 f r] by (simp add: cal_image_boot_def) (simp add: calls_def cal_boot_def)
next
  case (cal_main w w')
  let ?im = "\<lambda>k. \<lparr>ci_world = w, ci_cfg = cfg0, ci_flash = f, ci_cmd = k, ci_last = None\<rparr>"
  have m: "calls w' = calls w \<and> cw_console w' = cw_console w" using cal_main(2) by (rule main_cases) (simp_all add: calls_def)
  have "image_step late ant (?im k) (?im k\<lparr>ci_world := w'\<rparr>)" for k by (rule im_main) (simp add: cal_main(2))
  then show ?case using cal_main.IH m im_next by fastforce
next
  case (cal_console w w')
  let ?im = "\<lambda>k. \<lparr>ci_world = w, ci_cfg = cfg0, ci_flash = f, ci_cmd = k, ci_last = None\<rparr>"
  show ?case
  proof (cases "\<exists>q. w' = w\<lparr>cw_console := CcCalled q, cw_history := cw_history w @ [Called q]\<rparr>")
    case True
    then obtain q where q: "w' = w\<lparr>cw_console := CcCalled q, cw_history := cw_history w @ [Called q]\<rparr>" by blast
    have c: "calls w' = calls w @ [Called q]" by (simp add: calls_def q)
    have "image_step late ant (?im None) (?im None\<lparr>ci_world := w', ci_cmd := Some c, ci_last := None\<rparr>)" if "q = req"
      using im_call [of "?im None" c req late ant] cal_console(2) assms(2) q that by simp
    then show ?thesis using cal_console.IH c im_next by fastforce
  next
    case False
    then have n: "calls w' = calls w" "\<not> (\<exists>r rc out. cw_console w = CcReturned r rc out)" "cw_console w \<noteq> CcIdle"
      using cal_console(2) by (auto simp: calls_def elim!: console_cases)
    have "image_step late ant (?im (Some c)) (?im (Some c)\<lparr>ci_world := w'\<rparr>)" by (rule im_console) (use n cal_console(2) in simp_all)
    then show ?thesis using cal_console.IH n im_next by fastforce
  qed
qed

lemma peer_typed: "cal_cmd_req (CalPeer ''1'' ''1000'') = Some peer_req"
  by (simp add: cal_cmd_peer_req_def peer_req_def parse_l_def c_strtol_def c_int_def c_sign_def is_space_def is_base_digit_def
      digit_val_def base_value_def)


end
