(* ===== verification/Boot.thy ===== *)
theory Boot
  imports Console AposStore
begin

text \<open>
  The start of the firmware, src/main.c and src/uwb_radio.c: the stores are loaded, the radio is brought up with the
  configuration they yield, and the main thread enters one loop. What the driver, the hardware layer and the
  settings subsystem answer is an argument; the calls they receive are a trace. The constants of the physical
  layer are fixed arguments of those calls and are left out.
\<close>

section \<open>The radio\<close>

datatype radio_call =
    HwInit
  | HwReset
  | Msleep nat
  | Probe
  | Initialise
  | CheckIdleRc
  | SpiFast
  | ReadDevId
  | ConfigurePhy
  | ConfigCiaDiag
  | ConfigTxRf
  | SetTxAntennaDelay u16
  | SetRxAntennaDelay u16
  | SetFineGrainTxSeq nat
  | SetLnaPaMode
  | InitInterrupt

text \<open>The results, 0 for success; \<open>re_idle_rc\<close> is 0 when the part is not in that state.\<close>

record radio_env =
  re_hw_init :: int
  re_probe :: int
  re_initialise :: int
  re_idle_rc :: int
  re_configure :: int
  re_interrupt :: int

abbreviation (input) RC_EIO :: int where "RC_EIO \<equiv> -5"

definition uwb_radio_init :: "radio_env \<Rightarrow> uwb_config \<Rightarrow> int \<times> radio_call list" where
  "uwb_radio_init e cfg =
     (let tr = [HwInit] in
      if re_hw_init e \<noteq> 0 then (re_hw_init e, tr)
      else
        let tr = tr @ [HwReset, Msleep 2, Probe] in
        if re_probe e \<noteq> 0 then (re_probe e, tr)
        else
          let tr = tr @ [Initialise] in
          if re_initialise e \<noteq> 0 then (RC_EIO, tr)
          else
            let tr = tr @ [CheckIdleRc] in
            if re_idle_rc e = 0 then (RC_EIO, tr)
            else
              let tr = tr @ [SpiFast, ReadDevId, ConfigurePhy] in
              if re_configure e \<noteq> 0 then (RC_EIO, tr)
              else
                let tr = tr @ [ConfigCiaDiag, ConfigTxRf, SetTxAntennaDelay (cfg_ant_delay_tx cfg),
                  SetRxAntennaDelay (cfg_ant_delay_rx cfg), SetFineGrainTxSeq 0, SetLnaPaMode, InitInterrupt] in
                if re_interrupt e \<noteq> 0 then (re_interrupt e, tr) else (0, tr))"

section \<open>The start\<close>

text \<open>What \<open>main\<close> does that is seen outside it; the loops get the configuration.\<close>

datatype boot_act =
    BtRadio radio_call
  | BtCooperative
  | BtUplinkStart
  | BtCalRun uwb_config
  | BtGatewayRun uwb_config
  | BtSlaveRun uwb_config

record boot_state =
  bt_cfg :: uwb_config
  bt_net :: net_config
  bt_survey :: apos_survey

text \<open>The only \<open>settings_load\<close> runs the handlers of all three stores; its result is logged and ignored.\<close>

definition boot_load :: "errno option \<Rightarrow> errno option \<Rightarrow> (string \<times> u8 list) list \<Rightarrow> boot_state" where
  "boot_load subsys_rc load_rc ents =
     (let cfg = uwb_config_set_defaults; net = net_config_set_defaults in
      \<lparr>bt_cfg = snd (uwb_store_init subsys_rc load_rc ents cfg),
       bt_net = (if subsys_rc \<noteq> None then net else settings_load ''net'' net_settings_set ents net),
       bt_survey = (if subsys_rc \<noteq> None then survey_boot else settings_load ''apos'' apos_settings_set ents survey_boot)\<rparr>)"

definition boot_main ::
  "bool \<Rightarrow> errno option \<Rightarrow> errno option \<Rightarrow> (string \<times> u8 list) list \<Rightarrow> radio_env \<Rightarrow> int \<times> boot_act list \<times> boot_state" where
  "boot_main cal_mode subsys_rc load_rc ents e =
     (let s = boot_load subsys_rc load_rc ents; cfg = bt_cfg s;
          (ret, tr) = uwb_radio_init e cfg; acts = map BtRadio tr in
      if ret \<noteq> 0 then (ret, acts, s)
      else if cal_mode then (0, acts @ [BtCalRun cfg], s)
      else if cfg_mode cfg = UWB_MODE_GATEWAY then (0, acts @ [BtCooperative, BtUplinkStart, BtGatewayRun cfg], s)
      else (0, acts @ [BtSlaveRun cfg], s))"

section \<open>The order of the calls\<close>

text \<open>Every \<open>b\<close> comes after an \<open>a\<close>.\<close>

definition preceded :: "'a \<Rightarrow> 'a \<Rightarrow> 'a list \<Rightarrow> bool" where
  "preceded a b tr \<longleftrightarrow> b \<notin> set tr \<or> a \<in> set (takeWhile (\<lambda>x. x \<noteq> b) tr)"

text \<open>The calls that reach the registers through the driver's local data.\<close>

fun register_access :: "radio_call \<Rightarrow> bool" where
  "register_access HwInit = False"
| "register_access HwReset = False"
| "register_access (Msleep _) = False"
| "register_access Probe = False"
| "register_access Initialise = False"
| "register_access SpiFast = False"
| "register_access InitInterrupt = False"
| "register_access _ = True"

definition radio_order :: "radio_call list \<Rightarrow> bool" where
  "radio_order tr \<longleftrightarrow> preceded HwReset Probe tr \<and> preceded Probe Initialise tr \<and>
     (\<forall>c\<in>set tr. register_access c \<longrightarrow> preceded Initialise c tr) \<and> preceded CheckIdleRc SpiFast tr \<and>
     preceded ConfigurePhy ConfigCiaDiag tr \<and> preceded (SetFineGrainTxSeq 0) SetLnaPaMode tr"

definition radio_answers :: "radio_env \<Rightarrow> bool" where
  "radio_answers e \<longleftrightarrow> re_hw_init e = 0 \<and> re_probe e = 0 \<and> re_initialise e = 0 \<and> re_idle_rc e \<noteq> 0 \<and>
     re_configure e = 0 \<and> re_interrupt e = 0"

lemma radio_init_order: "radio_order (snd (uwb_radio_init e cfg))"
  by (simp add: uwb_radio_init_def radio_order_def preceded_def Let_def)

lemma radio_init_ok: "fst (uwb_radio_init e cfg) = 0 \<longleftrightarrow> radio_answers e"
  by (simp add: uwb_radio_init_def radio_answers_def Let_def)

lemma radio_init_delays:
  "radio_answers e \<Longrightarrow> {SetTxAntennaDelay (cfg_ant_delay_tx cfg), SetRxAntennaDelay (cfg_ant_delay_rx cfg)} \<subseteq> set (snd (uwb_radio_init e cfg))"
  "SetTxAntennaDelay t \<in> set (snd (uwb_radio_init e cfg)) \<Longrightarrow> t = cfg_ant_delay_tx cfg"
  "SetRxAntennaDelay t \<in> set (snd (uwb_radio_init e cfg)) \<Longrightarrow> t = cfg_ant_delay_rx cfg"
  by (auto simp: uwb_radio_init_def radio_answers_def Let_def split: if_splits)

text \<open>The loop \<open>main\<close> enters.\<close>

fun enters :: "boot_act \<Rightarrow> bool" where
  "enters (BtCalRun _) = True"
| "enters (BtGatewayRun _) = True"
| "enters (BtSlaveRun _) = True"
| "enters _ = False"

text \<open>C11: A board does what it was last told: after any session on the anchor console in which every command returned 0 or
  was malformed, the next start finds exactly the configuration the commands mean, programs the radio with
  its delays, in the order the driver asks for, and enters the loop of its mode, the gateway's only after the
  uplink has been started; a radio that does not come up leads to no loop, and no other thread is started.\<close>

theorem boots_as_told:
  assumes "delivers f ents" and "uwb_store_init None None ents uwb_config_set_defaults = (None, cfg)"
    and "shell_session (\<lambda>(sv, pad, c). anchor_shell sv pad c) cs (cfg, f) = (rcs, cfg', f')"
    and "\<forall>(sv, pad, c)\<in>set cs. settings_backend sv \<and> length pad = 3"
    and "\<forall>((sv, pad, c), rc)\<in>set (zip cs rcs). rc = None \<or> anchor_meaning c = None"
    and "delivers f' ents'" and "boot_main cal_mode None None ents' e = (ret, acts, s)"
  shows "let told = meanings anchor_meaning (map (\<lambda>(sv, pad, c). c) cs) cfg in
    bt_cfg s = told \<and> bt_survey s = settings_load ''apos'' apos_settings_set ents' survey_boot \<and> (ret = 0 \<longleftrightarrow> radio_answers e) \<and>
    (\<exists>tr. radio_order tr \<and>
      (\<forall>t. SetTxAntennaDelay t \<in> set tr \<longrightarrow> t = cfg_ant_delay_tx told) \<and>
      (\<forall>t. SetRxAntennaDelay t \<in> set tr \<longrightarrow> t = cfg_ant_delay_rx told) \<and>
      acts = map BtRadio tr @
        (if ret \<noteq> 0 then [] else if cal_mode then [BtCalRun told]
         else if cfg_mode told = UWB_MODE_GATEWAY then [BtCooperative, BtUplinkStart, BtGatewayRun told] else [BtSlaveRun told]) \<and>
      (ret = 0 \<longrightarrow> {SetTxAntennaDelay (cfg_ant_delay_tx told), SetRxAntennaDelay (cfg_ant_delay_rx told)} \<subseteq> set tr))"
proof -
  let ?told = "meanings anchor_meaning (map (\<lambda>(sv, pad, c). c) cs) cfg"
  have c: "cfg = anchor_on_flash f" using anchor_boot [OF assms(1)] assms(2) by simp
  then have "anchor_synced (cfg, f)" using anchor_on_flash_ok [OF assms(1)] by (simp add: anchor_synced_def)
  from anchor_session [OF assms(3-5) this] have t: "cfg' = ?told" "anchor_on_flash f' = cfg'" by (simp_all add: anchor_synced_def)
  obtain r tr where r: "uwb_radio_init e ?told = (r, tr)" by fastforce
  have b: "bt_cfg s = ?told" "bt_survey s = settings_load ''apos'' apos_settings_set ents' survey_boot" "ret = r"
    "acts = map BtRadio tr @ (if ret \<noteq> 0 then [] else if cal_mode then [BtCalRun ?told]
       else if cfg_mode ?told = UWB_MODE_GATEWAY then [BtCooperative, BtUplinkStart, BtGatewayRun ?told] else [BtSlaveRun ?told])"
    using assms(7) anchor_boot [OF assms(6)] t r by (auto simp: boot_main_def boot_load_def Let_def split: if_splits)
  then show ?thesis
    using radio_init_order [of e ?told] radio_init_ok [of e ?told] radio_init_delays(1) [of e ?told]
      radio_init_delays(2,3) [of _ e ?told] r by (auto simp: Let_def)
qed

lemma boots_as_told_witness:
  "\<exists>acts s. boot_main False None None [(''anchor/id'', [3]), (''anchor/mode'', [1])]
       \<lparr>re_hw_init = 0, re_probe = 0, re_initialise = 0, re_idle_rc = 1, re_configure = 0, re_interrupt = 0\<rparr> = (0, acts, s) \<and>
     bt_cfg s = uwb_config_set_defaults\<lparr>cfg_anchor_id := 3, cfg_mode := 1\<rparr> \<and> last acts = BtGatewayRun (bt_cfg s)"
proof -
  let ?e = "\<lparr>re_hw_init = 0, re_probe = 0, re_initialise = 0, re_idle_rc = 1, re_configure = 0, re_interrupt = 0\<rparr>"
  let ?ents = "[(''anchor/id'', [3]), (''anchor/mode'', [1 :: u8])]"
  obtain ret acts s where b: "boot_main False None None ?ents ?e = (ret, acts, s)" by (rule prod_cases3)
  from boots_as_told [OF sample_flashes(1,3) sample_session(1-3) sample_flashes(2) b] b show ?thesis
    by (auto simp: sample_session(4) radio_answers_def Let_def)
qed

end
