(* ===== verification/Spec2Isabelle.thy ===== *)
theory Spec2Isabelle
  imports GwCore UwbFrame AposFrame AposGeomProps AposTable CalMath UwbSlave NetStore AposStore AposGwProps UwbGateway
    CalRun Console SurveyShell CalShell Boot
begin

text \<open>
  A verification library for the firmware of the UWB anchors and gateway (src/src). One board
  image serves several roles. A SLAVE anchor answers the ranging polls of tags and the DISCOVERY
  broadcasts and keeps its replies away from the gateway's beacons; a GATEWAY owns the superframe,
  seats tags and publishes positions; an anchor can also take part in a survey, in which the
  anchors range each other and the gateway solves for their positions.

  The parts, in the order of the imports, with the theory that models each:

  \<^item> \<^verbatim>\<open>Prelude\<close>: types of the C integers, lists updated by index, and the error results.
    \<^verbatim>\<open>ByteFields\<close>: the little-endian accessors of both frame modules. \<^verbatim>\<open>FrameCodec\<close>: the
    interface \<open>built over the air = parsed\<close> as a locale, interpreted for every message.
  \<^item> \<^verbatim>\<open>UwbFrame\<close> (uwb_frame_802_15_4z.c): the frames of the network, builders, validators, parsers.
    \<^verbatim>\<open>AposFrame\<close> (apos_frame.c): the seven survey messages.
  \<^item> \<^verbatim>\<open>GwCore\<close> (gw_core.c): the gateway's seat table; it refines a lease map.
  \<^item> \<^verbatim>\<open>BeaconGuard\<close> (beacon_guard.c): the prediction of beacons on the wrapping 32-bit clock.
  \<^item> \<^verbatim>\<open>DevConfig\<close> (uwb_config.c, net_config.c), \<^verbatim>\<open>RadioTime\<close> (uwb_dwtime.c, disc_schedule.c,
    tag_id.c), \<^verbatim>\<open>CalMath\<close> (cal_math.c, cal_solve.c).
  \<^item> \<^verbatim>\<open>Float32\<close>: binary32 arithmetic on bit patterns with round to nearest even, as the FPU does it.
    \<^verbatim>\<open>AposTable\<close> (apos_table.c): peers and directed measurements. \<^verbatim>\<open>AposGeom\<close> and
    \<^verbatim>\<open>AposGeomProps\<close> (apos_geom.c): seed, Levenberg-Marquardt refinement, diagnostics.
  \<^item> \<^verbatim>\<open>SsInitiator\<close> (ss_initiator.c), \<^verbatim>\<open>AnchorRespond\<close> (anchor_respond.c): the two sides of a
    single-sided two-way exchange.
  \<^item> \<^verbatim>\<open>Settings\<close>, \<^verbatim>\<open>UwbStore\<close> (uwb_store.c), \<^verbatim>\<open>NetStore\<close> (net_store.c), \<^verbatim>\<open>AposStore\<close>
    (apos_store.c): what is kept in flash, over a settings back end that is a parameter.
  \<^item> \<^verbatim>\<open>AposNode\<close> (apos_node.c): the survey on the anchor's side. \<^verbatim>\<open>UwbSlave\<close> (uwb_slave.c): the
    slave's loop, with the hand-over of receive events as an interleaving of memory accesses.
  \<^item> \<^verbatim>\<open>AposGw\<close> (apos_gw.c): the survey on the gateway's side, a step machine; \<^verbatim>\<open>AposGwProps\<close> its
    properties in every reachable state, \<^verbatim>\<open>AposSurvey\<close> what a finished survey stores and pushes, with the
    exchange of a SETPOS between gateway and anchor.
  \<^item> \<^verbatim>\<open>FloatText\<close>: the decimal text \<open>printf\<close> gives a float. \<^verbatim>\<open>PosJson\<close> (pos_json.c): the two published
    documents. \<^verbatim>\<open>Uplink\<close> (pos_sink.c, net_uplink.c): the fix queue and the thread that keeps the broker
    connection, as a step function over its control points. The queue is the locale \<open>msgq\<close>.
  \<^item> \<^verbatim>\<open>UwbGateway\<close> (uwb_gateway.c): the gateway's loop, over \<^verbatim>\<open>GwCore\<close>, \<^verbatim>\<open>AposGw\<close> and the sink.

  \<^item> \<^verbatim>\<open>CalRun\<close> (cal_run.c): the calibration image, a batch as a function of its exchanges and the
    hand-over between the console and the main thread as two step relations over the shared variables.
  \<^item> \<^verbatim>\<open>CArgs\<close>: the conversions of the C library on console arguments. \<^verbatim>\<open>Console\<close> (anchor_shell.c,
    net_shell.c), \<^verbatim>\<open>SurveyShell\<close> (apos_shell.c), \<^verbatim>\<open>CalShell\<close> (cal_shell.c): the console commands. The two
    configuration consoles satisfy one contract, the locale \<open>config_shell\<close>: a command that returns 0 has
    done what it means, in RAM and on flash, and a malformed one nothing.
  \<^item> \<^verbatim>\<open>Boot\<close> (main.c, uwb_radio.c): the order of the start and of the calls into the driver.

  Names: a definition has the name of the C function or type; a suffix is added where HOL has the
  name. A C struct is a record, module statics are a record passed through, an enum is a
  datatype or the numbers the code uses. Fixed-width integers are words (\<open>u8\<close> to \<open>u64\<close>) where the
  code's wrap-around is the meaning, and naturals or integers with a bound proved where the code
  cannot wrap. An output pointer is a result; a NULL pointer is \<open>None\<close>; a negative errno is the left
  side of a sum. Arithmetic that C leaves undefined is \<open>None\<close>.

  The environment is an argument: what the driver, the kernel clock, the settings back end and the
  maths library answer. A loop that waits on the radio takes the stream of answers. Kernel objects that
  callers only use through their documented laws (the message queue) are arguments with those laws as a
  locale. Floating-point arithmetic rounds after each operation: the build does not contract products and
  sums into fused operations.

  Bounds and fuel: the refinement loop and the seed loop of the solver run on the code's own
  iteration limits (200 iterations; one pass per node), so their fuel is exactly the code's bound.
  The wait on the status register is a partial function, and its return is proved from the clock
  passing the deadline. A survey needs at most 1372 due steps to range (24 to enumerate, 60 to apply), the
  bound \<open>gw_work\<close> of \<^verbatim>\<open>AposGwProps\<close>. The uplink thread runs forever: it is a step function, and its
  properties are over all runs. All other loops are structural.

  The lemmas: each component has the laws of its operations (every branch, errors included), an
  invariant where it keeps state, and a few properties, each with a concrete instance where it has
  hypotheses. The properties that span components stand below or in the theory of the outermost
  component.

  Not modelled: log and console text, with the show commands of the consoles, which only format it; the
  physical-layer constants; the vendored DW3000 driver and its port, of which the models take the results
  as arguments, since its source is the maker's and not this firmware's; Zephyr itself. In the
  calibration image the receive callbacks are those of the slave's loop and are proved there.
\<close>

section \<open>From the seat table to the tag\<close>

text \<open>C19: a tag finds its own slot over the air: the beacon the gateway builds from its seat table,
  sent and received with anything behind it, gives every tag that holds a seat the slot of its
  seat, and only a tag whose address is in the table finds one.\<close>

theorem beacon_tells_slot:
  assumes "list_all gw_event_ok es" and "leases (gw_run es) e = Some (a, i, t, l)"
    and "cap \<le> length b"
    and "uwb_frame_beacon_build (Some b) cap ctr (Some (gw_core_build_slotmap (gw_run es))) 11 = (Inr n, Some f)"
  shows "\<exists>ver sm k. uwb_frame_parse_beacon (Some (take n (uwb_frame_set_seq_num f sq) @ junk)) n
        = Inr (ver, ctr, sm, k) \<and>
      uwb_frame_beacon_find_addr (Some sm) k a = Some i \<and>
      (\<forall>c j. c \<noteq> UWB_FRAME_ADDR_BCAST \<longrightarrow> uwb_frame_beacon_find_addr (Some sm) k c = Some j \<longrightarrow>
         c \<in> lease_addrs (leases (gw_run es)))"
proof -
  let ?c = "gw_run es"
  have inv: "gw_inv ?c" by (rule gw_run_inv [OF assms(1)])
  have len: "length (gw_core_build_slotmap ?c) = 11" by (rule gw.slotmap_len [OF inv])
  have "uwb_frame_parse_beacon (Some (take n (uwb_frame_set_seq_num f sq) @ junk)) n =
      Inr (UWB_PROTO_VER, ctr, gw_core_build_slotmap ?c, 11)"
    using beacon.received [where m = "(ctr, gw_core_build_slotmap ?c)" and cap = cap and b = b and n = n
        and f = f and s = sq] assms(3,4) len
    by (simp add: uwb_frame_set_seq_num_def)
  moreover have "c \<in> lease_addrs (leases ?c)"
    if "c \<noteq> UWB_FRAME_ADDR_BCAST" "uwb_frame_beacon_find_addr (Some (gw_core_build_slotmap ?c)) 11 c = Some j"
    for c j
    using gw.slotmap_nth [OF inv, of j c] that len by (auto simp: beacon_find_addr_iff lease_addrs_def)
  ultimately show ?thesis using gw.find_own_slot [OF inv assms(2)] by blast
qed

lemma beacon_tells_slot_witness:
  "\<exists>ver sm k. uwb_frame_parse_beacon (Some (take 37 (uwb_frame_set_seq_num (the (snd (uwb_frame_beacon_build
        (Some (replicate 64 0)) 64 5 (Some (gw_core_build_slotmap
          (gw_run [GwJoin [1, 2, 3, 4, 5, 6, 7, 8] 2]))) 11))) 3) @ [7])) 37 = Inr (ver, 5, sm, k) \<and>
      uwb_frame_beacon_find_addr (Some sm) k 256 = Some 0"
proof -
  let ?es = "[GwJoin [1, 2, 3, 4, 5, 6, 7, 8] 2]"
  have "uwb_frame_beacon_build (Some (replicate 64 0)) 64 5 (Some (gw_core_build_slotmap (gw_run ?es))) 11 =
      (Inr 37, Some (the (snd (uwb_frame_beacon_build (Some (replicate 64 0)) 64 5
        (Some (gw_core_build_slotmap (gw_run ?es))) 11))))"
    by (simp add: uwb_frame_beacon_build_def write_hdr_def Let_def)
  moreover have "list_all gw_event_ok ?es" "64 \<le> length (replicate 64 (0 :: u8))" by simp_all
  ultimately show ?thesis
    using beacon_tells_slot [OF _ one_join, of 64 "replicate 64 0" 5 37 _ 3 "[7]"] by blast
qed

section \<open>Two protocols on one channel\<close>

lemma poll_ref_type: "take 7 (drop 3 rx_poll_ref) ! 6 \<noteq> 0xEB"
  by (simp add: rx_poll_ref_def)

text \<open>Survey traffic and network traffic cannot be confused: no payload is accepted both as an
  APOS frame and by one of the nine validators of the network's frames, and the WAVE poll filter
  accepts no APOS frame either.\<close>

theorem apos_and_uwb_disjoint:
  assumes "apos_frame_is_apos (Some buf) n" and "n \<le> length buf"
  shows "(\<forall>v\<in>set uwb_frame_validators. \<not> v (Some buf) n) \<and> \<not> wave_for_us cfg buf n"
proof
  have t: "buf ! 9 = 0xEB" "11 \<le> n"
    using assms(1) by (auto simp: apos_frame_is_apos_def split: if_splits)
  show "\<forall>v\<in>set uwb_frame_validators. \<not> v (Some buf) n"
    using t by (auto simp: uwb_frame_validators_def validator_defs Let_def)
  have "take 7 (drop 3 buf) ! 6 = buf ! 9" using t(2) assms(2) by simp
  then have "take 7 (drop 3 buf) \<noteq> take 7 (drop 3 rx_poll_ref)"
    using t(1) by (metis (no_types, lifting) poll_ref_type)
  then show "\<not> wave_for_us cfg buf n" by (simp add: wave_for_us_def)
qed

lemma apos_and_uwb_disjoint_witness:
  "\<not> wave_for_us uwb_config_set_defaults [0x41, 0x88, 0, 0xCA, 0xDE, 0xFF, 0xFF, 0, 0, 0xEB, 7, 1, 0] 13"
  using apos_and_uwb_disjoint [of "[0x41, 0x88, 0, 0xCA, 0xDE, 0xFF, 0xFF, 0, 0, 0xEB, 7, 1, 0]" 13]
  by (simp add: apos_frame_is_apos_def known_subtype_def)

end
